(* ===== verification/Go_Prelude.thy ===== *)
theory Go_Prelude
  imports Main "HOL-Library.AList" "HOL-Library.Char_ord" "HOL-Library.List_Lexorder"
begin

section \<open>Prelude: the fragment of Go the program uses\<close>

text \<open>
  What every component of the development shares: outcomes of Go functions that may
  return an error or panic, Go maps, byte strings with the functions of the packages
  \<open>strings\<close> and \<open>strconv\<close> that the code calls, and fixed-width integers.

  A Go map is an association list with distinct keys. The position of an entry stands for
  the place at which a \<open>range\<close> loop visits it: Go leaves that order unspecified, and every
  theorem is about all association lists, so about all visiting orders. A nil map reads
  like an empty one and is modelled by the empty list.

  A Go string is a sequence of bytes: a list of \<open>char\<close>.
\<close>

named_theorems gomap_simps "lookups in updated Go maps"
named_theorems gostr_simps "evaluation of the string functions"

subsection \<open>Outcomes\<close>

text \<open>A call returns a value, returns an error, or panics.\<close>

datatype ('e, 'a) outcome = Done 'a | Error 'e | Panic string

fun is_panic :: "('e, 'a) outcome \<Rightarrow> bool" where
  "is_panic (Panic _) = True"
| "is_panic _ = False"

fun outcome_bind :: "('e, 'a) outcome \<Rightarrow> ('a \<Rightarrow> ('e, 'b) outcome) \<Rightarrow> ('e, 'b) outcome" where
  "outcome_bind (Done x) f = f x"
| "outcome_bind (Error e) f = Error e"
| "outcome_bind (Panic m) f = Panic m"

lemma outcome_bind_eq_Done:
  "outcome_bind r f = Done y \<longleftrightarrow> (\<exists>x. r = Done x \<and> f x = Done y)"
  by (cases r) auto

subsection \<open>Go maps\<close>

type_synonym ('k, 'v) gomap = "('k \<times> 'v) list"

definition gm_wf :: "('k, 'v) gomap \<Rightarrow> bool" where
  "gm_wf m \<longleftrightarrow> distinct (map fst m)"

abbreviation gm_lookup :: "('k, 'v) gomap \<Rightarrow> 'k \<Rightarrow> 'v option" where
  "gm_lookup m k \<equiv> map_of m k"

text \<open>Indexing a map at a missing key yields the zero value of its element type.\<close>

definition gm_get :: "'v \<Rightarrow> ('k, 'v) gomap \<Rightarrow> 'k \<Rightarrow> 'v" where
  "gm_get z m k = (case gm_lookup m k of None \<Rightarrow> z | Some v \<Rightarrow> v)"

definition gm_put :: "'k \<Rightarrow> 'v \<Rightarrow> ('k, 'v) gomap \<Rightarrow> ('k, 'v) gomap" where
  "gm_put k v m = AList.update k v m"

definition gm_del :: "'k \<Rightarrow> ('k, 'v) gomap \<Rightarrow> ('k, 'v) gomap" where
  "gm_del k m = AList.delete k m"

definition gm_has :: "('k, 'v) gomap \<Rightarrow> 'k \<Rightarrow> bool" where
  "gm_has m k \<longleftrightarrow> gm_lookup m k \<noteq> None"

definition gm_keys :: "('k, 'v) gomap \<Rightarrow> 'k list" where
  "gm_keys m = map fst m"

lemma gm_lookup_put [simp, gomap_simps]: "gm_lookup (gm_put k v m) = (gm_lookup m)(k \<mapsto> v)"
  by (simp add: gm_put_def update_conv' fun_eq_iff)

lemma gm_lookup_del [simp, gomap_simps]: "gm_lookup (gm_del k m) = (gm_lookup m)(k := None)"
  by (simp add: gm_del_def delete_conv' fun_eq_iff)

lemma gm_wf_put [simp, intro]: "gm_wf m \<Longrightarrow> gm_wf (gm_put k v m)"
  by (simp add: gm_wf_def gm_put_def distinct_update)

lemma gm_wf_del [simp, intro]: "gm_wf m \<Longrightarrow> gm_wf (gm_del k m)"
  by (simp add: gm_wf_def gm_del_def distinct_delete)

lemma gm_wf_Nil [simp]: "gm_wf []"
  by (simp add: gm_wf_def)

lemma gm_has_put [simp, gomap_simps]: "gm_has (gm_put k v m) j \<longleftrightarrow> j = k \<or> gm_has m j"
  by (simp add: gm_has_def)

lemma gm_has_del [simp, gomap_simps]: "gm_has (gm_del k m) j \<longleftrightarrow> j \<noteq> k \<and> gm_has m j"
  by (simp add: gm_has_def)

lemma gm_has_Nil [simp]: "\<not> gm_has [] k"
  by (simp add: gm_has_def)

lemma gm_has_keys: "gm_has m k \<longleftrightarrow> k \<in> set (gm_keys m)"
  by (simp add: gm_has_def gm_keys_def map_of_eq_None_iff)

lemma gm_get_put [simp, gomap_simps]:
  "gm_get z (gm_put k v m) j = (if j = k then v else gm_get z m j)"
  by (simp add: gm_get_def)

lemma gm_get_del [simp, gomap_simps]:
  "gm_get z (gm_del k m) j = (if j = k then z else gm_get z m j)"
  by (simp add: gm_get_def)

lemma gm_wf_in_set: "gm_wf m \<Longrightarrow> (k, v) \<in> set m \<longleftrightarrow> gm_lookup m k = Some v"
  by (auto simp: gm_wf_def)

lemma gm_lookup_in_set: "gm_lookup m k = Some v \<Longrightarrow> (k, v) \<in> set m"
  by (rule map_of_SomeD)

lemma gm_wf_Cons [simp]: "gm_wf ((k, v) # m) \<longleftrightarrow> \<not> gm_has m k \<and> gm_wf m"
  by (auto simp: gm_wf_def gm_has_keys gm_keys_def)

text \<open>Filling a map by a loop over a list of keys: \<open>for x := range xs { m[k(x)] = v(x) }\<close>.\<close>

definition gm_fill :: "('k \<times> 'v) list \<Rightarrow> ('k, 'v) gomap \<Rightarrow> ('k, 'v) gomap" where
  "gm_fill kvs m = foldl (\<lambda>m (k, v). gm_put k v m) m kvs"

lemma gm_fill_simps [simp]:
  "gm_fill [] m = m"
  "gm_fill ((k, v) # kvs) m = gm_fill kvs (gm_put k v m)"
  by (simp_all add: gm_fill_def)

lemma gm_wf_fill [simp, intro]: "gm_wf m \<Longrightarrow> gm_wf (gm_fill kvs m)"
  by (induction kvs arbitrary: m) auto

lemma gm_has_fill: "gm_has (gm_fill kvs m) k \<longleftrightarrow> k \<in> fst ` set kvs \<or> gm_has m k"
  by (induction kvs arbitrary: m) force+

lemma gm_lookup_fill: "gm_lookup (gm_fill kvs m) k = (gm_lookup m ++ map_of (rev kvs)) k"
  by (induction kvs arbitrary: m) (auto simp: map_add_def split: option.splits)

text \<open>The first element of a list that satisfies a condition.\<close>

lemma find_SomeD: "List.find P xs = Some x \<Longrightarrow> x \<in> set xs \<and> P x"
  by (auto simp: find_Some_iff)

lemma find_SomeI: "x \<in> set xs \<Longrightarrow> P x \<Longrightarrow> \<exists>y. List.find P xs = Some y"
  by (metis find_None_iff not_None_eq)

lemma find_filter:
  "List.find P xs = Some x \<Longrightarrow> Q x \<Longrightarrow> List.find P (filter Q xs) = Some x"
  by (induction xs) (auto split: if_splits)

lemma find_map: "List.find P (map f xs) = map_option f (List.find (\<lambda>x. P (f x)) xs)"
  by (induction xs) auto

lemma find_cong_set: "(\<And>x. x \<in> set xs \<Longrightarrow> P x = Q x) \<Longrightarrow> List.find P xs = List.find Q xs"
  by (induction xs) auto

text \<open>Counting the elements of a list that satisfy a condition, under an indexed update.\<close>

definition count_if :: "('a \<Rightarrow> bool) \<Rightarrow> 'a list \<Rightarrow> int" where
  "count_if P xs = int (length (filter P xs))"

lemma count_if_simps [simp]:
  "count_if P [] = 0"
  "count_if P (x # xs) = of_bool (P x) + count_if P xs"
  "count_if P (xs @ ys) = count_if P xs + count_if P ys"
  by (simp_all add: count_if_def)

lemma count_if_nonneg [simp]: "0 \<le> count_if P xs"
  by (simp add: count_if_def)

lemma count_if_update:
  "i < length xs \<Longrightarrow> count_if P (xs[i := y]) = count_if P xs - of_bool (P (xs ! i)) + of_bool (P y)"
  by (induction xs arbitrary: i) (auto simp: nth_Cons split: nat.splits)

lemma count_if_pos: "x \<in> set xs \<Longrightarrow> P x \<Longrightarrow> 0 < count_if P xs"
  by (auto simp: count_if_def filter_empty_conv)

lemma count_if_zero: "count_if P xs = 0 \<Longrightarrow> x \<in> set xs \<Longrightarrow> \<not> P x"
  using count_if_pos by fastforce

subsection \<open>Strings\<close>

definition has_prefix :: "string \<Rightarrow> string \<Rightarrow> bool" where
  "has_prefix s p \<longleftrightarrow> take (length p) s = p"

definition trim_prefix :: "string \<Rightarrow> string \<Rightarrow> string" where
  "trim_prefix s p = (if has_prefix s p then drop (length p) s else s)"

lemma has_prefix_append [simp]: "has_prefix (p @ s) p"
  by (simp add: has_prefix_def)

lemma trim_prefix_append [simp]: "trim_prefix (p @ s) p = s"
  by (simp add: trim_prefix_def)

lemma has_prefixE: "has_prefix s p \<Longrightarrow> s = p @ trim_prefix s p"
  by (metis append_take_drop_id has_prefix_def trim_prefix_def)

lemma has_prefix_Nil [simp]: "has_prefix s []"
  by (simp add: has_prefix_def)

text \<open>\<open>strings.Cut\<close> and \<open>strings.SplitN(_, _, 2)\<close> at a one-byte separator.\<close>

definition str_cut :: "char \<Rightarrow> string \<Rightarrow> string \<times> string \<times> bool" where
  "str_cut c s =
     (if c \<in> set s then (takeWhile (\<lambda>x. x \<noteq> c) s, drop 1 (dropWhile (\<lambda>x. x \<noteq> c) s), True)
      else (s, [], False))"

definition str_split_n2 :: "char \<Rightarrow> string \<Rightarrow> string list" where
  "str_split_n2 c s = (case str_cut c s of (a, b, found) \<Rightarrow> if found then [a, b] else [a])"

lemma str_cut_append: "c \<notin> set a \<Longrightarrow> str_cut c (a @ c # b) = (a, b, True)"
proof -
  assume "c \<notin> set a"
  then have "\<And>x. x \<in> set a \<Longrightarrow> x \<noteq> c" by auto
  then show ?thesis
    by (simp add: str_cut_def)
qed

lemma str_cut_none: "c \<notin> set s \<Longrightarrow> str_cut c s = (s, [], False)"
  by (simp add: str_cut_def)

lemma str_cut_found:
  assumes "str_cut c s = (a, b, True)"
  shows "s = a @ c # b \<and> c \<notin> set a"
proof -
  from assms have c: "c \<in> set s"
    and a: "a = takeWhile (\<lambda>x. x \<noteq> c) s" and b: "b = drop 1 (dropWhile (\<lambda>x. x \<noteq> c) s)"
    by (auto simp: str_cut_def split: if_splits)
  from c have ne: "dropWhile (\<lambda>x. x \<noteq> c) s \<noteq> []"
    by simp
  then have "hd (dropWhile (\<lambda>x. x \<noteq> c) s) = c"
    using hd_dropWhile by blast
  with ne b have "dropWhile (\<lambda>x. x \<noteq> c) s = c # b"
    by (metis One_nat_def drop0 drop_Suc_Cons list.exhaust_sel)
  with a show ?thesis
    by (metis (mono_tags, lifting) set_takeWhileD takeWhile_dropWhile_id)
qed

text \<open>\<open>strings.Split\<close> at a one-byte separator and \<open>strings.Join\<close>.\<close>

fun str_split :: "char \<Rightarrow> string \<Rightarrow> string list" where
  "str_split c [] = [[]]"
| "str_split c (x # xs) =
     (if x = c then [] # str_split c xs
      else (case str_split c xs of [] \<Rightarrow> [[x]] | y # ys \<Rightarrow> (x # y) # ys))"

fun str_join :: "string \<Rightarrow> string list \<Rightarrow> string" where
  "str_join sep [] = []"
| "str_join sep [x] = x"
| "str_join sep (x # y # ys) = x @ sep @ str_join sep (y # ys)"

lemma str_split_not_Nil [simp]: "str_split c s \<noteq> []"
  by (induction s) (auto split: list.splits)

lemma str_join_split: "str_join [c] (str_split c s) = s"
proof (induction s)
  case (Cons x xs)
  obtain y ys where "str_split c xs = y # ys"
    by (metis neq_Nil_conv str_split_not_Nil)
  with Cons show ?case by (cases ys) auto
qed simp

lemma str_split_no_sep: "c \<notin> set s \<Longrightarrow> str_split c s = [s]"
  by (induction s) auto

lemma str_split_append: "c \<notin> set a \<Longrightarrow> str_split c (a @ c # b) = a # str_split c b"
  by (induction a) auto

lemma str_split_parts: "p \<in> set (str_split c s) \<Longrightarrow> c \<notin> set p"
proof (induction s arbitrary: p)
  case (Cons x xs)
  obtain y ys where "str_split c xs = y # ys"
    by (metis neq_Nil_conv str_split_not_Nil)
  with Cons show ?case by (auto split: if_splits)
qed simp

lemma str_split_pair: "str_split c s = [a, b] \<longleftrightarrow> s = a @ c # b \<and> c \<notin> set a \<and> c \<notin> set b"
proof
  assume sp: "str_split c s = [a, b]"
  have "s = a @ c # b" using str_join_split [of c s] by (simp add: sp)
  moreover have "c \<notin> set a" "c \<notin> set b"
    using str_split_parts [of _ c s] by (simp_all add: sp)
  ultimately show "s = a @ c # b \<and> c \<notin> set a \<and> c \<notin> set b" by simp
qed (simp add: str_split_append str_split_no_sep)

text \<open>\<open>strings.ReplaceAll\<close> of one byte by another and \<open>strings.ToLower\<close> on ASCII.\<close>

definition str_replace :: "char \<Rightarrow> char \<Rightarrow> string \<Rightarrow> string" where
  "str_replace c d s = map (\<lambda>x. if x = c then d else x) s"

definition char_lower :: "char \<Rightarrow> char" where
  "char_lower c =
     (let n = of_char c :: nat in if 65 \<le> n \<and> n \<le> 90 then char_of (n + 32) else c)"

definition str_lower :: "string \<Rightarrow> string" where
  "str_lower s = map char_lower s"

lemma str_replace_notin: "c \<noteq> d \<Longrightarrow> c \<notin> set (str_replace c d s)"
  by (auto simp: str_replace_def)

lemma str_replace_id: "c \<notin> set s \<Longrightarrow> str_replace c d s = s"
  by (induction s) (auto simp: str_replace_def)

subsection \<open>Decimal numerals\<close>

definition digit_char :: "nat \<Rightarrow> char" where
  "digit_char n = char_of (48 + n)"

definition is_digit :: "char \<Rightarrow> bool" where
  "is_digit c \<longleftrightarrow> 48 \<le> (of_char c :: nat) \<and> (of_char c :: nat) \<le> 57"

definition digit_val :: "char \<Rightarrow> nat" where
  "digit_val c = of_char c - 48"

fun nat_str :: "nat \<Rightarrow> string" where
  "nat_str n = (if n < 10 then [digit_char n] else nat_str (n div 10) @ [digit_char (n mod 10)])"

declare nat_str.simps [simp del]

definition int_str :: "int \<Rightarrow> string" where
  "int_str i = (if i < 0 then CHR ''-'' # nat_str (nat (- i)) else nat_str (nat i))"

definition digits_val :: "string \<Rightarrow> nat" where
  "digits_val s = foldl (\<lambda>n c. 10 * n + digit_val c) 0 s"

lemma of_char_digit_char: "n < 10 \<Longrightarrow> (of_char (digit_char n) :: nat) = 48 + n"
  by (simp add: digit_char_def)

lemma is_digit_digit_char [simp]: "n < 10 \<Longrightarrow> is_digit (digit_char n)"
  by (simp add: is_digit_def of_char_digit_char)

lemma digit_val_digit_char [simp]: "n < 10 \<Longrightarrow> digit_val (digit_char n) = n"
  by (simp add: digit_val_def of_char_digit_char)

lemma nat_str_not_Nil [simp]: "nat_str n \<noteq> []"
  by (subst nat_str.simps) simp

lemma nat_str_digits: "c \<in> set (nat_str n) \<Longrightarrow> is_digit c"
proof (induction n rule: nat_str.induct)
  case (1 n)
  then show ?case by (subst (asm) nat_str.simps) (auto split: if_splits)
qed

lemma digits_val_nat_str [simp]: "digits_val (nat_str n) = n"
proof (induction n rule: nat_str.induct)
  case (1 n)
  show ?case
  proof (cases "n < 10")
    case True
    then show ?thesis by (subst nat_str.simps) (simp add: digits_val_def)
  next
    case False
    have "digits_val (nat_str n) = 10 * digits_val (nat_str (n div 10)) + n mod 10"
      using False by (subst nat_str.simps) (simp add: digits_val_def)
    then show ?thesis using "1.IH" [OF False] by simp
  qed
qed

lemma nat_str_inject [simp]: "nat_str m = nat_str n \<longleftrightarrow> m = n"
  by (metis digits_val_nat_str)

subsection \<open>Fixed-width integers\<close>

text \<open>
  \<open>int32\<close> and \<open>int64\<close> are integers in range; arithmetic wraps with \<open>wrap32\<close> and
  \<open>wrap64\<close>. Go's \<open>int\<close> is 64 bits wide.
\<close>

definition wrap32 :: "int \<Rightarrow> int" where
  "wrap32 x = signed_take_bit 31 x"

definition wrap64 :: "int \<Rightarrow> int" where
  "wrap64 x = signed_take_bit 63 x"

definition in_int32 :: "int \<Rightarrow> bool" where
  "in_int32 x \<longleftrightarrow> - 2147483648 \<le> x \<and> x \<le> 2147483647"

definition in_int64 :: "int \<Rightarrow> bool" where
  "in_int64 x \<longleftrightarrow> - 9223372036854775808 \<le> x \<and> x \<le> 9223372036854775807"

lemma wrap32_id: "in_int32 x \<Longrightarrow> wrap32 x = x"
  by (simp add: wrap32_def in_int32_def signed_take_bit_int_eq_self)

lemma wrap64_id: "in_int64 x \<Longrightarrow> wrap64 x = x"
  by (simp add: wrap64_def in_int64_def signed_take_bit_int_eq_self)

lemma in_int32_wrap32: "in_int32 (wrap32 x)"
  using signed_take_bit_int_less_exp [of 31 x] signed_take_bit_int_greater_eq_minus_exp [of 31 x]
  by (simp add: in_int32_def wrap32_def)

lemma in_int64_wrap64: "in_int64 (wrap64 x)"
  using signed_take_bit_int_less_exp [of 63 x] signed_take_bit_int_greater_eq_minus_exp [of 63 x]
  by (simp add: in_int64_def wrap64_def)

text \<open>\<open>strconv.Atoi\<close>: an optional sign, decimal digits only, in the range of \<open>int\<close>.\<close>

definition atoi :: "string \<Rightarrow> int option" where
  "atoi s =
     (let neg = (s \<noteq> [] \<and> hd s = CHR ''-'');
          ds = (if s \<noteq> [] \<and> (hd s = CHR ''-'' \<or> hd s = CHR ''+'') then tl s else s);
          v = (if neg then - int (digits_val ds) else int (digits_val ds))
      in if ds = [] \<or> \<not> list_all is_digit ds \<or> \<not> in_int64 v then None else Some v)"

lemma is_digit_sign [simp]: "\<not> is_digit (CHR ''-'')" "\<not> is_digit (CHR ''+'')"
  by (simp_all add: is_digit_def)

lemma atoi_int_str: "in_int64 i \<Longrightarrow> atoi (int_str i) = Some i"
proof -
  assume i: "in_int64 i"
  have sign: "\<And>n. hd (nat_str n) \<noteq> CHR ''-'' \<and> hd (nat_str n) \<noteq> CHR ''+''"
    by (metis is_digit_sign nat_str_digits hd_in_set nat_str_not_Nil)
  have dig: "\<And>n. list_all is_digit (nat_str n)"
    by (simp add: list_all_iff nat_str_digits)
  show ?thesis
    using i sign dig by (auto simp: atoi_def int_str_def Let_def)
qed

end
