(* ===== verification/Float64.thy ===== *)
theory Float64
  imports Complex_Main Go_Prelude "HOL-Library.Log_Nat"
begin

section \<open>IEEE 754 binary64 arithmetic\<close>

text \<open>
  Go's \<open>float64\<close> on the values the program computes with: finite numbers, as rationals.
  Each operation is the exact result rounded to the nearest representable number, ties to
  even: 53 significant bits, and no finer than \<open>2 powi (-1074)\<close> (the subnormals).

  The program divides request counts (64-bit integers), percentages and durations, so no
  result comes near \<open>2 ^ 1024\<close> and overflow to an infinity does not arise. Division by
  zero, the other source of non-finite values, is excluded where it is used.
\<close>

subsection \<open>Binary exponents\<close>

abbreviation p2 :: "int \<Rightarrow> rat" where
  "p2 e \<equiv> 2 powi e"

lemma p2_pos [simp]: "0 < p2 e"
  by simp

lemma p2_add: "p2 (a + b) = p2 a * p2 b"
  by (simp add: power_int_add)

lemma p2_mono: "a \<le> b \<Longrightarrow> p2 a \<le> p2 b"
  by (simp add: power_int_increasing)

lemma p2_less: "p2 a < p2 b \<Longrightarrow> a < b"
  by (meson not_le p2_mono)

lemma p2_nonneg_int: "0 \<le> e \<Longrightarrow> p2 e = of_int (2 ^ nat e)"
  by (simp add: power_int_nonneg_exp)

lemma p2_div: "p2 a / p2 b = p2 (a - b)"
  by (simp add: power_int_diff)

definition ilog2 :: "rat \<Rightarrow> int" where
  "ilog2 x =
     (if 1 \<le> x then int (floorlog 2 (nat \<lfloor>x\<rfloor>)) - 1
      else - int (floorlog 2 (nat (\<lceil>1 / x\<rceil> - 1))))"

lemma ilog2_ge1:
  assumes "1 \<le> x"
  shows "p2 (ilog2 x) \<le> x \<and> x < p2 (ilog2 x + 1)"
proof -
  let ?n = "nat \<lfloor>x\<rfloor>" let ?k = "floorlog 2 ?n"
  have n: "0 < ?n" using assms by (simp add: le_floor_iff)
  then have b: "2 ^ (?k - 1) \<le> ?n" "?n < 2 ^ ?k" and k: "0 < ?k"
    using floorlog_bounds [of ?n 2] floorlog_eq_zero_iff [of 2 ?n] by auto
  have i: "ilog2 x = int ?k - 1" using assms by (simp add: ilog2_def)
  have "of_nat (2 ^ (?k - 1)) \<le> (of_nat ?n :: rat)" using b(1) by (simp only: of_nat_le_iff)
  also have "\<dots> \<le> x" using assms by simp
  finally have lo: "(2::rat) ^ (?k - 1) \<le> x" by simp
  have "\<lfloor>x\<rfloor> < 2 ^ ?k" using b(2) assms by (simp add: nat_less_iff)
  then have hi: "x < 2 ^ ?k" by (simp add: floor_less_iff)
  have e: "int ?k - 1 = int (?k - 1)" "int ?k - 1 + 1 = int ?k" using k by simp_all
  have "p2 (ilog2 x) = 2 ^ (?k - 1)" by (simp only: i e(1) power_int_of_nat)
  moreover have "p2 (ilog2 x + 1) = 2 ^ ?k" by (simp only: i e(2) power_int_of_nat)
  ultimately show ?thesis using lo hi by simp
qed

lemma ilog2_lt1:
  assumes "0 < x" "x < 1"
  shows "p2 (ilog2 x) \<le> x \<and> x < p2 (ilog2 x + 1)"
proof -
  let ?n = "nat (\<lceil>1 / x\<rceil> - 1)" let ?k = "floorlog 2 ?n"
  have "1 < 1 / x" using assms by (simp add: field_simps)
  then have "1 < \<lceil>1 / x\<rceil>" by (metis less_ceiling_iff of_int_1)
  then have n: "0 < ?n" and nc: "int ?n = \<lceil>1 / x\<rceil> - 1" by linarith+
  then have b: "2 ^ (?k - 1) \<le> ?n" "?n < 2 ^ ?k" and k: "0 < ?k"
    using floorlog_bounds [of ?n 2] floorlog_eq_zero_iff [of 2 ?n] by auto
  have i: "ilog2 x = - int ?k" using assms by (simp add: ilog2_def)
  have "int ?n < 2 ^ ?k" using b(2) by (metis of_nat_less_iff of_nat_numeral of_nat_power)
  then have "\<lceil>1 / x\<rceil> \<le> 2 ^ ?k" using nc by linarith
  then have "1 / x \<le> of_int (2 ^ ?k)" by (simp only: ceiling_le_iff)
  then have lo: "1 / 2 ^ ?k \<le> x" using assms by (simp add: field_simps)
  have "2 ^ (?k - 1) \<le> int ?n" using b(1) by (metis of_nat_le_iff of_nat_numeral of_nat_power)
  then have "2 ^ (?k - 1) < \<lceil>1 / x\<rceil>" using nc by linarith
  then have "of_int (2 ^ (?k - 1)) < 1 / x" by (simp only: less_ceiling_iff)
  then have hi: "x < 1 / 2 ^ (?k - 1)" using assms by (simp add: field_simps)
  have e: "- int ?k + 1 = - int (?k - 1)" using k by simp
  have "p2 (ilog2 x) = 1 / 2 ^ ?k" by (simp only: i power_int_minus_divide power_int_of_nat)
  moreover have "p2 (ilog2 x + 1) = 1 / 2 ^ (?k - 1)"
    by (simp only: i e power_int_minus_divide power_int_of_nat)
  ultimately show ?thesis using lo hi by simp
qed

lemma ilog2_bounds: "0 < x \<Longrightarrow> p2 (ilog2 x) \<le> x" "0 < x \<Longrightarrow> x < p2 (ilog2 x + 1)"
  using ilog2_ge1 ilog2_lt1 by (meson not_le)+

lemma ilog2_mono:
  assumes "0 < x" "x \<le> y"
  shows "ilog2 x \<le> ilog2 y"
proof -
  have "p2 (ilog2 x) < p2 (ilog2 y + 1)"
    using ilog2_bounds(1) [of x] ilog2_bounds(2) [of y] assms by linarith
  then show ?thesis by (auto dest: p2_less)
qed

lemma ilog2_less: "0 < x \<Longrightarrow> x < p2 e \<Longrightarrow> ilog2 x < e"
  using ilog2_bounds(1) [of x] p2_less by fastforce

subsection \<open>Rounding to nearest, ties to even\<close>

definition round_even :: "rat \<Rightarrow> int" where
  "round_even y =
     (let f = \<lfloor>y\<rfloor>; d = y - of_int f
      in if d < 1 / 2 then f else if 1 / 2 < d then f + 1 else if even f then f else f + 1)"

lemma round_even_int [simp]: "round_even (of_int n) = n"
  by (simp add: round_even_def)

lemma round_even_between: "\<lfloor>y\<rfloor> \<le> round_even y" "round_even y \<le> \<lfloor>y\<rfloor> + 1"
  by (simp_all add: round_even_def Let_def)

lemma round_even_mono:
  assumes "y \<le> z"
  shows "round_even y \<le> round_even z"
proof (cases "\<lfloor>y\<rfloor> = \<lfloor>z\<rfloor>")
  case True
  then show ?thesis using assms by (auto simp: round_even_def Let_def)
next
  case False
  then have "\<lfloor>y\<rfloor> + 1 \<le> \<lfloor>z\<rfloor>" using floor_mono [OF assms] by linarith
  then show ?thesis using round_even_between [of y] round_even_between [of z] by linarith
qed

lemma round_even_ge: "of_int n \<le> y \<Longrightarrow> n \<le> round_even y"
  using round_even_mono [of "of_int n" y] by simp

lemma round_even_le: "y \<le> of_int n \<Longrightarrow> round_even y \<le> n"
  using round_even_mono [of y "of_int n"] by simp

text \<open>The exponent of the last bit kept, and rounding of a positive number.\<close>

definition ulp_exp :: "rat \<Rightarrow> int" where
  "ulp_exp x = max (ilog2 x - 52) (- 1074)"

definition rnd_pos :: "rat \<Rightarrow> rat" where
  "rnd_pos x = of_int (round_even (x / p2 (ulp_exp x))) * p2 (ulp_exp x)"

definition rnd :: "rat \<Rightarrow> rat" where
  "rnd x = (if x = 0 then 0 else if 0 < x then rnd_pos x else - rnd_pos (- x))"

lemma rnd_0 [simp]: "rnd 0 = 0"
  by (simp add: rnd_def)

lemma rnd_minus: "rnd (- x) = - rnd x"
  by (simp add: rnd_def)

text \<open>A multiple of the last bit bounds the rounded value on either side.\<close>

lemma rnd_pos_ge: "0 < x \<Longrightarrow> ulp_exp x \<le> e \<Longrightarrow> p2 e \<le> x \<Longrightarrow> p2 e \<le> rnd_pos x"
proof -
  let ?u = "ulp_exp x"
  assume x: "0 < x" "?u \<le> e" "p2 e \<le> x"
  have "p2 e / p2 ?u = of_int (2 ^ nat (e - ?u))"
    using x(2) by (simp only: p2_div p2_nonneg_int)
  moreover have "p2 e / p2 ?u \<le> x / p2 ?u" using x(3) by (simp add: divide_right_mono)
  ultimately have "2 ^ nat (e - ?u) \<le> round_even (x / p2 ?u)"
    by (intro round_even_ge) simp
  then have "of_int (2 ^ nat (e - ?u)) \<le> (of_int (round_even (x / p2 ?u)) :: rat)"
    by (simp only: of_int_le_iff)
  then have "p2 (e - ?u) * p2 ?u \<le> of_int (round_even (x / p2 ?u)) * p2 ?u"
    using x(2) by (simp add: p2_nonneg_int)
  then show ?thesis by (simp add: rnd_pos_def flip: p2_add)
qed

lemma rnd_pos_le: "0 < x \<Longrightarrow> ulp_exp x \<le> e \<Longrightarrow> x \<le> p2 e \<Longrightarrow> rnd_pos x \<le> p2 e"
proof -
  let ?u = "ulp_exp x"
  assume x: "0 < x" "?u \<le> e" "x \<le> p2 e"
  have "p2 e / p2 ?u = of_int (2 ^ nat (e - ?u))"
    using x(2) by (simp only: p2_div p2_nonneg_int)
  moreover have "x / p2 ?u \<le> p2 e / p2 ?u" using x(3) by (simp add: divide_right_mono)
  ultimately have "round_even (x / p2 ?u) \<le> 2 ^ nat (e - ?u)"
    by (intro round_even_le) simp
  then have "(of_int (round_even (x / p2 ?u)) :: rat) \<le> of_int (2 ^ nat (e - ?u))"
    by (simp only: of_int_le_iff)
  then have "of_int (round_even (x / p2 ?u)) * p2 ?u \<le> p2 (e - ?u) * p2 ?u"
    using x(2) by (simp add: p2_nonneg_int)
  then show ?thesis by (simp add: rnd_pos_def flip: p2_add)
qed

lemma rnd_pos_mono:
  assumes "0 < x" "x \<le> y"
  shows "rnd_pos x \<le> rnd_pos y"
proof (cases "ulp_exp x = ulp_exp y")
  case True
  have "x / p2 (ulp_exp y) \<le> y / p2 (ulp_exp y)" using assms by (simp add: divide_right_mono)
  then show ?thesis by (simp add: rnd_pos_def True round_even_mono)
next
  case False
  have y: "0 < y" using assms by simp
  have le: "ilog2 x \<le> ilog2 y" using assms by (rule ilog2_mono)
  with False have lt: "ilog2 x + 1 \<le> ilog2 y" and uy: "ulp_exp y = ilog2 y - 52"
    and ux: "ulp_exp x \<le> ilog2 y"
    by (auto simp: ulp_exp_def max_def split: if_splits)
  have "x \<le> p2 (ilog2 y)"
    using ilog2_bounds(2) [OF assms(1)] p2_mono [OF lt] by linarith
  then have "rnd_pos x \<le> p2 (ilog2 y)" using assms(1) ux by (intro rnd_pos_le)
  also have "\<dots> \<le> rnd_pos y" using y uy ilog2_bounds(1) by (intro rnd_pos_ge) auto
  finally show ?thesis .
qed

lemma rnd_pos_nonneg: "0 < x \<Longrightarrow> 0 \<le> rnd_pos x"
  unfolding rnd_pos_def by (intro mult_nonneg_nonneg) (simp_all add: round_even_ge)

lemma rnd_nonneg: "0 \<le> x \<Longrightarrow> 0 \<le> rnd x"
  by (auto simp: rnd_def rnd_pos_nonneg)

theorem rnd_mono: "x \<le> y \<Longrightarrow> rnd x \<le> rnd y"
proof -
  assume le: "x \<le> y"
  consider "0 < x" | "x \<le> 0" "0 \<le> y" | "y < 0" by linarith
  then show ?thesis
  proof cases
    case 1 then show ?thesis using le rnd_pos_mono by (simp add: rnd_def)
  next
    case 2
    then have "rnd x \<le> 0" using rnd_nonneg [of "- x"] by (simp add: rnd_minus)
    with 2 rnd_nonneg [of y] show ?thesis by linarith
  next
    case 3 then show ?thesis using le rnd_pos_mono [of "- y" "- x"] by (simp add: rnd_def)
  qed
qed

text \<open>Integers of at most 53 bits are representable.\<close>

lemma rnd_pos_int:
  assumes "0 < n" "n < 2 ^ 53"
  shows "rnd_pos (of_int n) = of_int n"
proof -
  let ?x = "of_int n :: rat"
  have "of_int n < (of_int (2 ^ 53) :: rat)" using assms(2) by (simp only: of_int_less_iff)
  then have "?x < p2 53" by simp
  then have "ilog2 ?x < 53" using assms(1) by (intro ilog2_less) auto
  then have u: "ulp_exp ?x \<le> 0" by (simp add: ulp_exp_def)
  have "?x / p2 (ulp_exp ?x) = ?x * p2 (- ulp_exp ?x)" by (simp add: power_int_minus_divide)
  also have "\<dots> = of_int (n * 2 ^ nat (- ulp_exp ?x))"
    using u by (simp add: p2_nonneg_int)
  finally have e: "?x / p2 (ulp_exp ?x) = of_int (n * 2 ^ nat (- ulp_exp ?x))" .
  have "rnd_pos ?x = ?x / p2 (ulp_exp ?x) * p2 (ulp_exp ?x)"
    unfolding rnd_pos_def e round_even_int ..
  then show ?thesis by simp
qed

theorem rnd_int: "\<bar>n\<bar> < 2 ^ 53 \<Longrightarrow> rnd (of_int n) = of_int n"
proof -
  assume n: "\<bar>n\<bar> < 2 ^ 53"
  consider "n = 0" | "0 < n" | "0 < - n" by linarith
  then show ?thesis
  proof cases
    case 2 then show ?thesis using n rnd_pos_int [of n] by (simp add: rnd_def)
  next
    case 3 then show ?thesis using n rnd_pos_int [of "- n"] by (simp add: rnd_def)
  qed simp
qed

subsection \<open>The operations the code uses\<close>

definition f64_of_int :: "int \<Rightarrow> rat" where
  "f64_of_int n = rnd (of_int n)"

definition f64_add :: "rat \<Rightarrow> rat \<Rightarrow> rat" where
  "f64_add x y = rnd (x + y)"

definition f64_mul :: "rat \<Rightarrow> rat \<Rightarrow> rat" where
  "f64_mul x y = rnd (x * y)"

definition f64_div :: "rat \<Rightarrow> rat \<Rightarrow> rat" where
  "f64_div x y = rnd (x / y)"

text \<open>\<open>math.Ceil\<close> followed by a conversion to an integer type that can hold the result.\<close>

definition f64_ceil :: "rat \<Rightarrow> int" where
  "f64_ceil x = \<lceil>x\<rceil>"

lemma f64_of_int_small [simp]: "\<bar>n\<bar> < 2 ^ 53 \<Longrightarrow> f64_of_int n = of_int n"
  by (simp add: f64_of_int_def rnd_int)

lemma f64_of_int_mono: "m \<le> n \<Longrightarrow> f64_of_int m \<le> f64_of_int n"
  by (simp add: f64_of_int_def rnd_mono)

lemma f64_of_int_nonneg: "0 \<le> n \<Longrightarrow> 0 \<le> f64_of_int n"
  by (simp add: f64_of_int_def rnd_nonneg)

lemma f64_add_nonneg: "0 \<le> x \<Longrightarrow> 0 \<le> y \<Longrightarrow> 0 \<le> f64_add x y"
  by (simp add: f64_add_def rnd_nonneg)

lemma f64_add_mono: "x \<le> x' \<Longrightarrow> y \<le> y' \<Longrightarrow> f64_add x y \<le> f64_add x' y'"
  by (simp add: f64_add_def rnd_mono add_mono)

lemma f64_div_mono: "x \<le> x' \<Longrightarrow> 0 < y \<Longrightarrow> f64_div x y \<le> f64_div x' y"
  by (simp add: f64_div_def rnd_mono divide_right_mono)

lemma f64_div_nonneg: "0 \<le> x \<Longrightarrow> 0 \<le> y \<Longrightarrow> 0 \<le> f64_div x y"
  by (simp add: f64_div_def rnd_nonneg)

lemma f64_mul_mono: "x \<le> x' \<Longrightarrow> 0 \<le> y \<Longrightarrow> f64_mul x y \<le> f64_mul x' y"
  by (simp add: f64_mul_def rnd_mono mult_right_mono)

text \<open>A 53-bit integer below an exact quotient or product stays below the rounded one.\<close>

lemma f64_div_ge_int: "\<bar>n\<bar> < 2 ^ 53 \<Longrightarrow> of_int n \<le> x / y \<Longrightarrow> of_int n \<le> f64_div x y"
  using rnd_mono [of "of_int n" "x / y"] by (simp add: f64_div_def rnd_int)

lemma f64_div_le_int: "\<bar>n\<bar> < 2 ^ 53 \<Longrightarrow> x / y \<le> of_int n \<Longrightarrow> f64_div x y \<le> of_int n"
  using rnd_mono [of "x / y" "of_int n"] by (simp add: f64_div_def rnd_int)

lemma f64_mul_ge_int: "\<bar>n\<bar> < 2 ^ 53 \<Longrightarrow> of_int n \<le> x * y \<Longrightarrow> of_int n \<le> f64_mul x y"
  using rnd_mono [of "of_int n" "x * y"] by (simp add: f64_mul_def rnd_int)

lemma f64_add_int:
  "\<bar>m + n\<bar> < 2 ^ 53 \<Longrightarrow> f64_add (of_int m) (of_int n) = of_int (m + n)"
  using rnd_int [of "m + n"] by (simp add: f64_add_def)

end
