(* ===== verification/Go_Sort.thy ===== *)
theory Go_Sort
  imports Main "HOL-Library.Multiset" Go_Prelude
begin

section \<open>The parts of package sort the program calls\<close>

text \<open>
  \<open>sort.Search\<close> (the library's binary search), \<open>sort.SliceStable\<close> (its insertion sort,
  which is the whole algorithm for up to 20 elements and, for a strict weak order, agrees
  with any stable sort on more) and \<open>sort.Slice\<close>/\<open>sort.Strings\<close> on a linear order, where
  every sorting algorithm returns the same list.
\<close>

subsection \<open>sort.Search\<close>

function search_loop :: "(nat \<Rightarrow> bool) \<Rightarrow> nat \<Rightarrow> nat \<Rightarrow> nat" where
  "search_loop f i j =
     (if i < j then
        (let h = (i + j) div 2 in if \<not> f h then search_loop f (h + 1) j else search_loop f i h)
      else i)"
  by pat_completeness auto
termination
  by (relation "measure (\<lambda>(f, i, j). j - i)") auto

declare search_loop.simps [simp del]

definition sort_search :: "nat \<Rightarrow> (nat \<Rightarrow> bool) \<Rightarrow> nat" where
  "sort_search n f = search_loop f 0 n"

lemma search_loop_correct:
  assumes "i \<le> j"
    and "\<And>a b. a \<le> b \<Longrightarrow> b < j \<Longrightarrow> f a \<Longrightarrow> f b"
  shows "i \<le> search_loop f i j \<and> search_loop f i j \<le> j
    \<and> (\<forall>k. i \<le> k \<and> k < search_loop f i j \<longrightarrow> \<not> f k)
    \<and> (\<forall>k. search_loop f i j \<le> k \<and> k < j \<longrightarrow> f k)"
  using assms
proof (induction f i j rule: search_loop.induct)
  case (1 f i j)
  show ?case
  proof (cases "i < j")
    case False
    with "1.prems" show ?thesis by (subst (1 2 3 4) search_loop.simps) auto
  next
    case True
    let ?h = "(i + j) div 2"
    have h: "i \<le> ?h" "?h < j" using True by auto
    show ?thesis
    proof (cases "f ?h")
      case True
      have eq: "search_loop f i j = search_loop f i ?h"
        using \<open>i < j\<close> True by (subst search_loop.simps) (simp add: Let_def)
      have "\<And>a b. a \<le> b \<Longrightarrow> b < ?h \<Longrightarrow> f a \<Longrightarrow> f b"
        using "1.prems"(2) h by (meson less_trans)
      then have ih: "i \<le> search_loop f i ?h \<and> search_loop f i ?h \<le> ?h
          \<and> (\<forall>k. i \<le> k \<and> k < search_loop f i ?h \<longrightarrow> \<not> f k)
          \<and> (\<forall>k. search_loop f i ?h \<le> k \<and> k < ?h \<longrightarrow> f k)"
        using "1.IH"(2) [OF \<open>i < j\<close> refl] True h by blast
      have "f k" if "search_loop f i ?h \<le> k" "k < j" for k
        using ih that "1.prems"(2) [of ?h k] True by (cases "k < ?h") auto
      with ih h show ?thesis unfolding eq by auto
    next
      case False
      have eq: "search_loop f i j = search_loop f (?h + 1) j"
        using \<open>i < j\<close> False by (subst search_loop.simps) (simp add: Let_def)
      have ih: "?h + 1 \<le> search_loop f (?h + 1) j \<and> search_loop f (?h + 1) j \<le> j
          \<and> (\<forall>k. ?h + 1 \<le> k \<and> k < search_loop f (?h + 1) j \<longrightarrow> \<not> f k)
          \<and> (\<forall>k. search_loop f (?h + 1) j \<le> k \<and> k < j \<longrightarrow> f k)"
        using "1.IH"(1) [OF \<open>i < j\<close> refl] False h "1.prems"(2) by simp
      have "\<not> f k" if "i \<le> k" "k < search_loop f (?h + 1) j" for k
        using ih that "1.prems"(2) [of k ?h] False h by (cases "k \<le> ?h") auto
      with ih h show ?thesis unfolding eq by auto
    qed
  qed
qed

theorem sort_search_least:
  assumes "\<And>a b. a \<le> b \<Longrightarrow> b < n \<Longrightarrow> f a \<Longrightarrow> f b"
  shows "sort_search n f \<le> n"
    and "k < sort_search n f \<Longrightarrow> \<not> f k"
    and "sort_search n f \<le> k \<Longrightarrow> k < n \<Longrightarrow> f k"
  using search_loop_correct [of 0 n f] assms by (auto simp: sort_search_def)

subsection \<open>sort.SliceStable\<close>

text \<open>
  \<open>for i := a + 1; i < b; i++ { for j := i; j > a && less(j, j-1); j-- { swap(j, j-1) } }\<close>:
  the sorted front part is kept reversed, so the inner loop walks it from its head.
\<close>

fun sink :: "('a \<Rightarrow> 'a \<Rightarrow> bool) \<Rightarrow> 'a \<Rightarrow> 'a list \<Rightarrow> 'a list" where
  "sink lt x [] = [x]"
| "sink lt x (y # ys) = (if lt x y then y # sink lt x ys else x # y # ys)"

definition slice_stable :: "('a \<Rightarrow> 'a \<Rightarrow> bool) \<Rightarrow> 'a list \<Rightarrow> 'a list" where
  "slice_stable lt xs = rev (foldl (\<lambda>acc x. sink lt x acc) [] xs)"

lemma mset_sink [simp]: "mset (sink lt x ys) = add_mset x (mset ys)"
  by (induction ys) auto

lemma mset_foldl_sink:
  "mset (foldl (\<lambda>acc x. sink lt x acc) acc xs) = mset acc + mset xs"
  by (induction xs arbitrary: acc) auto

lemma mset_slice_stable [simp]: "mset (slice_stable lt xs) = mset xs"
  by (simp add: slice_stable_def mset_foldl_sink)

lemma set_slice_stable [simp]: "set (slice_stable lt xs) = set xs"
  by (metis mset_slice_stable set_mset_mset)

lemma length_slice_stable [simp]: "length (slice_stable lt xs) = length xs"
  by (metis mset_slice_stable size_mset)

lemma distinct_slice_stable [simp]: "distinct (slice_stable lt xs) = distinct xs"
  by (metis mset_slice_stable mset_eq_imp_distinct_iff)

text \<open>A strict weak order: asymmetric, and incomparability is transitive.\<close>

definition strict_weak :: "('a \<Rightarrow> 'a \<Rightarrow> bool) \<Rightarrow> 'a set \<Rightarrow> bool" where
  "strict_weak lt A \<longleftrightarrow>
     (\<forall>x\<in>A. \<forall>y\<in>A. lt x y \<longrightarrow> \<not> lt y x) \<and>
     (\<forall>x\<in>A. \<forall>y\<in>A. \<forall>z\<in>A. \<not> lt x y \<longrightarrow> \<not> lt y z \<longrightarrow> \<not> lt x z)"

lemma strict_weak_mono: "strict_weak lt A \<Longrightarrow> B \<subseteq> A \<Longrightarrow> strict_weak lt B"
  unfolding strict_weak_def by blast

lemma set_sink [simp]: "set (sink lt x ys) = insert x (set ys)"
  by (induction ys) auto

lemma sorted_sink:
  assumes "strict_weak lt (insert x (set ys))" "sorted_wrt (\<lambda>a b. \<not> lt a b) ys"
  shows "sorted_wrt (\<lambda>a b. \<not> lt a b) (sink lt x ys)"
  using assms
proof (induction ys)
  case (Cons y ys)
  show ?case
  proof (cases "lt x y")
    case True
    have "strict_weak lt (insert x (set ys))"
      using Cons.prems(1) by (rule strict_weak_mono) auto
    moreover have "\<not> lt y x" using Cons.prems(1) True by (auto simp: strict_weak_def)
    ultimately show ?thesis using Cons True by auto
  next
    case False
    have "\<not> lt x b" if b: "b \<in> set ys" for b
    proof -
      have "\<not> lt y b" using Cons.prems(2) b by simp
      with False Cons.prems(1) b show ?thesis
        unfolding strict_weak_def by (meson insertCI list.set_intros)
    qed
    with False Cons.prems(2) show ?thesis by auto
  qed
qed simp

theorem sorted_slice_stable:
  assumes "strict_weak lt (set xs)"
  shows "sorted_wrt (\<lambda>a b. \<not> lt b a) (slice_stable lt xs)"
proof -
  have "sorted_wrt (\<lambda>a b. \<not> lt a b) (foldl (\<lambda>acc x. sink lt x acc) acc xs)"
    if "sorted_wrt (\<lambda>a b. \<not> lt a b) acc" "strict_weak lt (set acc \<union> set xs)" for acc
    using that
  proof (induction xs arbitrary: acc)
    case (Cons x xs)
    have "strict_weak lt (insert x (set acc))"
      using Cons.prems(2) by (rule strict_weak_mono) auto
    then have "sorted_wrt (\<lambda>a b. \<not> lt a b) (sink lt x acc)"
      using Cons.prems(1) by (intro sorted_sink)
    then show ?case using Cons.IH [of "sink lt x acc"] Cons.prems(2) by simp
  qed simp
  from this [of "[]"] assms show ?thesis
    by (simp add: slice_stable_def sorted_wrt_rev)
qed

text \<open>Stability: elements of a class with no strict order among them keep their order.\<close>

lemma filter_sink:
  assumes "\<And>y. y \<in> set ys \<Longrightarrow> P y \<Longrightarrow> P x \<Longrightarrow> \<not> lt x y"
  shows "filter P (sink lt x ys) = (if P x then x # filter P ys else filter P ys)"
  using assms by (induction ys) auto

theorem slice_stable_stable:
  assumes "\<And>x y. x \<in> set xs \<Longrightarrow> y \<in> set xs \<Longrightarrow> P x \<Longrightarrow> P y \<Longrightarrow> \<not> lt x y"
  shows "filter P (slice_stable lt xs) = filter P xs"
proof -
  have "filter P (foldl (\<lambda>acc x. sink lt x acc) acc xs) = rev (filter P xs) @ filter P acc"
    if "\<And>x y. x \<in> set acc \<union> set xs \<Longrightarrow> y \<in> set acc \<union> set xs \<Longrightarrow> P x \<Longrightarrow> P y \<Longrightarrow> \<not> lt x y" for acc
    using that
  proof (induction xs arbitrary: acc)
    case (Cons x xs)
    then have "filter P (sink lt x acc) = (if P x then x # filter P acc else filter P acc)"
      by (intro filter_sink) auto
    moreover have "filter P (foldl (\<lambda>acc x. sink lt x acc) (sink lt x acc) xs)
        = rev (filter P xs) @ filter P (sink lt x acc)"
      using Cons.prems by (intro Cons.IH) auto
    ultimately show ?case by simp
  qed simp
  from this [of "[]"] assms show ?thesis
    by (simp add: slice_stable_def flip: rev_filter)
qed

lemma slice_stable_id:
  assumes "sorted_wrt (\<lambda>a b. \<not> lt b a) xs"
  shows "slice_stable lt xs = xs"
proof -
  have "foldl (\<lambda>acc x. sink lt x acc) acc xs = rev xs @ acc"
    if "sorted_wrt (\<lambda>a b. \<not> lt b a) (rev acc @ xs)" for acc
    using that
  proof (induction xs arbitrary: acc)
    case (Cons x xs)
    have "sink lt x acc = x # acc"
      using Cons.prems by (cases acc) (auto simp: sorted_wrt_append)
    then show ?case using Cons by simp
  qed simp
  from this [of "[]"] assms show ?thesis by (simp add: slice_stable_def)
qed

subsection \<open>sort.Slice and sort.Strings on a linear order\<close>

definition sort_slice :: "'a::linorder list \<Rightarrow> 'a list" where
  "sort_slice xs = sort xs"

lemma mset_sort_slice [simp]: "mset (sort_slice xs) = mset xs"
  by (simp add: sort_slice_def)

lemma set_sort_slice [simp]: "set (sort_slice xs) = set xs"
  by (simp add: sort_slice_def)

lemma sorted_sort_slice [simp]: "sorted (sort_slice xs)"
  by (simp add: sort_slice_def)

lemma distinct_sort_slice [simp]: "distinct (sort_slice xs) = distinct xs"
  by (simp add: sort_slice_def)

end
