(* ===== verification/K8s_Types.thy ===== *)
theory K8s_Types
  imports Go_Prelude
begin

section \<open>Kubernetes objects and the Model resource\<close>

text \<open>
  The data the components exchange: object metadata, Pods, Jobs, PersistentVolumeClaims and
  the Model custom resource (\<open>api/k8s/v1/model_types.go\<close>, \<open>api/k8s/v1/metadata.go\<close>), with
  the helpers of \<open>internal/k8sutils\<close>. The Kubernetes API types are modelled by the fields the
  program reads or writes. A value it only carries along (an affinity, a toleration, a
  security context, an environment source) is an opaque token of type \<open>opaque\<close>.

  A Go pointer field is an option, a nil slice that the code distinguishes from an empty one
  is \<open>None\<close>, and \<open>int32\<close>/\<open>int64\<close> fields are integers.
\<close>

type_synonym opaque = string

subsection \<open>Metadata\<close>

record obj_meta =
  om_name :: string
  om_generate_name :: string
  om_namespace :: string
  om_uid :: string
  om_labels :: "(string, string) gomap"
  om_annotations :: "(string, string) gomap"
  om_finalizers :: "string list"
  om_deleting :: bool  \<comment> \<open>\<open>DeletionTimestamp != nil\<close>\<close>
  om_created :: int    \<comment> \<open>\<open>CreationTimestamp\<close>, seconds\<close>

definition empty_meta :: obj_meta where
  "empty_meta = \<lparr>om_name = [], om_generate_name = [], om_namespace = [], om_uid = [], om_labels = [],
     om_annotations = [], om_finalizers = [], om_deleting = False, om_created = 0\<rparr>"

text \<open>\<open>internal/k8sutils/meta.go\<close>.\<close>

definition SetLabel :: "obj_meta \<Rightarrow> string \<Rightarrow> string \<Rightarrow> obj_meta" where
  "SetLabel obj key value = obj\<lparr>om_labels := gm_put key value (om_labels obj)\<rparr>"

definition SetAnnotation :: "obj_meta \<Rightarrow> string \<Rightarrow> string \<Rightarrow> obj_meta" where
  "SetAnnotation obj key value = obj\<lparr>om_annotations := gm_put key value (om_annotations obj)\<rparr>"

definition GetLabel :: "obj_meta \<Rightarrow> string \<Rightarrow> string" where
  "GetLabel obj key = gm_get [] (om_labels obj) key"

definition GetAnnotation :: "obj_meta \<Rightarrow> string \<Rightarrow> string" where
  "GetAnnotation obj key = gm_get [] (om_annotations obj) key"

lemma GetLabel_SetLabel [simp, gomap_simps]:
  "GetLabel (SetLabel obj k v) j = (if j = k then v else GetLabel obj j)"
  by (simp add: GetLabel_def SetLabel_def)

lemma GetAnnotation_SetAnnotation [simp, gomap_simps]:
  "GetAnnotation (SetAnnotation obj k v) j = (if j = k then v else GetAnnotation obj j)"
  by (simp add: GetAnnotation_def SetAnnotation_def)

text \<open>\<open>api/k8s/v1/metadata.go\<close>.\<close>

definition PodModelLabel :: string where "PodModelLabel = ''model''"
definition PodHashLabel :: string where "PodHashLabel = ''pod-hash''"
definition ModelFeatureLabelDomain :: string where
  "ModelFeatureLabelDomain = ''features.kubeai.org''"
definition ModelPodIPAnnotation :: string where "ModelPodIPAnnotation = ''model-pod-ip''"
definition ModelPodPortAnnotation :: string where "ModelPodPortAnnotation = ''model-pod-port''"
definition ModelCacheEvictionFinalizer :: string where
  "ModelCacheEvictionFinalizer = ''kubeai.org/cache-eviction''"
definition PodAdapterLabelPrefix :: string where "PodAdapterLabelPrefix = ''adapter.kubeai.org/''"

definition PVCModelAnnotation :: "string \<Rightarrow> string" where
  "PVCModelAnnotation modelName = ''models.kubeai.org/'' @ modelName"

definition PodAdapterLabel :: "string \<Rightarrow> string" where
  "PodAdapterLabel adapterID = PodAdapterLabelPrefix @ adapterID"

lemma PodAdapterLabel_inject [simp]: "PodAdapterLabel a = PodAdapterLabel b \<longleftrightarrow> a = b"
  by (simp add: PodAdapterLabel_def)

lemma PodAdapterLabel_prefix [simp]:
  "has_prefix (PodAdapterLabel a) PodAdapterLabelPrefix"
  "trim_prefix (PodAdapterLabel a) PodAdapterLabelPrefix = a"
  by (simp_all add: PodAdapterLabel_def)

lemma PodAdapterLabel_trim:
  "has_prefix k PodAdapterLabelPrefix \<Longrightarrow> PodAdapterLabel (trim_prefix k PodAdapterLabelPrefix) = k"
  by (simp add: PodAdapterLabel_def has_prefixE [symmetric])

subsection \<open>Pods\<close>

record env_var =
  ev_name :: string
  ev_value :: string
  ev_secret :: "(string \<times> string) option"  \<comment> \<open>\<open>ValueFrom.SecretKeyRef\<close>: name, key (optional)\<close>

record volume_mount =
  vm_name :: string
  vm_path :: string
  vm_subpath :: string
  vm_readonly :: bool

datatype volume_source =
    VolEmptyDir bool  \<comment> \<open>medium Memory?\<close>
  | VolPVC string
  | VolConfigMap string
  | VolSecret string "(string \<times> string) list"  \<comment> \<open>name, items key/path (optional)\<close>
  | VolImage string string  \<comment> \<open>reference, pull policy\<close>

record volume =
  vol_name :: string
  vol_source :: volume_source

datatype probe_handler = ProbeHTTPGet string string | ProbeExec "string list"

record probe =
  pr_initial_delay :: int
  pr_period :: int
  pr_timeout :: int
  pr_failures :: int
  pr_successes :: int
  pr_handler :: probe_handler

record container =
  c_name :: string
  c_image :: string
  c_pull_policy :: string
  c_command :: "string list"
  c_args :: "string list"
  c_env :: "env_var list"
  c_env_from :: "opaque list"
  c_ports :: "(string \<times> int) list"  \<comment> \<open>name and number, TCP\<close>
  c_requests :: "(string, int) gomap"
  c_limits :: "(string, int) gomap"
  c_startup :: "probe option"
  c_readiness :: "probe option"
  c_liveness :: "probe option"
  c_mounts :: "volume_mount list"
  c_security :: "opaque option"

record pod_spec =
  ps_containers :: "container list"
  ps_volumes :: "volume list"
  ps_pull_secrets :: "string list"
  ps_node_selector :: "(string, string) gomap"
  ps_affinity :: "opaque option"
  ps_tolerations :: "opaque list"
  ps_scheduler :: string
  ps_runtime_class :: "string option"
  ps_priority_class :: string
  ps_service_account :: string
  ps_security :: "opaque option"
  ps_restart_policy :: string
  ps_node_name :: string

record pod_status =
  pst_conditions :: "(string \<times> string) list"  \<comment> \<open>type, status\<close>
  pst_pod_ip :: string
  pst_container_ready :: "(string \<times> bool) list"

record pod =
  pod_meta :: obj_meta
  pod_spec_of :: pod_spec
  pod_status_of :: pod_status

text \<open>\<open>internal/k8sutils/pods.go\<close> and \<open>jobs.go\<close>: scans of a condition list.\<close>

definition PodIsScheduled :: "pod \<Rightarrow> bool" where
  "PodIsScheduled p \<longleftrightarrow> ps_node_name (pod_spec_of p) \<noteq> []"

fun has_true_condition :: "string \<Rightarrow> (string \<times> string) list \<Rightarrow> bool" where
  "has_true_condition t [] = False"
| "has_true_condition t ((ct, cs) # conds) =
     (if ct = t \<and> cs = ''True'' then True else has_true_condition t conds)"

definition PodIsReady :: "pod \<Rightarrow> bool" where
  "PodIsReady p = has_true_condition ''Ready'' (pst_conditions (pod_status_of p))"

fun find_container_ready :: "string \<Rightarrow> (string \<times> bool) list \<Rightarrow> bool" where
  "find_container_ready n [] = False"
| "find_container_ready n ((cn, r) # sts) = (if cn = n then r else find_container_ready n sts)"

definition ContainerIsReady :: "pod \<Rightarrow> string \<Rightarrow> bool" where
  "ContainerIsReady p name = find_container_ready name (pst_container_ready (pod_status_of p))"

lemma has_true_condition_iff: "has_true_condition t conds \<longleftrightarrow> (t, ''True'') \<in> set conds"
  by (induction conds) (auto split: if_splits)

record job =
  job_meta :: obj_meta
  job_ttl :: int
  job_parallelism :: int
  job_completions :: int
  job_pod_spec :: pod_spec
  job_conditions :: "(string \<times> string) list"

definition IsJobCompleted :: "job \<Rightarrow> bool" where
  "IsJobCompleted j = has_true_condition ''Complete'' (job_conditions j)"

subsection \<open>The Model resource\<close>

record adapter =
  ad_Name :: string
  ad_URL :: string

record prefix_hash =
  ph_MeanLoadPercentage :: int
  ph_Replication :: int
  ph_PrefixCharLength :: int

record load_balancing =
  lb_Strategy :: string
  lb_PrefixHash :: prefix_hash

definition LeastLoadStrategy :: string where "LeastLoadStrategy = ''LeastLoad''"
definition PrefixHashStrategy :: string where "PrefixHashStrategy = ''PrefixHash''"

record model_file =
  mf_Path :: string
  mf_Content :: string

definition ModelFeatureTextGeneration :: string where
  "ModelFeatureTextGeneration = ''TextGeneration''"

definition OLlamaEngine :: string where "OLlamaEngine = ''OLlama''"
definition VLLMEngine :: string where "VLLMEngine = ''VLLM''"
definition FasterWhisperEngine :: string where "FasterWhisperEngine = ''FasterWhisper''"
definition InfinityEngine :: string where "InfinityEngine = ''Infinity''"

record model_spec =
  ms_URL :: string
  ms_Adapters :: "adapter list option"
  ms_Features :: "string list"
  ms_Engine :: string
  ms_ResourceProfile :: string
  ms_CacheProfile :: string
  ms_Image :: string
  ms_Args :: "string list"
  ms_Env :: "(string, string) gomap"
  ms_EnvFrom :: "opaque list option"
  ms_Replicas :: "int option"
  ms_MinReplicas :: int
  ms_MaxReplicas :: "int option"
  ms_AutoscalingDisabled :: bool
  ms_TargetRequests :: "int option"
  ms_ScaleDownDelaySeconds :: "int option"
  ms_Owner :: string
  ms_LoadBalancing :: load_balancing
  ms_Files :: "model_file list"
  ms_PriorityClassName :: string

record model_status =
  mst_All :: int
  mst_Ready :: int
  mst_CacheLoaded :: "bool option"

record model =
  md_meta :: obj_meta
  md_spec :: model_spec
  md_status :: model_status

abbreviation md_name :: "model \<Rightarrow> string" where
  "md_name m \<equiv> om_name (md_meta m)"

text \<open>\<open>range m.Spec.Adapters\<close>: a nil slice has no elements.\<close>

definition adapters_of :: "model_spec \<Rightarrow> adapter list" where
  "adapters_of sp = (case ms_Adapters sp of None \<Rightarrow> [] | Some as \<Rightarrow> as)"

text \<open>The default object the API server stores, with the CRD's defaults; used in examples.\<close>

definition default_lb :: load_balancing where
  "default_lb = \<lparr>lb_Strategy = LeastLoadStrategy,
     lb_PrefixHash = \<lparr>ph_MeanLoadPercentage = 125, ph_Replication = 256, ph_PrefixCharLength = 100\<rparr>\<rparr>"

definition default_spec :: model_spec where
  "default_spec = \<lparr>ms_URL = [], ms_Adapters = None, ms_Features = [], ms_Engine = VLLMEngine,
     ms_ResourceProfile = [], ms_CacheProfile = [], ms_Image = [], ms_Args = [], ms_Env = [],
     ms_EnvFrom = None, ms_Replicas = None, ms_MinReplicas = 0, ms_MaxReplicas = None,
     ms_AutoscalingDisabled = False, ms_TargetRequests = Some 100,
     ms_ScaleDownDelaySeconds = Some 30, ms_Owner = [], ms_LoadBalancing = default_lb,
     ms_Files = [], ms_PriorityClassName = []\<rparr>"

definition default_model :: "string \<Rightarrow> model" where
  "default_model name = \<lparr>md_meta = empty_meta\<lparr>om_name := name\<rparr>, md_spec = default_spec,
     md_status = \<lparr>mst_All = 0, mst_Ready = 0, mst_CacheLoaded = None\<rparr>\<rparr>"

end
