(* ===== verification/Hash_Ring.thy ===== *)
theory Hash_Ring
  imports Float64 Go_Sort K8s_Types "HOL-Library.Word"
begin

section \<open>The consistent-hashing ring with bounded loads\<close>

text \<open>
  \<open>internal/loadbalancer/balance_chwbl.go\<close> over the state of \<open>group.go\<close>. The hash function
  \<open>xxhash.Sum64\<close> is a third-party package: it is the parameter \<open>xx\<close> of every definition
  that hashes.

  The in-flight counters are atomics behind pointers, shared between an endpoint's entry and
  the release functions handed out for it: an endpoint holds the address of its counter and
  the group holds the store \<open>gr_counters\<close>.
\<close>

subsection \<open>State\<close>

record endpoint =
  ep_address :: string
  ep_inFlight :: nat
  ep_adapters :: "string list"

record group =
  gr_endpoints :: "(string, endpoint) gomap"
  gr_totalInFlight :: int
  gr_counters :: "nat \<Rightarrow> int"
  gr_next :: nat
  gr_replication :: int
  gr_hashes :: "(64 word, string) gomap"
  gr_sorted :: "64 word list"

definition newEndpointGroup :: "load_balancing \<Rightarrow> group" where
  "newEndpointGroup lb = \<lparr>gr_endpoints = [], gr_totalInFlight = 0, gr_counters = (\<lambda>_. 0),
     gr_next = 0, gr_replication = ph_Replication (lb_PrefixHash lb), gr_hashes = [],
     gr_sorted = []\<rparr>"

definition ep_load :: "group \<Rightarrow> endpoint \<Rightarrow> int" where
  "ep_load g ep = gr_counters g (ep_inFlight ep)"

text \<open>The metrics the lookup records, in the order it records them.\<close>

datatype lookup_metric = MInitial string | MIterations nat | MFinal string | MDefault string

subsection \<open>Hashing\<close>

definition chwblHash :: "(string \<Rightarrow> 64 word) \<Rightarrow> string \<Rightarrow> 64 word" where
  "chwblHash xx s = xx s"

definition chwblEndpointReplicaHashInput :: "string \<Rightarrow> int \<Rightarrow> string" where
  "chwblEndpointReplicaHashInput name replica = name @ int_str replica"

definition chwblHashEndpointReplica :: "(string \<Rightarrow> 64 word) \<Rightarrow> string \<Rightarrow> int \<Rightarrow> 64 word" where
  "chwblHashEndpointReplica xx name replica =
     chwblHash xx (chwblEndpointReplicaHashInput name replica)"

text \<open>The hashes of an endpoint's replicas, in the order of the loops over them.\<close>

definition replica_hashes :: "(string \<Rightarrow> 64 word) \<Rightarrow> int \<Rightarrow> string \<Rightarrow> 64 word list" where
  "replica_hashes xx r name = map (\<lambda>i. chwblHashEndpointReplica xx name (int i)) [0..<nat r]"

subsection \<open>Adding and removing endpoints\<close>

definition chwblAddEndpoint :: "(string \<Rightarrow> 64 word) \<Rightarrow> string \<Rightarrow> group \<Rightarrow> group" where
  "chwblAddEndpoint xx name g =
     (let g' = foldl (\<lambda>g h. g\<lparr>gr_hashes := gm_put h name (gr_hashes g),
                              gr_sorted := gr_sorted g @ [h]\<rparr>)
                 g (replica_hashes xx (gr_replication g) name)
      in g'\<lparr>gr_sorted := sort_slice (gr_sorted g')\<rparr>)"

function delete_search :: "64 word list \<Rightarrow> 64 word \<Rightarrow> int \<Rightarrow> int \<Rightarrow> nat option" where
  "delete_search xs val left right =
     (if left \<le> right then
        (let middle = (left + right) div 2; current = xs ! nat middle
         in if current = val then Some (nat middle)
            else if current < val then delete_search xs val (middle + 1) right
            else delete_search xs val left (middle - 1))
      else None)"
  by pat_completeness auto
termination
  by (relation "measure (\<lambda>(xs, val, left, right). nat (right - left + 1))") auto

declare delete_search.simps [simp del]

definition chwblDeleteSortedHash :: "64 word \<Rightarrow> 64 word list \<Rightarrow> 64 word list" where
  "chwblDeleteSortedHash val xs =
     (case delete_search xs val 0 (int (length xs) - 1) of
        None \<Rightarrow> xs | Some idx \<Rightarrow> take idx xs @ drop (Suc idx) xs)"

definition chwblRemoveEndpoint :: "(string \<Rightarrow> 64 word) \<Rightarrow> string \<Rightarrow> group \<Rightarrow> group" where
  "chwblRemoveEndpoint xx name g =
     foldl (\<lambda>g h. g\<lparr>gr_hashes := gm_del h (gr_hashes g),
                     gr_sorted := chwblDeleteSortedHash h (gr_sorted g)\<rparr>)
       g (replica_hashes xx (gr_replication g) name)"

subsection \<open>Looking an endpoint up\<close>

definition chwblSearch :: "64 word \<Rightarrow> 64 word list \<Rightarrow> (unit, 64 word \<times> nat) outcome" where
  "chwblSearch key xs =
     (let idx = sort_search (length xs) (\<lambda>i. key \<le> xs ! i);
          idx = (if length xs \<le> idx then 0 else idx)
      in if idx < length xs then Done (xs ! idx, idx) else Panic ''index out of range'')"

definition chwblLoadOK :: "int \<Rightarrow> int \<Rightarrow> int \<Rightarrow> rat \<Rightarrow> bool" where
  "chwblLoadOK load totalLoad n loadFactor =
     (if totalLoad = 0 then True
      else (let avgLoad = f64_div (f64_of_int (wrap64 (totalLoad + 1))) (f64_of_int n);
                threshold = f64_mul avgLoad loadFactor
            in f64_of_int load \<le> threshold))"

definition adapter_matches :: "string \<Rightarrow> endpoint \<Rightarrow> bool" where
  "adapter_matches adapter ep = (if adapter = [] then True else adapter \<in> set (ep_adapters ep))"

definition load_ok :: "group \<Rightarrow> rat \<Rightarrow> endpoint \<Rightarrow> bool" where
  "load_ok g loadFactor ep =
     chwblLoadOK (ep_load g ep) (gr_totalInFlight g) (int (length (gr_endpoints g))) loadFactor"

text \<open>
  The loop over the ring. The third argument is the number of rounds left, so the loop runs
  at most once around; \<open>i\<close> wraps at the end of the slice.
\<close>

fun chwbl_walk ::
  "group \<Rightarrow> rat \<Rightarrow> string \<Rightarrow> nat \<Rightarrow> nat \<Rightarrow> (string \<times> endpoint) option
     \<Rightarrow> (unit, lookup_metric list \<times> endpoint option) outcome" where
  "chwbl_walk g loadFactor adapter 0 i dflt =
     (case dflt of
        Some (name, ep) \<Rightarrow>
          Done ([MIterations (length (gr_sorted g)), MFinal name, MDefault name], Some ep)
      | None \<Rightarrow> Done ([], None))"
| "chwbl_walk g loadFactor adapter (Suc k) i dflt =
     (let name = gm_get [] (gr_hashes g) (gr_sorted g ! i)
      in case gm_lookup (gr_endpoints g) name of
           None \<Rightarrow> Panic ''endpoints corrupted''
         | Some ep \<Rightarrow>
             (let dflt' = (if adapter_matches adapter ep \<and> dflt = None
                              then Some (name, ep) else dflt)
              in if adapter_matches adapter ep \<and> load_ok g loadFactor ep
                 then Done ([MIterations (length (gr_sorted g) - k), MFinal name], Some ep)
                 else chwbl_walk g loadFactor adapter k
                        (if length (gr_sorted g) \<le> i + 1 then 0 else i + 1) dflt'))"

definition chwblGetAddr ::
  "(string \<Rightarrow> 64 word) \<Rightarrow> group \<Rightarrow> string \<Rightarrow> rat \<Rightarrow> string
     \<Rightarrow> (unit, lookup_metric list \<times> endpoint option) outcome" where
  "chwblGetAddr xx g key loadFactor adapter =
     (if length (gr_hashes g) = 0 then Done ([], None)
      else outcome_bind (chwblSearch (chwblHash xx key) (gr_sorted g)) (\<lambda>(hash0, i0).
        let name0 = gm_get [] (gr_hashes g) hash0
        in outcome_bind
             (chwbl_walk g loadFactor adapter (length (gr_sorted g)) i0 None) (\<lambda>(ms, r).
               Done (MInitial name0 # ms, r))))"

subsection \<open>The binary search of chwblDeleteSortedHash\<close>

lemma delete_search_correct:
  assumes "sorted xs" "0 \<le> left" "right < int (length xs)"
    and "\<And>k. k < length xs \<Longrightarrow> int k < left \<Longrightarrow> xs ! k < val"
    and "\<And>k. k < length xs \<Longrightarrow> right < int k \<Longrightarrow> val < xs ! k"
  shows "case delete_search xs val left right of
           None \<Rightarrow> val \<notin> set xs | Some i \<Rightarrow> i < length xs \<and> xs ! i = val"
  using assms
proof (induction xs val left right rule: delete_search.induct)
  case (1 xs val left right)
  show ?case
  proof (cases "left \<le> right")
    case False
    have "xs ! k \<noteq> val" if "k < length xs" for k
      using "1.prems"(4,5) [OF that] False by (cases "int k < left") auto
    then have "val \<notin> set xs" by (auto simp: in_set_conv_nth)
    with False show ?thesis by (subst delete_search.simps) simp
  next
    case True
    define m where "m = (left + right) div 2"
    have m: "left \<le> m" "m \<le> right" "0 \<le> m" "nat m < length xs"
      using True "1.prems"(2,3) by (auto simp: m_def)
    consider "xs ! nat m = val" | "xs ! nat m < val" | "val < xs ! nat m"
      by (meson linorder_neqE)
    then show ?thesis
    proof cases
      case 1
      then show ?thesis using True m by (subst delete_search.simps) (simp add: Let_def flip: m_def)
    next
      case 2
      have eq: "delete_search xs val left right = delete_search xs val (m + 1) right"
        using True 2 by (subst delete_search.simps) (auto simp add: Let_def simp flip: m_def)
      have "xs ! k < val" if "k < length xs" "int k < m + 1" for k
      proof -
        have "xs ! k \<le> xs ! nat m"
          using "1.prems"(1) that m by (intro sorted_nth_mono) auto
        with 2 show ?thesis by simp
      qed
      moreover have "xs ! nat m \<noteq> val" using 2 by simp
      ultimately show ?thesis unfolding eq
        using m "1.prems" by (intro "1.IH"(1) [OF True m_def refl _ 2]) auto
    next
      case 3
      have eq: "delete_search xs val left right = delete_search xs val left (m - 1)"
        using True 3 by (subst delete_search.simps) (auto simp add: Let_def simp flip: m_def)
      have "val < xs ! k" if "k < length xs" "m - 1 < int k" for k
      proof -
        have "xs ! nat m \<le> xs ! k"
          using "1.prems"(1) that m by (intro sorted_nth_mono) auto
        with 3 show ?thesis by simp
      qed
      moreover have "xs ! nat m \<noteq> val" "\<not> xs ! nat m < val" using 3 by auto
      ultimately show ?thesis unfolding eq
        using m "1.prems" by (intro "1.IH"(2) [OF True m_def refl]) auto
    qed
  qed
qed

lemma mset_take_drop_Suc:
  "i < length xs \<Longrightarrow> mset (take i xs @ drop (Suc i) xs) = mset xs - {#xs ! i#}"
  by (metis (no_types, lifting) add_mset_remove_trivial id_take_nth_drop mset.simps(2)
      mset_append union_mset_add_mset_right)

text \<open>On a sorted slice the routine removes exactly one occurrence, wherever it found it.\<close>

lemma chwblDeleteSortedHash_eq:
  assumes "sorted xs"
  shows "chwblDeleteSortedHash val xs = remove1 val xs"
proof -
  let ?r = "delete_search xs val 0 (int (length xs) - 1)"
  have r: "case ?r of None \<Rightarrow> val \<notin> set xs | Some i \<Rightarrow> i < length xs \<and> xs ! i = val"
    using assms by (intro delete_search_correct) auto
  show ?thesis
  proof (cases ?r)
    case None
    with r show ?thesis by (simp add: chwblDeleteSortedHash_def remove1_idem)
  next
    case (Some i)
    with r have i: "i < length xs" "xs ! i = val" by simp_all
    have "sorted (take i xs @ xs ! i # drop (Suc i) xs)"
      using assms id_take_nth_drop [OF i(1)] by simp
    then have "sorted (take i xs @ drop (Suc i) xs)"
      by (auto simp: sorted_append)
    moreover have "sorted (remove1 val xs)" using assms by (rule sorted_remove1)
    moreover have "mset (take i xs @ drop (Suc i) xs) = mset (remove1 val xs)"
      using i by (simp add: mset_take_drop_Suc del: mset_append)
    ultimately have "take i xs @ drop (Suc i) xs = remove1 val xs"
      by (metis properties_for_sort)
    with Some show ?thesis by (simp add: chwblDeleteSortedHash_def)
  qed
qed

subsection \<open>The ring invariant\<close>

text \<open>
  The slice is sorted without duplicates, and a hash belongs to an endpoint exactly when it
  is the hash of one of its replicas; so the slice lists the replicas of the endpoints.
\<close>

definition ring_inv :: "(string \<Rightarrow> 64 word) \<Rightarrow> group \<Rightarrow> bool" where
  "ring_inv xx g \<longleftrightarrow>
     gm_wf (gr_endpoints g) \<and> sorted (gr_sorted g) \<and> distinct (gr_sorted g)
     \<and> (\<forall>h name. gm_lookup (gr_hashes g) h = Some name \<longleftrightarrow>
          gm_has (gr_endpoints g) name \<and> h \<in> set (replica_hashes xx (gr_replication g) name))
     \<and> (\<forall>h. h \<in> set (gr_sorted g) \<longleftrightarrow> gm_has (gr_hashes g) h)"

text \<open>The hypothesis under which the ring is sound: no two replicas share a hash.\<close>

definition no_collision :: "(string \<Rightarrow> 64 word) \<Rightarrow> int \<Rightarrow> string set \<Rightarrow> bool" where
  "no_collision xx r names \<longleftrightarrow>
     (\<forall>n\<in>names. distinct (replica_hashes xx r n)) \<and>
     (\<forall>n\<in>names. \<forall>m\<in>names. n \<noteq> m \<longrightarrow>
        set (replica_hashes xx r n) \<inter> set (replica_hashes xx r m) = {})"

lemma no_collision_mono: "no_collision xx r B \<Longrightarrow> A \<subseteq> B \<Longrightarrow> no_collision xx r A"
  unfolding no_collision_def by blast

lemma ring_inv_new [simp]: "ring_inv xx (newEndpointGroup lb)"
  by (simp add: ring_inv_def newEndpointGroup_def)

lemma ring_invI:
  assumes "gm_wf (gr_endpoints g)" "sorted (gr_sorted g)" "distinct (gr_sorted g)"
    and "\<And>h name. gm_lookup (gr_hashes g) h = Some name \<longleftrightarrow>
          gm_has (gr_endpoints g) name \<and> h \<in> set (replica_hashes xx (gr_replication g) name)"
    and "\<And>h. h \<in> set (gr_sorted g) \<longleftrightarrow> gm_has (gr_hashes g) h"
  shows "ring_inv xx g"
  using assms by (simp add: ring_inv_def)

lemma ring_invD:
  assumes "ring_inv xx g"
  shows "gm_wf (gr_endpoints g)" "sorted (gr_sorted g)" "distinct (gr_sorted g)"
  using assms by (simp_all add: ring_inv_def)

lemma ring_inv_lookup:
  "ring_inv xx g \<Longrightarrow> gm_lookup (gr_hashes g) h = Some name \<longleftrightarrow>
     gm_has (gr_endpoints g) name \<and> h \<in> set (replica_hashes xx (gr_replication g) name)"
  by (simp add: ring_inv_def)

lemma ring_inv_sorted: "ring_inv xx g \<Longrightarrow> h \<in> set (gr_sorted g) \<longleftrightarrow> gm_has (gr_hashes g) h"
  by (simp add: ring_inv_def)

text \<open>The effect of the two loops over the replicas.\<close>

lemma add_loop:
  "foldl (\<lambda>g h. g\<lparr>gr_hashes := gm_put h name (gr_hashes g), gr_sorted := gr_sorted g @ [h]\<rparr>) g hs
   = g\<lparr>gr_hashes := foldl (\<lambda>m h. gm_put h name m) (gr_hashes g) hs, gr_sorted := gr_sorted g @ hs\<rparr>"
  by (induction hs arbitrary: g) simp_all

lemma remove_loop:
  "foldl (\<lambda>g h. g\<lparr>gr_hashes := gm_del h (gr_hashes g),
                   gr_sorted := chwblDeleteSortedHash h (gr_sorted g)\<rparr>) g hs
   = g\<lparr>gr_hashes := foldl (\<lambda>m h. gm_del h m) (gr_hashes g) hs,
       gr_sorted := foldl (\<lambda>s h. chwblDeleteSortedHash h s) (gr_sorted g) hs\<rparr>"
  by (induction hs arbitrary: g) simp_all

lemma lookup_put_loop:
  "gm_lookup (foldl (\<lambda>m h. gm_put h name m) m hs) h
   = (if h \<in> set hs then Some name else gm_lookup m h)"
  by (induction hs arbitrary: m) auto

lemma lookup_del_loop:
  "gm_lookup (foldl (\<lambda>m h. gm_del h m) m hs) h = (if h \<in> set hs then None else gm_lookup m h)"
  by (induction hs arbitrary: m) auto

lemma delete_loop:
  assumes "sorted s" "distinct s"
  shows "foldl (\<lambda>s h. chwblDeleteSortedHash h s) s hs = filter (\<lambda>h. h \<notin> set hs) s"
  using assms
proof (induction hs arbitrary: s)
  case (Cons h hs)
  have eq: "chwblDeleteSortedHash h s = filter (\<lambda>x. x \<noteq> h) s"
    using Cons.prems by (simp add: chwblDeleteSortedHash_eq distinct_remove1_removeAll
        removeAll_filter_not_eq eq_commute)
  have "sorted (filter (\<lambda>x. x \<noteq> h) s)" "distinct (filter (\<lambda>x. x \<noteq> h) s)"
    using Cons.prems by (simp_all add: sorted_wrt_filter)
  then show ?case using Cons.IH by (simp add: eq conj_commute)
qed simp

lemma chwblAddEndpoint_simps [simp]:
  "gr_endpoints (chwblAddEndpoint xx name g) = gr_endpoints g"
  "gr_totalInFlight (chwblAddEndpoint xx name g) = gr_totalInFlight g"
  "gr_counters (chwblAddEndpoint xx name g) = gr_counters g"
  "gr_next (chwblAddEndpoint xx name g) = gr_next g"
  "gr_replication (chwblAddEndpoint xx name g) = gr_replication g"
  "gr_sorted (chwblAddEndpoint xx name g)
     = sort_slice (gr_sorted g @ replica_hashes xx (gr_replication g) name)"
  "gm_lookup (gr_hashes (chwblAddEndpoint xx name g)) h
     = (if h \<in> set (replica_hashes xx (gr_replication g) name) then Some name
        else gm_lookup (gr_hashes g) h)"
  by (simp_all add: chwblAddEndpoint_def add_loop lookup_put_loop Let_def)

lemma chwblRemoveEndpoint_simps [simp]:
  "gr_endpoints (chwblRemoveEndpoint xx name g) = gr_endpoints g"
  "gr_totalInFlight (chwblRemoveEndpoint xx name g) = gr_totalInFlight g"
  "gr_counters (chwblRemoveEndpoint xx name g) = gr_counters g"
  "gr_next (chwblRemoveEndpoint xx name g) = gr_next g"
  "gr_replication (chwblRemoveEndpoint xx name g) = gr_replication g"
  "gm_lookup (gr_hashes (chwblRemoveEndpoint xx name g)) h
     = (if h \<in> set (replica_hashes xx (gr_replication g) name) then None
        else gm_lookup (gr_hashes g) h)"
  by (simp_all add: chwblRemoveEndpoint_def remove_loop lookup_del_loop)

lemma chwblRemoveEndpoint_sorted:
  "sorted (gr_sorted g) \<Longrightarrow> distinct (gr_sorted g) \<Longrightarrow>
   gr_sorted (chwblRemoveEndpoint xx name g)
     = filter (\<lambda>h. h \<notin> set (replica_hashes xx (gr_replication g) name)) (gr_sorted g)"
  by (simp add: chwblRemoveEndpoint_def remove_loop delete_loop)

lemma gm_has_lookup: "gm_has m k \<longleftrightarrow> (\<exists>v. gm_lookup m k = Some v)"
  by (auto simp: gm_has_def)

text \<open>Registering a new endpoint and then its replicas keeps the invariant.\<close>

lemma ring_inv_add:
  assumes inv: "ring_inv xx g" and new: "\<not> gm_has (gr_endpoints g) name"
    and nc: "no_collision xx (gr_replication g) (insert name (set (gm_keys (gr_endpoints g))))"
  shows "ring_inv xx (chwblAddEndpoint xx name (g\<lparr>gr_endpoints := gm_put name ep (gr_endpoints g)\<rparr>))"
proof -
  let ?R = "\<lambda>n. set (replica_hashes xx (gr_replication g) n)"
  have lk: "gm_lookup (gr_hashes g) h = Some n \<longleftrightarrow> gm_has (gr_endpoints g) n \<and> h \<in> ?R n" for h n
    using inv by (simp add: ring_inv_def)
  have st: "h \<in> set (gr_sorted g) \<longleftrightarrow> gm_has (gr_hashes g) h" for h
    using inv by (simp add: ring_inv_def)
  have disj: "\<not> (gm_has (gr_endpoints g) n \<and> h \<in> ?R n)" if "h \<in> ?R name" for h n
  proof
    assume n: "gm_has (gr_endpoints g) n \<and> h \<in> ?R n"
    then have "n \<noteq> name" using new by auto
    with nc n that show False by (auto simp: no_collision_def gm_has_keys)
  qed
  then have none: "gm_lookup (gr_hashes g) h = None" if "h \<in> ?R name" for h
    using that lk by (metis not_None_eq)
  then have "set (gr_sorted g) \<inter> ?R name = {}"
    by (auto simp: st gm_has_def)
  moreover have "distinct (replica_hashes xx (gr_replication g) name)"
    using nc by (simp add: no_collision_def)
  moreover have eqv: "(if h \<in> ?R name then Some name else gm_lookup (gr_hashes g) h) = Some n
      \<longleftrightarrow> (n = name \<or> gm_has (gr_endpoints g) n) \<and> h \<in> ?R n" for h n
    using disj [of h n] lk [of h n] by auto
  ultimately show ?thesis
  proof (intro ring_invI, goal_cases)
    case (4 h n)
    show ?case using eqv [of h n] by (simp split del: if_split cong: if_cong)
  qed (use inv in \<open>auto simp: st gm_has_def [of "gr_hashes _"] ring_invD\<close>)
qed

lemma ring_inv_remove:
  assumes inv: "ring_inv xx g" and mem: "gm_has (gr_endpoints g) name"
  shows "ring_inv xx (chwblRemoveEndpoint xx name g\<lparr>gr_endpoints := gm_del name (gr_endpoints g)\<rparr>)"
proof -
  let ?R = "\<lambda>n. set (replica_hashes xx (gr_replication g) n)"
  have lk: "gm_lookup (gr_hashes g) h = Some n \<longleftrightarrow> gm_has (gr_endpoints g) n \<and> h \<in> ?R n" for h n
    using inv by (simp add: ring_inv_def)
  have st: "h \<in> set (gr_sorted g) \<longleftrightarrow> gm_has (gr_hashes g) h" for h
    using inv by (simp add: ring_inv_def)
  have s: "gr_sorted (chwblRemoveEndpoint xx name g) = filter (\<lambda>h. h \<notin> ?R name) (gr_sorted g)"
    using inv by (intro chwblRemoveEndpoint_sorted) (simp_all add: ring_inv_def)
  have eqv: "(if h \<in> ?R name then None else gm_lookup (gr_hashes g) h) = Some n
      \<longleftrightarrow> (n \<noteq> name \<and> gm_has (gr_endpoints g) n) \<and> h \<in> ?R n" for h n
    using lk [of h n] lk [of h name] mem by auto
  show ?thesis
  proof (rule ring_invI, goal_cases)
    case (4 h n)
    show ?case using eqv [of h n] by (simp split del: if_split cong: if_cong)
  qed (use inv in \<open>auto simp: s st gm_has_def [of "gr_hashes _"] ring_invD sorted_wrt_filter\<close>)
qed

end
