(* ===== verification/Endpoint_Picker.thy ===== *)
theory Endpoint_Picker
  imports Hash_Ring
begin

section \<open>The interface of a load-balancing strategy\<close>

text \<open>
  \<open>group.getBestAddr\<close> calls one of two strategies on its endpoints. What it relies on: a call
  returns (it does not panic), an endpoint it returns is in the group and can serve the
  adapter, and it returns none only when no endpoint can.
\<close>

text \<open>Some endpoint of the group serves the adapter.\<close>

definition eligible :: "group \<Rightarrow> string \<Rightarrow> bool" where
  "eligible g ad \<longleftrightarrow> list_ex (\<lambda>e. adapter_matches ad (snd e)) (gr_endpoints g)"

lemma eligible_iff:
  "gm_wf (gr_endpoints g) \<Longrightarrow>
   eligible g ad \<longleftrightarrow> (\<exists>name ep. gm_lookup (gr_endpoints g) name = Some ep \<and> adapter_matches ad ep)"
  unfolding eligible_def list_ex_iff by (metis gm_lookup_in_set gm_wf_in_set prod.collapse snd_conv)

locale endpoint_picker =
  fixes pick :: "group \<Rightarrow> string \<Rightarrow> (unit, endpoint option) outcome"
    and ok :: "group \<Rightarrow> bool"
  assumes ok_wf: "ok g \<Longrightarrow> gm_wf (gr_endpoints g)"
    and pick_returns: "ok g \<Longrightarrow> \<exists>r. pick g ad = Done r"
    and pick_member: "ok g \<Longrightarrow> pick g ad = Done (Some ep) \<Longrightarrow>
          \<exists>name. gm_lookup (gr_endpoints g) name = Some ep"
    and pick_serves: "ok g \<Longrightarrow> pick g ad = Done (Some ep) \<Longrightarrow> adapter_matches ad ep"
    and pick_complete: "ok g \<Longrightarrow> pick g ad = Done None \<Longrightarrow> \<not> eligible g ad"
begin

lemma pick_none_iff: "ok g \<Longrightarrow> pick g ad = Done None \<longleftrightarrow> \<not> eligible g ad"
  using pick_returns [of g ad] pick_member [of g ad] pick_serves [of g ad] pick_complete [of g ad]
    eligible_iff [OF ok_wf, of g ad]
  by (metis option.exhaust)

lemma pick_some_iff: "ok g \<Longrightarrow> (\<exists>ep. pick g ad = Done (Some ep)) \<longleftrightarrow> eligible g ad"
  using pick_none_iff [of g ad] pick_returns [of g ad]
  by (metis option.exhaust option.distinct(1) outcome.inject(1))

lemma pick_no_panic: "ok g \<Longrightarrow> \<not> is_panic (pick g ad)"
  using pick_returns [of g ad] by auto

lemma pick_no_adapter: "ok g \<Longrightarrow> gr_endpoints g \<noteq> [] \<Longrightarrow> \<exists>ep. pick g [] = Done (Some ep)"
  by (cases "gr_endpoints g") (auto simp: pick_some_iff eligible_def adapter_matches_def)

end

end
