(* ===== verification/Ring_Lookup.thy ===== *)
theory Ring_Lookup
  imports Endpoint_Picker
begin

section \<open>What a lookup on the ring returns\<close>

text \<open>
  An abstract specification of \<open>chwblGetAddr\<close>: go clockwise once around the ring from the
  hash of the key and take the first endpoint that has the adapter and an acceptable load,
  or else the first that has the adapter. The loop with its wrapping index implements it.
  From the specification follow the guarantees of consistent hashing with bounded loads.
\<close>

subsection \<open>The specification\<close>

definition clockwise :: "64 word list \<Rightarrow> 64 word \<Rightarrow> 64 word list" where
  "clockwise hs k = filter (\<lambda>h. k \<le> h) hs @ filter (\<lambda>h. h < k) hs"

definition ring_entry :: "group \<Rightarrow> 64 word \<Rightarrow> string \<times> endpoint" where
  "ring_entry g h = (let name = gm_get [] (gr_hashes g) h in (name, the (gm_lookup (gr_endpoints g) name)))"

definition ring_pick :: "group \<Rightarrow> rat \<Rightarrow> string \<Rightarrow> 64 word list \<Rightarrow> (string \<times> endpoint) option" where
  "ring_pick g f ad hs =
     (case List.find (\<lambda>e. adapter_matches ad (snd e) \<and> load_ok g f (snd e)) (map (ring_entry g) hs) of
        Some e \<Rightarrow> Some e
      | None \<Rightarrow> List.find (\<lambda>e. adapter_matches ad (snd e)) (map (ring_entry g) hs))"

text \<open>The endpoint a key is sent to.\<close>

definition ring_target :: "(string \<Rightarrow> 64 word) \<Rightarrow> group \<Rightarrow> string \<Rightarrow> rat \<Rightarrow> string \<Rightarrow> (string \<times> endpoint) option" where
  "ring_target xx g key f ad = ring_pick g f ad (clockwise (gr_sorted g) (chwblHash xx key))"

subsection \<open>The loop implements it\<close>

lemma chwblSearch_clockwise:
  assumes "sorted xs" "xs \<noteq> []"
  shows "\<exists>i < length xs. chwblSearch key xs = Done (xs ! i, i) \<and> rotate i xs = clockwise xs key"
proof -
  define j where "j = sort_search (length xs) (\<lambda>i. key \<le> xs ! i)"
  have mono: "key \<le> xs ! b" if "a \<le> b" "b < length xs" "key \<le> xs ! a" for a b
    using that assms(1) by (meson order_trans sorted_nth_mono)
  have j: "j \<le> length xs" "\<And>k. k < j \<Longrightarrow> \<not> key \<le> xs ! k"
    "\<And>k. j \<le> k \<Longrightarrow> k < length xs \<Longrightarrow> key \<le> xs ! k"
    using sort_search_least [of "length xs" "\<lambda>i. key \<le> xs ! i"] mono unfolding j_def by blast+
  have tk: "x < key" if x: "x \<in> set (take j xs)" for x
  proof -
    obtain k where "k < length (take j xs)" "take j xs ! k = x"
      using x unfolding in_set_conv_nth by blast
    with j(2) [of k] show ?thesis by (simp add: not_le)
  qed
  have dk: "key \<le> x" if x: "x \<in> set (drop j xs)" for x
  proof -
    obtain k where "k < length (drop j xs)" "drop j xs ! k = x"
      using x unfolding in_set_conv_nth by blast
    with j(1) j(3) [of "j + k"] show ?thesis by simp
  qed
  have "filter (\<lambda>h. key \<le> h) (take j xs) = []" "filter (\<lambda>h. h < key) (take j xs) = take j xs"
    using tk by (simp_all add: not_le)
  moreover have "filter (\<lambda>h. key \<le> h) (drop j xs) = drop j xs" "filter (\<lambda>h. h < key) (drop j xs) = []"
    using dk by (simp_all add: not_less)
  ultimately have cw: "clockwise xs key = drop j xs @ take j xs"
    unfolding clockwise_def by (metis append_Nil append_Nil2 append_take_drop_id filter_append)
  show ?thesis
  proof (cases "j < length xs")
    case True
    then show ?thesis using cw
      by (intro exI [of _ j]) (simp add: chwblSearch_def Let_def rotate_drop_take flip: j_def)
  next
    case False
    with j(1) have "j = length xs" by simp
    then show ?thesis using cw assms(2)
      by (intro exI [of _ 0]) (simp add: chwblSearch_def Let_def flip: j_def)
  qed
qed

text \<open>The loop over the remaining ring positions, as a recursion over the list of hashes.\<close>

fun walk_list ::
  "group \<Rightarrow> rat \<Rightarrow> string \<Rightarrow> 64 word list \<Rightarrow> (string \<times> endpoint) option
     \<Rightarrow> (string \<times> endpoint) option" where
  "walk_list g f ad [] d = d"
| "walk_list g f ad (h # hs) d =
     (if adapter_matches ad (snd (ring_entry g h)) \<and> load_ok g f (snd (ring_entry g h))
      then Some (ring_entry g h)
      else walk_list g f ad hs
             (if adapter_matches ad (snd (ring_entry g h)) \<and> d = None
              then Some (ring_entry g h) else d))"

lemma walk_list_pick:
  "walk_list g f ad hs d =
     (case List.find (\<lambda>e. adapter_matches ad (snd e) \<and> load_ok g f (snd e)) (map (ring_entry g) hs) of
        Some e \<Rightarrow> Some e
      | None \<Rightarrow> (case d of Some e \<Rightarrow> Some e
                | None \<Rightarrow> List.find (\<lambda>e. adapter_matches ad (snd e)) (map (ring_entry g) hs)))"
  by (induction hs arbitrary: d) (auto split: option.splits)

lemma walk_list_None: "walk_list g f ad hs None = ring_pick g f ad hs"
  by (simp add: walk_list_pick ring_pick_def split: option.split)

lemma rotate_nth_Cons:
  assumes "i < length xs" "Suc k \<le> length xs"
  shows "take (Suc k) (rotate i xs)
    = xs ! i # take k (rotate (if length xs \<le> i + 1 then 0 else i + 1) xs)"
proof -
  have ne: "rotate i xs \<noteq> []" using assms by auto
  have hd: "hd (rotate i xs) = xs ! i" using assms ne by (simp add: hd_conv_nth nth_rotate)
  have "rotate (if length xs \<le> i + 1 then 0 else i + 1) xs = rotate (Suc i) xs"
    using assms by (cases "Suc i = length xs") auto
  also have "\<dots> = tl (rotate i xs) @ [hd (rotate i xs)]"
    using ne by (simp add: rotate1_hd_tl)
  finally have r: "rotate (if length xs \<le> i + 1 then 0 else i + 1) xs
      = tl (rotate i xs) @ [hd (rotate i xs)]" .
  have "k \<le> length (tl (rotate i xs))" using assms by simp
  then show ?thesis unfolding r using ne hd by (cases "rotate i xs") auto
qed

lemma ring_entry_owner:
  assumes "ring_inv xx g" "h \<in> set (gr_sorted g)"
  shows "gm_lookup (gr_endpoints g) (gm_get [] (gr_hashes g) h) = Some (snd (ring_entry g h))"
    and "fst (ring_entry g h) = gm_get [] (gr_hashes g) h"
    and "gm_lookup (gr_endpoints g) (fst (ring_entry g h)) = Some (snd (ring_entry g h))"
    and "h \<in> set (replica_hashes xx (gr_replication g) (fst (ring_entry g h)))"
proof -
  obtain n where n: "gm_lookup (gr_hashes g) h = Some n"
    using assms by (auto simp: ring_inv_def gm_has_def)
  then have "gm_has (gr_endpoints g) n \<and> h \<in> set (replica_hashes xx (gr_replication g) n)"
    using assms by (simp add: ring_inv_def)
  then show "gm_lookup (gr_endpoints g) (gm_get [] (gr_hashes g) h) = Some (snd (ring_entry g h))"
    "fst (ring_entry g h) = gm_get [] (gr_hashes g) h"
    "gm_lookup (gr_endpoints g) (fst (ring_entry g h)) = Some (snd (ring_entry g h))"
    "h \<in> set (replica_hashes xx (gr_replication g) (fst (ring_entry g h)))"
    using n by (auto simp: ring_entry_def Let_def gm_get_def gm_has_def)
qed

lemma chwbl_walk_list:
  assumes inv: "ring_inv xx g" and "i < length (gr_sorted g)" "k \<le> length (gr_sorted g)"
  shows "\<exists>ms. chwbl_walk g f ad k i d
    = Done (ms, map_option snd (walk_list g f ad (take k (rotate i (gr_sorted g))) d))"
  using assms(2-)
proof (induction k arbitrary: i d)
  case 0
  then show ?case by (cases d) auto
next
  case (Suc k)
  let ?h = "gr_sorted g ! i" let ?e = "ring_entry g ?h"
  let ?i = "if length (gr_sorted g) \<le> i + 1 then 0 else i + 1"
  have h: "?h \<in> set (gr_sorted g)" using Suc.prems by simp
  have lk: "gm_lookup (gr_endpoints g) (gm_get [] (gr_hashes g) ?h) = Some (snd ?e)"
    and nm: "gm_get [] (gr_hashes g) ?h = fst ?e"
    using ring_entry_owner [OF inv h] by simp_all
  have i': "?i < length (gr_sorted g)" using Suc.prems by auto
  obtain ms where ms: "chwbl_walk g f ad k ?i d'
    = Done (ms d', map_option snd (walk_list g f ad (take k (rotate ?i (gr_sorted g))) d'))" for d'
    using Suc.IH [OF i'] Suc.prems by (metis (no_types, lifting) Suc_leD)
  have tk: "take (Suc k) (rotate i (gr_sorted g)) = ?h # take k (rotate ?i (gr_sorted g))"
    using Suc.prems by (intro rotate_nth_Cons)
  have dd: "(if adapter_matches ad (snd ?e) \<and> d = None then Some (gm_get [] (gr_hashes g) ?h, snd ?e) else d)
    = (if adapter_matches ad (snd ?e) \<and> d = None then Some ?e else d)"
    by (simp add: nm)
  show ?case
    unfolding tk chwbl_walk.simps Let_def lk option.case(2) dd ms walk_list.simps
    by simp
qed

theorem chwblGetAddr_spec:
  assumes "ring_inv xx g"
  shows "\<exists>ms. chwblGetAddr xx g key f ad = Done (ms, map_option snd (ring_target xx g key f ad))"
proof (cases "gr_sorted g = []")
  case True
  have "gr_hashes g = []"
  proof (rule ccontr)
    assume "gr_hashes g \<noteq> []"
    then have "gm_keys (gr_hashes g) \<noteq> []" by (simp add: gm_keys_def)
    then obtain h where "gm_has (gr_hashes g) h" by (metis gm_has_keys list.set_sel(1))
    with assms True show False by (simp add: ring_inv_def)
  qed
  with True show ?thesis
    by (simp add: chwblGetAddr_def ring_target_def clockwise_def ring_pick_def)
next
  case False
  then have "gm_has (gr_hashes g) (hd (gr_sorted g))"
    using assms list.set_sel(1) unfolding ring_inv_def by blast
  then have ne: "length (gr_hashes g) \<noteq> 0" by auto
  obtain i where i: "i < length (gr_sorted g)"
    "chwblSearch (chwblHash xx key) (gr_sorted g) = Done (gr_sorted g ! i, i)"
    "rotate i (gr_sorted g) = clockwise (gr_sorted g) (chwblHash xx key)"
    using chwblSearch_clockwise [OF ring_invD(2) [OF assms] False] by blast
  obtain ms where "chwbl_walk g f ad (length (gr_sorted g)) i None
      = Done (ms, map_option snd (walk_list g f ad (clockwise (gr_sorted g) (chwblHash xx key)) None))"
    using chwbl_walk_list [OF assms i(1) order_refl, of f ad None] by (auto simp: i(3) [symmetric])
  then show ?thesis
    using ne i(2) by (simp add: chwblGetAddr_def ring_target_def walk_list_None)
qed

subsection \<open>The ring strategy as a picker\<close>

definition ring_ok :: "(string \<Rightarrow> 64 word) \<Rightarrow> group \<Rightarrow> bool" where
  "ring_ok xx g \<longleftrightarrow> ring_inv xx g \<and> 0 < gr_replication g"

definition ring_addr :: "(string \<Rightarrow> 64 word) \<Rightarrow> string \<Rightarrow> rat \<Rightarrow> group \<Rightarrow> string \<Rightarrow> (unit, endpoint option) outcome" where
  "ring_addr xx key f g ad = outcome_bind (chwblGetAddr xx g key f ad) (\<lambda>(ms, r). Done r)"

lemma ring_addr_target:
  "ring_inv xx g \<Longrightarrow> ring_addr xx key f g ad = Done (map_option snd (ring_target xx g key f ad))"
  using chwblGetAddr_spec [of xx g key f ad] by (auto simp: ring_addr_def)

lemma set_clockwise [simp]: "set (clockwise hs k) = set hs"
  by (auto simp: clockwise_def)

lemma ring_pick_Some:
  assumes "ring_pick g f ad hs = Some e"
  shows "e \<in> ring_entry g ` set hs" "adapter_matches ad (snd e)"
  using assms by (auto simp: ring_pick_def dest!: find_SomeD split: option.splits)

lemma ring_pick_None:
  "ring_pick g f ad hs = None \<longleftrightarrow> (\<forall>h \<in> set hs. \<not> adapter_matches ad (snd (ring_entry g h)))"
proof (cases "List.find (\<lambda>e. adapter_matches ad (snd e) \<and> load_ok g f (snd e)) (map (ring_entry g) hs)")
  case None
  then have "ring_pick g f ad hs = List.find (\<lambda>e. adapter_matches ad (snd e)) (map (ring_entry g) hs)"
    by (simp add: ring_pick_def)
  then show ?thesis by (simp add: find_None_iff)
next
  case (Some e)
  then obtain h where "h \<in> set hs" "e = ring_entry g h" "adapter_matches ad (snd e)"
    using find_SomeD by fastforce
  with Some show ?thesis by (auto simp: ring_pick_def)
qed

lemma ring_target_member:
  assumes "ring_inv xx g" "ring_target xx g key f ad = Some (name, ep)"
  shows "gm_lookup (gr_endpoints g) name = Some ep" "adapter_matches ad ep"
proof -
  obtain h where "h \<in> set (gr_sorted g)" "ring_entry g h = (name, ep)"
    using ring_pick_Some(1) assms(2) by (fastforce simp: ring_target_def)
  with ring_entry_owner(3) [OF assms(1)] show "gm_lookup (gr_endpoints g) name = Some ep" by force
  show "adapter_matches ad ep" using ring_pick_Some(2) assms(2) by (fastforce simp: ring_target_def)
qed

text \<open>Every endpoint has a place on the ring.\<close>

lemma ring_entry_of_endpoint:
  assumes "ring_inv xx g" "0 < gr_replication g" "gm_lookup (gr_endpoints g) name = Some ep"
  shows "\<exists>h \<in> set (gr_sorted g). ring_entry g h = (name, ep)"
proof -
  let ?h = "chwblHashEndpointReplica xx name 0"
  have "?h \<in> set (replica_hashes xx (gr_replication g) name)"
    using assms(2) by (auto simp: replica_hashes_def image_iff intro!: bexI [of _ 0])
  then have "gm_lookup (gr_hashes g) ?h = Some name"
    using assms by (simp add: ring_inv_lookup [OF assms(1)] gm_has_def)
  moreover from this have "?h \<in> set (gr_sorted g)"
    by (simp add: ring_inv_sorted [OF assms(1)] gm_has_def)
  ultimately show ?thesis
    using assms(3) by (intro bexI [of _ ?h]) (simp_all add: ring_entry_def gm_get_def)
qed

interpretation ring: endpoint_picker "ring_addr xx key f" "ring_ok xx" for xx key f
proof (unfold_locales, goal_cases)
  case (1 g) then show ?case using ring_invD(1) by (auto simp: ring_ok_def)
next
  case (2 g ad) then show ?case by (simp add: ring_ok_def ring_addr_target)
next
  case (3 g ad ep)
  then obtain name where "ring_target xx g key f ad = Some (name, ep)"
    by (auto simp: ring_ok_def ring_addr_target)
  with 3 show ?case using ring_target_member(1) by (metis ring_ok_def)
next
  case (4 g ad ep)
  then obtain name where "ring_target xx g key f ad = Some (name, ep)"
    by (auto simp: ring_ok_def ring_addr_target)
  with 4 show ?case using ring_target_member(2) by (metis ring_ok_def)
next
  case (5 g ad)
  then have inv: "ring_inv xx g" "0 < gr_replication g" by (simp_all add: ring_ok_def)
  have none: "\<forall>h \<in> set (gr_sorted g). \<not> adapter_matches ad (snd (ring_entry g h))"
    using 5 by (auto simp: ring_addr_target inv ring_target_def ring_pick_None)
  show ?case
    using ring_entry_of_endpoint [OF inv] none eligible_iff [OF ring_invD(1) [OF inv(1)]]
    by (metis snd_conv)
qed

subsection \<open>Bounded loads\<close>

text \<open>
  When the group's total covers the loads of its endpoints and the load factor is at least
  one, some endpoint is under the threshold: the least loaded one. Rounding does not spoil
  the argument, because a 53-bit integer below a quotient or product stays below the rounded
  one.
\<close>

definition loads_covered :: "group \<Rightarrow> bool" where
  "loads_covered g \<longleftrightarrow>
     (\<forall>e \<in> set (gr_endpoints g). 0 \<le> ep_load g (snd e))
     \<and> (\<Sum>e\<leftarrow>gr_endpoints g. ep_load g (snd e)) \<le> gr_totalInFlight g
     \<and> gr_totalInFlight g < 2 ^ 52"

lemma sum_list_ge_const:
  fixes m :: int
  assumes "\<And>x. x \<in> set xs \<Longrightarrow> m \<le> f x"
  shows "m * int (length xs) \<le> (\<Sum>x\<leftarrow>xs. f x)"
  using assms by (induction xs) (force simp: algebra_simps)+

lemma chwblLoadOK_below_mean:
  assumes "0 \<le> m" "m * n \<le> t" "0 < n" "n < 2 ^ 53" "t < 2 ^ 52" "1 \<le> f"
  shows "chwblLoadOK m t n f"
proof (cases "t = 0")
  case False
  have t: "0 \<le> t" using assms mult_nonneg_nonneg [of m n] by linarith
  have mt: "m \<le> t" using assms(1-3) by (smt (verit) mult_le_cancel_left1)
  have w: "wrap64 (t + 1) = t + 1" using assms(5) t by (intro wrap64_id) (simp add: in_int64_def)
  have small: "\<bar>m\<bar> < 2 ^ 53" "\<bar>n\<bar> < 2 ^ 53" "\<bar>t + 1\<bar> < 2 ^ 53" using assms t mt by auto
  let ?avg = "f64_div (of_int (t + 1)) (of_int n)"
  have "of_int (m * n) \<le> (of_int (t + 1) :: rat)" using assms(2) by (simp only: of_int_le_iff)
  then have "of_int m \<le> (of_int (t + 1) :: rat) / of_int n"
    using assms(3) by (simp add: pos_le_divide_eq)
  then have avg: "of_int m \<le> ?avg" by (rule f64_div_ge_int [OF small(1)])
  also have "\<dots> \<le> ?avg * f"
    using assms(1,6) avg by (simp add: mult_le_cancel_left1)
  finally have "of_int m \<le> f64_mul ?avg f" by (rule f64_mul_ge_int [OF small(1)])
  with False small show ?thesis by (simp add: chwblLoadOK_def Let_def w)
qed (simp add: chwblLoadOK_def)

lemma some_endpoint_load_ok:
  assumes "gr_endpoints g \<noteq> []" "loads_covered g" "1 \<le> f" "length (gr_endpoints g) < 2 ^ 53"
  shows "\<exists>e \<in> set (gr_endpoints g). load_ok g f (snd e)"
proof -
  let ?L = "\<lambda>e. ep_load g (snd e)" and ?es = "gr_endpoints g"
  define e where "e = arg_min_list ?L ?es"
  have e: "e \<in> set ?es" and least: "\<And>x. x \<in> set ?es \<Longrightarrow> ?L e \<le> ?L x"
    using assms(1) arg_min_list_in [of ?es ?L] f_arg_min_list_f [of ?es ?L]
    by (simp_all add: e_def Min_le_iff)
  have "?L e * int (length ?es) \<le> gr_totalInFlight g"
    using sum_list_ge_const [of ?es "?L e" ?L] least assms(2) by (simp add: loads_covered_def)
  moreover have "0 \<le> ?L e" using assms(2) e by (simp add: loads_covered_def)
  moreover have "0 < int (length ?es)" using assms(1) by simp
  ultimately have "load_ok g f (snd e)"
    using assms(2-4) unfolding load_ok_def loads_covered_def
    by (intro chwblLoadOK_below_mean) auto
  with e show ?thesis by blast
qed

lemma ring_pick_load_ok:
  assumes "h \<in> set hs" "adapter_matches ad (snd (ring_entry g h))" "load_ok g f (snd (ring_entry g h))"
    and "ring_pick g f ad hs = Some e"
  shows "load_ok g f (snd e)"
  using assms by (fastforce simp: ring_pick_def find_Some_iff find_None_iff split: option.splits)

subsection \<open>Consistency: which keys move\<close>

text \<open>On an idle group every load is acceptable, and the target is the next endpoint on the ring.\<close>

lemma ring_target_idle:
  assumes "gr_totalInFlight g = 0"
  shows "ring_target xx g key f ad = map_option (ring_entry g)
    (List.find (\<lambda>h. adapter_matches ad (snd (ring_entry g h))) (clockwise (gr_sorted g) (chwblHash xx key)))"
  using assms
  by (simp add: ring_target_def ring_pick_def load_ok_def chwblLoadOK_def find_map split: option.split)

lemma clockwise_filter: "clockwise (filter P hs) k = filter P (clockwise hs k)"
  by (simp add: clockwise_def conj_commute)

text \<open>
  If one group's ring is the other's with the replicas of one endpoint left out, a key served
  by a different endpoint keeps its target.
\<close>

lemma ring_target_without:
  assumes idle: "gr_totalInFlight g = 0" "gr_totalInFlight g' = 0"
    and inv: "ring_inv xx g"
    and sub: "gr_sorted g' = filter (\<lambda>h. fst (ring_entry g h) \<noteq> name) (gr_sorted g)"
    and agree: "\<And>h. h \<in> set (gr_sorted g') \<Longrightarrow> ring_entry g' h = ring_entry g h"
    and target: "ring_target xx g key f ad = Some e" "fst e \<noteq> name"
  shows "ring_target xx g' key f ad = Some e"
proof -
  let ?k = "chwblHash xx key"
  let ?M = "\<lambda>g h. adapter_matches ad (snd (ring_entry g h))"
  obtain h where h: "List.find (?M g) (clockwise (gr_sorted g) ?k) = Some h" "e = ring_entry g h"
    using target(1) by (auto simp: ring_target_idle [OF idle(1)])
  have "List.find (?M g') (clockwise (gr_sorted g') ?k) = List.find (?M g) (clockwise (gr_sorted g') ?k)"
    by (rule find_cong_set) (simp add: agree)
  also have "\<dots> = Some h"
    unfolding sub clockwise_filter using h target(2) by (intro find_filter) auto
  finally have f': "List.find (?M g') (clockwise (gr_sorted g') ?k) = Some h" .
  then have "h \<in> set (gr_sorted g')" using find_SomeD by fastforce
  with f' h(2) agree show ?thesis by (simp add: ring_target_idle [OF idle(2)])
qed

end
