(* ===== verification/Least_Load.thy ===== *)
theory Least_Load
  imports Endpoint_Picker
begin

section \<open>The least-load strategy\<close>

text \<open>
  \<open>internal/loadbalancer/balance_least_load.go\<close>: one pass over the endpoint map, keeping the
  first endpoint with the adapter and a load strictly below the best so far. \<open>int\<close> is
  64 bits, so the conversion of the load from \<open>int64\<close> is the identity.
\<close>

fun least_load_loop ::
  "group \<Rightarrow> string \<Rightarrow> (string \<times> endpoint) list \<Rightarrow> endpoint option \<Rightarrow> int \<Rightarrow> endpoint option" where
  "least_load_loop g adapter [] best minInFlight = best"
| "least_load_loop g adapter ((name, ep) # eps) best minInFlight =
     (if adapter \<noteq> [] \<and> adapter \<notin> set (ep_adapters ep) then
        least_load_loop g adapter eps best minInFlight
      else if best = None \<or> ep_load g ep < minInFlight then
        least_load_loop g adapter eps (Some ep) (ep_load g ep)
      else least_load_loop g adapter eps best minInFlight)"

definition getAddrLeastLoad :: "group \<Rightarrow> string \<Rightarrow> endpoint option" where
  "getAddrLeastLoad g adapter = least_load_loop g adapter (gr_endpoints g) None 0"

text \<open>What the loop has established about the entries it has passed.\<close>

definition least_so_far :: "group \<Rightarrow> string \<Rightarrow> (string \<times> endpoint) list \<Rightarrow> endpoint option \<Rightarrow> endpoint option \<Rightarrow> bool" where
  "least_so_far g ad eps best r \<longleftrightarrow>
     (case r of
        None \<Rightarrow> best = None \<and> (\<forall>e \<in> snd ` set eps. \<not> adapter_matches ad e)
      | Some ep \<Rightarrow>
          (best = Some ep \<or> ep \<in> snd ` set eps \<and> adapter_matches ad ep)
          \<and> (\<forall>b. best = Some b \<longrightarrow> ep_load g ep \<le> ep_load g b)
          \<and> (\<forall>e \<in> snd ` set eps. adapter_matches ad e \<longrightarrow> ep_load g ep \<le> ep_load g e))"

lemma least_load_loop_correct:
  assumes "\<And>b. best = Some b \<Longrightarrow> m = ep_load g b"
  shows "least_so_far g ad eps best (least_load_loop g ad eps best m)"
  using assms
proof (induction eps arbitrary: best m)
  case Nil
  then show ?case by (cases best) (auto simp: least_so_far_def)
next
  case (Cons e eps)
  obtain name ep where e: "e = (name, ep)" by force
  consider "\<not> adapter_matches ad ep"
    | "adapter_matches ad ep" "best = None \<or> ep_load g ep < m"
    | b where "adapter_matches ad ep" "best = Some b" "\<not> ep_load g ep < m"
    by (metis not_None_eq)
  then show ?case
  proof cases
    case 1
    then have "least_load_loop g ad (e # eps) best m = least_load_loop g ad eps best m"
      by (simp add: e adapter_matches_def split: if_splits)
    with Cons.IH [of best m] Cons.prems 1 show ?thesis
      by (auto simp: e least_so_far_def split: option.splits)
  next
    case 2
    then have eq: "least_load_loop g ad (e # eps) best m
        = least_load_loop g ad eps (Some ep) (ep_load g ep)"
      by (auto simp add: e adapter_matches_def split: if_splits)
    have "least_so_far g ad eps (Some ep) (least_load_loop g ad eps (Some ep) (ep_load g ep))"
      by (rule Cons.IH) simp
    with eq 2 Cons.prems show ?thesis
      by (auto simp: e least_so_far_def split: option.splits)
  next
    case 3
    then have "least_load_loop g ad (e # eps) best m = least_load_loop g ad eps best m"
      by (simp add: e adapter_matches_def split: if_splits)
    with Cons.IH [of best m] Cons.prems 3 show ?thesis
      by (fastforce simp: e least_so_far_def split: option.splits)
  qed
qed

lemma getAddrLeastLoad_correct:
  "least_so_far g ad (gr_endpoints g) None (getAddrLeastLoad g ad)"
  unfolding getAddrLeastLoad_def by (rule least_load_loop_correct) simp

text \<open>The strategy keeps the contract of a picker on every group with a well-formed map.\<close>

interpretation least_load: endpoint_picker
  "\<lambda>g ad. Done (getAddrLeastLoad g ad)" "\<lambda>g. gm_wf (gr_endpoints g)"
proof (unfold_locales, goal_cases)
  case (3 g ad ep)
  then show ?case
    using getAddrLeastLoad_correct [of g ad] by (auto simp: least_so_far_def gm_wf_in_set)
next
  case (4 g ad ep)
  then show ?case
    using getAddrLeastLoad_correct [of g ad] by (auto simp: least_so_far_def)
next
  case (5 g ad)
  then show ?case
    using getAddrLeastLoad_correct [of g ad] by (auto simp: least_so_far_def eligible_def list_ex_iff)
qed simp_all

lemma getAddrLeastLoad_least:
  assumes "gm_wf (gr_endpoints g)" "getAddrLeastLoad g ad = Some ep"
    and "gm_lookup (gr_endpoints g) name = Some e" "adapter_matches ad e"
  shows "ep_load g ep \<le> ep_load g e"
  using getAddrLeastLoad_correct [of g ad] assms gm_lookup_in_set [OF assms(3)]
  by (force simp: least_so_far_def)

end
