(* ===== verification/Endpoint_Group.thy ===== *)
theory Endpoint_Group
  imports Ring_Lookup Least_Load
begin

section \<open>Endpoint groups\<close>

text \<open>
  The operations of \<open>internal/loadbalancer/group.go\<close> on the state of a group: the
  reconciliation of its endpoints with the observed Pods, the in-flight accounting, and the
  choice of an endpoint. The concurrent use of a group is in \<open>Group_Machine\<close>.
\<close>

text \<open>An observed endpoint has an address and adapters; it carries no counter.\<close>

record observed_endpoint =
  ob_address :: string
  ob_adapters :: "string list"

subsection \<open>reconcileEndpoints\<close>

definition reconcile_one :: "(string \<Rightarrow> 64 word) \<Rightarrow> string \<times> observed_endpoint \<Rightarrow> group \<Rightarrow> group" where
  "reconcile_one xx no g =
     (case gm_lookup (gr_endpoints g) (fst no) of
        Some currentEp \<Rightarrow>
          g\<lparr>gr_endpoints := gm_put (fst no) (currentEp\<lparr>ep_adapters := ob_adapters (snd no)\<rparr>) (gr_endpoints g)\<rparr>
      | None \<Rightarrow>
          chwblAddEndpoint xx (fst no)
            (g\<lparr>gr_counters := (gr_counters g)(gr_next g := 0),
               gr_next := Suc (gr_next g),
               gr_endpoints := gm_put (fst no)
                 \<lparr>ep_address = ob_address (snd no), ep_inFlight = gr_next g, ep_adapters = ob_adapters (snd no)\<rparr>
                 (gr_endpoints g)\<rparr>))"

definition reconcile_stale :: "(string \<Rightarrow> 64 word) \<Rightarrow> (string, observed_endpoint) gomap \<Rightarrow> string \<Rightarrow> group \<Rightarrow> group" where
  "reconcile_stale xx observed name g =
     (if gm_has observed name then g
      else (chwblRemoveEndpoint xx name g)\<lparr>gr_endpoints := gm_del name (gr_endpoints g)\<rparr>)"

definition reconcile_all :: "(string \<Rightarrow> 64 word) \<Rightarrow> (string \<times> observed_endpoint) list \<Rightarrow> group \<Rightarrow> group" where
  "reconcile_all xx os g = foldl (\<lambda>g no. reconcile_one xx no g) g os"

definition reconcile_stale_all :: "(string \<Rightarrow> 64 word) \<Rightarrow> (string, observed_endpoint) gomap \<Rightarrow> string list \<Rightarrow> group \<Rightarrow> group" where
  "reconcile_stale_all xx observed names g = foldl (\<lambda>g n. reconcile_stale xx observed n g) g names"

definition reconcileEndpoints :: "(string \<Rightarrow> 64 word) \<Rightarrow> (string, observed_endpoint) gomap \<Rightarrow> group \<Rightarrow> group" where
  "reconcileEndpoints xx observed g =
     (let g1 = reconcile_all xx observed g
      in reconcile_stale_all xx observed (gm_keys (gr_endpoints g1)) g1)"

subsection \<open>addInFlight, getAllAddrs and the choice of an endpoint\<close>

definition addInFlight :: "nat \<Rightarrow> int \<Rightarrow> group \<Rightarrow> group" where
  "addInFlight ctr add g =
     g\<lparr>gr_totalInFlight := gr_totalInFlight g + add,
       gr_counters := (gr_counters g)(ctr := gr_counters g ctr + add)\<rparr>"

definition getAllAddrs :: "group \<Rightarrow> string list" where
  "getAllAddrs g = map (\<lambda>e. ep_address (snd e)) (gr_endpoints g)"

text \<open>The load-balancing part of a request.\<close>

record lb_request =
  rq_Adapter :: string
  rq_Prefix :: string
  rq_LoadBalancing :: load_balancing

definition load_factor :: "load_balancing \<Rightarrow> rat" where
  "load_factor lb = f64_div (f64_of_int (ph_MeanLoadPercentage (lb_PrefixHash lb))) 100"

text \<open>
  The \<open>switch\<close> of \<open>getBestAddr\<close>: \<open>Error\<close> is the unknown strategy.
\<close>

definition pick_endpoint :: "(string \<Rightarrow> 64 word) \<Rightarrow> lb_request \<Rightarrow> group \<Rightarrow> (string, endpoint option) outcome" where
  "pick_endpoint xx req g =
     (let lb = rq_LoadBalancing req
      in if lb_Strategy lb = PrefixHashStrategy then
           (case ring_addr xx (rq_Adapter req @ rq_Prefix req) (load_factor lb) g (rq_Adapter req) of
              Done r \<Rightarrow> Done r | Error e \<Rightarrow> Error [] | Panic m \<Rightarrow> Panic m)
         else if lb_Strategy lb = LeastLoadStrategy then Done (getAddrLeastLoad g (rq_Adapter req))
         else Error (''unknown load balancing strategy: '' @ lb_Strategy lb))"

subsection \<open>What a reconciliation does\<close>

lemma reconcile_one_simps [simp]:
  "gr_totalInFlight (reconcile_one xx no g) = gr_totalInFlight g"
  "gr_replication (reconcile_one xx no g) = gr_replication g"
  by (simp_all add: reconcile_one_def split: option.split)

lemma reconcile_one_lookup:
  "gm_lookup (gr_endpoints (reconcile_one xx no g)) name =
     (if name = fst no then
        Some (case gm_lookup (gr_endpoints g) name of
           Some ep \<Rightarrow> ep\<lparr>ep_adapters := ob_adapters (snd no)\<rparr>
         | None \<Rightarrow> \<lparr>ep_address = ob_address (snd no), ep_inFlight = gr_next g, ep_adapters = ob_adapters (snd no)\<rparr>)
      else gm_lookup (gr_endpoints g) name)"
  by (auto simp: reconcile_one_def split: option.split)

lemma reconcile_all_simps [simp]:
  "reconcile_all xx [] g = g"
  "reconcile_all xx (no # os) g = reconcile_all xx os (reconcile_one xx no g)"
  by (simp_all add: reconcile_all_def)

lemma reconcile_stale_all_simps [simp]:
  "reconcile_stale_all xx ob [] g = g"
  "reconcile_stale_all xx ob (n # ns) g = reconcile_stale_all xx ob ns (reconcile_stale xx ob n g)"
  by (simp_all add: reconcile_stale_all_def)

lemma reconcile_all_frame [simp]:
  "gr_totalInFlight (reconcile_all xx os g) = gr_totalInFlight g"
  "gr_replication (reconcile_all xx os g) = gr_replication g"
  by (induction os arbitrary: g) simp_all

lemma reconcile_stale_frame [simp]:
  "gr_totalInFlight (reconcile_stale xx ob n g) = gr_totalInFlight g"
  "gr_replication (reconcile_stale xx ob n g) = gr_replication g"
  "gr_counters (reconcile_stale xx ob n g) = gr_counters g"
  "gr_next (reconcile_stale xx ob n g) = gr_next g"
  by (simp_all add: reconcile_stale_def)

lemma reconcile_stale_all_frame [simp]:
  "gr_totalInFlight (reconcile_stale_all xx ob ns g) = gr_totalInFlight g"
  "gr_replication (reconcile_stale_all xx ob ns g) = gr_replication g"
  "gr_counters (reconcile_stale_all xx ob ns g) = gr_counters g"
  "gr_next (reconcile_stale_all xx ob ns g) = gr_next g"
  by (induction ns arbitrary: g) simp_all

lemma reconcile_stale_lookup:
  "gm_lookup (gr_endpoints (reconcile_stale xx ob n g)) name =
     (if name = n \<and> \<not> gm_has ob n then None else gm_lookup (gr_endpoints g) name)"
  by (simp add: reconcile_stale_def)

lemma reconcile_stale_all_lookup:
  "gm_lookup (gr_endpoints (reconcile_stale_all xx ob ns g)) name =
     (if name \<in> set ns \<and> \<not> gm_has ob name then None else gm_lookup (gr_endpoints g) name)"
  by (induction ns arbitrary: g) (auto simp: reconcile_stale_lookup)

lemma reconcile_all_has:
  "gm_has (gr_endpoints (reconcile_all xx os g)) name \<longleftrightarrow> name \<in> fst ` set os \<or> gm_has (gr_endpoints g) name"
  by (induction os arbitrary: g) (auto simp: gm_has_def reconcile_one_lookup)

lemma reconcile_all_other:
  "name \<notin> fst ` set os \<Longrightarrow>
   gm_lookup (gr_endpoints (reconcile_all xx os g)) name = gm_lookup (gr_endpoints g) name"
  by (induction os arbitrary: g) (auto simp: reconcile_one_lookup)

lemma reconcile_all_existing:
  assumes "gm_wf os" "gm_lookup os name = Some obs" "gm_lookup (gr_endpoints g) name = Some ep"
  shows "gm_lookup (gr_endpoints (reconcile_all xx os g)) name = Some (ep\<lparr>ep_adapters := ob_adapters obs\<rparr>)"
  using assms
proof (induction os arbitrary: g ep)
  case (Cons no os)
  obtain n obs' where no: "no = (n, obs')" by force
  show ?case
  proof (cases "n = name")
    case True
    then have "name \<notin> fst ` set os" using Cons.prems(1) no by (simp add: gm_wf_def)
    then show ?thesis using Cons.prems no True by (simp add: reconcile_all_other reconcile_one_lookup)
  next
    case False
    then show ?thesis using Cons no by (simp add: reconcile_one_lookup)
  qed
qed simp

lemma reconcile_one_next: "gr_next g \<le> gr_next (reconcile_one xx no g)"
  by (simp add: reconcile_one_def split: option.split)

lemma reconcile_all_new:
  assumes "gm_wf os" "gm_lookup os name = Some obs" "gm_lookup (gr_endpoints g) name = None"
  shows "\<exists>c \<ge> gr_next g. gm_lookup (gr_endpoints (reconcile_all xx os g)) name
    = Some \<lparr>ep_address = ob_address obs, ep_inFlight = c, ep_adapters = ob_adapters obs\<rparr>"
  using assms
proof (induction os arbitrary: g)
  case (Cons no os)
  obtain n obs' where no: "no = (n, obs')" by force
  show ?case
  proof (cases "n = name")
    case True
    then have "name \<notin> fst ` set os" using Cons.prems(1) no by (simp add: gm_wf_def)
    then show ?thesis using Cons.prems no True by (simp add: reconcile_all_other reconcile_one_lookup)
  next
    case False
    then have "\<exists>c \<ge> gr_next (reconcile_one xx no g).
        gm_lookup (gr_endpoints (reconcile_all xx os (reconcile_one xx no g))) name
        = Some \<lparr>ep_address = ob_address obs, ep_inFlight = c, ep_adapters = ob_adapters obs\<rparr>"
      using Cons no by (intro Cons.IH) (simp_all add: reconcile_one_lookup)
    then show ?thesis using reconcile_one_next [of g xx no] no by (auto intro: order_trans)
  qed
qed simp

subsection \<open>The ring follows the endpoints\<close>

lemma gm_wf_reconcile_one: "gm_wf (gr_endpoints g) \<Longrightarrow> gm_wf (gr_endpoints (reconcile_one xx no g))"
  by (simp add: reconcile_one_def split: option.split)

lemma gm_keys_eq_has: "set (gm_keys m) = {k. gm_has m k}"
  by (auto simp: gm_has_keys)

text \<open>The ring invariant does not look at addresses, counters or adapters.\<close>

lemma ring_inv_cong:
  assumes "ring_inv xx g" "gm_wf (gr_endpoints g')" "\<And>n. gm_has (gr_endpoints g') n \<longleftrightarrow> gm_has (gr_endpoints g) n"
    and "gr_hashes g' = gr_hashes g" "gr_sorted g' = gr_sorted g" "gr_replication g' = gr_replication g"
  shows "ring_inv xx g'"
  using assms by (simp add: ring_inv_def)

lemma ring_inv_reconcile_one:
  assumes inv: "ring_inv xx g"
    and nc: "no_collision xx (gr_replication g) (insert (fst no) {n. gm_has (gr_endpoints g) n})"
  shows "ring_inv xx (reconcile_one xx no g)"
proof (cases "gm_lookup (gr_endpoints g) (fst no)")
  case None
  let ?g = "g\<lparr>gr_counters := (gr_counters g)(gr_next g := 0), gr_next := Suc (gr_next g)\<rparr>"
  have "ring_inv xx ?g" using inv by (rule ring_inv_cong) (simp_all add: ring_invD [OF inv])
  then have "ring_inv xx (chwblAddEndpoint xx (fst no) (?g\<lparr>gr_endpoints := gm_put (fst no) ep (gr_endpoints ?g)\<rparr>))" for ep
    using None nc by (intro ring_inv_add) (simp_all add: gm_has_def gm_keys_eq_has)
  then show ?thesis using None by (simp add: reconcile_one_def)
next
  case (Some ep)
  have "ring_inv xx (g\<lparr>gr_endpoints := gm_put (fst no) ep' (gr_endpoints g)\<rparr>)" for ep'
    using inv by (rule ring_inv_cong) (use Some ring_invD [OF inv] in \<open>auto simp: gm_has_def\<close>)
  with Some show ?thesis by (simp add: reconcile_one_def)
qed

lemma ring_inv_reconcile_all:
  assumes "ring_inv xx g" "no_collision xx (gr_replication g) (fst ` set os \<union> {n. gm_has (gr_endpoints g) n})"
  shows "ring_inv xx (reconcile_all xx os g)"
  using assms
proof (induction os arbitrary: g)
  case (Cons no os)
  have "ring_inv xx (reconcile_one xx no g)"
    using Cons.prems by (intro ring_inv_reconcile_one) (auto intro: no_collision_mono)
  moreover have "{n. gm_has (gr_endpoints (reconcile_one xx no g)) n} = insert (fst no) {n. gm_has (gr_endpoints g) n}"
    by (auto simp: gm_has_def reconcile_one_lookup)
  ultimately show ?case using Cons by simp
qed simp

lemma ring_inv_reconcile_stale:
  "ring_inv xx g \<Longrightarrow> gm_has (gr_endpoints g) n \<Longrightarrow> ring_inv xx (reconcile_stale xx ob n g)"
  using ring_inv_remove [of xx g n] by (simp add: reconcile_stale_def)

lemma ring_inv_reconcile_stale_all:
  assumes "ring_inv xx g" "distinct ns" "\<And>n. n \<in> set ns \<Longrightarrow> gm_has (gr_endpoints g) n"
  shows "ring_inv xx (reconcile_stale_all xx ob ns g)"
  using assms
proof (induction ns arbitrary: g)
  case (Cons n ns)
  have "ring_inv xx (reconcile_stale xx ob n g)" using Cons.prems by (intro ring_inv_reconcile_stale) simp_all
  moreover have "gm_has (gr_endpoints (reconcile_stale xx ob n g)) m" if "m \<in> set ns" for m
    using that Cons.prems by (auto simp: gm_has_def reconcile_stale_lookup)
  ultimately show ?case using Cons by simp
qed simp

lemma ring_inv_reconcileEndpoints:
  assumes "ring_inv xx g" "no_collision xx (gr_replication g) (fst ` set ob \<union> {n. gm_has (gr_endpoints g) n})"
  shows "ring_inv xx (reconcileEndpoints xx ob g)"
proof -
  let ?g = "reconcile_all xx ob g"
  have inv: "ring_inv xx ?g" using assms by (rule ring_inv_reconcile_all)
  have "distinct (gm_keys (gr_endpoints ?g))"
    using ring_invD(1) [OF inv] by (simp add: gm_wf_def gm_keys_def)
  with inv show ?thesis
    unfolding reconcileEndpoints_def Let_def
    by (intro ring_inv_reconcile_stale_all) (simp_all add: gm_has_keys)
qed

lemma reconcileEndpoints_has: "gm_has (gr_endpoints (reconcileEndpoints xx ob g)) n \<longleftrightarrow> gm_has ob n"
proof -
  have "n \<in> fst ` set ob \<longleftrightarrow> gm_has ob n" by (simp add: gm_has_keys gm_keys_def)
  then show ?thesis
    using reconcile_all_has [of xx ob g n]
    by (auto simp: reconcileEndpoints_def Let_def gm_has_def reconcile_stale_all_lookup gm_keys_eq_has)
qed

lemma reconcileEndpoints_lookup:
  "gm_has ob n \<Longrightarrow> gm_lookup (gr_endpoints (reconcileEndpoints xx ob g)) n
     = gm_lookup (gr_endpoints (reconcile_all xx ob g)) n"
  by (simp add: reconcileEndpoints_def Let_def reconcile_stale_all_lookup)

end
