(* ===== verification/Group_Machine.thy ===== *)
theory Group_Machine
  imports Endpoint_Group
begin

section \<open>Concurrent use of an endpoint group\<close>

text \<open>
  \<open>getBestAddr\<close> runs in one goroutine per request, against reconciliations of the same
  group. A step of the machine is one action of one goroutine: taking the read lock,
  evaluating the loop condition and the strategy under the lock, reading the broadcast
  channel, waking, giving up, releasing; or a whole write-locked section of
  \<open>reconcileEndpoints\<close>; or the broadcast that follows it.

  The broadcast channel is its generation number: \<open>broadcastEndpoints\<close> closes the current
  channel and makes the next, so channel \<open>n\<close> is closed when \<open>n < gs_bcast\<close>. The lock is the
  number of read locks held: a writer needs zero. Contexts end at any time, so cancelling a
  waiting goroutine is always possible; \<open>select\<close> chooses among its ready cases freely.
\<close>

subsection \<open>State and steps\<close>

text \<open>Where a goroutine is; the flag is \<open>awaitChangeEndpoints\<close> of the current call.\<close>

datatype pc =
    PStart bool           \<comment> \<open>before \<open>RLock\<close>\<close>
  | PLocked bool          \<comment> \<open>at the loop condition, read lock held\<close>
  | PUnlocked bool        \<comment> \<open>inside the loop, before \<open>awaitEndpoints()\<close>\<close>
  | PWaiting bool nat     \<comment> \<open>in \<open>select\<close>, on a channel\<close>
  | PReturned string nat  \<comment> \<open>returned an address; \<open>decFunc\<close> not called yet\<close>
  | PReleased             \<comment> \<open>\<open>decFunc\<close> called\<close>
  | PCancelled            \<comment> \<open>returned \<open>ctx.Err()\<close>\<close>
  | PError string         \<comment> \<open>returned an unknown-strategy error\<close>
  | PPanic string

record gsys =
  gs_group :: group
  gs_readers :: int
  gs_bcast :: nat
  gs_pending :: nat  \<comment> \<open>reconciliations that have not broadcast yet\<close>
  gs_threads :: "(lb_request \<times> pc) list"

datatype gevent =
    ERequest lb_request
  | EStep nat
  | ECancel nat
  | ERelease nat
  | EReconcile "(string, observed_endpoint) gomap"
  | EBroadcast

definition gs_init :: "load_balancing \<Rightarrow> gsys" where
  "gs_init lb = \<lparr>gs_group = newEndpointGroup lb, gs_readers = 0, gs_bcast = 0, gs_pending = 0, gs_threads = []\<rparr>"

definition set_pc :: "nat \<Rightarrow> pc \<Rightarrow> gsys \<Rightarrow> gsys" where
  "set_pc i p s = s\<lparr>gs_threads := (gs_threads s)[i := (fst (gs_threads s ! i), p)]\<rparr>"

text \<open>
  The section under the read lock: the loop condition, then the strategy. A goroutine that
  finds no endpoint calls \<open>getBestAddr\<close> again with the flag set. The \<open>default\<close> case of the
  \<open>switch\<close> returns without \<open>RUnlock\<close>.
\<close>

definition locked_step :: "(string \<Rightarrow> 64 word) \<Rightarrow> nat \<Rightarrow> bool \<Rightarrow> gsys \<Rightarrow> gsys" where
  "locked_step xx i await s =
     (let unlock = (\<lambda>s. s\<lparr>gs_readers := gs_readers s - 1\<rparr>)
      in if await \<or> gr_endpoints (gs_group s) = [] then set_pc i (PUnlocked await) (unlock s)
         else (case pick_endpoint xx (fst (gs_threads s ! i)) (gs_group s) of
                 Error e \<Rightarrow> set_pc i (PError e) s
               | Panic m \<Rightarrow> set_pc i (PPanic m) s
               | Done None \<Rightarrow> set_pc i (PStart True) (unlock s)
               | Done (Some ep) \<Rightarrow>
                   set_pc i (PReturned (ep_address ep) (ep_inFlight ep))
                     (unlock (s\<lparr>gs_group := addInFlight (ep_inFlight ep) 1 (gs_group s)\<rparr>))))"

text \<open>One event; \<open>None\<close> when it is not enabled.\<close>

fun gstep :: "(string \<Rightarrow> 64 word) \<Rightarrow> gevent \<Rightarrow> gsys \<Rightarrow> gsys option" where
  "gstep xx (ERequest req) s = Some (s\<lparr>gs_threads := gs_threads s @ [(req, PStart False)]\<rparr>)"
| "gstep xx (EStep i) s =
     (if i < length (gs_threads s) then
        (case snd (gs_threads s ! i) of
           PStart a \<Rightarrow> Some (set_pc i (PLocked a) (s\<lparr>gs_readers := gs_readers s + 1\<rparr>))
         | PLocked a \<Rightarrow> Some (locked_step xx i a s)
         | PUnlocked a \<Rightarrow> Some (set_pc i (PWaiting a (gs_bcast s)) s)
         | PWaiting a ch \<Rightarrow> if ch < gs_bcast s then Some (set_pc i (PStart a) s) else None
         | _ \<Rightarrow> None)
      else None)"
| "gstep xx (ECancel i) s =
     (if i < length (gs_threads s) then
        (case snd (gs_threads s ! i) of PWaiting a ch \<Rightarrow> Some (set_pc i PCancelled s) | _ \<Rightarrow> None)
      else None)"
| "gstep xx (ERelease i) s =
     (if i < length (gs_threads s) then
        (case snd (gs_threads s ! i) of
           PReturned addr c \<Rightarrow>
             Some (set_pc i PReleased (s\<lparr>gs_group := addInFlight c (-1) (gs_group s)\<rparr>))
         | _ \<Rightarrow> None)
      else None)"
| "gstep xx (EReconcile ob) s =
     (if gs_readers s = 0 then
        Some (s\<lparr>gs_group := reconcileEndpoints xx ob (gs_group s),
                gs_pending := (if ob = [] then gs_pending s else Suc (gs_pending s))\<rparr>)
      else None)"
| "gstep xx EBroadcast s =
     (if 0 < gs_pending s then Some (s\<lparr>gs_pending := gs_pending s - 1, gs_bcast := Suc (gs_bcast s)\<rparr>)
      else None)"

fun grun :: "(string \<Rightarrow> 64 word) \<Rightarrow> gevent list \<Rightarrow> gsys \<Rightarrow> gsys option" where
  "grun xx [] s = Some s"
| "grun xx (e # es) s = (case gstep xx e s of None \<Rightarrow> None | Some s' \<Rightarrow> grun xx es s')"

text \<open>
  The reachable states, when reconciliations observe endpoints with names in \<open>N\<close> only and
  give each name once, as the map they are built in does.
\<close>

definition event_ok :: "string set \<Rightarrow> gevent \<Rightarrow> bool" where
  "event_ok N e = (case e of EReconcile ob \<Rightarrow> gm_wf ob \<and> set (gm_keys ob) \<subseteq> N | _ \<Rightarrow> True)"

inductive greach :: "(string \<Rightarrow> 64 word) \<Rightarrow> string set \<Rightarrow> load_balancing \<Rightarrow> gsys \<Rightarrow> bool"
  for xx N lb where
  greach_init: "greach xx N lb (gs_init lb)"
| greach_step: "greach xx N lb s \<Longrightarrow> event_ok N e \<Longrightarrow> gstep xx e s = Some s' \<Longrightarrow> greach xx N lb s'"

lemma greach_run:
  assumes "greach xx N lb s" "list_all (event_ok N) es" "grun xx es s = Some s'"
  shows "greach xx N lb s'"
  using assms
proof (induction es arbitrary: s)
  case (Cons e es)
  then obtain s1 where s1: "gstep xx e s = Some s1" "grun xx es s1 = Some s'"
    by (auto split: option.splits)
  then have "greach xx N lb s1" using Cons.prems by (auto intro: greach_step)
  then show ?case using Cons s1 by simp
qed simp

text \<open>What each kind of step is, for case analyses.\<close>

lemma gstep_cases [consumes 1, case_names request lock locked unlocked wake cancel release reconcile broadcast]:
  assumes "gstep xx e s = Some s'"
  obtains
    (request) req where "e = ERequest req" "s' = s\<lparr>gs_threads := gs_threads s @ [(req, PStart False)]\<rparr>"
  | (lock) i a where "e = EStep i" "i < length (gs_threads s)" "snd (gs_threads s ! i) = PStart a"
      "s' = set_pc i (PLocked a) (s\<lparr>gs_readers := gs_readers s + 1\<rparr>)"
  | (locked) i a where "e = EStep i" "i < length (gs_threads s)" "snd (gs_threads s ! i) = PLocked a"
      "s' = locked_step xx i a s"
  | (unlocked) i a where "e = EStep i" "i < length (gs_threads s)" "snd (gs_threads s ! i) = PUnlocked a"
      "s' = set_pc i (PWaiting a (gs_bcast s)) s"
  | (wake) i a ch where "e = EStep i" "i < length (gs_threads s)" "snd (gs_threads s ! i) = PWaiting a ch"
      "ch < gs_bcast s" "s' = set_pc i (PStart a) s"
  | (cancel) i a ch where "e = ECancel i" "i < length (gs_threads s)" "snd (gs_threads s ! i) = PWaiting a ch"
      "s' = set_pc i PCancelled s"
  | (release) i addr c where "e = ERelease i" "i < length (gs_threads s)"
      "snd (gs_threads s ! i) = PReturned addr c"
      "s' = set_pc i PReleased (s\<lparr>gs_group := addInFlight c (-1) (gs_group s)\<rparr>)"
  | (reconcile) ob where "e = EReconcile ob" "gs_readers s = 0"
      "s' = s\<lparr>gs_group := reconcileEndpoints xx ob (gs_group s),
              gs_pending := (if ob = [] then gs_pending s else Suc (gs_pending s))\<rparr>"
  | (broadcast) "e = EBroadcast" "0 < gs_pending s"
      "s' = s\<lparr>gs_pending := gs_pending s - 1, gs_bcast := Suc (gs_bcast s)\<rparr>"
  using assms by (cases e) (auto split: if_splits pc.splits)

text \<open>The outcomes of the section under the lock.\<close>

lemma locked_step_cases [case_names wait error panic none some]:
  obtains
    (wait) "await \<or> gr_endpoints (gs_group s) = []"
      "locked_step xx i await s = set_pc i (PUnlocked await) (s\<lparr>gs_readers := gs_readers s - 1\<rparr>)"
  | (error) e where "\<not> await" "gr_endpoints (gs_group s) \<noteq> []"
      "pick_endpoint xx (fst (gs_threads s ! i)) (gs_group s) = Error e"
      "locked_step xx i await s = set_pc i (PError e) s"
  | (panic) m where "\<not> await" "gr_endpoints (gs_group s) \<noteq> []"
      "pick_endpoint xx (fst (gs_threads s ! i)) (gs_group s) = Panic m"
      "locked_step xx i await s = set_pc i (PPanic m) s"
  | (none) "\<not> await" "gr_endpoints (gs_group s) \<noteq> []"
      "pick_endpoint xx (fst (gs_threads s ! i)) (gs_group s) = Done None"
      "locked_step xx i await s = set_pc i (PStart True) (s\<lparr>gs_readers := gs_readers s - 1\<rparr>)"
  | (some) ep where "\<not> await" "gr_endpoints (gs_group s) \<noteq> []"
      "pick_endpoint xx (fst (gs_threads s ! i)) (gs_group s) = Done (Some ep)"
      "locked_step xx i await s = set_pc i (PReturned (ep_address ep) (ep_inFlight ep))
         (s\<lparr>gs_group := addInFlight (ep_inFlight ep) 1 (gs_group s), gs_readers := gs_readers s - 1\<rparr>)"
proof (cases "await \<or> gr_endpoints (gs_group s) = []")
  case True
  then show ?thesis by (intro that(1)) (auto simp: locked_step_def)
next
  case False
  show ?thesis
  proof (cases "pick_endpoint xx (fst (gs_threads s ! i)) (gs_group s)")
    case (Done r)
    with False show ?thesis using that(4,5) by (cases r) (auto simp: locked_step_def)
  next
    case (Error e)
    with False show ?thesis by (intro that(2) [of e]) (auto simp: locked_step_def)
  next
    case (Panic m)
    with False show ?thesis by (intro that(3) [of m]) (auto simp: locked_step_def)
  qed
qed

end
