(* ===== verification/Group_Invariants.thy ===== *)
theory Group_Invariants
  imports Group_Machine
begin

section \<open>Invariants of an endpoint group under concurrency\<close>

text \<open>
  In-flight accounting: the counters are the numbers of requests that hold an address and have
  not released it. Lock accounting: the read locks held are those of the goroutines in the
  locked section, and of those that left it through the \<open>default\<close> case or a panic.
\<close>

subsection \<open>Counters are not shared and not reused\<close>

definition ctrs :: "group \<Rightarrow> nat list" where
  "ctrs g = map (\<lambda>e. ep_inFlight (snd e)) (gr_endpoints g)"

definition group_wf :: "group \<Rightarrow> bool" where
  "group_wf g \<longleftrightarrow> gm_wf (gr_endpoints g) \<and> distinct (ctrs g) \<and> (\<forall>c \<in> set (ctrs g). c < gr_next g)
     \<and> (\<forall>c \<ge> gr_next g. gr_counters g c = 0)"

lemma gm_put_new: "gm_lookup m k = None \<Longrightarrow> gm_put k v m = m @ [(k, v)]"
  by (induction m) (auto simp: gm_put_def split: if_splits)

lemma map_gm_put_same:
  "gm_lookup m k = Some v \<Longrightarrow> f (k, v') = f (k, v) \<Longrightarrow> map f (gm_put k v' m) = map f m"
  by (induction m) (auto simp: gm_put_def split: if_splits)

lemma gm_del_filter: "gm_del k m = filter (\<lambda>e. fst e \<noteq> k) m"
  by (induction m) (auto simp: gm_del_def)

lemma group_wf_reconcile_one: "group_wf g \<Longrightarrow> group_wf (reconcile_one xx no g)"
proof (cases "gm_lookup (gr_endpoints g) (fst no)")
  case None
  assume wf: "group_wf g"
  let ?ep = "\<lparr>ep_address = ob_address (snd no), ep_inFlight = gr_next g, ep_adapters = ob_adapters (snd no)\<rparr>"
  have eps: "gr_endpoints (reconcile_one xx no g) = gr_endpoints g @ [(fst no, ?ep)]"
    using None by (simp add: reconcile_one_def gm_put_new)
  have "gm_wf (gr_endpoints (reconcile_one xx no g))"
    using wf gm_wf_put [of "gr_endpoints g" "fst no" ?ep] None
    by (simp add: group_wf_def reconcile_one_def)
  moreover have "ctrs (reconcile_one xx no g) = ctrs g @ [gr_next g]"
    by (simp add: ctrs_def eps)
  moreover have "gr_next (reconcile_one xx no g) = Suc (gr_next g)"
    "gr_counters (reconcile_one xx no g) = (gr_counters g)(gr_next g := 0)"
    using None by (simp_all add: reconcile_one_def)
  ultimately show ?thesis
    using wf by (auto simp: group_wf_def less_Suc_eq)
next
  case (Some ep)
  let ?m = "gm_put (fst no) (ep\<lparr>ep_adapters := ob_adapters (snd no)\<rparr>) (gr_endpoints g)"
  have "map (\<lambda>e. ep_inFlight (snd e)) ?m = ctrs g"
    using Some unfolding ctrs_def by (intro map_gm_put_same) simp_all
  with Some show "group_wf g \<Longrightarrow> ?thesis" by (simp add: reconcile_one_def group_wf_def ctrs_def [of "_\<lparr>gr_endpoints := _\<rparr>"])
qed

lemma counters_reconcile_one: "group_wf g \<Longrightarrow> gr_counters (reconcile_one xx no g) = gr_counters g"
  by (auto simp: reconcile_one_def group_wf_def split: option.split)

lemma group_wf_reconcile_all:
  "group_wf g \<Longrightarrow> group_wf (reconcile_all xx os g) \<and> gr_counters (reconcile_all xx os g) = gr_counters g
     \<and> gr_next g \<le> gr_next (reconcile_all xx os g)"
proof (induction os arbitrary: g)
  case (Cons no os)
  then show ?case
    using Cons.IH [OF group_wf_reconcile_one [OF Cons.prems], of xx no] reconcile_one_next [of g xx no]
    by (auto simp: counters_reconcile_one intro: order_trans)
qed simp

lemma group_wf_reconcile_stale: "group_wf g \<Longrightarrow> group_wf (reconcile_stale xx ob n g)"
  by (auto simp: reconcile_stale_def group_wf_def ctrs_def gm_wf_del gm_del_filter distinct_map_filter
      gm_wf_def distinct_map_filter)

lemma group_wf_reconcile_stale_all: "group_wf g \<Longrightarrow> group_wf (reconcile_stale_all xx ob ns g)"
  by (induction ns arbitrary: g) (simp_all add: group_wf_reconcile_stale)

lemma group_wf_reconcileEndpoints:
  assumes "group_wf g"
  shows "group_wf (reconcileEndpoints xx ob g)"
    and "gr_counters (reconcileEndpoints xx ob g) = gr_counters g"
    and "gr_next g \<le> gr_next (reconcileEndpoints xx ob g)"
    and "gr_totalInFlight (reconcileEndpoints xx ob g) = gr_totalInFlight g"
  using group_wf_reconcile_all [OF assms, of xx ob]
  by (simp_all add: reconcileEndpoints_def Let_def group_wf_reconcile_stale_all)

subsection \<open>A strategy returns an endpoint of the group\<close>

lemma chwbl_walk_member:
  assumes "chwbl_walk g f ad k i d = Done (ms, Some ep)"
    and "\<And>n e. d = Some (n, e) \<Longrightarrow> gm_lookup (gr_endpoints g) n = Some e"
  shows "\<exists>n. gm_lookup (gr_endpoints g) n = Some ep"
  using assms
proof (induction k arbitrary: i d)
  case 0
  then show ?case by (cases d) auto
next
  case (Suc k)
  let ?n = "gm_get [] (gr_hashes g) (gr_sorted g ! i)"
  obtain e where e: "gm_lookup (gr_endpoints g) ?n = Some e"
    using Suc.prems(1) by (auto simp: Let_def split: option.splits)
  show ?case
  proof (cases "adapter_matches ad e \<and> load_ok g f e")
    case True
    with Suc.prems(1) e show ?thesis by (auto simp: Let_def)
  next
    case False
    let ?i = "if length (gr_sorted g) \<le> i + 1 then 0 else i + 1"
    let ?d = "if adapter_matches ad e \<and> d = None then Some (?n, e) else d"
    have "chwbl_walk g f ad k ?i ?d = Done (ms, Some ep)"
      using Suc.prems(1) e False by (simp add: Let_def)
    then show ?thesis by (rule Suc.IH) (use e Suc.prems(2) in \<open>auto split: if_splits\<close>)
  qed
qed

lemma ring_addr_member:
  assumes "ring_addr xx key f g ad = Done (Some ep)"
  shows "\<exists>n. gm_lookup (gr_endpoints g) n = Some ep"
proof -
  obtain i ms where "chwbl_walk g f ad (length (gr_sorted g)) i None = Done (ms, Some ep)"
    using assms by (auto simp: ring_addr_def chwblGetAddr_def outcome_bind_eq_Done Let_def split: if_splits)
  then show ?thesis by (rule chwbl_walk_member) simp
qed

lemma getAddrLeastLoad_member:
  assumes "getAddrLeastLoad g ad = Some ep"
  shows "ep \<in> snd ` set (gr_endpoints g)" "adapter_matches ad ep"
  using getAddrLeastLoad_correct [of g ad] assms by (auto simp: least_so_far_def)

lemma pick_endpoint_member:
  assumes "pick_endpoint xx req g = Done (Some ep)"
  shows "ep \<in> snd ` set (gr_endpoints g)"
proof -
  consider "ring_addr xx (rq_Adapter req @ rq_Prefix req) (load_factor (rq_LoadBalancing req)) g (rq_Adapter req) = Done (Some ep)"
    | "getAddrLeastLoad g (rq_Adapter req) = Some ep"
    using assms by (auto simp: pick_endpoint_def Let_def split: if_splits outcome.splits)
  then show ?thesis
  proof cases
    case 1
    then show ?thesis using ring_addr_member gm_lookup_in_set by (metis image_eqI snd_conv)
  qed (rule getAddrLeastLoad_member)
qed

subsection \<open>The accounting invariant\<close>

fun holding :: "pc \<Rightarrow> nat option" where
  "holding (PReturned addr c) = Some c"
| "holding _ = None"

fun rlocked :: "pc \<Rightarrow> bool" where
  "rlocked (PLocked a) = True"
| "rlocked (PError e) = True"
| "rlocked (PPanic m) = True"
| "rlocked _ = False"

abbreviation threads_holding :: "gsys \<Rightarrow> int" where
  "threads_holding s \<equiv> count_if (\<lambda>t. holding (snd t) \<noteq> None) (gs_threads s)"

abbreviation threads_on :: "nat \<Rightarrow> gsys \<Rightarrow> int" where
  "threads_on c s \<equiv> count_if (\<lambda>t. holding (snd t) = Some c) (gs_threads s)"

definition account_inv :: "gsys \<Rightarrow> bool" where
  "account_inv s \<longleftrightarrow> group_wf (gs_group s)
     \<and> gr_totalInFlight (gs_group s) = threads_holding s
     \<and> (\<forall>c. gr_counters (gs_group s) c = threads_on c s)
     \<and> gs_readers s = count_if (\<lambda>t. rlocked (snd t)) (gs_threads s)"

lemma set_pc_simps [simp]:
  "gs_group (set_pc i p s) = gs_group s"
  "gs_readers (set_pc i p s) = gs_readers s"
  "gs_bcast (set_pc i p s) = gs_bcast s"
  "gs_pending (set_pc i p s) = gs_pending s"
  "gs_threads (set_pc i p s) = (gs_threads s)[i := (fst (gs_threads s ! i), p)]"
  by (simp_all add: set_pc_def)

lemma account_init: "account_inv (gs_init lb)"
  by (simp add: account_inv_def gs_init_def group_wf_def newEndpointGroup_def ctrs_def)

text \<open>Moving a goroutine that holds no counter, before or after, changes the lock count only.\<close>

lemma account_move:
  assumes "account_inv s" "i < length (gs_threads s)"
    and "holding (snd (gs_threads s ! i)) = None" "holding p = None"
    and "r = gs_readers s - of_bool (rlocked (snd (gs_threads s ! i))) + of_bool (rlocked p)"
  shows "account_inv (set_pc i p (s\<lparr>gs_readers := r\<rparr>))"
  using assms by (simp add: account_inv_def count_if_update)

lemma group_wf_addInFlight: "group_wf g \<Longrightarrow> c < gr_next g \<Longrightarrow> group_wf (addInFlight c a g)"
  by (auto simp: group_wf_def addInFlight_def ctrs_def)

lemma account_locked_step:
  assumes inv: "account_inv s" and i: "i < length (gs_threads s)" "snd (gs_threads s ! i) = PLocked a"
  shows "account_inv (locked_step xx i a s)"
proof (cases rule: locked_step_cases [where xx = xx and i = i and await = a and s = s])
  case wait
  then show ?thesis using account_move [OF inv i(1), of "PUnlocked a" "gs_readers s - 1"] i by simp
next
  case (error e)
  then show ?thesis using account_move [OF inv i(1), of "PError e" "gs_readers s"] i by simp
next
  case (panic m)
  then show ?thesis using account_move [OF inv i(1), of "PPanic m" "gs_readers s"] i by simp
next
  case none
  then show ?thesis using account_move [OF inv i(1), of "PStart True" "gs_readers s - 1"] i by simp
next
  case (some ep)
  have "ep_inFlight ep < gr_next (gs_group s)"
    using pick_endpoint_member [OF some(3)] inv by (auto simp: account_inv_def group_wf_def ctrs_def)
  then have wf: "group_wf (addInFlight (ep_inFlight ep) 1 (gs_group s))"
    using inv by (simp add: account_inv_def group_wf_addInFlight)
  show ?thesis
    unfolding some(4)
    using inv i wf by (auto simp: account_inv_def count_if_update addInFlight_def)
qed

lemma count_if_update_nonneg:
  "i < length xs \<Longrightarrow> P (xs ! i) \<Longrightarrow> 1 \<le> count_if P xs"
  using count_if_pos [of "xs ! i" xs P] by simp

lemma account_step:
  assumes inv: "account_inv s" and "gstep xx e s = Some s'"
  shows "account_inv s'"
  using assms(2)
proof (cases rule: gstep_cases)
  case (request req)
  with inv show ?thesis by (simp add: account_inv_def)
next
  case (lock i a)
  then show ?thesis using account_move [OF inv lock(2), of "PLocked a" "gs_readers s + 1"] by simp
next
  case (locked i a)
  then show ?thesis using account_locked_step [OF inv] by simp
next
  case (unlocked i a)
  then show ?thesis using account_move [OF inv unlocked(2), of "PWaiting a (gs_bcast s)" "gs_readers s"] by simp
next
  case (wake i a ch)
  then show ?thesis using account_move [OF inv wake(2), of "PStart a" "gs_readers s"] by simp
next
  case (cancel i a ch)
  then show ?thesis using account_move [OF inv cancel(2), of PCancelled "gs_readers s"] by simp
next
  case (release i addr c)
  have c: "c < gr_next (gs_group s)"
  proof (rule ccontr)
    assume "\<not> c < gr_next (gs_group s)"
    then have "gr_counters (gs_group s) c = 0"
      using inv unfolding account_inv_def group_wf_def not_less by blast
    then have "threads_on c s = 0" using inv unfolding account_inv_def by simp
    then show False using release(2,3) count_if_zero [of _ "gs_threads s" "gs_threads s ! i"] by fastforce
  qed
  then have "group_wf (addInFlight c (- 1) (gs_group s))"
    using inv by (simp add: account_inv_def group_wf_addInFlight)
  then show ?thesis
    using inv release by (auto simp: account_inv_def count_if_update addInFlight_def)
next
  case (reconcile ob)
  with inv show ?thesis
    by (simp add: account_inv_def group_wf_reconcileEndpoints)
next
  case broadcast
  with inv show ?thesis by (simp add: account_inv_def)
qed

lemma greach_account: "greach xx N lb s \<Longrightarrow> account_inv s"
  by (induction rule: greach.induct) (simp_all add: account_init account_step)

end
