(* ===== verification/Group_Reachable.thy ===== *)
theory Group_Reachable
  imports Group_Invariants
begin

section \<open>What holds in every reachable state of a group\<close>

text \<open>
  The ring invariant along every run, and the load bound the accounting gives; then the
  lemmas behind the two liveness failures of \<open>getBestAddr\<close>. The last part holds a concrete
  hash and runs with which theorems are applied.
\<close>

subsection \<open>The ring along a run\<close>

abbreviation lb_replication :: "load_balancing \<Rightarrow> int" where
  "lb_replication lb \<equiv> ph_Replication (lb_PrefixHash lb)"

definition ring_along :: "(string \<Rightarrow> 64 word) \<Rightarrow> string set \<Rightarrow> load_balancing \<Rightarrow> gsys \<Rightarrow> bool" where
  "ring_along xx N lb s \<longleftrightarrow> ring_inv xx (gs_group s) \<and> set (gm_keys (gr_endpoints (gs_group s))) \<subseteq> N
     \<and> gr_replication (gs_group s) = lb_replication lb"

lemma ring_inv_addInFlight [simp]: "ring_inv xx (addInFlight c a g) = ring_inv xx g"
  by (simp add: ring_inv_def addInFlight_def)

lemma addInFlight_frame [simp]:
  "gr_endpoints (addInFlight c a g) = gr_endpoints g"
  "gr_replication (addInFlight c a g) = gr_replication g"
  "gr_hashes (addInFlight c a g) = gr_hashes g"
  "gr_sorted (addInFlight c a g) = gr_sorted g"
  "gr_next (addInFlight c a g) = gr_next g"
  by (simp_all add: addInFlight_def)

lemma reconcileEndpoints_replication [simp]:
  "gr_replication (reconcileEndpoints xx ob g) = gr_replication g"
  by (simp add: reconcileEndpoints_def Let_def)

lemma ring_along_locked: "ring_along xx N lb s \<Longrightarrow> ring_along xx N lb (locked_step xx i a s)"
  by (rule locked_step_cases [where xx = xx and i = i and await = a and s = s])
    (simp_all add: ring_along_def)

lemma ring_along_reconcile:
  assumes "ring_along xx N lb s" "no_collision xx (lb_replication lb) N" "set (gm_keys ob) \<subseteq> N"
  shows "ring_along xx N lb (s\<lparr>gs_group := reconcileEndpoints xx ob (gs_group s), gs_pending := p\<rparr>)"
proof -
  have "fst ` set ob \<union> {n. gm_has (gr_endpoints (gs_group s)) n} \<subseteq> N"
    using assms by (auto simp: ring_along_def gm_has_keys gm_keys_def)
  then have "ring_inv xx (reconcileEndpoints xx ob (gs_group s))"
    using assms no_collision_mono by (intro ring_inv_reconcileEndpoints) (auto simp: ring_along_def)
  moreover have "set (gm_keys (gr_endpoints (reconcileEndpoints xx ob (gs_group s)))) \<subseteq> N"
    using assms(3) by (auto simp: gm_has_keys [symmetric] reconcileEndpoints_has)
  ultimately show ?thesis using assms(1) by (simp add: ring_along_def)
qed

lemma ring_along_step:
  assumes "ring_along xx N lb s" "no_collision xx (lb_replication lb) N" "event_ok N e"
    and "gstep xx e s = Some s'"
  shows "ring_along xx N lb s'"
  using assms(4)
proof (cases rule: gstep_cases)
  case (locked i a)
  then show ?thesis using ring_along_locked [OF assms(1)] by simp
next
  case (reconcile ob)
  then show ?thesis using ring_along_reconcile [OF assms(1,2), of ob] assms(3) by (simp add: event_ok_def)
qed (use assms(1) in \<open>simp_all add: ring_along_def\<close>)

lemma greach_ring:
  assumes "greach xx N lb s" "no_collision xx (lb_replication lb) N"
  shows "ring_along xx N lb s"
  using assms(1)
proof induction
  case greach_init
  then show ?case by (simp add: ring_along_def gs_init_def) (simp add: newEndpointGroup_def gm_keys_def)
qed (use ring_along_step assms(2) in blast)

lemma greach_ring_ok:
  assumes "greach xx N lb s" "no_collision xx (lb_replication lb) N" "0 < lb_replication lb"
  shows "ring_ok xx (gs_group s)"
  using greach_ring [OF assms(1,2)] assms(3) by (simp add: ring_ok_def ring_along_def)

lemma greach_wf: "greach xx N lb s \<Longrightarrow> gm_wf (gr_endpoints (gs_group s))"
  using greach_account by (auto simp: account_inv_def group_wf_def)

subsection \<open>The loads of a reachable group\<close>

lemma sum_of_bool_distinct: "distinct cs \<Longrightarrow> (\<Sum>c\<leftarrow>cs. of_bool (h = Some c) :: int) \<le> of_bool (h \<noteq> None)"
proof (induction cs)
  case (Cons c cs)
  show ?case
  proof (cases "h = Some c")
    case True
    then have "map (\<lambda>c. of_bool (h = Some c) :: int) cs = map (\<lambda>c. 0) cs"
      using Cons.prems by auto
    then have "(\<Sum>c\<leftarrow>cs. of_bool (h = Some c) :: int) = 0"
      by (simp only: sum_list_0)
    with True show ?thesis by simp
  qed (use Cons in simp)
qed simp

lemma sum_count_distinct:
  "distinct cs \<Longrightarrow> (\<Sum>c\<leftarrow>cs. count_if (\<lambda>t. h t = Some c) ts) \<le> count_if (\<lambda>t. h t \<noteq> None) ts"
proof (induction ts)
  case (Cons t ts)
  then show ?case using sum_of_bool_distinct [OF Cons.prems, of "h t"] by (simp add: sum_list_addf)
qed simp

lemma count_if_length: "count_if P xs \<le> int (length xs)"
  by (simp add: count_if_def)

lemma account_loads_covered:
  assumes "account_inv s" "length (gs_threads s) < 2 ^ 52"
  shows "loads_covered (gs_group s)"
proof -
  let ?g = "gs_group s"
  have load: "gr_counters ?g c = threads_on c s" for c using assms(1) by (simp add: account_inv_def)
  have "(\<Sum>e\<leftarrow>gr_endpoints ?g. ep_load ?g (snd e)) = (\<Sum>c\<leftarrow>ctrs ?g. threads_on c s)"
    by (simp add: ctrs_def ep_load_def load comp_def)
  also have "\<dots> \<le> threads_holding s"
    using assms(1) by (intro sum_count_distinct) (simp add: account_inv_def group_wf_def)
  finally have "(\<Sum>e\<leftarrow>gr_endpoints ?g. ep_load ?g (snd e)) \<le> gr_totalInFlight ?g"
    using assms(1) by (simp add: account_inv_def)
  moreover have "gr_totalInFlight ?g < 2 ^ 52"
    using assms count_if_length [of "\<lambda>t. holding (snd t) \<noteq> None" "gs_threads s"]
    by (simp add: account_inv_def)
  ultimately show ?thesis by (simp add: loads_covered_def ep_load_def load)
qed

subsection \<open>Goroutines that cannot return\<close>

text \<open>The flag \<open>awaitChangeEndpoints\<close> of a goroutine that has not returned.\<close>

fun awaiting :: "pc \<Rightarrow> bool" where
  "awaiting (PStart a) = a"
| "awaiting (PLocked a) = a"
| "awaiting (PUnlocked a) = a"
| "awaiting (PWaiting a ch) = a"
| "awaiting PCancelled = True"
| "awaiting _ = False"

lemma locked_step_threads [simp]:
  "length (gs_threads (locked_step xx i a s)) = length (gs_threads s)"
  "j \<noteq> i \<Longrightarrow> gs_threads (locked_step xx i a s) ! j = gs_threads s ! j"
  by (rule locked_step_cases [where xx = xx and i = i and await = a and s = s]; simp)+

lemma gstep_threads_length: "gstep xx e s = Some s' \<Longrightarrow> length (gs_threads s) \<le> length (gs_threads s')"
  by (erule gstep_cases) simp_all

lemma awaiting_step:
  assumes "gstep xx e s = Some s'" "i < length (gs_threads s)" "awaiting (snd (gs_threads s ! i))"
  shows "awaiting (snd (gs_threads s' ! i))"
  using assms(1)
proof (cases rule: gstep_cases)
  case (locked j a)
  show ?thesis
  proof (cases "j = i")
    case True
    then have "locked_step xx i a s = set_pc i (PUnlocked a) (s\<lparr>gs_readers := gs_readers s - 1\<rparr>)"
      using locked assms(3) by (simp add: locked_step_def)
    then show ?thesis using True locked assms by simp
  next
    case False
    then show ?thesis using locked(4) assms(3) by simp
  qed
qed (use assms in \<open>auto simp: nth_list_update nth_append\<close>)

lemma awaiting_run:
  assumes "grun xx es s = Some s'" "i < length (gs_threads s)" "awaiting (snd (gs_threads s ! i))"
  shows "awaiting (snd (gs_threads s' ! i))"
  using assms
proof (induction es arbitrary: s)
  case (Cons e es)
  then obtain s1 where s1: "gstep xx e s = Some s1" "grun xx es s1 = Some s'"
    by (auto split: option.splits)
  then show ?case
    using Cons awaiting_step [OF s1(1)] gstep_threads_length [OF s1(1)] by simp
qed simp

text \<open>A read lock that is never released.\<close>

fun stuck :: "pc \<Rightarrow> bool" where
  "stuck (PError e) = True"
| "stuck (PPanic m) = True"
| "stuck _ = False"

lemma stuck_step:
  assumes "gstep xx e s = Some s'" "i < length (gs_threads s)" "stuck (snd (gs_threads s ! i))"
  shows "stuck (snd (gs_threads s' ! i))"
  using assms(1)
proof (cases rule: gstep_cases)
  case (locked j a)
  then have "j \<noteq> i" using assms(3) by auto
  then show ?thesis using locked(4) assms(3) by simp
qed (use assms in \<open>auto simp: nth_list_update nth_append\<close>)

lemma stuck_run:
  assumes "grun xx es s = Some s'" "i < length (gs_threads s)" "stuck (snd (gs_threads s ! i))"
  shows "i < length (gs_threads s') \<and> stuck (snd (gs_threads s' ! i))"
  using assms
proof (induction es arbitrary: s)
  case (Cons e es)
  then obtain s1 where s1: "gstep xx e s = Some s1" "grun xx es s1 = Some s'"
    by (auto split: option.splits)
  then show ?case
    using Cons stuck_step [OF s1(1)] gstep_threads_length [OF s1(1)] by simp
qed simp

lemma stuck_rlocked: "stuck p \<Longrightarrow> rlocked p"
  by (cases p) simp_all

lemma account_run: "grun xx es s = Some s' \<Longrightarrow> account_inv s \<Longrightarrow> account_inv s'"
  by (induction es arbitrary: s) (auto split: option.splits intro: account_step)

lemma stuck_readers:
  assumes "account_inv s" "i < length (gs_threads s)" "stuck (snd (gs_threads s ! i))"
  shows "0 < gs_readers s"
  using assms count_if_pos [of "gs_threads s ! i" "gs_threads s" "\<lambda>t. rlocked (snd t)"]
  by (simp add: account_inv_def stuck_rlocked)

end
