(* ===== verification/Group_Properties.thy ===== *)
theory Group_Properties
  imports Group_Reachable
begin

section \<open>Properties of endpoint groups\<close>

text \<open>
  The theorems about \<open>internal/loadbalancer/group.go\<close> and the two strategies, over every
  reachable state of \<open>Group_Machine\<close>, each applied to a concrete run.
\<close>

subsection \<open>A change of one endpoint\<close>







subsection \<open>A concrete hash and a concrete run\<close>

definition poly_hash :: "string \<Rightarrow> 64 word" where
  "poly_hash s = foldl (\<lambda>h c. h * 31 + of_nat (of_char c)) 7 s"

definition demo_lb :: "string \<Rightarrow> load_balancing" where
  "demo_lb strategy = \<lparr>lb_Strategy = strategy,
     lb_PrefixHash = \<lparr>ph_MeanLoadPercentage = 125, ph_Replication = 2, ph_PrefixCharLength = 100\<rparr>\<rparr>"

definition demo_request :: "string \<Rightarrow> lb_request" where
  "demo_request strategy = \<lparr>rq_Adapter = [], rq_Prefix = ''hello'', rq_LoadBalancing = demo_lb strategy\<rparr>"

definition demo_observed :: "string list \<Rightarrow> (string, observed_endpoint) gomap" where
  "demo_observed names = map (\<lambda>n. (n, \<lparr>ob_address = n @ '':80'', ob_adapters = []\<rparr>)) names"

definition demo_names :: "string set" where
  "demo_names = set [''a'', ''b'', ''c'']"

text \<open>Two endpoints appear, and one request is sent to one of them.\<close>

definition demo_run :: "string \<Rightarrow> gevent list" where
  "demo_run strategy = [EReconcile (demo_observed [''a'', ''b'']), EBroadcast,
     ERequest (demo_request strategy), EStep 0, EStep 0]"

definition demo_state :: "string \<Rightarrow> gsys" where
  "demo_state strategy = the (grun poly_hash (demo_run strategy) (gs_init (demo_lb strategy)))"

text \<open>Only the reconciliation: nothing is in flight.\<close>

definition demo_idle :: gsys where
  "demo_idle = the (grun poly_hash [EReconcile (demo_observed [''a'', ''b''])] (gs_init (demo_lb PrefixHashStrategy)))"


lemma reach_by_run:
  assumes "grun xx es (gs_init lb) \<noteq> None" "list_all (event_ok N) es"
  shows "greach xx N lb (the (grun xx es (gs_init lb)))"
  using assms by (auto intro: greach_run greach_init)

lemma event_ok_demo_observed:
  "distinct names \<Longrightarrow> set names \<subseteq> demo_names \<Longrightarrow> event_ok demo_names (EReconcile (demo_observed names))"
  by (auto simp: event_ok_def demo_observed_def gm_wf_def gm_keys_def comp_def)

lemma event_ok_other [simp]:
  "event_ok N (ERequest r)" "event_ok N (EStep i)" "event_ok N (ECancel i)" "event_ok N (ERelease i)" "event_ok N EBroadcast"
  by (simp_all add: event_ok_def)

lemma event_ok_ab [simp]: "event_ok demo_names (EReconcile (demo_observed [''a'', ''b'']))"
  by (rule event_ok_demo_observed) (simp_all add: demo_names_def)

lemma demo_events_ok: "list_all (event_ok demo_names) (demo_run st)"
  by (simp add: demo_run_def)

lemma demo_reach_ring: "greach poly_hash demo_names (demo_lb PrefixHashStrategy) (demo_state PrefixHashStrategy)"
proof -
  have "\<not> Option.is_none (grun poly_hash (demo_run PrefixHashStrategy) (gs_init (demo_lb PrefixHashStrategy)))"
    by code_simp
  then show ?thesis unfolding demo_state_def
    by (intro reach_by_run) (simp_all add: Option.is_none_def demo_events_ok)
qed

lemma demo_reach_least: "greach poly_hash demo_names (demo_lb LeastLoadStrategy) (demo_state LeastLoadStrategy)"
proof -
  have "\<not> Option.is_none (grun poly_hash (demo_run LeastLoadStrategy) (gs_init (demo_lb LeastLoadStrategy)))"
    by code_simp
  then show ?thesis unfolding demo_state_def
    by (intro reach_by_run) (simp_all add: Option.is_none_def demo_events_ok)
qed


lemma demo_replication [simp]: "lb_replication (demo_lb st) = 2"
  by (simp add: demo_lb_def)

subsection \<open>The lookup and the choice of an endpoint\<close>








text \<open>Least load. In every reachable state the \<open>LeastLoad\<close> strategy returns an endpoint
  with the adapter whose in-flight count no other such endpoint undercuts.\<close>

theorem least_load_minimal:
  assumes "greach xx N lb s" "lb_Strategy (rq_LoadBalancing req) = LeastLoadStrategy"
    and "pick_endpoint xx req (gs_group s) = Done (Some ep)"
    and "gm_lookup (gr_endpoints (gs_group s)) name = Some e" "adapter_matches (rq_Adapter req) e"
  shows "ep_load (gs_group s) ep \<le> ep_load (gs_group s) e"
  using getAddrLeastLoad_least [OF greach_wf [OF assms(1)] _ assms(4,5), of ep] assms(2,3)
  by (simp add: pick_endpoint_def PrefixHashStrategy_def LeastLoadStrategy_def)

theorem least_load_minimal_witness:
  "\<exists>e ep. gm_lookup (gr_endpoints (gs_group (demo_state LeastLoadStrategy))) ''a'' = Some e
     \<and> pick_endpoint poly_hash (demo_request LeastLoadStrategy) (gs_group (demo_state LeastLoadStrategy)) = Done (Some ep)
     \<and> ep_load (gs_group (demo_state LeastLoadStrategy)) ep \<le> ep_load (gs_group (demo_state LeastLoadStrategy)) e"
proof -
  have "gm_lookup (gr_endpoints (gs_group (demo_state LeastLoadStrategy))) ''a''
      = Some \<lparr>ep_address = ''a:80'', ep_inFlight = 0, ep_adapters = []\<rparr>"
    "pick_endpoint poly_hash (demo_request LeastLoadStrategy) (gs_group (demo_state LeastLoadStrategy))
      = Done (Some \<lparr>ep_address = ''b:80'', ep_inFlight = 1, ep_adapters = []\<rparr>)"
    unfolding demo_state_def by code_simp+
  then show ?thesis
    using least_load_minimal [OF demo_reach_least, of "demo_request LeastLoadStrategy"]
    by (simp add: demo_request_def demo_lb_def adapter_matches_def)
qed

subsection \<open>Accounting\<close>

text \<open>C4: In every reachable state, the group's total is the number of goroutines that hold an
  address and have not called their release function, and the counter of an endpoint is the
  number that hold that endpoint; endpoints never share a counter. So no release is lost or
  counted twice, also across removal and re-creation of endpoints.\<close>

theorem in_flight_accounting:
  assumes "greach xx N lb s"
  shows "gr_totalInFlight (gs_group s) = threads_holding s
    \<and> (\<forall>c. gr_counters (gs_group s) c = threads_on c s)
    \<and> distinct (ctrs (gs_group s))"
  using greach_account [OF assms] by (simp add: account_inv_def group_wf_def)

theorem in_flight_accounting_witness:
  "gr_totalInFlight (gs_group (demo_state PrefixHashStrategy)) = 1"
proof -
  have "threads_holding (demo_state PrefixHashStrategy) = 1"
    unfolding demo_state_def by code_simp
  then show ?thesis using in_flight_accounting [OF demo_reach_ring] by simp
qed

subsection \<open>Reconciliation\<close>

text \<open>After \<open>reconcileEndpoints\<close> the endpoints are exactly the observed ones; one that was
  there keeps its address and its counter and takes the observed adapters, and a new one
  starts with a counter nobody else has.\<close>

theorem reconcileEndpoints_effect:
  assumes "gm_wf ob"
  shows "case gm_lookup ob name of
      None \<Rightarrow> gm_lookup (gr_endpoints (reconcileEndpoints xx ob g)) name = None
    | Some obs \<Rightarrow>
        (case gm_lookup (gr_endpoints g) name of
           Some ep \<Rightarrow> gm_lookup (gr_endpoints (reconcileEndpoints xx ob g)) name
             = Some (ep\<lparr>ep_adapters := ob_adapters obs\<rparr>)
         | None \<Rightarrow> \<exists>c \<ge> gr_next g. gm_lookup (gr_endpoints (reconcileEndpoints xx ob g)) name
             = Some \<lparr>ep_address = ob_address obs, ep_inFlight = c, ep_adapters = ob_adapters obs\<rparr>)"
proof (cases "gm_lookup ob name")
  case None
  then have "\<not> gm_has (gr_endpoints (reconcileEndpoints xx ob g)) name"
    by (simp add: reconcileEndpoints_has) (simp add: gm_has_def)
  with None show ?thesis by (simp add: gm_has_def)
next
  case (Some obs)
  then have "gm_has ob name" by (simp add: gm_has_def)
  with Some show ?thesis
    using reconcile_all_existing [OF assms Some] reconcile_all_new [OF assms Some]
    by (auto simp: reconcileEndpoints_lookup split: option.split)
qed

theorem reconcileEndpoints_effect_witness:
  "gm_lookup (gr_endpoints (reconcileEndpoints poly_hash (demo_observed [''b'', ''c'']) (gs_group demo_idle))) ''b''
     = Some \<lparr>ep_address = ''b:80'', ep_inFlight = 1, ep_adapters = []\<rparr>"
proof -
  have "gm_wf (demo_observed [''b'', ''c''])"
    "gm_lookup (demo_observed [''b'', ''c'']) ''b'' = Some \<lparr>ob_address = ''b:80'', ob_adapters = []\<rparr>"
    by code_simp+
  moreover have "gm_lookup (gr_endpoints (gs_group demo_idle)) ''b''
      = Some \<lparr>ep_address = ''b:80'', ep_inFlight = 1, ep_adapters = []\<rparr>"
    unfolding demo_idle_def by code_simp
  ultimately show ?thesis
    using reconcileEndpoints_effect [where ob = "demo_observed [''b'', ''c'']" and name = "''b''" and xx = poly_hash
        and g = "gs_group demo_idle"] by simp
qed





end
