(* ===== verification/Group_Liveness.thy ===== *)
theory Group_Liveness
  imports Group_Properties
begin

section \<open>Requests that never return and locks that are never released\<close>

text \<open>
  Behaviours of \<open>group.getBestAddr\<close> that the code does not intend, as theorems about the
  machine of \<open>Group_Machine\<close>: the flag of a retried call, the \<open>default\<close> case of its
  \<open>switch\<close>, the window between the check for endpoints and the read of the broadcast
  channel, and the hash inputs of two endpoints that coincide.
\<close>

subsection \<open>The flag is never reset\<close>

text \<open>C7: A goroutine that called itself with \<open>awaitChangeEndpoints\<close> set does not return an
  address after any number of further steps, whatever endpoints appear: it can only wait or
  be cancelled.\<close>

theorem awaiting_never_returns:
  assumes "i < length (gs_threads s)" "snd (gs_threads s ! i) = PStart True" "grun xx es s = Some s'"
  shows "snd (gs_threads s' ! i) \<noteq> PReturned addr c"
proof -
  have "awaiting (snd (gs_threads s' ! i))" using awaiting_run [OF assms(3,1)] assms(2) by simp
  then show ?thesis by auto
qed

text \<open>A request for an adapter that the only endpoint does not have; then the adapter appears.\<close>

definition adapter_request :: lb_request where
  "adapter_request = \<lparr>rq_Adapter = ''x'', rq_Prefix = [], rq_LoadBalancing = demo_lb LeastLoadStrategy\<rparr>"

definition starved_events :: "gevent list" where
  "starved_events = [EReconcile (demo_observed [''a'']), EBroadcast,
     ERequest adapter_request, EStep 0, EStep 0]"

definition adapter_arrives :: "gevent list" where
  "adapter_arrives = [EStep 0, EStep 0, EStep 0,
     EReconcile [(''a'', \<lparr>ob_address = ''a:80'', ob_adapters = [''x'']\<rparr>)], EBroadcast,
     EStep 0, EStep 0, EStep 0, EStep 0]"

lemma starved_run:
  "map_option (\<lambda>s. (length (gs_threads s), snd (gs_threads s ! 0),
       map_option (\<lambda>s'. eligible (gs_group s') ''x'') (grun poly_hash adapter_arrives s)))
     (grun poly_hash starved_events (gs_init (demo_lb LeastLoadStrategy)))
   = Some (1, PStart True, Some True)"
  by code_simp

theorem awaiting_never_returns_witness:
  "\<exists>s s'. grun poly_hash starved_events (gs_init (demo_lb LeastLoadStrategy)) = Some s
     \<and> grun poly_hash adapter_arrives s = Some s' \<and> eligible (gs_group s') ''x''
     \<and> snd (gs_threads s' ! 0) \<noteq> PReturned ''a:80'' 0"
proof -
  obtain s s' where s: "grun poly_hash starved_events (gs_init (demo_lb LeastLoadStrategy)) = Some s"
    "length (gs_threads s) = 1" "snd (gs_threads s ! 0) = PStart True"
    "grun poly_hash adapter_arrives s = Some s'" "eligible (gs_group s') ''x''"
    using starved_run by (auto simp del: grun.simps)
  then have "snd (gs_threads s' ! 0) \<noteq> PReturned ''a:80'' 0"
    by (intro awaiting_never_returns [OF _ s(3,4)]) simp
  with s show ?thesis by blast
qed

subsection \<open>The read lock of an unknown strategy\<close>

text \<open>Once a request with an unknown strategy has returned its error, no reconciliation
  can take the write lock in any later state: the endpoints of the model are frozen.\<close>

theorem unknown_strategy_blocks_reconcile:
  assumes "greach xx N lb s" "i < length (gs_threads s)" "snd (gs_threads s ! i) = PError e"
    and "grun xx es s = Some s'"
  shows "gstep xx (EReconcile ob) s' = None"
proof -
  have "i < length (gs_threads s') \<and> stuck (snd (gs_threads s' ! i))"
    using stuck_run [OF assms(4,2)] assms(3) by simp
  then have "0 < gs_readers s'"
    using stuck_readers account_run [OF assms(4) greach_account [OF assms(1)]] by blast
  then show ?thesis by simp
qed

definition wedged_run :: "gevent list" where
  "wedged_run = [EReconcile (demo_observed [''a'', ''b'']), EBroadcast,
     ERequest (demo_request ''Random''), EStep 0, EStep 0]"

lemma wedged_run_result:
  "map_option (\<lambda>s. (length (gs_threads s), snd (gs_threads s ! 0)))
     (grun poly_hash wedged_run (gs_init (demo_lb ''Random'')))
   = Some (1, PError ''unknown load balancing strategy: Random'')"
  by code_simp

theorem unknown_strategy_blocks_reconcile_witness:
  "\<exists>s. grun poly_hash wedged_run (gs_init (demo_lb ''Random'')) = Some s
     \<and> gstep poly_hash (EReconcile []) s = None"
proof -
  obtain s where s: "grun poly_hash wedged_run (gs_init (demo_lb ''Random'')) = Some s"
    "length (gs_threads s) = 1" "snd (gs_threads s ! 0) = PError ''unknown load balancing strategy: Random''"
    using wedged_run_result by (auto simp del: grun.simps)
  have "greach poly_hash demo_names (demo_lb ''Random'') s"
    using s(1) by (intro greach_run [OF greach_init _ s(1)]) (simp add: wedged_run_def)
  then have "gstep poly_hash (EReconcile []) s = None"
    by (rule unknown_strategy_blocks_reconcile [where es = "[]" and i = 0]) (simp_all add: s del: gstep.simps)
  with s(1) show ?thesis by blast
qed

text \<open>As long as no request has met an unknown strategy or a panic, a reconciliation is
  blocked only by goroutines inside their locked section.\<close>

theorem reconcile_enabled:
  assumes "greach xx N lb s" "list_all (\<lambda>t. \<not> rlocked (snd t)) (gs_threads s)"
  shows "gstep xx (EReconcile ob) s \<noteq> None"
proof -
  have "filter (\<lambda>t. rlocked (snd t)) (gs_threads s) = []"
    using assms(2) by (simp add: filter_empty_conv list_all_iff)
  then have "gs_readers s = 0"
    using greach_account [OF assms(1)] by (simp add: account_inv_def count_if_def)
  then show ?thesis by simp
qed

theorem reconcile_enabled_witness: "gstep poly_hash (EReconcile []) (demo_state PrefixHashStrategy) \<noteq> None"
proof -
  have "list_all (\<lambda>t. \<not> rlocked (snd t)) (gs_threads (demo_state PrefixHashStrategy))"
    unfolding demo_state_def by code_simp
  then show ?thesis by (rule reconcile_enabled [OF demo_reach_ring])
qed

subsection \<open>A lost wakeup\<close>

text \<open>The endpoints appear, and are announced, between a goroutine's check and its read of the
  channel.\<close>

definition lost_wakeup :: "gevent list" where
  "lost_wakeup = [ERequest (demo_request LeastLoadStrategy), EStep 0, EStep 0,
     EReconcile (demo_observed [''a'', ''b'']), EBroadcast, EStep 0]"

lemma lost_wakeup_result:
  "map_option (\<lambda>s. (length (gs_threads s), snd (gs_threads s ! 0), gs_pending s, gs_bcast s, eligible (gs_group s) []))
     (grun poly_hash lost_wakeup (gs_init (demo_lb LeastLoadStrategy)))
   = Some (1, PWaiting False 1, 0, 1, True)"
  by code_simp

text \<open>There is a run after which every reconciliation has been announced, the group has
  endpoints the request could use, and the goroutine waits on a channel that is still open.\<close>

theorem lost_wakeup_reachable:
  "\<exists>s ch. greach poly_hash demo_names (demo_lb LeastLoadStrategy) s \<and> eligible (gs_group s) []
     \<and> gs_pending s = 0 \<and> snd (gs_threads s ! 0) = PWaiting False ch \<and> \<not> ch < gs_bcast s
     \<and> gstep poly_hash (EStep 0) s = None"
proof -
  obtain s where s: "grun poly_hash lost_wakeup (gs_init (demo_lb LeastLoadStrategy)) = Some s"
    "length (gs_threads s) = 1" "snd (gs_threads s ! 0) = PWaiting False 1" "gs_pending s = 0"
    "gs_bcast s = 1" "eligible (gs_group s) []"
    using lost_wakeup_result by (auto simp del: grun.simps)
  moreover have "greach poly_hash demo_names (demo_lb LeastLoadStrategy) s"
    using s(1) by (intro greach_run [OF greach_init _ s(1)]) (simp add: lost_wakeup_def)
  ultimately show ?thesis by (intro exI [of _ s] exI [of _ 1]) simp
qed

subsection \<open>Hash inputs\<close>

lemma int_str_nat: "int_str (int n) = nat_str n"
  by (simp add: int_str_def)

text \<open>Endpoint names of equal length give distinct hash inputs to distinct replicas, so a
  hash that is injective on them makes the ring free of collisions.\<close>

theorem equal_length_names_no_collision:
  assumes "\<And>n m. n \<in> N \<Longrightarrow> m \<in> N \<Longrightarrow> length n = length m"
    and "inj_on xx {n @ nat_str i | n i. n \<in> N \<and> i < nat r}"
  shows "no_collision xx r N"
proof -
  have eq: "n = m \<and> i = j"
    if a: "n \<in> N" "m \<in> N" "i < nat r" "j < nat r" "xx (n @ nat_str i) = xx (m @ nat_str j)" for n m i j
  proof -
    have "n @ nat_str i = m @ nat_str j"
      using inj_onD [OF assms(2) a(5)] a(1-4) by blast
    then show ?thesis using assms(1) [OF a(1,2)] by simp
  qed
  have rep: "set (replica_hashes xx r n) = (\<lambda>i. xx (n @ nat_str i)) ` {0..<nat r}" for n
    by (auto simp: replica_hashes_def chwblHashEndpointReplica_def chwblEndpointReplicaHashInput_def chwblHash_def int_str_nat)
  show ?thesis
    unfolding no_collision_def
  proof (intro conjI ballI impI)
    fix n assume n: "n \<in> N"
    show "distinct (replica_hashes xx r n)"
      using eq [OF n n] by (auto simp: replica_hashes_def distinct_map inj_on_def
          chwblHashEndpointReplica_def chwblEndpointReplicaHashInput_def chwblHash_def int_str_nat)
  next
    fix n m assume nm: "n \<in> N" "m \<in> N" "n \<noteq> m"
    then show "set (replica_hashes xx r n) \<inter> set (replica_hashes xx r m) = {}"
      using eq [OF nm(1,2)] by (auto simp: rep)
  qed
qed

theorem equal_length_names_no_collision_witness: "no_collision poly_hash 1 {''a'', ''b''}"
proof (rule equal_length_names_no_collision)
  have "nat_str 0 = ''0''" by code_simp
  moreover from this have "{n @ nat_str i | n i. n \<in> {''a'', ''b''} \<and> i < nat 1} = {''a0'', ''b0''}"
    by auto
  moreover have "poly_hash ''a0'' \<noteq> poly_hash ''b0''" by code_simp
  ultimately show "inj_on poly_hash {n @ nat_str i | n i. n \<in> {''a'', ''b''} \<and> i < nat 1}" by simp
qed auto

text \<open>Names of different lengths can collide whatever the hash: replica 11 of \<open>a\<close> and
  replica 1 of \<open>a1\<close> have the same input. With the example hash, removing \<open>a1\<close> then leaves a
  hash on the ring that no endpoint owns, and a lookup that meets it panics.\<close>

theorem hash_input_collision_panics:
  "chwblEndpointReplicaHashInput ''a'' 11 = chwblEndpointReplicaHashInput ''a1'' 1
   \<and> is_panic (chwblGetAddr poly_hash
        (reconcileEndpoints poly_hash (demo_observed [''a''])
          (reconcileEndpoints poly_hash (demo_observed [''a'', ''a1''])
            (newEndpointGroup (default_lb\<lparr>lb_PrefixHash := \<lparr>ph_MeanLoadPercentage = 125,
               ph_Replication = 12, ph_PrefixCharLength = 100\<rparr>\<rparr>))))
        ''a11'' 1 [])"
  by code_simp

end
