(* ===== verification/Load_Balancer.thy ===== *)
theory Load_Balancer
  imports Endpoint_Group
begin

section \<open>The load balancer's controller\<close>

text \<open>
  \<open>internal/loadbalancer/load_balancer.go\<close>: the Pod controller that turns the Pods of a Model
  into the endpoints of its group, and the functions that read the groups. The Kubernetes
  client is a third-party package: the answers of its \<open>Get\<close> and \<open>List\<close> calls are a parameter.
\<close>

subsection \<open>Answers of the Kubernetes API\<close>

datatype 'a api = ApiOk 'a | ApiNotFound | ApiErr string

record reader =
  rd_pod :: "string \<Rightarrow> string \<Rightarrow> pod api"                          \<comment> \<open>namespace, name\<close>
  rd_pods :: "string \<Rightarrow> string \<Rightarrow> string \<Rightarrow> pod list api"        \<comment> \<open>namespace, label key, value\<close>
  rd_model :: "string \<Rightarrow> string \<Rightarrow> model api"

subsection \<open>State and operations\<close>

record lb_state =
  lb_groups :: "(string, group) gomap"
  lb_selfIPs :: "string list"
  lb_ExcludePods :: "string list"

definition NewLoadBalancer :: lb_state where
  "NewLoadBalancer = \<lparr>lb_groups = [], lb_selfIPs = [], lb_ExcludePods = []\<rparr>"

definition getEndpointAdapters :: "pod \<Rightarrow> string list" where
  "getEndpointAdapters p = map (\<lambda>k. trim_prefix k PodAdapterLabelPrefix)
     (filter (\<lambda>k. has_prefix k PodAdapterLabelPrefix) (gm_keys (om_labels (pod_meta p))))"

definition getPodAnnotation :: "pod \<Rightarrow> string \<Rightarrow> string" where
  "getPodAnnotation p key = gm_get [] (om_annotations (pod_meta p)) key"

text \<open>The loop over the Pods of the Model; its \<open>continue\<close>s are the \<open>else\<close> branches.\<close>

definition pod_ip :: "pod \<Rightarrow> string" where
  "pod_ip p = (let ip = getPodAnnotation p ModelPodIPAnnotation
               in if ip = [] then pst_pod_ip (pod_status_of p) else ip)"

definition pod_endpoint_key :: "pod \<Rightarrow> string" where
  "pod_endpoint_key p = om_namespace (pod_meta p) @ ''/'' @ om_name (pod_meta p)"

definition observe_pod :: "string list \<Rightarrow> (string, observed_endpoint) gomap \<Rightarrow> pod \<Rightarrow> (string, observed_endpoint) gomap" where
  "observe_pod exclude ob p =
     (if om_name (pod_meta p) \<in> set exclude then ob
      else if \<not> PodIsReady p then ob
      else (let port = getPodAnnotation p ModelPodPortAnnotation
            in if port = [] then ob
               else (let ip = pod_ip p
                     in if ip = [] then ob
                        else gm_put (pod_endpoint_key p)
                               \<lparr>ob_address = ip @ '':'' @ port, ob_adapters = getEndpointAdapters p\<rparr> ob)))"

definition observe_pods :: "string list \<Rightarrow> pod list \<Rightarrow> (string, observed_endpoint) gomap" where
  "observe_pods exclude pods = foldl (observe_pod exclude) [] pods"

definition getOrCreateEndpointGroup :: "string \<Rightarrow> load_balancing \<Rightarrow> lb_state \<Rightarrow> group \<times> lb_state" where
  "getOrCreateEndpointGroup modelName lb st =
     (case gm_lookup (lb_groups st) modelName of
        Some g \<Rightarrow> (g, st)
      | None \<Rightarrow> (newEndpointGroup lb, st\<lparr>lb_groups := gm_put modelName (newEndpointGroup lb) (lb_groups st)\<rparr>))"

definition getEndpointGroup :: "string \<Rightarrow> lb_state \<Rightarrow> group option" where
  "getEndpointGroup modelName st = gm_lookup (lb_groups st) modelName"

definition selfLabelKey :: string where "selfLabelKey = ''app.kubernetes.io/name''"
definition selfLabelVal :: string where "selfLabelVal = ''kubeai''"

definition lb_Reconcile ::
  "(string \<Rightarrow> 64 word) \<Rightarrow> reader \<Rightarrow> string \<Rightarrow> string \<Rightarrow> lb_state \<Rightarrow> (string, lb_state) outcome" where
  "lb_Reconcile xx rd ns name st =
     (case rd_pod rd ns name of
        ApiNotFound \<Rightarrow> Done st
      | ApiErr e \<Rightarrow> Error e
      | ApiOk p \<Rightarrow>
          (let labels = om_labels (pod_meta p); ns = om_namespace (pod_meta p)
           in if gm_get [] labels selfLabelKey = selfLabelVal then
                (case rd_pods rd ns selfLabelKey selfLabelVal of
                   ApiOk pods \<Rightarrow>
                     Done (st\<lparr>lb_selfIPs := map (\<lambda>q. pst_pod_ip (pod_status_of q)) (filter PodIsReady pods)\<rparr>)
                 | ApiNotFound \<Rightarrow> Error ''listing matching pods: not found''
                 | ApiErr e \<Rightarrow> Error (''listing matching pods: '' @ e))
              else (case gm_lookup labels PodModelLabel of
                 None \<Rightarrow> Done st
               | Some modelName \<Rightarrow>
                   (case rd_pods rd ns PodModelLabel modelName of
                      ApiNotFound \<Rightarrow> Error ''listing matching pods: not found''
                    | ApiErr e \<Rightarrow> Error (''listing matching pods: '' @ e)
                    | ApiOk pods \<Rightarrow>
                        (let ob = observe_pods (lb_ExcludePods st) pods
                         in case rd_model rd ns modelName of
                              ApiNotFound \<Rightarrow> Done st
                            | ApiErr e \<Rightarrow> Error (''getting model '' @ modelName @ '': '' @ e)
                            | ApiOk m \<Rightarrow>
                                (let (g, st') = getOrCreateEndpointGroup modelName (ms_LoadBalancing (md_spec m)) st
                                 in Done (st'\<lparr>lb_groups := gm_put modelName (reconcileEndpoints xx ob g)
                                            (lb_groups st')\<rparr>)))))))"

definition GetSelfIPs :: "lb_state \<Rightarrow> string list" where
  "GetSelfIPs st = lb_selfIPs st"

text \<open>\<open>AwaitBestAddress\<close> finds the group; the wait in it is the machine of \<open>Group_Machine\<close>.\<close>

definition AwaitBestAddress_group :: "string \<Rightarrow> load_balancing \<Rightarrow> lb_state \<Rightarrow> group \<times> lb_state" where
  "AwaitBestAddress_group modelName lb st = getOrCreateEndpointGroup modelName lb st"

definition GetAllAddresses :: "string \<Rightarrow> lb_state \<Rightarrow> string list" where
  "GetAllAddresses modelName st =
     (case getEndpointGroup modelName st of None \<Rightarrow> [] | Some g \<Rightarrow> getAllAddrs g)"

subsection \<open>Which Pods become endpoints\<close>

definition pod_serves :: "string list \<Rightarrow> pod \<Rightarrow> bool" where
  "pod_serves exclude p \<longleftrightarrow> om_name (pod_meta p) \<notin> set exclude \<and> PodIsReady p
     \<and> getPodAnnotation p ModelPodPortAnnotation \<noteq> [] \<and> pod_ip p \<noteq> []"

definition pod_endpoint :: "pod \<Rightarrow> observed_endpoint" where
  "pod_endpoint p = \<lparr>ob_address = pod_ip p @ '':'' @ getPodAnnotation p ModelPodPortAnnotation,
     ob_adapters = getEndpointAdapters p\<rparr>"

lemma observe_pod_serves:
  "observe_pod ex ob p = (if pod_serves ex p then gm_put (pod_endpoint_key p) (pod_endpoint p) ob else ob)"
  by (simp add: observe_pod_def pod_serves_def pod_endpoint_def Let_def)

lemma observe_pods_fill:
  "foldl (observe_pod ex) ob pods
   = gm_fill (map (\<lambda>p. (pod_endpoint_key p, pod_endpoint p)) (filter (pod_serves ex) pods)) ob"
  by (induction pods arbitrary: ob) (simp_all add: observe_pod_serves)

lemma gm_wf_observe_pods [simp]: "gm_wf (observe_pods ex pods)"
  by (simp add: observe_pods_def observe_pods_fill)

lemma observe_pods_has:
  "gm_has (observe_pods ex pods) k \<longleftrightarrow> (\<exists>p \<in> set pods. pod_serves ex p \<and> pod_endpoint_key p = k)"
  by (force simp: observe_pods_def observe_pods_fill gm_has_fill)

lemma observe_pods_lookup:
  assumes "p \<in> set pods" "pod_serves ex p" "inj_on pod_endpoint_key (set pods)"
  shows "gm_lookup (observe_pods ex pods) (pod_endpoint_key p) = Some (pod_endpoint p)"
proof -
  let ?kvs = "map (\<lambda>p. (pod_endpoint_key p, pod_endpoint p)) (filter (pod_serves ex) pods)"
  have "gm_has (observe_pods ex pods) (pod_endpoint_key p)"
    using assms by (auto simp: observe_pods_has)
  then obtain o' where o': "gm_lookup (observe_pods ex pods) (pod_endpoint_key p) = Some o'"
    by (auto simp: gm_has_def)
  then have "map_of (rev ?kvs) (pod_endpoint_key p) = Some o'"
    by (simp add: observe_pods_def observe_pods_fill gm_lookup_fill)
  then have "(pod_endpoint_key p, o') \<in> set ?kvs" by (auto dest: map_of_SomeD)
  then have "o' = pod_endpoint p" using assms(1,3) by (auto simp: inj_on_def)
  with o' show ?thesis by simp
qed

lemma getEndpointAdapters_iff:
  "a \<in> set (getEndpointAdapters p) \<longleftrightarrow> gm_has (om_labels (pod_meta p)) (PodAdapterLabel a)"
proof
  assume "a \<in> set (getEndpointAdapters p)"
  then obtain k where k: "k \<in> set (gm_keys (om_labels (pod_meta p)))" "has_prefix k PodAdapterLabelPrefix"
    "a = trim_prefix k PodAdapterLabelPrefix"
    by (auto simp: getEndpointAdapters_def)
  then show "gm_has (om_labels (pod_meta p)) (PodAdapterLabel a)"
    using PodAdapterLabel_trim [OF k(2)] by (simp add: gm_has_keys)
next
  assume "gm_has (om_labels (pod_meta p)) (PodAdapterLabel a)"
  then show "a \<in> set (getEndpointAdapters p)"
    by (auto simp: getEndpointAdapters_def gm_has_keys image_iff intro!: bexI [of _ "PodAdapterLabel a"])
qed

lemma lb_Reconcile_model_pod:
  assumes "rd_pod rd ns name = ApiOk p" "gm_get [] (om_labels (pod_meta p)) selfLabelKey \<noteq> selfLabelVal"
    and "gm_lookup (om_labels (pod_meta p)) PodModelLabel = Some mn"
    and "rd_pods rd (om_namespace (pod_meta p)) PodModelLabel mn = ApiOk pods"
    and "rd_model rd (om_namespace (pod_meta p)) mn = ApiOk m"
  shows "lb_Reconcile xx rd ns name st
    = Done (st\<lparr>lb_groups := gm_put mn (reconcileEndpoints xx (observe_pods (lb_ExcludePods st) pods)
        (fst (getOrCreateEndpointGroup mn (ms_LoadBalancing (md_spec m)) st)))
        (lb_groups (snd (getOrCreateEndpointGroup mn (ms_LoadBalancing (md_spec m)) st)))\<rparr>)"
  using assms by (simp add: lb_Reconcile_def Let_def getOrCreateEndpointGroup_def split: option.split)

subsection \<open>Properties\<close>

definition demo_pod :: "string \<Rightarrow> string \<Rightarrow> pod" where
  "demo_pod name ready = \<lparr>pod_meta = empty_meta\<lparr>om_name := name, om_namespace := ''ns'',
       om_labels := [(''model'', ''m''), (''adapter.kubeai.org/x'', ''h'')], om_annotations := [(''model-pod-port'', ''80'')]\<rparr>,
     pod_spec_of = \<lparr>ps_containers = [], ps_volumes = [], ps_pull_secrets = [], ps_node_selector = [], ps_affinity = None,
       ps_tolerations = [], ps_scheduler = [], ps_runtime_class = None, ps_priority_class = [], ps_service_account = [],
       ps_security = None, ps_restart_policy = [], ps_node_name = ''n1''\<rparr>,
     pod_status_of = \<lparr>pst_conditions = [(''Ready'', ready)], pst_pod_ip = ''10.0.0.1'', pst_container_ready = []\<rparr>\<rparr>"

definition demo_reader :: "pod list \<Rightarrow> reader" where
  "demo_reader pods = \<lparr>rd_pod = (\<lambda>ns n. case List.find (\<lambda>p. om_name (pod_meta p) = n) pods of Some p \<Rightarrow> ApiOk p | None \<Rightarrow> ApiNotFound),
     rd_pods = (\<lambda>ns k v. ApiOk (filter (\<lambda>p. gm_lookup (om_labels (pod_meta p)) k = Some v) pods)),
     rd_model = (\<lambda>ns n. ApiOk (default_model n))\<rparr>"

text \<open>C8: Reconciling a Pod of a Model makes the Model's group hold exactly the listed Pods that
  are ready, not excluded, and have a port annotation and an IP, each with the adapters of its
  labels; and a Pod that was not an endpoint before gets its own address.\<close>

theorem lb_Reconcile_endpoints:
  assumes call: "rd_pod rd ns name = ApiOk p" "gm_get [] (om_labels (pod_meta p)) selfLabelKey \<noteq> selfLabelVal"
      "gm_lookup (om_labels (pod_meta p)) PodModelLabel = Some mn"
      "rd_pods rd (om_namespace (pod_meta p)) PodModelLabel mn = ApiOk pods"
      "rd_model rd (om_namespace (pod_meta p)) mn = ApiOk m"
    and inj: "inj_on pod_endpoint_key (set pods)"
  shows "\<exists>st' g. lb_Reconcile xx rd ns name st = Done st' \<and> getEndpointGroup mn st' = Some g
    \<and> (\<forall>k. gm_has (gr_endpoints g) k \<longleftrightarrow> (\<exists>q \<in> set pods. pod_serves (lb_ExcludePods st) q \<and> pod_endpoint_key q = k))
    \<and> (\<forall>q \<in> set pods. pod_serves (lb_ExcludePods st) q \<longrightarrow>
         (\<exists>ep. gm_lookup (gr_endpoints g) (pod_endpoint_key q) = Some ep
           \<and> (\<forall>a. a \<in> set (ep_adapters ep) \<longleftrightarrow> gm_has (om_labels (pod_meta q)) (PodAdapterLabel a))
           \<and> (\<forall>g0. getEndpointGroup mn st = Some g0 \<and> \<not> gm_has (gr_endpoints g0) (pod_endpoint_key q)
                \<longrightarrow> ep_address ep = pod_ip q @ '':'' @ getPodAnnotation q ModelPodPortAnnotation)))"
proof -
  let ?ob = "observe_pods (lb_ExcludePods st) pods"
  let ?old = "fst (getOrCreateEndpointGroup mn (ms_LoadBalancing (md_spec m)) st)"
  let ?new = "reconcileEndpoints xx ?ob ?old"
  have entry: "\<exists>ep. gm_lookup (gr_endpoints ?new) (pod_endpoint_key q) = Some ep
      \<and> ep_adapters ep = getEndpointAdapters q
      \<and> (\<not> gm_has (gr_endpoints ?old) (pod_endpoint_key q) \<longrightarrow> ep_address ep = ob_address (pod_endpoint q))"
    if "q \<in> set pods" "pod_serves (lb_ExcludePods st) q" for q
  proof -
    have lk: "gm_lookup ?ob (pod_endpoint_key q) = Some (pod_endpoint q)"
      using that inj by (rule observe_pods_lookup)
    then have g: "gm_lookup (gr_endpoints ?new) (pod_endpoint_key q) = gm_lookup (gr_endpoints (reconcile_all xx ?ob ?old)) (pod_endpoint_key q)"
      by (intro reconcileEndpoints_lookup) (simp add: gm_has_def)
    show ?thesis
    proof (cases "gm_lookup (gr_endpoints ?old) (pod_endpoint_key q)")
      case None
      then show ?thesis using reconcile_all_new [OF gm_wf_observe_pods lk None, of xx] g
        by (auto simp: pod_endpoint_def)
    next
      case (Some ep)
      then show ?thesis using reconcile_all_existing [OF gm_wf_observe_pods lk Some, of xx] g
        by (auto simp: pod_endpoint_def gm_has_def)
    qed
  qed
  have "getEndpointGroup mn st = Some g0 \<Longrightarrow> ?old = g0" for g0
    by (simp add: getEndpointGroup_def getOrCreateEndpointGroup_def)
  then show ?thesis
    unfolding lb_Reconcile_model_pod [OF call]
    using entry by (fastforce simp: getEndpointGroup_def reconcileEndpoints_has observe_pods_has
        getEndpointAdapters_iff pod_endpoint_def)
qed

theorem lb_Reconcile_endpoints_witness:
  "\<exists>st' g. lb_Reconcile (\<lambda>_. 0) (demo_reader [demo_pod ''p'' ''True'', demo_pod ''q'' ''False'']) ''ns'' ''p'' NewLoadBalancer = Done st'
     \<and> getEndpointGroup ''m'' st' = Some g \<and> gm_has (gr_endpoints g) ''ns/p'' \<and> \<not> gm_has (gr_endpoints g) ''ns/q''"
proof -
  let ?p = "demo_pod ''p'' ''True''" and ?q = "demo_pod ''q'' ''False''"
  let ?rd = "demo_reader [?p, ?q]"
  have keys: "pod_endpoint_key ?p = ''ns/p''" "pod_endpoint_key ?q = ''ns/q''" by code_simp+
  have serves: "pod_serves [] ?p" "\<not> pod_serves [] ?q" by code_simp+
  have labels: "gm_get [] (om_labels (pod_meta ?p)) selfLabelKey \<noteq> selfLabelVal"
    "gm_lookup (om_labels (pod_meta ?p)) PodModelLabel = Some ''m''" "om_namespace (pod_meta ?p) = ''ns''" by code_simp+
  have get: "rd_pod ?rd ''ns'' ''p'' = ApiOk ?p" "rd_model ?rd ''ns'' ''m'' = ApiOk (default_model ''m'')"
    "rd_pods ?rd ''ns'' PodModelLabel ''m'' = ApiOk [?p, ?q]"
    by (simp_all add: demo_reader_def demo_pod_def empty_meta_def PodModelLabel_def)
  have "inj_on pod_endpoint_key (set [?p, ?q])" unfolding inj_on_def using keys by auto
  then obtain st' g where "lb_Reconcile (\<lambda>_. 0) ?rd ''ns'' ''p'' NewLoadBalancer = Done st'" "getEndpointGroup ''m'' st' = Some g"
    "\<And>k. gm_has (gr_endpoints g) k \<longleftrightarrow> (\<exists>q \<in> set [?p, ?q]. pod_serves [] q \<and> pod_endpoint_key q = k)"
    using lb_Reconcile_endpoints [OF get(1) labels(1,2), of "[?p, ?q]" "default_model ''m''" "\<lambda>_. 0" NewLoadBalancer]
    unfolding labels(3) get(2,3) by (auto simp: NewLoadBalancer_def)
  moreover have "\<exists>q \<in> set [?p, ?q]. pod_serves [] q \<and> pod_endpoint_key q = ''ns/p''"
    "\<not> (\<exists>q \<in> set [?p, ?q]. pod_serves [] q \<and> pod_endpoint_key q = ''ns/q'')"
    using keys serves by auto
  ultimately show ?thesis by blast
qed

text \<open>A Pod that is gone when its event is handled changes nothing: whatever the Pods of a Model
  were, after they have all gone the events of their deletion leave its endpoints as they are.\<close>

fun lb_events :: "(string \<Rightarrow> 64 word) \<Rightarrow> reader \<Rightarrow> (string \<times> string) list \<Rightarrow> lb_state \<Rightarrow> (string, lb_state) outcome" where
  "lb_events xx rd [] st = Done st"
| "lb_events xx rd ((ns, name) # evs) st = outcome_bind (lb_Reconcile xx rd ns name st) (lb_events xx rd evs)"

theorem gone_pods_keep_endpoints:
  assumes "\<forall>(ns, name) \<in> set evs. rd_pod rd ns name = ApiNotFound"
  shows "lb_events xx rd evs st = Done st"
  using assms by (induction evs) (auto simp: lb_Reconcile_def)

theorem gone_pods_keep_endpoints_witness:
  "lb_events (\<lambda>_. 0) (demo_reader []) [(''ns'', ''p''), (''ns'', ''q'')] st = Done st"
  by (rule gone_pods_keep_endpoints) (simp add: demo_reader_def)

end
