(* ===== verification/Utf8.thy ===== *)
theory Utf8
  imports Go_Prelude
begin

section \<open>Runes and UTF-8\<close>

text \<open>
  Go's conversions between a byte string and its runes, as \<open>firstNChars\<close> of
  \<open>internal/apiutils\<close> and \<open>api/openai/v1\<close> uses them: decoding replaces every byte that
  does not start a valid sequence by U+FFFD.
\<close>

definition rune_error :: nat where "rune_error = 65533"

definition is_cont :: "nat \<Rightarrow> bool" where "is_cont b \<longleftrightarrow> 128 \<le> b \<and> b < 192"

text \<open>The rune that starts at a byte, and how many bytes after it belong to it.\<close>

definition utf8_step :: "nat \<Rightarrow> nat list \<Rightarrow> nat \<times> nat" where
  "utf8_step b0 bs =
     (if b0 < 128 then (b0, 0)
      else if 194 \<le> b0 \<and> b0 < 224 then
        (case bs of b1 # _ \<Rightarrow> if is_cont b1 then ((b0 - 192) * 64 + (b1 - 128), 1) else (rune_error, 0)
         | _ \<Rightarrow> (rune_error, 0))
      else if 224 \<le> b0 \<and> b0 < 240 then
        (case bs of b1 # b2 # _ \<Rightarrow>
           if is_cont b1 \<and> is_cont b2 \<and> (b0 = 224 \<longrightarrow> 160 \<le> b1) \<and> (b0 = 237 \<longrightarrow> b1 < 160)
           then ((b0 - 224) * 4096 + (b1 - 128) * 64 + (b2 - 128), 2) else (rune_error, 0)
         | _ \<Rightarrow> (rune_error, 0))
      else if 240 \<le> b0 \<and> b0 < 245 then
        (case bs of b1 # b2 # b3 # _ \<Rightarrow>
           if is_cont b1 \<and> is_cont b2 \<and> is_cont b3 \<and> (b0 = 240 \<longrightarrow> 144 \<le> b1) \<and> (b0 = 244 \<longrightarrow> b1 < 144)
           then ((b0 - 240) * 262144 + (b1 - 128) * 4096 + (b2 - 128) * 64 + (b3 - 128), 3) else (rune_error, 0)
         | _ \<Rightarrow> (rune_error, 0))
      else (rune_error, 0))"

function utf8_runes :: "nat list \<Rightarrow> nat list" where
  "utf8_runes [] = []"
| "utf8_runes (b # bs) = fst (utf8_step b bs) # utf8_runes (drop (snd (utf8_step b bs)) bs)"
  by pat_completeness auto
termination by (relation "measure length") simp_all

definition valid_rune :: "nat \<Rightarrow> bool" where
  "valid_rune r \<longleftrightarrow> r < 55296 \<or> 57344 \<le> r \<and> r < 1114112"

definition utf8_encode :: "nat \<Rightarrow> nat list" where
  "utf8_encode r =
     (let r = (if valid_rune r then r else rune_error)
      in if r < 128 then [r]
         else if r < 2048 then [192 + r div 64, 128 + r mod 64]
         else if r < 65536 then [224 + r div 4096, 128 + r div 64 mod 64, 128 + r mod 64]
         else [240 + r div 262144, 128 + r div 4096 mod 64, 128 + r div 64 mod 64, 128 + r mod 64])"

definition str_runes :: "string \<Rightarrow> nat list" where
  "str_runes s = utf8_runes (map of_char s)"

definition runes_str :: "nat list \<Rightarrow> string" where
  "runes_str rs = map char_of (concat (map utf8_encode rs))"

text \<open>\<open>runes[:min(n, len(runes))]\<close>: a negative bound panics.\<close>

definition firstNChars :: "string \<Rightarrow> int \<Rightarrow> (unit, string) outcome" where
  "firstNChars s n =
     (let runes = str_runes s; k = min n (int (length runes))
      in if k < 0 then Panic ''slice bounds out of range'' else Done (runes_str (take (nat k) runes)))"

subsection \<open>Decoding inverts encoding\<close>

lemma cont_mod [simp]: "is_cont (128 + r mod 64)"
  by (simp add: is_cont_def)

lemma digits2: "r div 64 * 64 + r mod 64 = (r :: nat)"
  by simp

lemma digits3: "(r :: nat) div 4096 * 4096 + r div 64 mod 64 * 64 + r mod 64 = r"
proof -
  have "r div 4096 = r div 64 div 64" by (simp add: div_mult2_eq)
  then have "r div 4096 * 64 + r div 64 mod 64 = r div 64" by simp
  then have "(r div 4096 * 64 + r div 64 mod 64) * 64 + r mod 64 = r" by simp
  then show ?thesis by (simp add: algebra_simps)
qed

lemma digits4: "(r :: nat) div 262144 * 262144 + r div 4096 mod 64 * 4096 + r div 64 mod 64 * 64 + r mod 64 = r"
proof -
  have "r div 262144 = r div 4096 div 64" by (simp add: div_mult2_eq)
  then have "r div 262144 * 64 + r div 4096 mod 64 = r div 4096" by simp
  then have "(r div 262144 * 64 + r div 4096 mod 64) * 4096 + r div 64 mod 64 * 64 + r mod 64 = r"
    using digits3 [of r] by simp
  then show ?thesis by (simp add: algebra_simps)
qed

text \<open>Sequences of two, three and four bytes, by their digits.\<close>

lemma utf8_step2: "2 \<le> a \<Longrightarrow> a < 32 \<Longrightarrow> b < 64 \<Longrightarrow> utf8_step (192 + a) ((128 + b) # bs) = (a * 64 + b, 1)"
  by (simp add: utf8_step_def is_cont_def)

lemma utf8_step3:
  "a < 16 \<Longrightarrow> b < 64 \<Longrightarrow> c < 64 \<Longrightarrow> (a = 0 \<Longrightarrow> 32 \<le> b) \<Longrightarrow> (a = 13 \<Longrightarrow> b < 32) \<Longrightarrow>
   utf8_step (224 + a) ((128 + b) # (128 + c) # bs) = (a * 4096 + b * 64 + c, 2)"
  by (auto simp: utf8_step_def is_cont_def)

lemma utf8_step4:
  "a < 5 \<Longrightarrow> b < 64 \<Longrightarrow> c < 64 \<Longrightarrow> d < 64 \<Longrightarrow> (a = 0 \<Longrightarrow> 16 \<le> b) \<Longrightarrow> (a = 4 \<Longrightarrow> b < 16) \<Longrightarrow>
   utf8_step (240 + a) ((128 + b) # (128 + c) # (128 + d) # bs) = (a * 262144 + b * 4096 + c * 64 + d, 3)"
  by (auto simp: utf8_step_def is_cont_def)

lemma utf8_encode_cases:
  assumes "valid_rune r"
  obtains (one) "r < 128" "utf8_encode r = [r]"
  | (two) a b where "2 \<le> a" "a < 32" "b < 64" "r = a * 64 + b" "utf8_encode r = [192 + a, 128 + b]"
  | (three) a b c where "a < 16" "b < 64" "c < 64" "a = 0 \<Longrightarrow> 32 \<le> b" "a = 13 \<Longrightarrow> b < 32"
      "r = a * 4096 + b * 64 + c" "utf8_encode r = [224 + a, 128 + b, 128 + c]"
  | (four) a b c d where "a < 5" "b < 64" "c < 64" "d < 64" "a = 0 \<Longrightarrow> 16 \<le> b" "a = 4 \<Longrightarrow> b < 16"
      "r = a * 262144 + b * 4096 + c * 64 + d" "utf8_encode r = [240 + a, 128 + b, 128 + c, 128 + d]"
proof -
  have v: "r < 55296 \<or> 57344 \<le> r \<and> r < 1114112" using assms by (simp add: valid_rune_def)
  consider "r < 128" | "128 \<le> r" "r < 2048" | "2048 \<le> r" "r < 65536" | "65536 \<le> r" "r < 1114112"
    using v by linarith
  then show thesis
  proof cases
    case 1
    then show ?thesis using assms by (intro one) (simp_all add: utf8_encode_def)
  next
    case 2
    show ?thesis
    proof (rule two [of "r div 64" "r mod 64"])
      show "utf8_encode r = [192 + r div 64, 128 + r mod 64]" using 2 assms by (simp add: utf8_encode_def)
      show "2 \<le> r div 64" "r div 64 < 32" using 2 by linarith+
    qed simp_all
  next
    case 3
    have r: "r = r div 4096 * 4096 + r div 64 mod 64 * 64 + r mod 64" by (simp only: digits3)
    have lt: "r div 64 mod 64 < 64" "r mod 64 < 64" by simp_all
    show ?thesis
    proof (rule three [OF _ lt _ _ r])
      show "r div 4096 < 16" using 3 by linarith
      show "32 \<le> r div 64 mod 64" if "r div 4096 = 0" using r lt that 3 by linarith
      show "r div 64 mod 64 < 32" if "r div 4096 = 13" using r lt that v by linarith
      show "utf8_encode r = [224 + r div 4096, 128 + r div 64 mod 64, 128 + r mod 64]"
        using 3 assms by (simp add: utf8_encode_def)
    qed
  next
    case 4
    have r: "r = r div 262144 * 262144 + r div 4096 mod 64 * 4096 + r div 64 mod 64 * 64 + r mod 64" by (simp only: digits4)
    have lt: "r div 4096 mod 64 < 64" "r div 64 mod 64 < 64" "r mod 64 < 64" by simp_all
    show ?thesis
    proof (rule four [OF _ lt _ _ r])
      show "r div 262144 < 5" using 4 by linarith
      show "16 \<le> r div 4096 mod 64" if "r div 262144 = 0" using r lt that 4 by linarith
      show "r div 4096 mod 64 < 16" if "r div 262144 = 4" using r lt that 4 by linarith
      show "utf8_encode r = [240 + r div 262144, 128 + r div 4096 mod 64, 128 + r div 64 mod 64, 128 + r mod 64]"
        using 4 assms by (simp add: utf8_encode_def)
    qed
  qed
qed

lemma utf8_step_encode:
  assumes "valid_rune r"
  shows "\<exists>h t. utf8_encode r = h # t \<and> utf8_step h (t @ bs) = (r, length t)"
  using assms
proof (cases rule: utf8_encode_cases)
  case one
  then show ?thesis by (simp add: utf8_step_def)
qed (simp_all add: utf8_step2 utf8_step3 utf8_step4)

lemma utf8_runes_encode: "valid_rune r \<Longrightarrow> utf8_runes (utf8_encode r @ bs) = r # utf8_runes bs"
  using utf8_step_encode [of r bs] by auto

lemma utf8_runes_concat: "\<forall>r \<in> set rs. valid_rune r \<Longrightarrow> utf8_runes (concat (map utf8_encode rs)) = rs"
  by (induction rs) (simp_all add: utf8_runes_encode)

lemma valid_rune_error [simp]: "valid_rune rune_error"
  by (simp add: valid_rune_def rune_error_def)

lemma valid_step3:
  assumes "a < 16" "b < 64" "c < 64" "a = 13 \<Longrightarrow> b < 32"
  shows "valid_rune (a * 4096 + b * 64 + c)"
proof -
  consider "a < 13" | "a = 13" | "13 < a" by linarith
  then show ?thesis using assms by cases (simp_all add: valid_rune_def)
qed

lemma cont_digit: "is_cont b \<Longrightarrow> b - 128 < 64"
  by (auto simp: is_cont_def)

lemma valid_step: "valid_rune (fst (utf8_step b bs))"
proof -
  consider "b < 128" | "194 \<le> b" "b < 224" | "224 \<le> b" "b < 240" | "240 \<le> b" "b < 245"
    | "\<not> b < 128" "\<not> (194 \<le> b \<and> b < 245)" by linarith
  then show ?thesis
  proof cases
    case 1
    then show ?thesis by (simp add: utf8_step_def valid_rune_def)
  next
    case 2
    have "(b - 192) * 64 + (c - 128) < 55296" if "is_cont c" for c using 2 cont_digit [OF that] by linarith
    with 2 show ?thesis by (simp add: utf8_step_def split: list.split) (simp add: valid_rune_def)
  next
    case 3
    have "valid_rune ((b - 224) * 4096 + (c - 128) * 64 + (d - 128))"
      if "is_cont c" "is_cont d" "b = 237 \<longrightarrow> c < 160" for c d
    proof (rule valid_step3)
      show "b - 224 < 16" using 3 by linarith
      show "c - 128 < 32" if "b - 224 = 13" using \<open>b = 237 \<longrightarrow> c < 160\<close> that by linarith
    qed (use that cont_digit in auto)
    with 3 show ?thesis by (simp add: utf8_step_def split: list.split)
  next
    case 4
    have "valid_rune ((b - 240) * 262144 + (c - 128) * 4096 + (d - 128) * 64 + (e - 128))"
      if c: "is_cont c" "is_cont d" "is_cont e" "b = 240 \<longrightarrow> 144 \<le> c" "b = 244 \<longrightarrow> c < 144" for c d e
    proof -
      have "c - 128 < 64" "d - 128 < 64" "e - 128 < 64" using c cont_digit by blast+
      moreover have "b = 240 \<or> b = 244 \<or> 1 \<le> b - 240 \<and> b - 240 < 4" using 4 by linarith
      ultimately have "65536 \<le> (b - 240) * 262144 + (c - 128) * 4096 + (d - 128) * 64 + (e - 128)
          \<and> (b - 240) * 262144 + (c - 128) * 4096 + (d - 128) * 64 + (e - 128) < 1114112"
        using c(4,5) by (elim disjE; linarith)
      then show ?thesis by (simp add: valid_rune_def)
    qed
    with 4 show ?thesis by (simp add: utf8_step_def split: list.split)
  next
    case 5
    then show ?thesis by (auto simp: utf8_step_def)
  qed
qed

lemma valid_runes: "r \<in> set (utf8_runes bs) \<Longrightarrow> valid_rune r"
  by (induction bs rule: utf8_runes.induct) (auto simp: valid_step)

lemma utf8_encode_error: "\<not> valid_rune r \<Longrightarrow> utf8_encode r = utf8_encode rune_error"
  by (simp add: utf8_encode_def)

lemma encode_bytes_valid: "valid_rune r \<Longrightarrow> b \<in> set (utf8_encode r) \<Longrightarrow> b < 256"
  by (erule utf8_encode_cases) auto

lemma encode_bytes: "b \<in> set (utf8_encode r) \<Longrightarrow> b < 256"
  using encode_bytes_valid [OF valid_rune_error, of b] encode_bytes_valid [of r b] utf8_encode_error [of r]
  by (cases "valid_rune r") simp_all

lemma str_runes_runes_str: "\<forall>r \<in> set rs. valid_rune r \<Longrightarrow> str_runes (runes_str rs) = rs"
proof -
  assume rs: "\<forall>r \<in> set rs. valid_rune r"
  let ?bs = "concat (map utf8_encode rs)"
  have "map (of_char \<circ> char_of) ?bs = map id ?bs"
    by (rule map_cong [OF refl]) (use encode_bytes in \<open>auto simp: of_char_of\<close>)
  then show ?thesis using utf8_runes_concat [OF rs] by (simp add: str_runes_def runes_str_def)
qed

lemma set_take_runes: "\<forall>r \<in> set (take k (str_runes s)). valid_rune r"
  using valid_runes by (auto simp: str_runes_def dest: in_set_takeD)

lemma firstNChars_runes:
  "0 \<le> n \<Longrightarrow> \<exists>p. firstNChars s n = Done p \<and> str_runes p = take (nat n) (str_runes s)"
  using str_runes_runes_str [OF set_take_runes, of "nat (min n (int (length (str_runes s))))" s]
  by (cases "n \<le> int (length (str_runes s))") (simp_all add: firstNChars_def Let_def min_def)

lemma firstNChars_negative: "n < 0 \<Longrightarrow> is_panic (firstNChars s n)"
  by (simp add: firstNChars_def Let_def min_def)

end
