(* ===== verification/Json.thy ===== *)
theory Json
  imports Utf8
begin

section \<open>JSON text\<close>

text \<open>
  What the program uses of Go's \<open>encoding/json\<close>: the scanner and its values, string literals
  with their escapes, the encoder with its HTML escapes, raw messages, and the matching of
  object keys with struct fields. A string of the program is its bytes; an invalid byte
  becomes U+FFFD on the way in and on the way out. Numbers stay as their text.
\<close>

datatype json_value =
    JNull | JBool bool | JNum string | JStr string | JArr "json_value list" | JObj "(string \<times> json_value) list"

subsection \<open>String literals\<close>

definition json_hex :: "char \<Rightarrow> nat option" where
  "json_hex c =
     (let n = of_char c :: nat
      in if 48 \<le> n \<and> n \<le> 57 then Some (n - 48)
         else if 97 \<le> n \<and> n \<le> 102 then Some (n - 87)
         else if 65 \<le> n \<and> n \<le> 70 then Some (n - 55) else None)"

definition json_hex4 :: "string \<Rightarrow> nat option" where
  "json_hex4 s =
     (case s of a # b # c # d # _ \<Rightarrow>
        (case (json_hex a, json_hex b, json_hex c, json_hex d) of
           (Some a, Some b, Some c, Some d) \<Rightarrow> Some (((a * 16 + b) * 16 + c) * 16 + d)
         | _ \<Rightarrow> None)
      | _ \<Rightarrow> None)"

text \<open>After a backslash: the rune, and how many bytes it takes. A high surrogate joins a low
  surrogate that follows it, and a surrogate alone becomes U+FFFD.\<close>

definition low_surrogate :: "string \<Rightarrow> nat option" where
  "low_surrogate s =
     (case s of x # y # t \<Rightarrow>
        if x = CHR 0x5C \<and> y = CHR ''u'' then
          (case json_hex4 t of Some r \<Rightarrow> if 56320 \<le> r \<and> r < 57344 then Some r else None | None \<Rightarrow> None)
        else None
      | _ \<Rightarrow> None)"

definition json_escape_u :: "string \<Rightarrow> (nat \<times> nat) option" where
  "json_escape_u s =
     (case json_hex4 s of
        None \<Rightarrow> None
      | Some r \<Rightarrow>
          (if 55296 \<le> r \<and> r < 57344 then
             (case (r < 56320, low_surrogate (drop 4 s)) of
                (True, Some r2) \<Rightarrow> Some (65536 + (r - 55296) * 1024 + (r2 - 56320), 11)
              | _ \<Rightarrow> Some (rune_error, 5))
           else Some (r, 5)))"

definition json_escape :: "string \<Rightarrow> (nat \<times> nat) option" where
  "json_escape s =
     (case s of [] \<Rightarrow> None
      | e # t \<Rightarrow>
          if e = CHR 0x22 then Some (34, 1) else if e = CHR 0x5C then Some (92, 1)
          else if e = CHR ''/'' then Some (47, 1) else if e = CHR ''b'' then Some (8, 1)
          else if e = CHR ''f'' then Some (12, 1) else if e = CHR ''n'' then Some (10, 1)
          else if e = CHR ''r'' then Some (13, 1) else if e = CHR ''t'' then Some (9, 1)
          else if e = CHR ''u'' then json_escape_u t else None)"

text \<open>The rest of a string literal, after the opening quote: its text and what follows it.\<close>

definition str_step :: "char \<Rightarrow> string \<Rightarrow> nat \<times> nat" where
  "str_step c cs = utf8_step (of_char c) (map of_char (take 3 cs))"

function json_string :: "string \<Rightarrow> (string \<times> string) option" where
  "json_string [] = None"
| "json_string (c # cs) =
     (if c = CHR 0x22 then Some ([], cs)
      else if c = CHR 0x5C then
        (case json_escape cs of
           None \<Rightarrow> None
         | Some (r, k) \<Rightarrow> map_option (apfst ((@) (runes_str [r]))) (json_string (drop k cs)))
      else if (of_char c :: nat) < 32 then None
      else map_option (apfst ((@) (runes_str [fst (str_step c cs)]))) (json_string (drop (snd (str_step c cs)) cs)))"
  by pat_completeness auto
termination by (relation "measure length") auto

subsection \<open>Number literals\<close>

definition json_frac :: "string \<Rightarrow> (string \<times> string) option" where
  "json_frac s =
     (case s of
        c # t \<Rightarrow>
          if c = CHR ''.'' then
            (let ds = takeWhile is_digit t in if ds = [] then None else Some (c # ds, dropWhile is_digit t))
          else Some ([], s)
      | [] \<Rightarrow> Some ([], s))"

definition json_exp :: "string \<Rightarrow> (string \<times> string) option" where
  "json_exp s =
     (case s of
        c # t \<Rightarrow>
          if c = CHR ''e'' \<or> c = CHR ''E'' then
            (let sign = (case t of x # _ \<Rightarrow> if x = CHR ''+'' \<or> x = CHR ''-'' then [x] else [] | [] \<Rightarrow> []);
                 t' = drop (length sign) t; ds = takeWhile is_digit t'
             in if ds = [] then None else Some (c # sign @ ds, dropWhile is_digit t'))
          else Some ([], s)
      | [] \<Rightarrow> Some ([], s))"

definition json_int :: "string \<Rightarrow> (string \<times> string) option" where
  "json_int s =
     (case s of
        c # t \<Rightarrow>
          if c = CHR ''0'' then Some ([c], t)
          else if is_digit c then Some (takeWhile is_digit s, dropWhile is_digit s) else None
      | [] \<Rightarrow> None)"

definition json_number :: "string \<Rightarrow> (string \<times> string) option" where
  "json_number s =
     (let sign = (case s of c # _ \<Rightarrow> if c = CHR ''-'' then [c] else [] | [] \<Rightarrow> [])
      in case json_int (drop (length sign) s) of
           None \<Rightarrow> None
         | Some (i, s1) \<Rightarrow>
             (case json_frac s1 of
                None \<Rightarrow> None
              | Some (f, s2) \<Rightarrow> map_option (apfst (\<lambda>e. sign @ i @ f @ e)) (json_exp s2)))"

subsection \<open>Values\<close>

definition is_space :: "char \<Rightarrow> bool" where
  "is_space c \<longleftrightarrow> c = CHR '' '' \<or> c = CHR 0x09 \<or> c = CHR 0x0A \<or> c = CHR 0x0D"

definition skip_ws :: "string \<Rightarrow> string" where
  "skip_ws s = dropWhile is_space s"

definition json_literal :: "string \<Rightarrow> json_value \<Rightarrow> string \<Rightarrow> (json_value \<times> string) option" where
  "json_literal w v s = (if has_prefix s w then Some (v, drop (length w) s) else None)"

text \<open>The first argument is fuel, two per byte of the text (\<open>parse_fuel\<close>); the second is the
  depth that is left of the 10000 the scanner allows. A member keeps the raw text of its value.\<close>

fun parse_value :: "nat \<Rightarrow> int \<Rightarrow> string \<Rightarrow> (json_value \<times> string) option"
  and parse_elems :: "nat \<Rightarrow> int \<Rightarrow> string \<Rightarrow> (json_value list \<times> string) option"
  and parse_members :: "nat \<Rightarrow> int \<Rightarrow> string \<Rightarrow> ((string \<times> string \<times> json_value) list \<times> string) option" where
  "parse_value 0 d s = None"
| "parse_value (Suc n) d s =
     (case skip_ws s of
        [] \<Rightarrow> None
      | c # cs \<Rightarrow>
          if c = CHR ''{'' then
            (if d \<le> 0 then None
             else (case skip_ws cs of
                 x # t \<Rightarrow> if x = CHR ''}'' then Some (JObj [], t)
                          else map_option (apfst (\<lambda>ms. JObj (map (\<lambda>(k, raw, v). (k, v)) ms))) (parse_members n (d - 1) cs)
               | [] \<Rightarrow> None))
          else if c = CHR ''['' then
            (if d \<le> 0 then None
             else (case skip_ws cs of
                 x # t \<Rightarrow> if x = CHR '']'' then Some (JArr [], t)
                          else map_option (apfst JArr) (parse_elems n (d - 1) cs)
               | [] \<Rightarrow> None))
          else if c = CHR 0x22 then map_option (apfst JStr) (json_string cs)
          else if c = CHR ''t'' then json_literal ''true'' (JBool True) (c # cs)
          else if c = CHR ''f'' then json_literal ''false'' (JBool False) (c # cs)
          else if c = CHR ''n'' then json_literal ''null'' JNull (c # cs)
          else map_option (apfst JNum) (json_number (c # cs)))"
| "parse_elems 0 d s = None"
| "parse_elems (Suc n) d s =
     (case parse_value n d s of
        None \<Rightarrow> None
      | Some (v, rest) \<Rightarrow>
          (case skip_ws rest of
             [] \<Rightarrow> None
           | c # t \<Rightarrow>
               if c = CHR '','' then map_option (apfst ((#) v)) (parse_elems n d t)
               else if c = CHR '']'' then Some ([v], t) else None))"
| "parse_members 0 d s = None"
| "parse_members (Suc n) d s =
     (case skip_ws s of
        [] \<Rightarrow> None
      | q # cs \<Rightarrow>
          if q \<noteq> CHR 0x22 then None
          else (case json_string cs of
              None \<Rightarrow> None
            | Some (k, r1) \<Rightarrow>
                (case skip_ws r1 of
                   [] \<Rightarrow> None
                 | col # r2 \<Rightarrow>
                     if col \<noteq> CHR '':'' then None
                     else (case parse_value n d (skip_ws r2) of
                         None \<Rightarrow> None
                       | Some (v, r3) \<Rightarrow>
                           (let m = (k, take (length (skip_ws r2) - length r3) (skip_ws r2), v)
                            in case skip_ws r3 of
                                 [] \<Rightarrow> None
                               | c # t \<Rightarrow>
                                   if c = CHR '','' then map_option (apfst ((#) m)) (parse_members n d t)
                                   else if c = CHR ''}'' then Some ([m], t) else None)))))"

definition json_depth :: int where "json_depth = 10000"

definition json_parse :: "string \<Rightarrow> json_value option" where
  "json_parse s =
     (case parse_value (2 * length s + 2) json_depth s of
        Some (v, rest) \<Rightarrow> if skip_ws rest = [] then Some v else None
      | None \<Rightarrow> None)"

text \<open>The members of a text that is an object, with the raw text of their values.\<close>

definition json_members :: "string \<Rightarrow> (string \<times> string \<times> json_value) list option" where
  "json_members s =
     (case skip_ws s of
        [] \<Rightarrow> None
      | c # cs \<Rightarrow>
          if c \<noteq> CHR ''{'' then None
          else (case skip_ws cs of
              [] \<Rightarrow> None
            | x # t \<Rightarrow>
                if x = CHR ''}'' then Some []
                else map_option fst (parse_members (2 * length cs + 2) (json_depth - 1) cs)))"

subsection \<open>Encoding\<close>

definition hex_char :: "nat \<Rightarrow> char" where
  "hex_char n = (if n < 10 then digit_char n else char_of (87 + n))"

definition escape_u :: "nat \<Rightarrow> string" where
  "escape_u r = [CHR 0x5C, CHR ''u'', hex_char (r div 4096 mod 16), hex_char (r div 256 mod 16), hex_char (r div 16 mod 16), hex_char (r mod 16)]"

definition escape_byte :: "char \<Rightarrow> string" where
  "escape_byte c =
     (let n = of_char c :: nat
      in if n = 34 \<or> n = 92 then [CHR 0x5C, c]
         else if n = 8 then [CHR 0x5C, CHR ''b''] else if n = 12 then [CHR 0x5C, CHR ''f'']
         else if n = 10 then [CHR 0x5C, CHR ''n''] else if n = 13 then [CHR 0x5C, CHR ''r'']
         else if n = 9 then [CHR 0x5C, CHR ''t'']
         else if n < 32 \<or> n = 60 \<or> n = 62 \<or> n = 38 then escape_u n else [c])"

function quote_body :: "string \<Rightarrow> string" where
  "quote_body [] = []"
| "quote_body (c # cs) =
     (if (of_char c :: nat) < 128 then escape_byte c @ quote_body cs
      else (let (r, k) = str_step c cs
            in (if k = 0 then escape_u rune_error else if r = 8232 \<or> r = 8233 then escape_u r else c # take k cs)
                 @ quote_body (drop k cs)))"
  by pat_completeness auto
termination by (relation "measure length") auto

definition json_quote :: "string \<Rightarrow> string" where
  "json_quote s = CHR 0x22 # quote_body s @ [CHR 0x22]"

fun json_text :: "json_value \<Rightarrow> string"
  and json_elems :: "json_value list \<Rightarrow> string"
  and json_fields :: "(string \<times> json_value) list \<Rightarrow> string" where
  "json_text JNull = ''null''"
| "json_text (JBool b) = (if b then ''true'' else ''false'')"
| "json_text (JNum t) = t"
| "json_text (JStr s) = json_quote s"
| "json_text (JArr []) = ''[]''"
| "json_text (JArr (v # vs)) = CHR ''['' # json_text v @ json_elems vs"
| "json_text (JObj []) = ''{}''"
| "json_text (JObj ((k, v) # kvs)) = CHR ''{'' # json_quote k @ CHR '':'' # json_text v @ json_fields kvs"
| "json_elems [] = '']''"
| "json_elems (v # vs) = CHR '','' # json_text v @ json_elems vs"
| "json_fields [] = ''}''"
| "json_fields ((k, v) # kvs) = CHR '','' # json_quote k @ CHR '':'' # json_text v @ json_fields kvs"

text \<open>\<open>json.RawMessage\<close> is checked and compacted by the encoder: white space goes, and the
  characters it escapes in strings are escaped.\<close>

fun compact :: "bool \<Rightarrow> string \<Rightarrow> string" where
  "compact q [] = []"
| "compact False (c # cs) = (if is_space c then compact False cs else c # compact (c = CHR 0x22) cs)"
| "compact True [c] = [c]"
| "compact True (c # e # cs) =
     (if c = CHR 0x5C then c # e # compact True cs
      else if c = CHR 0x22 then c # compact False (e # cs)
      else if c = CHR ''<'' \<or> c = CHR ''>'' \<or> c = CHR ''&'' then escape_u (of_char c) @ compact True (e # cs)
      else (case cs of
          x # cs' \<Rightarrow> if (of_char c :: nat) = 226 \<and> (of_char e :: nat) = 128 \<and> (of_char x :: nat) \<in> {168, 169} then
                       escape_u (8064 + of_char x) @ compact True cs'
                     else c # compact True (e # cs)
        | [] \<Rightarrow> c # compact True (e # cs)))"

definition raw_message :: "string \<Rightarrow> string option" where
  "raw_message s = (if json_parse s = None then None else Some (compact False s))"

subsection \<open>Struct fields\<close>

text \<open>A key names a field up to case; two runes outside ASCII fold to letters.\<close>

definition fold_rune :: "nat \<Rightarrow> nat" where
  "fold_rune r = (if 97 \<le> r \<and> r \<le> 122 then r - 32 else if r = 8490 then 75 else if r = 383 then 83 else r)"

definition names_field :: "string \<Rightarrow> string \<Rightarrow> bool" where
  "names_field field key \<longleftrightarrow> key = field \<or> map fold_rune (str_runes key) = map fold_rune (str_runes field)"

end
