(* ===== verification/Json_Roundtrip.thy ===== *)
theory Json_Roundtrip
  imports Json
begin

section \<open>Reading JSON back\<close>

text \<open>
  What the encoder of \<open>Json\<close> writes, the scanner reads: a string comes back with its invalid
  bytes replaced (\<open>json_clean\<close>), a value with its strings so, and no text of a value needs more
  fuel than the parser has.
\<close>

subsection \<open>One rune\<close>

lemma utf8_digits2: "(b :: nat) < 64 \<Longrightarrow> (a * 64 + b) div 64 = a" "(b :: nat) < 64 \<Longrightarrow> (a * 64 + b) mod 64 = b"
  by simp_all

lemma utf8_digits3:
  assumes "(b :: nat) < 64" "(c :: nat) < 64"
  shows "(a * 4096 + b * 64 + c) div 4096 = a" "(a * 4096 + b * 64 + c) div 64 mod 64 = b" "(a * 4096 + b * 64 + c) mod 64 = c"
proof -
  have s: "a * 4096 + b * 64 + c = (a * 64 + b) * 64 + c" by (simp add: algebra_simps)
  have d: "(a * 4096 + b * 64 + c) div 64 = a * 64 + b" unfolding s using assms(2) by (rule utf8_digits2)
  then show "(a * 4096 + b * 64 + c) div 64 mod 64 = b" using assms(1) by simp
  have "(a * 4096 + b * 64 + c) div 4096 = (a * 4096 + b * 64 + c) div 64 div 64" by (simp only: div_mult2_eq [symmetric]) simp
  then show "(a * 4096 + b * 64 + c) div 4096 = a" using d assms(1) by simp
  show "(a * 4096 + b * 64 + c) mod 64 = c" unfolding s using assms(2) by (rule utf8_digits2)
qed

lemma utf8_digits4:
  assumes "(b :: nat) < 64" "(c :: nat) < 64" "(d :: nat) < 64"
  shows "(a * 262144 + b * 4096 + c * 64 + d) div 262144 = a" "(a * 262144 + b * 4096 + c * 64 + d) div 4096 mod 64 = b"
    "(a * 262144 + b * 4096 + c * 64 + d) div 64 mod 64 = c" "(a * 262144 + b * 4096 + c * 64 + d) mod 64 = d"
proof -
  let ?r = "a * 262144 + b * 4096 + c * 64 + d"
  have s: "?r = (a * 64 + b) * 4096 + c * 64 + d" by (simp add: algebra_simps)
  note q = utf8_digits3 [OF assms(2,3), of "a * 64 + b"]
  have d: "?r div 4096 = a * 64 + b" unfolding s by (rule q)
  show "?r div 64 mod 64 = c" "?r mod 64 = d" unfolding s by (rule q)+
  show "?r div 4096 mod 64 = b" using d assms(1) by simp
  have "?r div 262144 = ?r div 4096 div 64" by (simp only: div_mult2_eq [symmetric]) simp
  then show "?r div 262144 = a" using d assms(1) by simp
qed

lemma cont_back: "is_cont b \<Longrightarrow> 128 + (b - 128) = b" "is_cont b \<Longrightarrow> b - 128 < 64"
  by (auto simp: is_cont_def)

text \<open>The bytes of a rune encode it, and no byte after them matters.\<close>

lemma utf8_step_back:
  assumes "128 \<le> b" "utf8_step b bs = (r, k)"
  shows "(k = 0 \<and> r = rune_error) \<or>
    (0 < k \<and> k \<le> 3 \<and> k \<le> length bs \<and> utf8_encode r = b # take k bs \<and> (\<forall>ys. utf8_step b (take k bs @ ys) = (r, k)))"
proof (cases "k = 0")
  case True
  then show ?thesis using assms by (auto simp: utf8_step_def split: if_splits list.splits)
next
  case False
  consider (two) "194 \<le> b" "b < 224" | (three) "224 \<le> b" "b < 240" | (four) "240 \<le> b" "b < 245"
    using assms False by (auto simp: utf8_step_def split: if_splits)
  then show ?thesis
  proof cases
    case two
    then obtain c t where bs: "bs = c # t" "is_cont c" and r: "r = (b - 192) * 64 + (c - 128)" "k = 1"
      using assms(2) False by (auto simp: utf8_step_def split: list.splits if_splits)
    have "128 \<le> r" "r < 2048" using two cont_back(2) [OF bs(2)] unfolding r by linarith+
    then have "utf8_encode r = [192 + r div 64, 128 + r mod 64]" by (simp add: utf8_encode_def valid_rune_def)
    then have "utf8_encode r = [b, c]"
      using two bs(2) unfolding r(1) utf8_digits2 [OF cont_back(2) [OF bs(2)]] by (simp add: cont_back)
    then show ?thesis using two bs r by (auto simp: utf8_step_def)
  next
    case three
    then obtain c e t where bs: "bs = c # e # t" "is_cont c" "is_cont e" "b = 224 \<longrightarrow> 160 \<le> c" "b = 237 \<longrightarrow> c < 160"
      and r: "r = (b - 224) * 4096 + (c - 128) * 64 + (e - 128)" "k = 2"
      using assms(2) False by (auto simp: utf8_step_def split: list.splits if_splits)
    note lt = cont_back(2) [OF bs(2)] cont_back(2) [OF bs(3)]
    have v: "valid_rune r" using valid_step [of b bs] assms(2) by simp
    have "2048 \<le> r" "r < 65536" using three bs(4) lt unfolding r by (cases "b = 224"; linarith)+
    then have "utf8_encode r = [224 + r div 4096, 128 + r div 64 mod 64, 128 + r mod 64]" using v by (simp add: utf8_encode_def)
    then have "utf8_encode r = [b, c, e]"
      using three bs(2,3) unfolding r(1) utf8_digits3 [OF lt] by (simp add: cont_back)
    then show ?thesis using three bs r by (auto simp: utf8_step_def)
  next
    case four
    then obtain c e f t where bs: "bs = c # e # f # t" "is_cont c" "is_cont e" "is_cont f" "b = 240 \<longrightarrow> 144 \<le> c" "b = 244 \<longrightarrow> c < 144"
      and r: "r = (b - 240) * 262144 + (c - 128) * 4096 + (e - 128) * 64 + (f - 128)" "k = 3"
      using assms(2) False by (auto simp: utf8_step_def split: list.splits if_splits)
    note lt = cont_back(2) [OF bs(2)] cont_back(2) [OF bs(3)] cont_back(2) [OF bs(4)]
    have v: "valid_rune r" using valid_step [of b bs] assms(2) by simp
    have "65536 \<le> r" using four bs(5) lt unfolding r by (cases "b = 240"; linarith)
    then have "utf8_encode r = [240 + r div 262144, 128 + r div 4096 mod 64, 128 + r div 64 mod 64, 128 + r mod 64]"
      using v by (simp add: utf8_encode_def)
    then have "utf8_encode r = [b, c, e, f]"
      using four bs(2-4) unfolding r(1) utf8_digits4 [OF lt] by (simp add: cont_back)
    then show ?thesis using four bs r by (auto simp: utf8_step_def)
  qed
qed

lemma utf8_step_take3: "utf8_step b (take 3 bs) = utf8_step b bs"
proof -
  have "take 3 bs = bs \<or> (\<exists>x y z w t. bs = x # y # z # w # t)"
    by (cases bs; cases "tl bs"; cases "tl (tl bs)"; cases "tl (tl (tl bs))") (auto simp: numeral_3_eq_3)
  then show ?thesis by (auto simp: utf8_step_def numeral_3_eq_3)
qed

lemma str_step_eq: "str_step c cs = utf8_step (of_char c) (map of_char cs)"
  by (simp add: str_step_def take_map [symmetric] utf8_step_take3)

lemma str_step_ascii: "(of_char c :: nat) < 128 \<Longrightarrow> str_step c cs = (of_char c, 0)"
  by (simp add: str_step_eq utf8_step_def)

lemma str_step_back:
  assumes "128 \<le> (of_char c :: nat)" "str_step c cs = (r, k)"
  shows "(k = 0 \<and> r = rune_error) \<or>
    (0 < k \<and> k \<le> length cs \<and> runes_str [r] = c # take k cs \<and> (\<forall>ys. str_step c (take k cs @ ys) = (r, k)))"
proof -
  have "utf8_encode r = of_char c # take k (map of_char cs) \<Longrightarrow> runes_str [r] = c # take k cs"
    by (simp add: runes_str_def take_map comp_def)
  moreover have "str_step c (take k cs @ ys) = utf8_step (of_char c) (take k (map of_char cs) @ map of_char ys)" for ys
    by (simp add: str_step_eq take_map)
  ultimately show ?thesis
    using utf8_step_back [OF assms(1) assms(2) [unfolded str_step_eq]] by auto
qed

subsection \<open>Strings\<close>

definition json_clean :: "string \<Rightarrow> string" where
  "json_clean s = runes_str (str_runes s)"

lemma json_clean_Nil [simp]: "json_clean [] = []"
  by (simp add: json_clean_def str_runes_def runes_str_def)

lemma json_clean_Cons: "json_clean (c # cs) = runes_str [fst (str_step c cs)] @ json_clean (drop (snd (str_step c cs)) cs)"
  by (simp add: json_clean_def str_runes_def runes_str_def str_step_eq drop_map)

lemma runes_str_ascii: "(of_char c :: nat) < 128 \<Longrightarrow> runes_str [of_char c] = [c]"
  by (simp add: runes_str_def utf8_encode_def valid_rune_def)

lemma json_clean_ascii [simp]: "(of_char c :: nat) < 128 \<Longrightarrow> json_clean (c # cs) = c # json_clean cs"
  by (simp add: json_clean_Cons str_step_ascii runes_str_ascii)

lemma json_clean_id: "list_all (\<lambda>c. (of_char c :: nat) < 128) s \<Longrightarrow> json_clean s = s"
  by (induction s) auto

lemma hex_char_back: "n < 16 \<Longrightarrow> json_hex (hex_char n) = Some n"
  by (auto simp: json_hex_def hex_char_def digit_char_def Let_def)

lemma nibbles: "r < 65536 \<Longrightarrow> ((r div 4096 mod 16 * 16 + r div 256 mod 16) * 16 + r div 16 mod 16) * 16 + r mod 16 = (r :: nat)"
proof -
  assume r: "r < 65536"
  have e: "r div 256 = r div 16 div 16" "r div 4096 = r div 16 div 16 div 16" by (simp_all add: div_mult2_eq [symmetric])
  have "r div 16 div 16 div 16 < 16" using r unfolding e(2) [symmetric] by linarith
  then have "r div 4096 mod 16 = r div 16 div 16 div 16" unfolding e(2) by (rule mod_less)
  moreover have "r div 256 mod 16 = r div 16 div 16 mod 16" unfolding e(1) ..
  moreover have "q = q div 16 * 16 + q mod 16" for q :: nat by simp
  ultimately show ?thesis by (metis (no_types))
qed

lemma char_codes:
  "(of_char c :: nat) = 34 \<longleftrightarrow> c = CHR 0x22"
  "(of_char c :: nat) = 92 \<longleftrightarrow> c = CHR 0x5C"
  "(of_char c :: nat) = 8 \<longleftrightarrow> c = CHR 0x08"
  "(of_char c :: nat) = 9 \<longleftrightarrow> c = CHR 0x09"
  "(of_char c :: nat) = 10 \<longleftrightarrow> c = CHR 0x0A"
  "(of_char c :: nat) = 12 \<longleftrightarrow> c = CHR 0x0C"
  "(of_char c :: nat) = 13 \<longleftrightarrow> c = CHR 0x0D"
  "(of_char c :: nat) = 38 \<longleftrightarrow> c = CHR ''&''"
  "(of_char c :: nat) = 60 \<longleftrightarrow> c = CHR ''<''"
  "(of_char c :: nat) = 62 \<longleftrightarrow> c = CHR ''>''"
  using of_char_eq_iff [of c "CHR 0x22", where ?'a = nat] of_char_eq_iff [of c "CHR 0x5C", where ?'a = nat] of_char_eq_iff [of c "CHR 0x08", where ?'a = nat] of_char_eq_iff [of c "CHR 0x09", where ?'a = nat] of_char_eq_iff [of c "CHR 0x0A", where ?'a = nat] of_char_eq_iff [of c "CHR 0x0C", where ?'a = nat] of_char_eq_iff [of c "CHR 0x0D", where ?'a = nat] of_char_eq_iff [of c "CHR ''&''", where ?'a = nat] of_char_eq_iff [of c "CHR ''<''", where ?'a = nat] of_char_eq_iff [of c "CHR ''>''", where ?'a = nat]
  by simp_all

lemma append_single [simp]: "(@) [c] = (#) c"
  by (simp add: fun_eq_iff)

lemma json_hex4_digits:
  "a < 16 \<Longrightarrow> b < 16 \<Longrightarrow> c < 16 \<Longrightarrow> d < 16 \<Longrightarrow>
   json_hex4 (hex_char a # hex_char b # hex_char c # hex_char d # s) = Some (((a * 16 + b) * 16 + c) * 16 + d)"
  by (simp add: json_hex4_def hex_char_back)

lemma json_string_escape_u:
  assumes "r < 65536" "r < 55296 \<or> 57344 \<le> r"
  shows "json_string (escape_u r @ rest) = map_option (apfst ((@) (runes_str [r]))) (json_string rest)"
proof -
  have "json_hex4 (drop 2 (escape_u r) @ rest) = Some r"
    using json_hex4_digits [of "r div 4096 mod 16" "r div 256 mod 16" "r div 16 mod 16" "r mod 16" rest]
    unfolding nibbles [OF assms(1)] by (simp add: escape_u_def)
  then have "json_escape (CHR ''u'' # drop 2 (escape_u r) @ rest) = Some (r, 5)"
    using assms(2) by (auto simp: json_escape_def json_escape_u_def)
  then show ?thesis by (simp add: escape_u_def)
qed

lemma json_string_escape_byte:
  assumes "(of_char c :: nat) < 128"
  shows "json_string (escape_byte c @ rest) = map_option (apfst ((#) c)) (json_string rest)"
proof -
  have r: "runes_str [of_char c] = [c]" using assms by (rule runes_str_ascii)
  have plain: "json_string (c # rest) = map_option (apfst ((#) c)) (json_string rest)"
    if "32 \<le> (of_char c :: nat)" "c \<noteq> CHR 0x22" "c \<noteq> CHR 0x5C"
    using that assms r by (simp add: str_step_ascii)
  have u: "json_string (escape_u (of_char c) @ rest) = map_option (apfst ((#) c)) (json_string rest)"
    using json_string_escape_u [of "of_char c" rest] assms r by simp
  have "c \<in> {CHR 0x22, CHR 0x5C, CHR 0x08, CHR 0x0C, CHR 0x0A, CHR 0x0D, CHR 0x09} \<or> escape_byte c = escape_u (of_char c)
      \<or> escape_byte c = [c] \<and> 32 \<le> (of_char c :: nat) \<and> c \<noteq> CHR 0x22 \<and> c \<noteq> CHR 0x5C"
    unfolding escape_byte_def Let_def char_codes by auto
  then consider "c \<in> {CHR 0x22, CHR 0x5C, CHR 0x08, CHR 0x0C, CHR 0x0A, CHR 0x0D, CHR 0x09}"
    | "escape_byte c = escape_u (of_char c)" | "escape_byte c = [c]" "32 \<le> (of_char c :: nat)" "c \<noteq> CHR 0x22" "c \<noteq> CHR 0x5C"
    by blast
  then show ?thesis
  proof cases
    case 1
    then show ?thesis using r by (auto simp: escape_byte_def json_escape_def)
  next
    case 2
    then show ?thesis using u by simp
  next
    case 3
    then show ?thesis using plain by simp
  qed
qed

lemma json_string_quote: "json_string (quote_body s @ CHR 0x22 # rest) = Some (json_clean s, rest)"
proof (induction s rule: quote_body.induct)
  case 1
  then show ?case by simp
next
  case (2 c cs)
  show ?case
  proof (cases "(of_char c :: nat) < 128")
    case True
    then show ?thesis using 2(1) by (simp add: json_string_escape_byte)
  next
    case False
    obtain r k where rk: "str_step c cs = (r, k)" by force
    have ih: "json_string (quote_body (drop k cs) @ CHR 0x22 # rest) = Some (json_clean (drop k cs), rest)"
      using 2(2) [OF False] rk by simp
    have clean: "json_clean (c # cs) = runes_str [r] @ json_clean (drop k cs)" by (simp add: json_clean_Cons rk)
    consider (bad) "k = 0" "r = rune_error" | (sep) "0 < k" "r = 8232 \<or> r = 8233"
      | (good) "0 < k" "\<not> (r = 8232 \<or> r = 8233)" "runes_str [r] = c # take k cs" "\<forall>ys. str_step c (take k cs @ ys) = (r, k)" "k \<le> length cs"
      using str_step_back [OF _ rk] False by fastforce
    then show ?thesis
    proof cases
      case bad
      then have "quote_body (c # cs) = escape_u rune_error @ quote_body (drop k cs)" using False rk by simp
      then show ?thesis using ih bad clean json_string_escape_u [of rune_error] by (simp add: rune_error_def)
    next
      case sep
      then have "quote_body (c # cs) = escape_u r @ quote_body (drop k cs)" using False rk by simp
      then show ?thesis using ih sep clean json_string_escape_u [of r] by auto
    next
      case good
      then have q: "quote_body (c # cs) = c # take k cs @ quote_body (drop k cs)" using False rk by simp
      have c: "c \<noteq> CHR 0x22" "c \<noteq> CHR 0x5C" "\<not> (of_char c :: nat) < 32" using False by auto
      have "str_step c (take k cs @ quote_body (drop k cs) @ CHR 0x22 # rest) = (r, k)" using good by blast
      then show ?thesis unfolding q using c ih good(3,5) clean by simp
    qed
  qed
qed

subsection \<open>Numbers\<close>

text \<open>Text after which no number goes on.\<close>

definition stops :: "string \<Rightarrow> bool" where
  "stops s \<longleftrightarrow> (case s of [] \<Rightarrow> True | c # _ \<Rightarrow> \<not> is_digit c \<and> c \<notin> {CHR ''.'', CHR ''e'', CHR ''E''})"

definition num_ok :: "string \<Rightarrow> bool" where
  "num_ok t \<longleftrightarrow> json_number t = Some (t, [])"

lemma stops_simps [simp]: "stops []" "stops (CHR '','' # s)" "stops (CHR '']'' # s)" "stops (CHR ''}'' # s)"
  by (simp_all add: stops_def is_digit_def)

lemma takeWhile_all: "list_all P s \<Longrightarrow> takeWhile P s = s" "list_all P s \<Longrightarrow> dropWhile P s = []"
  by (simp_all add: list_all_iff takeWhile_eq_all_conv dropWhile_eq_Nil_conv)

lemma takeWhile_all_append: "list_all P s \<Longrightarrow> takeWhile P (s @ t) = s @ takeWhile P t" "list_all P s \<Longrightarrow> dropWhile P (s @ t) = dropWhile P t"
  by (induction s) auto

lemma digits_stop:
  assumes "stops rest"
  shows "takeWhile is_digit (s @ rest) = takeWhile is_digit s" "dropWhile is_digit (s @ rest) = dropWhile is_digit s @ rest"
proof -
  have "takeWhile is_digit rest = []" "dropWhile is_digit rest = rest" using assms by (cases rest; simp add: stops_def)+
  then show "takeWhile is_digit (s @ rest) = takeWhile is_digit s" "dropWhile is_digit (s @ rest) = dropWhile is_digit s @ rest"
    by (induction s) simp_all
qed

lemma json_exp_stop: "json_exp s = Some (e, s') \<Longrightarrow> stops rest \<Longrightarrow> json_exp (s @ rest) = Some (e, s' @ rest)"
proof (cases s)
  case Nil
  assume "json_exp s = Some (e, s')" "stops rest"
  then show ?thesis using Nil by (cases rest) (auto simp: json_exp_def stops_def)
next
  case (Cons c t)
  assume e: "json_exp s = Some (e, s')" and st: "stops rest"
  let ?sign = "\<lambda>t. case t of x # _ \<Rightarrow> if x = CHR ''+'' \<or> x = CHR ''-'' then [x] else [] | [] \<Rightarrow> []"
  show ?thesis
  proof (cases "c = CHR ''e'' \<or> c = CHR ''E''")
    case True
    then have ds: "takeWhile is_digit (drop (length (?sign t)) t) \<noteq> []" "e = c # ?sign t @ takeWhile is_digit (drop (length (?sign t)) t)"
        "s' = dropWhile is_digit (drop (length (?sign t)) t)"
      using e Cons by (auto simp: json_exp_def Let_def split: if_splits)
    then obtain x u where "t = x # u" by (cases t) auto
    then have sg: "?sign (t @ rest) = ?sign t" and dr: "drop (length (?sign t)) (t @ rest) = drop (length (?sign t)) t @ rest" by simp_all
    show ?thesis unfolding Cons append.simps json_exp_def list.case Let_def sg dr digits_stop [OF st] using ds True by simp
  qed (use e Cons in \<open>auto simp: json_exp_def\<close>)
qed

lemma json_frac_stop: "json_frac s = Some (f, s') \<Longrightarrow> stops rest \<Longrightarrow> json_frac (s @ rest) = Some (f, s' @ rest)"
proof (cases s)
  case Nil
  assume "json_frac s = Some (f, s')" "stops rest"
  then show ?thesis using Nil by (cases rest) (auto simp: json_frac_def stops_def)
next
  case (Cons c t)
  assume "json_frac s = Some (f, s')" and "stops rest"
  then show ?thesis using Cons by (auto simp: json_frac_def Let_def digits_stop split: if_splits)
qed

lemma json_int_stop: "json_int s = Some (i, s') \<Longrightarrow> stops rest \<Longrightarrow> json_int (s @ rest) = Some (i, s' @ rest)"
  using digits_stop [of rest s] by (cases s) (auto simp: json_int_def split: if_splits)

lemma json_number_stop:
  assumes "num_ok t" "stops rest"
  shows "json_number (t @ rest) = Some (t, rest)"
proof -
  obtain c u where t: "t = c # u" using assms(1) by (cases t) (auto simp: num_ok_def json_number_def json_int_def)
  define sign where "sign = (if c = CHR ''-'' then [c] else [])"
  have d: "drop (length sign) (t @ rest) = drop (length sign) t @ rest" by (simp add: sign_def t)
  obtain i s1 f s2 e where p: "json_int (drop (length sign) t) = Some (i, s1)" "json_frac s1 = Some (f, s2)" "json_exp s2 = Some (e, [])"
    "sign @ i @ f @ e = t"
    using assms(1) by (auto simp: num_ok_def json_number_def t sign_def [symmetric] Let_def split: option.splits)
  have "json_number (t @ rest) = Some (sign @ i @ f @ e, rest)"
    using json_int_stop [OF p(1) assms(2)] json_frac_stop [OF p(2) assms(2)] json_exp_stop [OF p(3) assms(2)] d
    by (simp add: json_number_def t sign_def [symmetric] Let_def)
  then show ?thesis using p(4) by simp
qed

lemma num_ok_start:
  assumes "num_ok t"
  obtains c u where "t = c # u" "c = CHR ''-'' \<or> is_digit c"
proof -
  obtain c u where t: "t = c # u" using assms by (cases t) (auto simp: num_ok_def json_number_def json_int_def)
  have "c = CHR ''-'' \<or> is_digit c"
    using assms by (auto simp: num_ok_def t json_number_def json_int_def is_digit_def Let_def split: if_splits)
  with t show ?thesis by (rule that)
qed

lemma takeWhile_digits: "takeWhile is_digit (nat_str n) = nat_str n" "dropWhile is_digit (nat_str n) = []"
  using nat_str_digits [of _ n] by (simp_all add: takeWhile_eq_all_conv dropWhile_eq_Nil_conv)

lemma nat_str_hd: "0 < n \<Longrightarrow> hd (nat_str n) \<noteq> CHR ''0''"
proof (induction n rule: nat_str.induct)
  case (1 n)
  have z: "digit_char k \<noteq> CHR ''0''" if "0 < k" "k < 10" for k
    using of_char_digit_char [OF that(2)] that(1) by auto
  show ?case using 1 z by (cases "n < 10"; subst nat_str.simps) (simp_all add: hd_append)
qed

lemma json_int_nat_str [simp]: "json_int (nat_str n) = Some (nat_str n, [])"
proof (cases "n = 0")
  case True
  have "nat_str 0 = [CHR ''0'']" by code_simp
  with True show ?thesis by (simp add: json_int_def)
next
  case False
  obtain c u where n: "nat_str n = c # u" by (cases "nat_str n") auto
  have "c \<noteq> CHR ''0''" "is_digit c" using nat_str_hd [of n] False nat_str_digits [of c n] n by simp_all
  then show ?thesis using takeWhile_digits [of n] by (simp add: json_int_def n)
qed

lemma num_ok_int_str: "num_ok (int_str i)"
proof -
  have dig: "\<exists>c u. nat_str n = c # u \<and> c \<noteq> CHR ''-''" for n
    using nat_str_digits [of "hd (nat_str n)" n] by (cases "nat_str n") auto
  have "json_number (nat_str n) = Some (nat_str n, [])" for n
  proof -
    obtain c u where n: "nat_str n = c # u" "c \<noteq> CHR ''-''" using dig by blast
    then have "json_int (c # u) = Some (c # u, [])" using json_int_nat_str [of n] by simp
    with n show ?thesis by (simp add: json_number_def json_frac_def json_exp_def)
  qed
  moreover have "json_number (CHR ''-'' # nat_str n) = Some (CHR ''-'' # nat_str n, [])" for n
    by (simp add: json_number_def json_frac_def json_exp_def)
  ultimately show ?thesis by (simp add: num_ok_def int_str_def)
qed

subsection \<open>Values\<close>

fun json_norm :: "json_value \<Rightarrow> json_value" where
  "json_norm (JStr s) = JStr (json_clean s)"
| "json_norm (JArr vs) = JArr (map json_norm vs)"
| "json_norm (JObj kvs) = JObj (map (\<lambda>(k, v). (json_clean k, json_norm v)) kvs)"
| "json_norm v = v"

text \<open>Values whose numbers are literals and that nest at most \<open>d\<close> deep.\<close>

fun json_fits :: "int \<Rightarrow> json_value \<Rightarrow> bool" where
  "json_fits d (JNum t) = num_ok t"
| "json_fits d (JArr vs) = (0 < d \<and> list_all (json_fits (d - 1)) vs)"
| "json_fits d (JObj kvs) = (0 < d \<and> list_all (\<lambda>(k, v). json_fits (d - 1) v) kvs)"
| "json_fits d v = True"

lemma json_text_start:
  assumes "json_fits d v"
  obtains c u where "json_text v = c # u" "\<not> is_space c" "c \<notin> {CHR '']'', CHR ''}''}"
proof (cases v)
  case (JNum t)
  then have "num_ok t" using assms by simp
  then obtain c u where c: "t = c # u" "c = CHR ''-'' \<or> is_digit c" by (rule num_ok_start)
  then have "\<not> is_space c" "c \<notin> {CHR '']'', CHR ''}''}" by (auto simp: is_space_def is_digit_def)
  with c(1) JNum show ?thesis by (intro that) simp_all
next
  case (JBool b)
  then show ?thesis using that by (cases b) (auto simp: is_space_def)
next
  case (JArr vs)
  then show ?thesis using that by (cases vs) (auto simp: is_space_def)
next
  case (JObj kvs)
  then show ?thesis using that by (cases kvs) (auto simp: is_space_def)
qed (use that in \<open>auto simp: is_space_def json_quote_def\<close>)

lemma skip_ws_Cons: "\<not> is_space c \<Longrightarrow> skip_ws (c # s) = c # s"
  by (simp add: skip_ws_def)

lemma not_space [simp]:
  "\<not> is_space (CHR '','')" "\<not> is_space (CHR '']'')" "\<not> is_space (CHR ''}'')" "\<not> is_space (CHR ''['')" "\<not> is_space (CHR ''{'')"
  "\<not> is_space (CHR '':'')" "\<not> is_space (CHR 0x22)" "\<not> is_space (CHR ''t'')" "\<not> is_space (CHR ''f'')" "\<not> is_space (CHR ''n'')"
  by (simp_all add: is_space_def)

lemma skip_ws_text: "json_fits d v \<Longrightarrow> skip_ws (json_text v @ s) = json_text v @ s"
  by (erule json_text_start) (simp add: skip_ws_Cons)

text \<open>Fuel that is enough, and what it is for a value.\<close>

definition reads :: "json_value \<Rightarrow> bool" where
  "reads v \<longleftrightarrow> (\<forall>n d rest. json_fits d v \<longrightarrow> stops rest \<longrightarrow> 2 * length (json_text v) + 1 \<le> n \<longrightarrow>
     parse_value n d (json_text v @ rest) = Some (json_norm v, rest))"

lemma readsI:
  assumes "\<And>n d rest. json_fits d v \<Longrightarrow> stops rest \<Longrightarrow> parse_value (Suc n) d (json_text v @ rest) = Some (json_norm v, rest)"
  shows "reads v"
  unfolding reads_def
proof (intro allI impI)
  fix n d rest
  assume "json_fits d v" "stops rest" "2 * length (json_text v) + 1 \<le> n"
  then show "parse_value n d (json_text v @ rest) = Some (json_norm v, rest)" using assms by (cases n) simp_all
qed

lemma parse_elems_text:
  assumes "\<forall>x \<in> set (v # vs). reads x" "list_all (json_fits d) (v # vs)" "2 * (length (json_text v) + length (json_elems vs)) + 2 \<le> n"
  shows "parse_elems n d (json_text v @ json_elems vs @ rest) = Some (map json_norm (v # vs), rest)"
  using assms
proof (induction vs arbitrary: v n)
  case Nil
  then obtain k where n: "n = Suc k" by (cases n) auto
  have "parse_value k d (json_text v @ CHR '']'' # rest) = Some (json_norm v, CHR '']'' # rest)"
    using Nil n by (simp add: reads_def)
  then show ?case by (simp add: n skip_ws_Cons)
next
  case (Cons w ws)
  then obtain k where n: "n = Suc k" by (cases n) auto
  let ?rest = "CHR '','' # json_text w @ json_elems ws @ rest"
  have "parse_value k d (json_text v @ ?rest) = Some (json_norm v, ?rest)" using Cons.prems n by (simp add: reads_def)
  moreover have "parse_elems k d (json_text w @ json_elems ws @ rest) = Some (map json_norm (w # ws), rest)"
    using Cons.prems n by (intro Cons.IH) auto
  ultimately show ?case by (simp add: n skip_ws_Cons)
qed

definition fields_norm :: "(string \<times> json_value) list \<Rightarrow> (string \<times> string \<times> json_value) list" where
  "fields_norm kvs = map (\<lambda>(k, v). (json_clean k, json_text v, json_norm v)) kvs"

lemma parse_members_text:
  assumes "\<forall>x \<in> set (kv # kvs). reads (snd x)" "list_all (\<lambda>(k, v). json_fits d v) (kv # kvs)"
    and "2 * (length (json_quote (fst kv)) + length (json_text (snd kv)) + length (json_fields kvs)) + 2 \<le> n"
  shows "parse_members n d (json_quote (fst kv) @ CHR '':'' # json_text (snd kv) @ json_fields kvs @ rest) = Some (fields_norm (kv # kvs), rest)"
  using assms
proof (induction kvs arbitrary: kv n)
  case Nil
  obtain k v where kv: "kv = (k, v)" by force
  obtain j where n: "n = Suc j" using Nil.prems(3) by (cases n) auto
  have fits: "json_fits d v" using Nil.prems(2) kv by simp
  have "parse_value j d (json_text v @ CHR ''}'' # rest) = Some (json_norm v, CHR ''}'' # rest)"
    using Nil n kv fits by (simp add: reads_def)
  then show ?case
    by (simp add: n kv json_quote_def json_string_quote skip_ws_Cons skip_ws_text [OF fits] fields_norm_def)
next
  case (Cons kw kws)
  obtain k v where kv: "kv = (k, v)" by force
  obtain k' w where kw: "kw = (k', w)" by force
  obtain j where n: "n = Suc j" using Cons.prems(3) by (cases n) auto
  have fits: "json_fits d v" using Cons.prems(2) kv by simp
  let ?more = "json_quote k' @ CHR '':'' # json_text w @ json_fields kws @ rest"
  have "parse_value j d (json_text v @ CHR '','' # ?more) = Some (json_norm v, CHR '','' # ?more)"
    using Cons.prems n kv kw fits by (simp add: reads_def)
  moreover have "parse_members j d (json_quote (fst kw) @ CHR '':'' # json_text (snd kw) @ json_fields kws @ rest) = Some (fields_norm (kw # kws), rest)"
    using Cons.prems n kv kw by (intro Cons.IH) auto
  ultimately show ?case
    by (simp add: n kv kw json_quote_def json_string_quote skip_ws_Cons skip_ws_text [OF fits] fields_norm_def)
qed

lemma json_reads: "reads v"
proof (induction v rule: json_value.induct)
  case (JNum t)
  show ?case unfolding reads_def
  proof (intro allI impI)
    fix n d rest
    assume a: "json_fits d (JNum t)" "stops rest" "2 * length (json_text (JNum t)) + 1 \<le> n"
    then have t: "num_ok t" by simp
    obtain c u where c: "t = c # u" "c = CHR ''-'' \<or> is_digit c" by (rule num_ok_start [OF t])
    have "c \<notin> {CHR ''{'', CHR ''['', CHR 0x22, CHR ''t'', CHR ''f'', CHR ''n''}" "\<not> is_space c"
      using c(2) by (auto simp: is_digit_def is_space_def)
    moreover obtain k where "n = Suc k" using a(3) by (cases n) auto
    ultimately show "parse_value n d (json_text (JNum t) @ rest) = Some (json_norm (JNum t), rest)"
      using json_number_stop [OF t a(2)] c(1) by (simp add: skip_ws_Cons)
  qed
next
  case (JArr vs)
  show ?case unfolding reads_def
  proof (intro allI impI)
    fix n d rest
    assume a: "json_fits d (JArr vs)" "stops rest" "2 * length (json_text (JArr vs)) + 1 \<le> n"
    obtain k where n: "n = Suc k" using a(3) by (cases n) auto
    show "parse_value n d (json_text (JArr vs) @ rest) = Some (json_norm (JArr vs), rest)"
    proof (cases vs)
      case Nil
      then show ?thesis using a(1) by (simp add: n skip_ws_Cons)
    next
      case (Cons w ws)
      have fits: "list_all (json_fits (d - 1)) (w # ws)" "0 < d" using a(1) Cons by simp_all
      obtain c u where c: "json_text w = c # u" "\<not> is_space c" "c \<notin> {CHR '']'', CHR ''}''}"
        using json_text_start [of "d - 1" w] fits by auto
      have "parse_elems k (d - 1) (json_text w @ json_elems ws @ rest) = Some (map json_norm (w # ws), rest)"
        using JArr fits a(3) Cons n by (intro parse_elems_text) auto
      then show ?thesis using fits(2) c by (simp add: n Cons skip_ws_Cons)
    qed
  qed
next
  case (JObj kvs)
  show ?case unfolding reads_def
  proof (intro allI impI)
    fix n d rest
    assume a: "json_fits d (JObj kvs)" "stops rest" "2 * length (json_text (JObj kvs)) + 1 \<le> n"
    obtain j where n: "n = Suc j" using a(3) by (cases n) auto
    show "parse_value n d (json_text (JObj kvs) @ rest) = Some (json_norm (JObj kvs), rest)"
    proof (cases kvs)
      case Nil
      then show ?thesis using a(1) by (simp add: n skip_ws_Cons)
    next
      case (Cons kw kws)
      obtain k w where kw: "kw = (k, w)" by force
      have fits: "list_all (\<lambda>(k, v). json_fits (d - 1) v) (kw # kws)" "0 < d" using a(1) Cons by simp_all
      have "\<forall>x \<in> set (kw # kws). reads (snd x)" using JObj Cons by (auto simp: snds.simps)
      then have "parse_members j (d - 1) (json_quote (fst kw) @ CHR '':'' # json_text (snd kw) @ json_fields kws @ rest) = Some (fields_norm (kw # kws), rest)"
        using fits a(3) Cons n kw by (intro parse_members_text) auto
      then show ?thesis
        using fits(2) kw by (simp add: n Cons skip_ws_Cons json_quote_def fields_norm_def comp_def case_prod_unfold)
    qed
  qed
qed (rule readsI; simp add: json_literal_def has_prefix_def json_quote_def json_string_quote skip_ws_Cons)+

text \<open>Every text that the encoder writes is JSON, and its value is the one encoded, with clean
  strings.\<close>

theorem json_parse_text:
  assumes "json_fits json_depth v"
  shows "json_parse (json_text v) = Some (json_norm v)"
  using json_reads [of v] assms unfolding reads_def json_parse_def
  by (elim allE [of _ "2 * length (json_text v) + 2"] allE [of _ json_depth] allE [of _ "[]"]) (simp add: skip_ws_def)

theorem json_members_text:
  assumes "json_fits json_depth (JObj kvs)"
  shows "json_members (json_text (JObj kvs)) = Some (fields_norm kvs)"
proof (cases kvs)
  case Nil
  then show ?thesis by (simp add: json_members_def skip_ws_Cons fields_norm_def)
next
  case (Cons kw kws)
  obtain k w where kw: "kw = (k, w)" by force
  let ?s = "json_quote (fst kw) @ CHR '':'' # json_text (snd kw) @ json_fields kws"
  have "parse_members (2 * length ?s + 2) (json_depth - 1) (?s @ []) = Some (fields_norm (kw # kws), [])"
    using assms Cons parse_members_text [of kw kws "json_depth - 1" "2 * length ?s + 2" "[]"] json_reads by simp
  then show ?thesis by (simp add: json_members_def Cons kw skip_ws_Cons json_quote_def)
qed

subsection \<open>The fuel of the parser\<close>

lemma skip_ws_length: "length (skip_ws s) \<le> length s"
  by (simp add: skip_ws_def length_dropWhile_le)

lemma skip_ws_ConsD: "skip_ws s = c # t \<Longrightarrow> length t < length s"
  using skip_ws_length [of s] by simp

lemma json_string_shrinks: "json_string s = Some (t, r) \<Longrightarrow> length r < length s"
proof (induction s arbitrary: t rule: json_string.induct)
  case (2 c cs)
  consider "c = CHR 0x22" | "c = CHR 0x5C" | "c \<noteq> CHR 0x22" "c \<noteq> CHR 0x5C" by blast
  then show ?case
  proof cases
    case 2
    then obtain r' k where e: "json_escape cs = Some (r', k)" using "2.prems" by (auto split: option.splits)
    then obtain t' where "json_string (drop k cs) = Some (t', r)" using "2.prems" 2 by auto
    then have "length r < length (drop k cs)" using "2.IH"(1) [OF _ 2 e] 2 by simp
    then show ?thesis by simp
  next
    case 3
    then obtain t' where "json_string (drop (snd (str_step c cs)) cs) = Some (t', r)" "\<not> (of_char c :: nat) < 32"
      using "2.prems" by (auto split: if_splits)
    then have "length r < length (drop (snd (str_step c cs)) cs)" using "2.IH"(2) 3 by blast
    then show ?thesis by simp
  qed (use "2.prems" in auto)
qed simp

lemma json_number_shrinks: "json_number s = Some (t, r) \<Longrightarrow> length r < length s"
proof -
  assume n: "json_number s = Some (t, r)"
  have i: "length r < length s" if "json_int s = Some (i, r)" for s i r
    using that by (cases s) (auto simp: json_int_def less_Suc_eq_le length_dropWhile_le split: if_splits)
  have f: "length r \<le> length s" if "json_frac s = Some (i, r)" for s i r
    using that by (cases s) (auto simp: json_frac_def Let_def le_Suc_eq length_dropWhile_le split: if_splits)
  have e: "length r \<le> length s" if "json_exp s = Some (i, r)" for s i r
  proof (cases s)
    case (Cons c u)
    have "length (dropWhile is_digit (drop j u)) \<le> length u" for j
      using length_dropWhile_le [of is_digit "drop j u"] by simp
    then show ?thesis using that Cons by (auto simp: json_exp_def Let_def le_Suc_eq split: if_splits)
  qed (use that in \<open>simp add: json_exp_def\<close>)
  let ?sign = "case s of c # _ \<Rightarrow> if c = CHR ''-'' then [c] else [] | [] \<Rightarrow> []"
  obtain i s1 f' s2 e' where "json_int (drop (length ?sign) s) = Some (i, s1)" "json_frac s1 = Some (f', s2)" "json_exp s2 = Some (e', r)"
    using n by (auto simp: json_number_def Let_def split: option.splits)
  with i f e have "length s1 < length (drop (length ?sign) s)" "length s2 \<le> length s1" "length r \<le> length s2" by blast+
  then show ?thesis by simp
qed

lemma parse_shrinks:
  "parse_value n d s = Some (v, r) \<Longrightarrow> length r < length s"
  "parse_elems n d s = Some (vs, r) \<Longrightarrow> length r < length s"
  "parse_members n d s = Some (ms, r) \<Longrightarrow> length r < length s"
proof (induction n d s and n d s and n d s arbitrary: v r and vs r and ms r rule: parse_value_parse_elems_parse_members.induct)
  case (2 n d s)
  then obtain c cs where s: "skip_ws s = c # cs" by (auto split: list.splits)
  then have cs: "length cs < length s" by (rule skip_ws_ConsD)
  have lit: "length r \<le> length cs" if "json_literal w x (c # cs) = Some (v, r)" "w \<noteq> []" for w x
    using that by (cases w) (auto simp: json_literal_def split: if_splits)
  consider "c = CHR ''{''" | "c = CHR ''[''" | "c = CHR 0x22" | "c \<in> {CHR ''t'', CHR ''f'', CHR ''n''}"
    | "c \<notin> {CHR ''{'', CHR ''['', CHR 0x22, CHR ''t'', CHR ''f'', CHR ''n''}" by blast
  then show ?case
  proof cases
    case 1
    then obtain x t where x: "skip_ws cs = x # t" "0 < d" using 2 s by (auto split: list.splits if_splits)
    then have "length t < length cs" by (intro skip_ws_ConsD)
    then show ?thesis using 2 s x 1 cs by (force split: if_splits)
  next
    case ca: 2
    then obtain x t where x: "skip_ws cs = x # t" "0 < d" using 2 s by (auto split: list.splits if_splits)
    then have "length t < length cs" by (intro skip_ws_ConsD)
    then show ?thesis using 2 s x ca cs by (force split: if_splits)
  next
    case 3
    then obtain t where "json_string cs = Some (t, r)" using 2 s by auto
    then show ?thesis using json_string_shrinks cs by fastforce
  next
    case 4
    then show ?thesis using 2(3) s lit cs by fastforce
  next
    case 5
    then obtain t where "json_number (c # cs) = Some (t, r)" using 2 s by auto
    then show ?thesis using json_number_shrinks skip_ws_length [of s] s by fastforce
  qed
next
  case (4 n d s)
  then obtain v' r' where v: "parse_value n d s = Some (v', r')" by (auto split: option.splits)
  then have "length r' < length s" by (rule 4)
  moreover obtain c t where c: "skip_ws r' = c # t" using 4 v by (auto split: list.splits)
  moreover from c have "length t < length r'" by (rule skip_ws_ConsD)
  moreover have "length r \<le> length t"
  proof (cases "c = CHR '',''")
    case True
    then obtain vs' where "parse_elems n d t = Some (vs', r)" using 4(3) v c by auto
    then show ?thesis using "4.IH"(2) v c True by fastforce
  qed (use 4(3) v c in \<open>auto split: if_splits\<close>)
  ultimately show ?case by linarith
next
  case (6 n d s)
  then obtain cs where q: "skip_ws s = CHR 0x22 # cs" by (auto split: list.splits if_splits)
  then obtain k r1 where k: "json_string cs = Some (k, r1)" using 6 by (auto split: option.splits)
  then obtain r2 where r2: "skip_ws r1 = CHR '':'' # r2" using 6 q by (auto split: list.splits if_splits)
  then obtain v' r3 where v: "parse_value n d (skip_ws r2) = Some (v', r3)" using 6 q k by (auto split: option.splits)
  then obtain c t where c: "skip_ws r3 = c # t" using 6 q k r2 by (auto simp: Let_def split: list.splits)
  have l: "length cs < length s" "length r1 < length cs" "length r2 < length r1" "length (skip_ws r2) \<le> length r2" "length t < length r3"
    using skip_ws_ConsD [OF q] json_string_shrinks [OF k] skip_ws_ConsD [OF r2] skip_ws_length skip_ws_ConsD [OF c] by auto
  have "length r3 < length (skip_ws r2)" using "6.IH"(1) q k r2 v by blast
  moreover have "length r \<le> length t"
  proof (cases "c = CHR '',''")
    case True
    then obtain ms' where "parse_members n d t = Some (ms', r)" using 6(3) q k r2 v c by (auto simp: Let_def)
    then show ?thesis using "6.IH"(2) q k r2 v c True by fastforce
  qed (use 6(3) q k r2 v c in \<open>auto simp: Let_def split: if_splits\<close>)
  ultimately show ?case using l by linarith
qed simp_all

text \<open>Two units per byte, and one more, are enough: more fuel changes nothing.\<close>

lemma parse_fuel:
  "2 * length s + 1 \<le> n \<Longrightarrow> 2 * length s + 1 \<le> k \<Longrightarrow> parse_value n d s = parse_value k d s"
  "2 * length s + 2 \<le> n \<Longrightarrow> 2 * length s + 2 \<le> k \<Longrightarrow> parse_elems n d s = parse_elems k d s"
  "2 * length s + 2 \<le> n \<Longrightarrow> 2 * length s + 2 \<le> k \<Longrightarrow> parse_members n d s = parse_members k d s"
proof (induction n d s and n d s and n d s arbitrary: k and k and k rule: parse_value_parse_elems_parse_members.induct)
  case (2 n d s)
  obtain j where k: "k = Suc j" using "2.prems"(2) by (cases k) auto
  show ?case
  proof (cases "skip_ws s")
    case (Cons c cs)
    then have cs: "length cs < length s" by (rule skip_ws_ConsD)
    then have b: "2 * length cs + 2 \<le> n" "2 * length cs + 2 \<le> j" using "2.prems" k by simp_all
    have m: "parse_members n (d - 1) cs = parse_members j (d - 1) cs" if "c = CHR ''{''" "0 < d" "skip_ws cs = x # t" "x \<noteq> CHR ''}''" for x t
      by (rule "2.IH"(1) [OF Cons that(1) _ that(3,4) b]) (use that in simp)
    have e: "parse_elems n (d - 1) cs = parse_elems j (d - 1) cs" if "c = CHR ''[''" "0 < d" "skip_ws cs = x # t" "x \<noteq> CHR '']''" for x t
      by (rule "2.IH"(2) [OF Cons _ that(1) _ that(3,4) b]) (use that in simp_all)
    show ?thesis
      unfolding k parse_value.simps Cons list.case
      by (intro if_cong refl list.case_cong [where list = "skip_ws cs"] arg_cong [where f = "map_option _"] m e) auto
  qed (simp add: k)
next
  case (4 n d s)
  obtain j where k: "k = Suc j" using "4.prems"(2) by (cases k) auto
  have v: "parse_value n d s = parse_value j d s" by (rule "4.IH"(1)) (use "4.prems" k in simp_all)
  have e: "parse_elems n d t = parse_elems j d t" if "parse_value j d s = Some (v', r)" "skip_ws r = CHR '','' # t" for v' r t
  proof -
    have "length t < length s" using parse_shrinks(1) [OF that(1)] skip_ws_ConsD [OF that(2)] by simp
    then have b: "2 * length t + 2 \<le> n" "2 * length t + 2 \<le> j" using "4.prems" k by simp_all
    show ?thesis by (rule "4.IH"(2) [OF that(1) [folded v] refl that(2) refl b])
  qed
  show ?case using e by (auto simp: k v split: option.split list.split)
next
  case (6 n d s)
  obtain j where k: "k = Suc j" using "6.prems"(2) by (cases k) auto
  show ?case
  proof (cases "\<exists>cs key r1 r2. skip_ws s = CHR 0x22 # cs \<and> json_string cs = Some (key, r1) \<and> skip_ws r1 = CHR '':'' # r2")
    case True
    then obtain cs key r1 r2 where q: "skip_ws s = CHR 0x22 # cs" "json_string cs = Some (key, r1)" "skip_ws r1 = CHR '':'' # r2" by blast
    have l: "length (skip_ws r2) < length s"
      using skip_ws_ConsD [OF q(1)] json_string_shrinks [OF q(2)] skip_ws_ConsD [OF q(3)] skip_ws_length [of r2] by linarith
    have no: "\<not> CHR 0x22 \<noteq> CHR 0x22" "\<not> CHR '':'' \<noteq> CHR '':''" by simp_all
    have b: "2 * length (skip_ws r2) + 1 \<le> n" "2 * length (skip_ws r2) + 1 \<le> j" using l "6.prems" k by simp_all
    have v: "parse_value n d (skip_ws r2) = parse_value j d (skip_ws r2)"
      by (rule "6.IH"(1) [OF q(1) no(1) q(2) refl q(3) no(2) b])
    have m: "parse_members n d t = parse_members j d t" if "parse_value j d (skip_ws r2) = Some (v', r3)" "skip_ws r3 = CHR '','' # t" for v' r3 t
    proof -
      have "length t < length s" using parse_shrinks(1) [OF that(1)] skip_ws_ConsD [OF that(2)] l by simp
      then have b: "2 * length t + 2 \<le> n" "2 * length t + 2 \<le> j" using "6.prems" k by simp_all
      show ?thesis by (rule "6.IH"(2) [OF q(1) no(1) q(2) refl q(3) no(2) that(1) [folded v] refl refl that(2) refl b])
    qed
    show ?thesis using m by (auto simp: k q v Let_def split: option.split list.split)
  next
    case False
    then show ?thesis by (auto simp: k split: option.split list.split)
  qed
qed simp_all

end
