(* ===== verification/Json_Compact.thy ===== *)
theory Json_Compact
  imports Json_Roundtrip
begin

section \<open>Compacting JSON text\<close>

text \<open>
  What the parser accepts is well formed (\<open>parse_good\<close>: clean strings, number literals, the depth
  that was allowed), and \<open>compact\<close> leaves its value alone (\<open>compact_reads\<close>): a raw message comes
  back from the text it was put into.
\<close>

subsection \<open>What the parser returns\<close>

fun json_good :: "int \<Rightarrow> json_value \<Rightarrow> bool" where
  "json_good d (JNum t) = num_ok t"
| "json_good d (JStr s) = (json_clean s = s)"
| "json_good d (JArr vs) = (0 < d \<and> list_all (json_good (d - 1)) vs)"
| "json_good d (JObj kvs) = (0 < d \<and> list_all (\<lambda>(k, v). json_clean k = k \<and> json_good (d - 1) v) kvs)"
| "json_good d v = True"

lemma json_good_fits: "json_good d v \<Longrightarrow> json_fits d v \<and> json_norm v = v"
  by (induction d v rule: json_good.induct) (auto simp: list_all_iff intro!: map_idI)

lemma runes_str_append: "runes_str (a @ b) = runes_str a @ runes_str b"
  by (simp add: runes_str_def)

lemma runes_str_valid: "\<exists>rs'. runes_str rs = runes_str rs' \<and> (\<forall>r \<in> set rs'. valid_rune r)"
proof -
  let ?f = "\<lambda>r. if valid_rune r then r else rune_error"
  have "utf8_encode (?f r) = utf8_encode r" for r using utf8_encode_error [of r] by (cases "valid_rune r") simp_all
  then have "runes_str rs = runes_str (map ?f rs)" by (simp add: runes_str_def comp_def)
  moreover have "\<forall>r \<in> set (map ?f rs). valid_rune r" using valid_rune_error by auto
  ultimately show ?thesis by blast
qed

lemma json_clean_runes_str: "json_clean (runes_str rs) = runes_str rs"
  using runes_str_valid [of rs] str_runes_runes_str by (auto simp: json_clean_def)

lemma json_string_runes: "json_string s = Some (t, r) \<Longrightarrow> \<exists>rs. t = runes_str rs"
proof (induction s arbitrary: t rule: json_string.induct)
  case (2 c cs)
  consider "c = CHR 0x22" | "c = CHR 0x5C" | "c \<noteq> CHR 0x22" "c \<noteq> CHR 0x5C" by blast
  then show ?case
  proof cases
    case 1
    then show ?thesis using "2.prems" by (auto simp: runes_str_def intro: exI [of _ "[]"])
  next
    case c: 2
    then obtain r' k where e: "json_escape cs = Some (r', k)" using "2.prems" by (auto split: option.splits)
    then obtain t' where t: "json_string (drop k cs) = Some (t', r)" "t = runes_str [r'] @ t'" using "2.prems" c by auto
    then obtain rs where "t' = runes_str rs" using "2.IH"(1) [OF _ c e] c by auto
    then show ?thesis using t(2) by (metis runes_str_append)
  next
    case 3
    then obtain t' where t: "json_string (drop (snd (str_step c cs)) cs) = Some (t', r)" "\<not> (of_char c :: nat) < 32"
      "t = runes_str [fst (str_step c cs)] @ t'"
      using "2.prems" by (auto split: if_splits)
    then obtain rs where "t' = runes_str rs" using "2.IH"(2) 3 by blast
    then show ?thesis using t(3) by (metis runes_str_append)
  qed
qed simp

lemma json_string_clean: "json_string s = Some (t, r) \<Longrightarrow> json_clean t = t"
  using json_string_runes json_clean_runes_str by blast

lemma json_int_split:
  assumes "json_int s = Some (i, r)"
  shows "s = i @ r" "i \<noteq> []" "u = [] \<or> \<not> is_digit (hd u) \<Longrightarrow> json_int (i @ u) = Some (i, u)"
proof -
  obtain c t where s: "s = c # t" using assms by (cases s) (auto simp: json_int_def)
  consider "c = CHR ''0''" "i = [c]" "r = t" | "c \<noteq> CHR ''0''" "is_digit c" "i = takeWhile is_digit s" "r = dropWhile is_digit s"
    using assms by (auto simp: json_int_def s split: if_splits)
  then have "s = i @ r \<and> i \<noteq> [] \<and> (u = [] \<or> \<not> is_digit (hd u) \<longrightarrow> json_int (i @ u) = Some (i, u))"
  proof cases
    case 2
    have d: "list_all is_digit (takeWhile is_digit t)" by (auto simp: list_all_iff dest: set_takeWhileD)
    have "takeWhile is_digit u = [] \<and> dropWhile is_digit u = u" if "u = [] \<or> \<not> is_digit (hd u)" using that by (cases u) auto
    then show ?thesis using 2 takeWhile_all_append [OF d, of u] by (simp add: s json_int_def)
  qed (simp add: s json_int_def)
  then show "s = i @ r" "i \<noteq> []" "u = [] \<or> \<not> is_digit (hd u) \<Longrightarrow> json_int (i @ u) = Some (i, u)" by simp_all
qed

lemma json_frac_split:
  assumes "json_frac s = Some (f, r)"
  shows "s = f @ r" "f = [] \<or> hd f = CHR ''.''" "u = [] \<or> hd u \<in> {CHR ''e'', CHR ''E''} \<Longrightarrow> json_frac (f @ u) = Some (f, u)"
proof -
  consider "f = []" "r = s" | t where "s = CHR ''.'' # t" "takeWhile is_digit t \<noteq> []" "f = CHR ''.'' # takeWhile is_digit t" "r = dropWhile is_digit t"
    using assms by (cases s) (auto simp: json_frac_def Let_def split: if_splits)
  then have "s = f @ r \<and> (f = [] \<or> hd f = CHR ''.'') \<and> (u = [] \<or> hd u \<in> {CHR ''e'', CHR ''E''} \<longrightarrow> json_frac (f @ u) = Some (f, u))"
  proof cases
    case 1
    then show ?thesis by (cases u) (auto simp: json_frac_def)
  next
    case 2
    have d: "list_all is_digit (takeWhile is_digit t)" by (auto simp: list_all_iff dest: set_takeWhileD)
    have "takeWhile is_digit u = [] \<and> dropWhile is_digit u = u" if "u = [] \<or> hd u \<in> {CHR ''e'', CHR ''E''}"
      using that by (cases u) (auto simp: is_digit_def)
    then show ?thesis using 2 takeWhile_all_append [OF d, of u] by (simp add: json_frac_def)
  qed
  then show "s = f @ r" "f = [] \<or> hd f = CHR ''.''" "u = [] \<or> hd u \<in> {CHR ''e'', CHR ''E''} \<Longrightarrow> json_frac (f @ u) = Some (f, u)" by simp_all
qed

lemma json_exp_split:
  assumes "json_exp s = Some (e, r)"
  shows "s = e @ r" "e = [] \<or> hd e \<in> {CHR ''e'', CHR ''E''}" "json_exp e = Some (e, [])"
proof -
  have d: "list_all is_digit (takeWhile is_digit t)" for t by (auto simp: list_all_iff dest: set_takeWhileD)
  have "s = e @ r \<and> (e = [] \<or> hd e \<in> {CHR ''e'', CHR ''E''}) \<and> json_exp e = Some (e, [])"
  proof (cases "\<exists>c t. s = c # t \<and> c \<in> {CHR ''e'', CHR ''E''}")
    case True
    then obtain c t where s: "s = c # t" "c \<in> {CHR ''e'', CHR ''E''}" by blast
    define sign where "sign = (case t of x # _ \<Rightarrow> if x = CHR ''+'' \<or> x = CHR ''-'' then [x] else [] | [] \<Rightarrow> [])"
    define ds where "ds = takeWhile is_digit (drop (length sign) t)"
    have t: "t = sign @ drop (length sign) t" by (cases t) (auto simp: sign_def)
    have e: "ds \<noteq> []" "e = c # sign @ ds" "r = dropWhile is_digit (drop (length sign) t)"
      using assms s by (auto simp: json_exp_def Let_def sign_def [symmetric] ds_def [symmetric] split: if_splits)
    have dd: "list_all is_digit ds" unfolding ds_def by (rule d)
    then have "\<forall>x y. ds = x # y \<longrightarrow> x \<noteq> CHR ''+'' \<and> x \<noteq> CHR ''-''" by (auto simp: is_digit_def)
    then have "(case sign @ ds of x # _ \<Rightarrow> if x = CHR ''+'' \<or> x = CHR ''-'' then [x] else [] | [] \<Rightarrow> []) = sign"
      by (cases t; cases ds) (auto simp: sign_def)
    then have "json_exp e = Some (e, [])" using s(2) e(1) by (auto simp: e(2) json_exp_def Let_def takeWhile_all [OF dd])
    moreover have "s = e @ r" using t by (simp add: s(1) e(2,3) ds_def)
    ultimately show ?thesis using e(2) s(2) by simp
  next
    case False
    then show ?thesis using assms by (cases s) (auto simp: json_exp_def)
  qed
  then show "s = e @ r" "e = [] \<or> hd e \<in> {CHR ''e'', CHR ''E''}" "json_exp e = Some (e, [])" by simp_all
qed

lemma json_number_split:
  assumes "json_number s = Some (t, r)"
  shows "s = t @ r \<and> num_ok t"
proof -
  define sign where "sign = (case s of c # _ \<Rightarrow> if c = CHR ''-'' then [c] else [] | [] \<Rightarrow> [])"
  obtain i s1 f s2 e where p: "json_int (drop (length sign) s) = Some (i, s1)" "json_frac s1 = Some (f, s2)" "json_exp s2 = Some (e, r)"
    and t: "t = sign @ i @ f @ e"
    using assms by (auto simp: json_number_def Let_def sign_def [symmetric] split: option.splits)
  note int = json_int_split [OF p(1)] and frac = json_frac_split [OF p(2)] and exp = json_exp_split [OF p(3)]
  have s: "s = sign @ drop (length sign) s" by (cases s) (auto simp: sign_def)
  have "f @ e = [] \<or> \<not> is_digit (hd (f @ e))" using frac(2) exp(2) by (cases f; cases e) (auto simp: is_digit_def)
  then have "json_int (i @ f @ e) = Some (i, f @ e)" by (rule int(3))
  moreover have "json_frac (f @ e) = Some (f, e)" using exp(2) by (intro frac(3)) auto
  moreover have "(case t of c # _ \<Rightarrow> if c = CHR ''-'' then [c] else [] | [] \<Rightarrow> []) = sign"
  proof -
    obtain c u where i: "i = c # u" using int(2) by (cases i) auto
    have "c \<noteq> CHR ''-''" using p(1) int(1) by (auto simp: i json_int_def is_digit_def split: if_splits)
    then show ?thesis by (cases s) (auto simp: t sign_def i)
  qed
  ultimately have "num_ok t" using exp(3) by (simp add: num_ok_def json_number_def t)
  moreover have "s = t @ r" using s int(1) frac(1) exp(1) by (simp add: t)
  ultimately show ?thesis by blast
qed

lemma parse_good:
  "parse_value n d s = Some (v, r) \<Longrightarrow> json_good d v"
  "parse_elems n d s = Some (vs, r) \<Longrightarrow> list_all (json_good d) vs"
  "parse_members n d s = Some (ms, r) \<Longrightarrow> list_all (\<lambda>(k, raw, v). json_clean k = k \<and> json_good d v) ms"
proof (induction n d s and n d s and n d s arbitrary: v r and vs r and ms r rule: parse_value_parse_elems_parse_members.induct)
  case (2 n d s)
  then obtain c cs where s: "skip_ws s = c # cs" by (auto split: list.splits)
  have lit: "json_good d v" if "json_literal w x (c # cs) = Some (v, r)" "x \<in> {JNull, JBool True, JBool False}" for w x
    using that by (auto simp: json_literal_def split: if_splits)
  consider "c = CHR ''{''" | "c = CHR ''[''" | "c = CHR 0x22" | "c \<in> {CHR ''t'', CHR ''f'', CHR ''n''}"
    | "c \<notin> {CHR ''{'', CHR ''['', CHR 0x22, CHR ''t'', CHR ''f'', CHR ''n''}" by blast
  then show ?case
  proof cases
    case 1
    then obtain x t where x: "skip_ws cs = x # t" "0 < d" using 2 s by (auto split: list.splits if_splits)
    show ?thesis
    proof (cases "x = CHR ''}''")
      case False
      then obtain ms where m: "parse_members n (d - 1) cs = Some (ms, r)" "v = JObj (map (\<lambda>(k, raw, v). (k, v)) ms)" using 2 s x 1 by auto
      then have "list_all (\<lambda>(k, raw, v). json_clean k = k \<and> json_good (d - 1) v) ms"
        using "2.IH"(1) [OF s 1 _ x(1) False] x(2) by simp
      then show ?thesis using x(2) by (auto simp: m(2) list_all_iff)
    qed (use 2 s x 1 in auto)
  next
    case ca: 2
    then obtain x t where x: "skip_ws cs = x # t" "0 < d" using 2 s by (auto split: list.splits if_splits)
    show ?thesis
    proof (cases "x = CHR '']''")
      case False
      then obtain vs where m: "parse_elems n (d - 1) cs = Some (vs, r)" "v = JArr vs" using 2 s x ca by auto
      then have "list_all (json_good (d - 1)) vs" using "2.IH"(2) [OF s _ ca _ x(1) False] x(2) ca by simp
      then show ?thesis using x(2) by (simp add: m(2))
    qed (use 2 s x ca in auto)
  next
    case 3
    then obtain t where "json_string cs = Some (t, r)" "v = JStr t" using 2 s by auto
    then show ?thesis using json_string_clean by simp
  next
    case 4
    then show ?thesis using 2(3) s lit by fastforce
  next
    case 5
    then obtain t where "json_number (c # cs) = Some (t, r)" "v = JNum t" using 2 s by auto
    then show ?thesis using json_number_split by simp
  qed
next
  case (4 n d s)
  then obtain v' r' where v: "parse_value n d s = Some (v', r')" by (auto split: option.splits)
  then have g: "json_good d v'" by (rule 4)
  obtain c t where c: "skip_ws r' = c # t" using 4 v by (auto split: list.splits)
  show ?case
  proof (cases "c = CHR '',''")
    case True
    then obtain vs' where e: "parse_elems n d t = Some (vs', r)" "vs = v' # vs'" using 4(3) v c by auto
    then have "list_all (json_good d) vs'" using "4.IH"(2) [OF v refl c True] by simp
    then show ?thesis using g e(2) by simp
  qed (use 4(3) v c g in \<open>auto split: if_splits\<close>)
next
  case (6 n d s)
  then obtain cs where q: "skip_ws s = CHR 0x22 # cs" by (auto split: list.splits if_splits)
  then obtain k r1 where k: "json_string cs = Some (k, r1)" using 6 by (auto split: option.splits)
  then obtain r2 where r2: "skip_ws r1 = CHR '':'' # r2" using 6 q by (auto split: list.splits if_splits)
  then obtain v' r3 where v: "parse_value n d (skip_ws r2) = Some (v', r3)" using 6 q k by (auto split: option.splits)
  then obtain c t where c: "skip_ws r3 = c # t" using 6 q k r2 by (auto simp: Let_def split: list.splits)
  have no: "\<not> CHR 0x22 \<noteq> CHR 0x22" "\<not> CHR '':'' \<noteq> CHR '':''" by simp_all
  have g: "json_good d v'" by (rule "6.IH"(1) [OF q no(1) k refl r2 no(2) v])
  show ?case
  proof (cases "c = CHR '',''")
    case True
    then obtain ms' raw where m: "parse_members n d t = Some (ms', r)" "ms = (k, raw, v') # ms'" using 6(3) q k r2 v c by (auto simp: Let_def)
    have "list_all (\<lambda>(k, raw, v). json_clean k = k \<and> json_good d v) ms'"
      by (rule "6.IH"(2) [OF q no(1) k refl r2 no(2) v refl refl c True m(1)])
    then show ?thesis using g json_string_clean [OF k] by (simp add: m(2))
  qed (use 6(3) q k r2 v c g json_string_clean [OF k] in \<open>auto simp: Let_def split: if_splits\<close>)
qed simp_all

text \<open>A value that nests less deep is read at that depth too.\<close>

lemma parse_depth:
  "parse_value n d s = Some (v, r) \<Longrightarrow> json_fits d' v \<Longrightarrow> parse_value n d' s = Some (v, r)"
  "parse_elems n d s = Some (vs, r) \<Longrightarrow> list_all (json_fits d') vs \<Longrightarrow> parse_elems n d' s = Some (vs, r)"
  "parse_members n d s = Some (ms, r) \<Longrightarrow> list_all (\<lambda>(k, raw, v). json_fits d' v) ms \<Longrightarrow> parse_members n d' s = Some (ms, r)"
proof (induction n d s and n d s and n d s arbitrary: d' v r and d' vs r and d' ms r rule: parse_value_parse_elems_parse_members.induct)
  case (2 n d s)
  obtain c cs where s: "skip_ws s = c # cs" using 2(3) by (auto split: list.splits)
  consider "c = CHR ''{''" | "c = CHR ''[''" | "c \<notin> {CHR ''{'', CHR ''[''}" by blast
  then show ?case
  proof cases
    case 1
    then obtain x t where x: "skip_ws cs = x # t" "0 < d" using 2(3) s by (auto split: list.splits if_splits)
    show ?thesis
    proof (cases "x = CHR ''}''")
      case False
      then obtain ms where m: "parse_members n (d - 1) cs = Some (ms, r)" "v = JObj (map (\<lambda>(k, raw, v). (k, v)) ms)" using 2(3) s x 1 by auto
      have "0 < d'" "list_all (\<lambda>(k, raw, v). json_fits (d' - 1) v) ms" using 2(4) by (auto simp: m(2) list_all_iff)
      then show ?thesis using "2.IH"(1) [OF s 1 _ x(1) False m(1)] x s 1 False by (simp add: m(2))
    qed (use 2(3,4) s x 1 in auto)
  next
    case ca: 2
    then obtain x t where x: "skip_ws cs = x # t" "0 < d" using 2(3) s by (auto split: list.splits if_splits)
    show ?thesis
    proof (cases "x = CHR '']''")
      case False
      then obtain vs where m: "parse_elems n (d - 1) cs = Some (vs, r)" "v = JArr vs" using 2(3) s x ca by auto
      have "0 < d'" "list_all (json_fits (d' - 1)) vs" using 2(4) by (auto simp: m(2) list_all_iff)
      then show ?thesis using "2.IH"(2) [OF s _ ca _ x(1) False m(1)] x s ca False by (simp add: m(2))
    qed (use 2(3,4) s x ca in auto)
  next
    case 3
    then show ?thesis using 2(3) s by simp
  qed
next
  case (4 n d s)
  obtain v' r' where v: "parse_value n d s = Some (v', r')" using 4(3) by (auto split: option.splits)
  obtain c t where c: "skip_ws r' = c # t" using 4(3) v by (auto split: list.splits)
  show ?case
  proof (cases "c = CHR '',''")
    case True
    then obtain vs' where e: "parse_elems n d t = Some (vs', r)" "vs = v' # vs'" using 4(3) v c by auto
    then have f: "json_fits d' v'" "list_all (json_fits d') vs'" using 4(4) by simp_all
    show ?thesis using "4.IH"(1) [OF v f(1)] "4.IH"(2) [OF v refl c True e(1) f(2)] c True e(2) by simp
  next
    case False
    then have "c = CHR '']''" "vs = [v']" "r = t" using 4(3) v c by (auto split: if_splits)
    then show ?thesis using "4.IH"(1) [OF v] 4(4) c by simp
  qed
next
  case (6 n d s)
  obtain cs where q: "skip_ws s = CHR 0x22 # cs" using 6(3) by (auto split: list.splits if_splits)
  obtain k r1 where k: "json_string cs = Some (k, r1)" using 6(3) q by (auto split: option.splits)
  obtain r2 where r2: "skip_ws r1 = CHR '':'' # r2" using 6(3) q k by (auto split: list.splits if_splits)
  obtain v' r3 where v: "parse_value n d (skip_ws r2) = Some (v', r3)" using 6(3) q k r2 by (auto split: option.splits)
  obtain c t where c: "skip_ws r3 = c # t" using 6(3) q k r2 v by (auto simp: Let_def split: list.splits)
  have no: "\<not> CHR 0x22 \<noteq> CHR 0x22" "\<not> CHR '':'' \<noteq> CHR '':''" by simp_all
  have val: "parse_value n d' (skip_ws r2) = Some (v', r3)" if "json_fits d' v'"
    by (rule "6.IH"(1) [OF q no(1) k refl r2 no(2) v that])
  show ?case
  proof (cases "c = CHR '',''")
    case True
    then obtain ms' raw where m: "parse_members n d t = Some (ms', r)" "raw = take (length (skip_ws r2) - length r3) (skip_ws r2)" "ms = (k, raw, v') # ms'"
      using 6(3) q k r2 v c by (auto simp: Let_def)
    then have f: "json_fits d' v'" "list_all (\<lambda>(k, raw, v). json_fits d' v) ms'" using 6(4) by simp_all
    have "parse_members n d' t = Some (ms', r)" by (rule "6.IH"(2) [OF q no(1) k refl r2 no(2) v refl refl c True m(1) f(2)])
    then show ?thesis using q k r2 val [OF f(1)] c True m(2,3) by (simp add: Let_def)
  next
    case False
    then have e: "c = CHR ''}''" "ms = [(k, take (length (skip_ws r2) - length r3) (skip_ws r2), v')]" "r = t"
      using 6(3) q k r2 v c by (auto simp: Let_def split: if_splits)
    then have "json_fits d' v'" using 6(4) by simp
    then show ?thesis using q k r2 val c e by (simp add: Let_def)
  qed
qed simp_all

subsection \<open>Strings of a compacted text\<close>

abbreviation cont_char :: "char \<Rightarrow> bool" where
  "cont_char c \<equiv> is_cont (of_char c)"

lemma compact_quote: "compact True (CHR 0x22 # cs) = CHR 0x22 # compact False cs"
  by (cases cs) simp_all

lemma compact_html: "c \<in> {CHR ''<'', CHR ''>'', CHR ''&''} \<Longrightarrow> cs \<noteq> [] \<Longrightarrow> compact True (c # cs) = escape_u (of_char c) @ compact True cs"
  by (cases cs) auto

lemma compact_plain:
  assumes "c \<notin> {CHR ''<'', CHR ''>'', CHR ''&'', CHR 0x22, CHR 0x5C}"
    and "\<not> (\<exists>e x t. cs = e # x # t \<and> (of_char c :: nat) = 226 \<and> (of_char e :: nat) = 128 \<and> (of_char x :: nat) \<in> {168, 169})"
  shows "compact True (c # cs) = c # compact True cs"
  using assms by (cases cs; cases "tl cs") auto

lemma compact_sep:
  assumes "(of_char c :: nat) = 226" "(of_char e :: nat) = 128" "(of_char x :: nat) \<in> {168, 169}"
  shows "compact True (c # e # x # cs) = escape_u (8064 + of_char x) @ compact True cs"
proof -
  have "c \<notin> {CHR ''<'', CHR ''>'', CHR ''&'', CHR 0x22, CHR 0x5C}" using assms(1) by auto
  then show ?thesis using assms by (subst compact.simps) simp
qed

declare compact.simps(3,4) [simp del]

lemma compact_cont: "list_all cont_char xs \<Longrightarrow> compact True (xs @ s) = xs @ compact True s"
proof (induction xs)
  case (Cons c xs)
  have "c \<notin> {CHR ''<'', CHR ''>'', CHR ''&'', CHR 0x22, CHR 0x5C}" "(of_char c :: nat) \<noteq> 226"
    using Cons.prems by (auto simp: is_cont_def)
  then show ?case using Cons by (simp add: compact_plain)
qed simp

text \<open>How a sequence of bytes decodes depends only on the continuation bytes that follow.\<close>

lemma str_step_conts: "128 \<le> (of_char b :: nat) \<Longrightarrow> str_step b s = str_step b (takeWhile cont_char s)"
proof -
  assume b: "128 \<le> (of_char b :: nat)"
  have "utf8_step n (map of_char s) = utf8_step n (map of_char (takeWhile cont_char s))" if "128 \<le> n" for n
    using that by (cases s; cases "tl s"; cases "tl (tl s)") (simp_all add: utf8_step_def)
  then show ?thesis using b by (simp add: str_step_eq)
qed

lemma str_step_conts_cong:
  "128 \<le> (of_char b :: nat) \<Longrightarrow> takeWhile cont_char s = takeWhile cont_char s' \<Longrightarrow> str_step b s = str_step b s'"
  using str_step_conts [of b s] str_step_conts [of b s'] by simp

lemma str_step_taken: "str_step c cs = (r, k) \<Longrightarrow> list_all cont_char (take k cs) \<and> (0 < k \<longrightarrow> \<not> cont_char c \<and> 128 \<le> (of_char c :: nat))"
proof -
  assume "str_step c cs = (r, k)"
  then have "utf8_step (of_char c) (map of_char cs) = (r, k)" by (simp add: str_step_eq)
  then show ?thesis
    by (cases cs; cases "tl cs"; cases "tl (tl cs)")
       (auto simp: utf8_step_def is_cont_def numeral_2_eq_2 numeral_3_eq_3 split: if_splits)
qed

lemma str_step_sep:
  assumes "str_step c cs = (r, k)" "0 < k"
  shows "(\<exists>e x t. cs = e # x # t \<and> (of_char c :: nat) = 226 \<and> (of_char e :: nat) = 128 \<and> (of_char x :: nat) \<in> {168, 169})
    \<Longrightarrow> k = 2 \<and> r = 8064 + of_char (cs ! 1) \<and> (r = 8232 \<or> r = 8233)"
  using assms by (auto simp: str_step_eq utf8_step_def is_cont_def)

lemma str_step_sep_pos:
  "(of_char c :: nat) = 226 \<Longrightarrow> (of_char e :: nat) = 128 \<Longrightarrow> (of_char x :: nat) \<in> {168, 169} \<Longrightarrow> 0 < snd (str_step c (e # x # t))"
  by (auto simp: str_step_eq utf8_step_def is_cont_def)

text \<open>Escapes are copied: four hexadecimal digits and a letter are plain.\<close>

lemma json_hex_plain: "json_hex c \<noteq> None \<Longrightarrow> c \<notin> {CHR ''<'', CHR ''>'', CHR ''&'', CHR 0x22, CHR 0x5C} \<and> (of_char c :: nat) < 128"
  by (auto simp: json_hex_def Let_def split: if_splits)

lemma json_hex4_parts:
  assumes "json_hex4 s = Some r"
  obtains a b c e t where "s = a # b # c # e # t" "\<And>t'. json_hex4 (a # b # c # e # t') = Some r"
    "\<And>t'. compact True (a # b # c # e # t') = a # b # c # e # compact True t'"
proof -
  obtain a b c e t where s: "s = a # b # c # e # t" "json_hex a \<noteq> None" "json_hex b \<noteq> None" "json_hex c \<noteq> None" "json_hex e \<noteq> None"
    using assms by (auto simp: json_hex4_def split: list.splits option.splits)
  have p: "compact True (x # u) = x # compact True u" if "json_hex x \<noteq> None" for x u
    using json_hex_plain [OF that] by (intro compact_plain) auto
  have "json_hex4 (a # b # c # e # t') = Some r" for t' using assms by (simp add: s(1) json_hex4_def)
  moreover have "compact True (a # b # c # e # t') = a # b # c # e # compact True t'" for t' using p s(2-5) by simp
  ultimately show ?thesis using that s(1) by blast
qed

lemma compact_escape: "compact True (CHR 0x5C # e # cs) = CHR 0x5C # e # compact True cs"
  by (subst compact.simps) simp

lemma low_surrogate_other: "s = [] \<or> hd s \<noteq> CHR 0x5C \<Longrightarrow> low_surrogate s = None"
  by (cases s; cases "tl s") (auto simp: low_surrogate_def)

lemma low_surrogate_escape_u: "r < 65536 \<Longrightarrow> r < 55296 \<Longrightarrow> low_surrogate (escape_u r @ s) = None"
  using json_hex4_digits [of "r div 4096 mod 16" "r div 256 mod 16" "r div 16 mod 16" "r mod 16" s] nibbles [of r]
  by (simp add: low_surrogate_def escape_u_def)

text \<open>An escape, with the text around it compacted.\<close>

lemma json_escape_copied:
  assumes "json_escape cs = Some (r, k)"
  shows "cs = take k cs @ drop k cs \<and> 0 < k \<and> compact True (CHR 0x5C # cs) = CHR 0x5C # take k cs @ compact True (drop k cs) \<and>
    (\<forall>ys. low_surrogate ys = low_surrogate (drop k cs) \<longrightarrow> json_escape (take k cs @ ys) = Some (r, k) \<and> length (take k cs) = k \<and>
       low_surrogate (CHR 0x5C # take k cs @ ys) = low_surrogate (CHR 0x5C # cs))"
proof -
  obtain e t where cs: "cs = e # t" using assms by (cases cs) (auto simp: json_escape_def)
  show ?thesis
  proof (cases "e = CHR ''u''")
    case False
    then have "k = 1" using assms by (auto simp: cs json_escape_def split: if_splits)
    then show ?thesis using assms False by (auto simp: cs compact_escape json_escape_def low_surrogate_def split: if_splits)
  next
    case True
    then have u: "json_escape_u t = Some (r, k)" using assms by (simp add: cs json_escape_def)
    then obtain h where h: "json_hex4 t = Some h" by (auto simp: json_escape_u_def split: option.splits)
    obtain a b c f t' where t: "t = a # b # c # f # t'" "\<And>w. json_hex4 (a # b # c # f # w) = Some h"
      "\<And>w. compact True (a # b # c # f # w) = a # b # c # f # compact True w"
      using json_hex4_parts [OF h] by blast
    have cs': "cs = CHR ''u'' # a # b # c # f # t'" by (simp add: cs True t(1))
    show ?thesis
    proof (cases "\<exists>r2. 55296 \<le> h \<and> h < 56320 \<and> low_surrogate t' = Some r2")
      case False
      then have r: "k = 5" "\<And>ys. low_surrogate ys = low_surrogate t' \<Longrightarrow> json_escape_u (a # b # c # f # ys) = Some (r, k)"
        using u h by (auto simp: json_escape_u_def t(1,2) split: if_splits option.splits bool.splits)
      then show ?thesis using r(2) t(2,3) by (auto simp: cs' compact_escape json_escape_def low_surrogate_def)
    next
      case True
      then obtain r2 where l: "55296 \<le> h" "h < 56320" "low_surrogate t' = Some r2" by blast
      then have k: "k = 11" "r = 65536 + (h - 55296) * 1024 + (r2 - 56320)" using u h by (auto simp: json_escape_u_def t(1))
      obtain w where w: "t' = CHR 0x5C # CHR ''u'' # w" "json_hex4 w = Some r2" "56320 \<le> r2" "r2 < 57344"
        using l(3) by (auto simp: low_surrogate_def split: list.splits option.splits if_splits)
      obtain a2 b2 c2 f2 t2 where t2: "w = a2 # b2 # c2 # f2 # t2" "\<And>v. json_hex4 (a2 # b2 # c2 # f2 # v) = Some r2"
        "\<And>v. compact True (a2 # b2 # c2 # f2 # v) = a2 # b2 # c2 # f2 # compact True v"
        using json_hex4_parts [OF w(2)] by blast
      have "cs = CHR ''u'' # a # b # c # f # CHR 0x5C # CHR ''u'' # a2 # b2 # c2 # f2 # t2" by (simp add: cs' w(1) t2(1))
      then show ?thesis using l(1,2) w(3,4) t(2,3) t2(2,3) k by (simp add: compact_escape json_escape_def json_escape_u_def low_surrogate_def)
    qed
  qed
qed

definition str_compacts :: "string \<Rightarrow> string \<Rightarrow> string \<Rightarrow> string \<Rightarrow> bool" where
  "str_compacts s t r c \<longleftrightarrow> compact True s = c @ compact False r \<and> c \<noteq> [] \<and>
     (\<forall>rest. json_string (c @ rest) = Some (t, rest) \<and> low_surrogate (c @ rest) = low_surrogate s \<and>
        takeWhile cont_char (c @ rest) = takeWhile cont_char s)"

lemma str_compactsD:
  assumes "str_compacts s t r c"
  shows "compact True s = c @ compact False r" "json_string (c @ rest) = Some (t, rest)" "low_surrogate (c @ rest) = low_surrogate s"
    "takeWhile cont_char (c @ rest) = takeWhile cont_char s"
  using assms by (simp_all add: str_compacts_def)

lemma escape_u_start: "\<exists>u. escape_u r = CHR 0x5C # u"
  by (simp add: escape_u_def)

lemma str_compacts_escaped:
  assumes "str_compacts (drop k cs) t r c'" "compact True (c # cs) = escape_u r' @ compact True (drop k cs)"
    and "r' < 55296" "c \<noteq> CHR 0x5C" "\<not> cont_char c"
  shows "str_compacts (c # cs) (runes_str [r'] @ t) r (escape_u r' @ c')"
proof -
  have "low_surrogate (c # cs) = None" using assms(4) by (intro low_surrogate_other) simp
  moreover have "takeWhile cont_char (escape_u r' @ s) = []" for s by (simp add: escape_u_def is_cont_def)
  ultimately show ?thesis
    using str_compactsD [OF assms(1)] assms(2-5) json_string_escape_u [of r'] low_surrogate_escape_u [of r'] escape_u_start [of r']
    by (auto simp: str_compacts_def)
qed

lemma str_compacts_plain:
  assumes "str_compacts (drop k cs) t r c'" "str_step c cs = (r', k)" "c \<notin> {CHR ''<'', CHR ''>'', CHR ''&'', CHR 0x22, CHR 0x5C}" "\<not> (of_char c :: nat) < 32"
    and sep: "\<not> (\<exists>e x t. cs = e # x # t \<and> (of_char c :: nat) = 226 \<and> (of_char e :: nat) = 128 \<and> (of_char x :: nat) \<in> {168, 169})"
  shows "str_compacts (c # cs) (runes_str [r'] @ t) r (c # take k cs @ c')"
proof -
  note d = str_compactsD [OF assms(1)] and tk = str_step_taken [OF assms(2)]
  have "compact True (c # cs) = c # compact True (take k cs @ drop k cs)" using compact_plain [OF assms(3) sep] by simp
  then have "compact True (c # cs) = (c # take k cs @ c') @ compact False r" using tk by (simp only: compact_cont d(1)) simp
  moreover have "json_string ((c # take k cs @ c') @ rest) = Some (runes_str [r'] @ t, rest)"
    "takeWhile cont_char ((c # take k cs @ c') @ rest) = takeWhile cont_char (c # cs)" for rest
  proof -
    have step: "str_step c (take k cs @ c' @ rest) = (r', k) \<and> k \<le> length cs"
    proof (cases "(of_char c :: nat) < 128")
      case False
      then have c: "128 \<le> (of_char c :: nat)" by simp
      show ?thesis
      proof (cases "k = 0")
        case True
        then show ?thesis using str_step_conts_cong [OF c, of "c' @ rest" cs] d(4) assms(2) by simp
      qed (use str_step_back [OF c assms(2)] in auto)
    qed (use assms(2) in \<open>simp add: str_step_ascii\<close>)
    then show "json_string ((c # take k cs @ c') @ rest) = Some (runes_str [r'] @ t, rest)" using assms(3,4) d(2) by simp
    show "takeWhile cont_char ((c # take k cs @ c') @ rest) = takeWhile cont_char (c # cs)"
      using tk d(4) by (cases "k = 0") auto
  qed
  moreover have "low_surrogate (c # s) = None" for s using assms(3) by (intro low_surrogate_other) simp
  ultimately show ?thesis by (simp add: str_compacts_def)
qed

lemma json_string_compact: "json_string s = Some (t, r) \<Longrightarrow> \<exists>c. str_compacts s t r c"
proof (induction s arbitrary: t rule: json_string.induct)
  case (2 c cs)
  consider "c = CHR 0x22" | "c = CHR 0x5C" | "c \<noteq> CHR 0x22" "c \<noteq> CHR 0x5C" by blast
  then show ?case
  proof cases
    case 1
    then have "t = []" "r = cs" using "2.prems" by auto
    then have "str_compacts (c # cs) t r [CHR 0x22]" by (simp add: str_compacts_def 1 compact_quote low_surrogate_other is_cont_def)
    then show ?thesis by blast
  next
    case c: 2
    then obtain r' k where e: "json_escape cs = Some (r', k)" using "2.prems" by (auto split: option.splits)
    then obtain t' where t: "json_string (drop k cs) = Some (t', r)" "t = runes_str [r'] @ t'" using "2.prems" c by auto
    then obtain c' where c': "str_compacts (drop k cs) t' r c'" using "2.IH"(1) [OF _ c e] c by auto
    note d = str_compactsD [OF this] and esc = json_escape_copied [OF e]
    have "json_escape (take k cs @ c' @ rest) = Some (r', k) \<and> length (take k cs) = k \<and>
       low_surrogate (CHR 0x5C # take k cs @ c' @ rest) = low_surrogate (CHR 0x5C # cs)" for rest
      using esc d(3) [of rest] by blast
    then have "str_compacts (c # cs) t r (CHR 0x5C # take k cs @ c')"
      using esc d(1,2) c t(2) by (simp add: str_compacts_def is_cont_def)
    then show ?thesis by blast
  next
    case 3
    obtain r' k where rk: "str_step c cs = (r', k)" by force
    then obtain t' where t: "json_string (drop k cs) = Some (t', r)" "\<not> (of_char c :: nat) < 32" "t = runes_str [r'] @ t'"
      using "2.prems" 3 by (auto split: if_splits)
    then obtain c' where c': "str_compacts (drop k cs) t' r c'" using "2.IH"(2) 3 rk by auto
    let ?sep = "\<lambda>e x u. cs = e # x # u \<and> (of_char c :: nat) = 226 \<and> (of_char e :: nat) = 128 \<and> (of_char x :: nat) \<in> {168, 169}"
    consider "c \<in> {CHR ''<'', CHR ''>'', CHR ''&''}" | e x u where "?sep e x u"
      | "c \<notin> {CHR ''<'', CHR ''>'', CHR ''&'', CHR 0x22, CHR 0x5C}" "\<not> (\<exists>e x t. ?sep e x t)"
      using 3 by blast
    then show ?thesis
    proof cases
      case html: 1
      then have a: "(of_char c :: nat) < 128" by auto
      then have k: "r' = of_char c" "k = 0" using rk by (simp_all add: str_step_ascii)
      have "cs \<noteq> []" using t(1) by auto
      then have "compact True (c # cs) = escape_u r' @ compact True (drop k cs)" using compact_html [OF html] k by simp
      then have "str_compacts (c # cs) t r (escape_u r' @ c')"
        unfolding t(3) by (rule str_compacts_escaped [OF c' _ _ 3(2)]) (use a k(1) in \<open>auto simp: is_cont_def\<close>)
      then show ?thesis by blast
    next
      case sep: 2
      then have "0 < k" using str_step_sep_pos [of c e x u] rk by auto
      then have k: "k = 2" "r' = 8064 + of_char x" "r' = 8232 \<or> r' = 8233" using str_step_sep [OF rk] sep by auto
      have "compact True (c # cs) = escape_u r' @ compact True (drop k cs)" using compact_sep [of c e x u] sep k(1,2) by simp
      then have "str_compacts (c # cs) t r (escape_u r' @ c')"
        unfolding t(3) by (rule str_compacts_escaped [OF c' _ _ 3(2)]) (use sep k(3) in \<open>auto simp: is_cont_def\<close>)
      then show ?thesis by blast
    next
      case 3
      then show ?thesis using str_compacts_plain [OF c' rk 3(1) t(2) 3(2)] t(3) by blast
    qed
  qed
qed simp

subsection \<open>Values of a compacted text\<close>

lemma compact_skip: "compact False (skip_ws s) = compact False s"
  by (induction s) (simp_all add: skip_ws_def)

lemma compact_skip_Cons: "skip_ws s = c # cs \<Longrightarrow> compact False s = c # compact (c = CHR 0x22) cs"
proof -
  assume s: "skip_ws s = c # cs"
  then have "\<not> is_space c" using hd_dropWhile [of is_space s] by (simp add: skip_ws_def)
  then show ?thesis by (simp add: compact_skip [of s, symmetric] s)
qed

lemma compact_copied: "\<forall>c \<in> set t. \<not> is_space c \<and> c \<noteq> CHR 0x22 \<Longrightarrow> compact False (t @ r) = t @ compact False r"
  by (induction t) simp_all

lemma skip_ws_hd: "skip_ws s = c # cs \<Longrightarrow> \<not> is_space c"
  using hd_dropWhile [of is_space s] by (simp add: skip_ws_def)

definition value_compacts :: "int \<Rightarrow> string \<Rightarrow> json_value \<Rightarrow> string \<Rightarrow> string \<Rightarrow> bool" where
  "value_compacts d s v r c \<longleftrightarrow> compact False s = c @ compact False r \<and> c \<noteq> [] \<and> hd c = hd (skip_ws s) \<and>
     (\<forall>n rest. stops rest \<longrightarrow> 2 * length c + 1 \<le> n \<longrightarrow> parse_value n d (c @ rest) = Some (v, rest))"

definition elems_compacts :: "int \<Rightarrow> string \<Rightarrow> json_value list \<Rightarrow> string \<Rightarrow> string \<Rightarrow> bool" where
  "elems_compacts d s vs r c \<longleftrightarrow> compact False s = c @ compact False r \<and> c \<noteq> [] \<and> hd c = hd (skip_ws s) \<and>
     (\<forall>n rest. 2 * length c + 2 \<le> n \<longrightarrow> parse_elems n d (c @ rest) = Some (vs, rest))"

definition members_compacts :: "int \<Rightarrow> string \<Rightarrow> (string \<times> string \<times> json_value) list \<Rightarrow> string \<Rightarrow> string \<Rightarrow> bool" where
  "members_compacts d s ms r c \<longleftrightarrow> compact False s = c @ compact False r \<and> c \<noteq> [] \<and> hd c = CHR 0x22 \<and>
     (\<forall>n rest. 2 * length c + 2 \<le> n \<longrightarrow>
        (\<exists>ms'. parse_members n d (c @ rest) = Some (ms', rest) \<and> map (\<lambda>(k, raw, v). (k, v)) ms' = map (\<lambda>(k, raw, v). (k, v)) ms))"

lemma num_ok_set: "num_ok t \<Longrightarrow> \<forall>c \<in> set t. is_digit c \<or> c \<in> {CHR ''-'', CHR ''+'', CHR ''.'', CHR ''e'', CHR ''E''}"
proof -
  assume n: "num_ok t"
  define P where "P c \<longleftrightarrow> is_digit c \<or> c \<in> {CHR ''-'', CHR ''+'', CHR ''.'', CHR ''e'', CHR ''E''}" for c
  have P: "P c" if "is_digit c \<or> c \<in> {CHR ''-'', CHR ''+'', CHR ''.'', CHR ''e'', CHR ''E''}" for c
    using that by (simp add: P_def)
  have dg: "list_all P (takeWhile is_digit u)" for u using P by (auto simp: list_all_iff dest: set_takeWhileD)
  have i: "list_all P i" if "json_int s = Some (i, r)" for s i r
  proof (cases s)
    case (Cons c u)
    then have "c = CHR ''0'' \<and> i = [c] \<or> i = takeWhile is_digit (c # u)"
      using that by (simp add: json_int_def del: takeWhile.simps split: if_splits)
    then show ?thesis
    proof
      assume "c = CHR ''0'' \<and> i = [c]"
      then show ?thesis using P [of "CHR ''0''"] by (simp add: is_digit_def)
    qed (simp only: dg)
  qed (use that in \<open>simp add: json_int_def\<close>)
  have f: "list_all P g" if "json_frac s = Some (g, r)" for s g r
  proof -
    have "g = [] \<or> (\<exists>t. g = CHR ''.'' # takeWhile is_digit t)"
      using that by (cases s) (auto simp: json_frac_def Let_def split: if_splits)
    then show ?thesis by (elim disjE exE) (simp_all add: dg P)
  qed
  have e: "list_all P x" if "json_exp s = Some (x, r)" for s x r
  proof -
    have sg: "set (case u of x # _ \<Rightarrow> if x = CHR ''+'' \<or> x = CHR ''-'' then [x] else [] | [] \<Rightarrow> []) \<subseteq> {CHR ''+'', CHR ''-''}" for u
      by (cases u) auto
    have "x = [] \<or> (\<exists>c sg t. x = c # sg @ takeWhile is_digit t \<and> c \<in> {CHR ''e'', CHR ''E''} \<and> set sg \<subseteq> {CHR ''+'', CHR ''-''})"
    proof (cases s)
      case (Cons c u)
      define sg' where "sg' = (case u of x # _ \<Rightarrow> if x = CHR ''+'' \<or> x = CHR ''-'' then [x] else [] | [] \<Rightarrow> [])"
      have "x = [] \<or> x = c # sg' @ takeWhile is_digit (drop (length sg') u) \<and> c \<in> {CHR ''e'', CHR ''E''}"
        using that Cons by (auto simp: json_exp_def Let_def sg'_def [symmetric] split: if_splits)
      moreover have "set sg' \<subseteq> {CHR ''+'', CHR ''-''}" using sg [of u] by (simp add: sg'_def)
      ultimately show ?thesis by blast
    qed (use that in \<open>simp add: json_exp_def\<close>)
    then show ?thesis
    proof (elim disjE exE conjE)
      fix c sg t
      assume x: "x = c # sg @ takeWhile is_digit t" "c \<in> {CHR ''e'', CHR ''E''}" "set sg \<subseteq> {CHR ''+'', CHR ''-''}"
      then have "P c" "\<forall>y \<in> set sg. P y" by (auto intro: P)
      then show ?thesis by (simp add: x(1) dg list_all_iff [of P sg])
    qed simp
  qed
  let ?sign = "case t of c # _ \<Rightarrow> if c = CHR ''-'' then [c] else [] | [] \<Rightarrow> []"
  obtain j s1 g s2 x where p: "json_int (drop (length ?sign) t) = Some (j, s1)" "json_frac s1 = Some (g, s2)" "json_exp s2 = Some (x, [])" "t = ?sign @ j @ g @ x"
    using n by (auto simp: num_ok_def json_number_def Let_def split: option.splits)
  have "list_all P ?sign" using P by (cases t) auto
  then have "list_all P t" using i [OF p(1)] f [OF p(2)] e [OF p(3)] by (subst p(4)) (simp only: list_all_append)
  then show ?thesis unfolding list_all_iff P_def .
qed

lemma num_ok_chars: "num_ok t \<Longrightarrow> \<forall>c \<in> set t. \<not> is_space c \<and> c \<noteq> CHR 0x22"
  using num_ok_set [of t] by (force simp: is_digit_def is_space_def)

lemma value_compacts_lit:
  assumes "skip_ws s = t @ r" "\<forall>c \<in> set t. \<not> is_space c \<and> c \<noteq> CHR 0x22" "t \<noteq> []"
    and "\<And>n rest. stops rest \<Longrightarrow> parse_value (Suc n) d (t @ rest) = Some (v, rest)"
  shows "value_compacts d s v r t"
proof -
  have "compact False s = t @ compact False r" using compact_copied [OF assms(2), of r] by (simp add: compact_skip [of s, symmetric] assms(1))
  moreover have "parse_value n d (t @ rest) = Some (v, rest)" if "stops rest" "2 * length t + 1 \<le> n" for n rest
    using assms(4) [OF that(1)] that(2) by (cases n) simp_all
  ultimately show ?thesis using assms(1,3) by (simp add: value_compacts_def)
qed

lemma value_compacts_string:
  assumes "skip_ws s = CHR 0x22 # cs" "json_string cs = Some (t, r)"
  shows "\<exists>c. value_compacts d s (JStr t) r c"
proof -
  obtain c where "str_compacts cs t r c" using json_string_compact [OF assms(2)] by blast
  note d = str_compactsD [OF this]
  have "compact False s = (CHR 0x22 # c) @ compact False r" using compact_skip_Cons [OF assms(1)] d(1) by simp
  moreover have "parse_value n d ((CHR 0x22 # c) @ rest) = Some (JStr t, rest)" if "2 * length (CHR 0x22 # c) + 1 \<le> n" for n rest
    using that d(2) by (cases n) (simp_all add: skip_ws_Cons)
  ultimately show ?thesis using assms(1) by (intro exI [of _ "CHR 0x22 # c"]) (simp add: value_compacts_def)
qed

lemma value_compacts_empty:
  assumes "skip_ws s = a # cs" "skip_ws cs = b # r" "0 < d" "(a, b, v) \<in> {(CHR ''{'', CHR ''}'', JObj []), (CHR ''['', CHR '']'', JArr [])}"
  shows "value_compacts d s v r [a, b]"
proof -
  have "compact False s = [a, b] @ compact False r" using compact_skip_Cons [OF assms(1)] compact_skip_Cons [OF assms(2)] assms(4) by auto
  moreover have "parse_value n d ([a, b] @ rest) = Some (v, rest)" if "2 * length [a, b] + 1 \<le> n" for n rest
    using that assms(3,4) by (cases n) (auto simp: skip_ws_Cons)
  ultimately show ?thesis using assms(1) by (simp add: value_compacts_def)
qed

lemma value_compacts_array:
  assumes "skip_ws s = CHR ''['' # cs" "elems_compacts (d - 1) cs vs r c" "0 < d" "skip_ws cs = x # t" "x \<noteq> CHR '']''"
  shows "value_compacts d s (JArr vs) r (CHR ''['' # c)"
proof -
  note e = assms(2) [unfolded elems_compacts_def]
  obtain c' where c: "c = x # c'" using e assms(4) by (cases c) auto
  have "compact False s = (CHR ''['' # c) @ compact False r" using compact_skip_Cons [OF assms(1)] e by simp
  moreover have "parse_value n d ((CHR ''['' # c) @ rest) = Some (JArr vs, rest)" if l: "2 * length (CHR ''['' # c) + 1 \<le> n" for n rest
  proof -
    obtain m where n: "n = Suc m" "2 * length c + 2 \<le> m" using l by (cases n) auto
    then have "parse_elems m (d - 1) (c @ rest) = Some (vs, rest)" using e by blast
    then show ?thesis using assms(3,5) skip_ws_hd [OF assms(4)] by (simp add: n(1) skip_ws_Cons c)
  qed
  ultimately show ?thesis using assms(1) by (simp add: value_compacts_def)
qed

lemma value_compacts_object:
  assumes "skip_ws s = CHR ''{'' # cs" "members_compacts (d - 1) cs ms r c" "0 < d"
  shows "value_compacts d s (JObj (map (\<lambda>(k, raw, v). (k, v)) ms)) r (CHR ''{'' # c)"
proof -
  note e = assms(2) [unfolded members_compacts_def]
  obtain c' where c: "c = CHR 0x22 # c'" using e by (cases c) auto
  have "compact False s = (CHR ''{'' # c) @ compact False r" using compact_skip_Cons [OF assms(1)] e by simp
  moreover have "parse_value n d ((CHR ''{'' # c) @ rest) = Some (JObj (map (\<lambda>(k, raw, v). (k, v)) ms), rest)"
    if l: "2 * length (CHR ''{'' # c) + 1 \<le> n" for n rest
  proof -
    obtain m where n: "n = Suc m" "2 * length c + 2 \<le> m" using l by (cases n) auto
    then obtain ms' where "parse_members m (d - 1) (c @ rest) = Some (ms', rest)" "map (\<lambda>(k, raw, v). (k, v)) ms' = map (\<lambda>(k, raw, v). (k, v)) ms"
      using e by blast
    then show ?thesis using assms(3) by (simp add: n(1) skip_ws_Cons c)
  qed
  ultimately show ?thesis using assms(1) by (simp add: value_compacts_def)
qed

lemma elems_compacts_last:
  assumes "value_compacts d s v r' c" "skip_ws r' = CHR '']'' # r"
  shows "elems_compacts d s [v] r (c @ '']'')"
proof -
  note e = assms(1) [unfolded value_compacts_def]
  have "compact False s = (c @ '']'') @ compact False r" using compact_skip_Cons [OF assms(2)] e by simp
  moreover have "parse_elems n d ((c @ '']'') @ rest) = Some ([v], rest)" if l: "2 * length (c @ '']'') + 2 \<le> n" for n rest
  proof -
    obtain m where n: "n = Suc m" "2 * length c + 1 \<le> m" using l by (cases n) auto
    then have "parse_value m d (c @ '']'' @ rest) = Some (v, '']'' @ rest)" using e by simp
    then show ?thesis by (simp add: n(1) skip_ws_Cons)
  qed
  ultimately show ?thesis using e by (simp add: elems_compacts_def)
qed

lemma elems_compacts_more:
  assumes "value_compacts d s v r' c" "skip_ws r' = CHR '','' # t" "elems_compacts d t vs r c'"
  shows "elems_compacts d s (v # vs) r (c @ CHR '','' # c')"
proof -
  note e = assms(1) [unfolded value_compacts_def] and e' = assms(3) [unfolded elems_compacts_def]
  have "compact False s = (c @ CHR '','' # c') @ compact False r" using compact_skip_Cons [OF assms(2)] e e' by simp
  moreover have "parse_elems n d ((c @ CHR '','' # c') @ rest) = Some (v # vs, rest)" if l: "2 * length (c @ CHR '','' # c') + 2 \<le> n" for n rest
  proof -
    obtain m where n: "n = Suc m" "2 * length c + 1 \<le> m" "2 * length c' + 2 \<le> m" using l by (cases n) auto
    then have "parse_value m d (c @ CHR '','' # c' @ rest) = Some (v, CHR '','' # c' @ rest)" "parse_elems m d (c' @ rest) = Some (vs, rest)"
      using e e' by simp_all
    then show ?thesis by (simp add: n(1) skip_ws_Cons)
  qed
  ultimately show ?thesis using e by (simp add: elems_compacts_def)
qed

text \<open>A member, up to the character after its value.\<close>

definition member_text :: "string \<Rightarrow> string \<Rightarrow> string" where
  "member_text c cv = CHR 0x22 # c @ CHR '':'' # cv"

lemma member_compacts:
  assumes "skip_ws s = CHR 0x22 # cs" "json_string cs = Some (k, r1)" "skip_ws r1 = CHR '':'' # r2"
    and "value_compacts d (skip_ws r2) v r3 cv" "skip_ws r2 = x # t"
  obtains c where "compact False s = member_text c cv @ compact False r3"
    "\<And>n u. stops u \<Longrightarrow> 2 * length (member_text c cv) + 2 \<le> n \<Longrightarrow>
       parse_members n d (member_text c cv @ u) =
         (case skip_ws u of [] \<Rightarrow> None
          | y # w \<Rightarrow> if y = CHR '','' then map_option (apfst ((#) (k, cv, v))) (parse_members (n - 1) d w)
                     else if y = CHR ''}'' then Some ([(k, cv, v)], w) else None)"
proof -
  note e = assms(4) [unfolded value_compacts_def]
  obtain c where "str_compacts cs k r1 c" using json_string_compact [OF assms(2)] by blast
  note st = str_compactsD [OF this]
  have 1: "compact False s = member_text c cv @ compact False r3"
    using compact_skip_Cons [OF assms(1)] st(1) compact_skip_Cons [OF assms(3)] e compact_skip [of r2] by (simp add: member_text_def)
  obtain cv' where cv: "cv = x # cv'" using e assms(5) by (cases cv) (auto simp: skip_ws_def)
  have sk: "skip_ws (cv @ u) = cv @ u" for u using skip_ws_hd [OF assms(5)] by (simp add: cv skip_ws_Cons)
  have "parse_members n d (member_text c cv @ u) =
         (case skip_ws u of [] \<Rightarrow> None
          | y # w \<Rightarrow> if y = CHR '','' then map_option (apfst ((#) (k, cv, v))) (parse_members (n - 1) d w)
                     else if y = CHR ''}'' then Some ([(k, cv, v)], w) else None)"
    if l: "stops u" "2 * length (member_text c cv) + 2 \<le> n" for n u
  proof -
    obtain m where n: "n = Suc m" "2 * length cv + 1 \<le> m" using l(2) by (cases n) (auto simp: member_text_def)
    then have "parse_value m d (cv @ u) = Some (v, u)" using e l(1) by blast
    then show ?thesis
      by (simp add: n(1) member_text_def skip_ws_Cons st(2) sk Let_def split: list.split)
  qed
  with 1 show ?thesis by (rule that)
qed

lemma members_compacts_last:
  assumes "skip_ws s = CHR 0x22 # cs" "json_string cs = Some (k, r1)" "skip_ws r1 = CHR '':'' # r2"
    and "value_compacts d (skip_ws r2) v r3 cv" "skip_ws r2 = x # t" "skip_ws r3 = CHR ''}'' # r"
  shows "\<exists>c. members_compacts d s [(k, raw, v)] r c"
proof -
  obtain c where c: "compact False s = member_text c cv @ compact False r3"
    "\<And>n u. stops u \<Longrightarrow> 2 * length (member_text c cv) + 2 \<le> n \<Longrightarrow>
       parse_members n d (member_text c cv @ u) =
         (case skip_ws u of [] \<Rightarrow> None
          | y # w \<Rightarrow> if y = CHR '','' then map_option (apfst ((#) (k, cv, v))) (parse_members (n - 1) d w)
                     else if y = CHR ''}'' then Some ([(k, cv, v)], w) else None)"
    using member_compacts [OF assms(1-5)] by blast
  have "members_compacts d s [(k, raw, v)] r (member_text c cv @ ''}'')"
    unfolding members_compacts_def
    using c compact_skip_Cons [OF assms(6)] by (auto simp: skip_ws_Cons) (simp_all add: member_text_def)
  then show ?thesis by blast
qed

lemma members_compacts_more:
  assumes "skip_ws s = CHR 0x22 # cs" "json_string cs = Some (k, r1)" "skip_ws r1 = CHR '':'' # r2"
    and "value_compacts d (skip_ws r2) v r3 cv" "skip_ws r2 = x # t" "skip_ws r3 = CHR '','' # u" "members_compacts d u ms r c'"
  shows "\<exists>c. members_compacts d s ((k, raw, v) # ms) r c"
proof -
  note e = assms(7) [unfolded members_compacts_def]
  obtain c where c: "compact False s = member_text c cv @ compact False r3"
    "\<And>n u. stops u \<Longrightarrow> 2 * length (member_text c cv) + 2 \<le> n \<Longrightarrow>
       parse_members n d (member_text c cv @ u) =
         (case skip_ws u of [] \<Rightarrow> None
          | y # w \<Rightarrow> if y = CHR '','' then map_option (apfst ((#) (k, cv, v))) (parse_members (n - 1) d w)
                     else if y = CHR ''}'' then Some ([(k, cv, v)], w) else None)"
    using member_compacts [OF assms(1-5)] by blast
  let ?c = "member_text c cv @ CHR '','' # c'"
  have "compact False s = ?c @ compact False r" using c(1) compact_skip_Cons [OF assms(6)] e by simp
  moreover have "\<exists>ms'. parse_members n d (?c @ rest) = Some (ms', rest) \<and> map (\<lambda>(k, raw, v). (k, v)) ms' = map (\<lambda>(k, raw, v). (k, v)) ((k, raw, v) # ms)"
    if l: "2 * length ?c + 2 \<le> n" for n rest
  proof -
    have "2 * length c' + 2 \<le> n - 1" using l by simp
    then obtain ms' where "parse_members (n - 1) d (c' @ rest) = Some (ms', rest)" "map (\<lambda>(k, raw, v). (k, v)) ms' = map (\<lambda>(k, raw, v). (k, v)) ms"
      using e by blast
    then show ?thesis using c(2) [of "CHR '','' # c' @ rest" n] l by (simp add: skip_ws_Cons)
  qed
  moreover have "hd ?c = CHR 0x22" by (simp add: member_text_def)
  ultimately have "members_compacts d s ((k, raw, v) # ms) r ?c" unfolding members_compacts_def by blast
  then show ?thesis by blast
qed

lemma json_literal_split: "json_literal w x s = Some (v, r) \<Longrightarrow> s = w @ r \<and> v = x"
  by (auto simp: json_literal_def has_prefix_def split: if_splits) (metis append_take_drop_id)

lemma parse_compacts:
  "parse_value n d s = Some (v, r) \<Longrightarrow> \<exists>c. value_compacts d s v r c"
  "parse_elems n d s = Some (vs, r) \<Longrightarrow> \<exists>c. elems_compacts d s vs r c"
  "parse_members n d s = Some (ms, r) \<Longrightarrow> \<exists>c. members_compacts d s ms r c"
proof (induction n d s and n d s and n d s arbitrary: v r and vs r and ms r rule: parse_value_parse_elems_parse_members.induct)
  case (2 n d s)
  then obtain c cs where s: "skip_ws s = c # cs" by (auto split: list.splits)
  consider "c = CHR ''{''" | "c = CHR ''[''" | "c = CHR 0x22" | "c = CHR ''t''" | "c = CHR ''f''" | "c = CHR ''n''"
    | "c \<notin> {CHR ''{'', CHR ''['', CHR 0x22, CHR ''t'', CHR ''f'', CHR ''n''}" by blast
  then show ?case
  proof cases
    case 1
    then obtain x t where x: "skip_ws cs = x # t" "0 < d" using 2(3) s by (auto split: list.splits if_splits)
    show ?thesis
    proof (cases "x = CHR ''}''")
      case True
      then have "v = JObj [] \<and> r = t" using 2 s x 1 by auto
      then show ?thesis using value_compacts_empty [of s c cs x t d "JObj []"] s x 1 True by auto
    next
      case False
      then obtain ms where m: "parse_members n (d - 1) cs = Some (ms, r)" "v = JObj (map (\<lambda>(k, raw, v). (k, v)) ms)" using 2 s x 1 by auto
      then have "\<exists>c. members_compacts (d - 1) cs ms r c" using "2.IH"(1) [OF s 1 _ x(1) False] x(2) by simp
      then show ?thesis using value_compacts_object s 1 x(2) unfolding m(2) by blast
    qed
  next
    case ca: 2
    then obtain x t where x: "skip_ws cs = x # t" "0 < d" using 2(3) s by (auto split: list.splits if_splits)
    show ?thesis
    proof (cases "x = CHR '']''")
      case True
      then have "v = JArr [] \<and> r = t" using 2 s x ca by auto
      then show ?thesis using value_compacts_empty [of s c cs x t d "JArr []"] s x ca True by auto
    next
      case False
      then obtain vs where m: "parse_elems n (d - 1) cs = Some (vs, r)" "v = JArr vs" using 2 s x ca by auto
      then have "\<exists>c. elems_compacts (d - 1) cs vs r c" using "2.IH"(2) [OF s _ ca _ x(1) False] x(2) ca by simp
      then show ?thesis using value_compacts_array s ca x False unfolding m(2) by blast
    qed
  next
    case 3
    then obtain t where "json_string cs = Some (t, r)" "v = JStr t" using 2 s by auto
    then show ?thesis using value_compacts_string s 3 by blast
  next
    case 4
    then have l: "skip_ws s = ''true'' @ r" "v = JBool True" using 2(3) s by (auto dest: json_literal_split)
    show ?thesis unfolding l(2)
      by (rule exI, rule value_compacts_lit [OF l(1)]) (auto simp: is_space_def skip_ws_Cons json_literal_def has_prefix_def)
  next
    case 5
    then have l: "skip_ws s = ''false'' @ r" "v = JBool False" using 2(3) s by (auto dest: json_literal_split)
    show ?thesis unfolding l(2)
      by (rule exI, rule value_compacts_lit [OF l(1)]) (auto simp: is_space_def skip_ws_Cons json_literal_def has_prefix_def)
  next
    case 6
    then have l: "skip_ws s = ''null'' @ r" "v = JNull" using 2(3) s by (auto dest: json_literal_split)
    show ?thesis unfolding l(2)
      by (rule exI, rule value_compacts_lit [OF l(1)]) (auto simp: is_space_def skip_ws_Cons json_literal_def has_prefix_def)
  next
    case 7
    then obtain t where t: "json_number (c # cs) = Some (t, r)" "v = JNum t" using 2 s by auto
    then have sp: "c # cs = t @ r" "num_ok t" using json_number_split by auto
    then have l: "skip_ws s = t @ r" using s by simp
    obtain u where u: "t = c # u" using sp by (cases t) (auto simp: num_ok_def json_number_def json_int_def)
    show ?thesis unfolding t(2)
    proof (rule exI, rule value_compacts_lit [OF l num_ok_chars [OF sp(2)]])
      show "parse_value (Suc n) d (t @ rest) = Some (JNum t, rest)" if "stops rest" for n rest
        using json_number_stop [OF sp(2) that] 7 skip_ws_hd [OF s] by (simp add: u skip_ws_Cons)
    qed (simp add: u)
  qed
next
  case (4 n d s)
  then obtain v' r' where v: "parse_value n d s = Some (v', r')" by (auto split: option.splits)
  then obtain cv where cv: "value_compacts d s v' r' cv" using 4 by blast
  obtain c t where c: "skip_ws r' = c # t" using 4 v by (auto split: list.splits)
  show ?case
  proof (cases "c = CHR '',''")
    case True
    then obtain vs' where e: "parse_elems n d t = Some (vs', r)" "vs = v' # vs'" using 4(3) v c by auto
    then have "\<exists>c. elems_compacts d t vs' r c" using "4.IH"(2) [OF v refl c True] by simp
    then show ?thesis using elems_compacts_more [OF cv] c True unfolding e(2) by blast
  next
    case False
    then have "c = CHR '']''" "vs = [v']" "r = t" using 4(3) v c by (auto split: if_splits)
    then show ?thesis using elems_compacts_last [OF cv] c by blast
  qed
next
  case (6 n d s)
  then obtain cs where q: "skip_ws s = CHR 0x22 # cs" by (auto split: list.splits if_splits)
  then obtain k r1 where k: "json_string cs = Some (k, r1)" using 6 by (auto split: option.splits)
  then obtain r2 where r2: "skip_ws r1 = CHR '':'' # r2" using 6 q by (auto split: list.splits if_splits)
  then obtain v' r3 where v: "parse_value n d (skip_ws r2) = Some (v', r3)" using 6 q k by (auto split: option.splits)
  then obtain c t where c: "skip_ws r3 = c # t" using 6 q k r2 by (auto simp: Let_def split: list.splits)
  have no: "\<not> CHR 0x22 \<noteq> CHR 0x22" "\<not> CHR '':'' \<noteq> CHR '':''" by simp_all
  obtain cv where cv: "value_compacts d (skip_ws r2) v' r3 cv" using "6.IH"(1) [OF q no(1) k refl r2 no(2) v] by blast
  have "skip_ws r2 \<noteq> []" using parse_shrinks(1) [OF v] by auto
  then obtain x u where x: "skip_ws r2 = x # u" by (cases "skip_ws r2") auto
  show ?case
  proof (cases "c = CHR '',''")
    case True
    then obtain ms' raw where m: "parse_members n d t = Some (ms', r)" "ms = (k, raw, v') # ms'" using 6(3) q k r2 v c by (auto simp: Let_def)
    obtain c' where "members_compacts d t ms' r c'"
      using "6.IH"(2) [OF q no(1) k refl r2 no(2) v refl refl c True m(1)] by blast
    then show ?thesis using members_compacts_more [OF q k r2 cv x] c True unfolding m(2) by blast
  next
    case False
    then obtain raw where "c = CHR ''}''" "ms = [(k, raw, v')]" "r = t" using 6(3) q k r2 v c by (auto simp: Let_def split: if_splits)
    then show ?thesis using members_compacts_last [OF q k r2 cv x] c by blast
  qed
qed simp_all

text \<open>A compacted text has the value of the text, wherever it stands.\<close>

theorem compact_reads:
  assumes "json_parse s = Some v" "json_fits d v"
  shows "compact False s \<noteq> []" "\<not> is_space (hd (compact False s))"
    "stops rest \<Longrightarrow> 2 * length (compact False s) + 1 \<le> n \<Longrightarrow> parse_value n d (compact False s @ rest) = Some (v, rest)"
proof -
  obtain r where r: "parse_value (2 * length s + 2) json_depth s = Some (v, r)" "skip_ws r = []"
    using assms(1) by (auto simp: json_parse_def split: option.splits if_splits)
  then obtain c where c: "value_compacts json_depth s v r c" using parse_compacts(1) by blast
  have "compact False r = []" using compact_skip [of r] r(2) by simp
  then have cs: "compact False s = c" using c by (simp add: value_compacts_def)
  show "compact False s \<noteq> []" using c by (simp add: cs value_compacts_def)
  have "skip_ws s \<noteq> []" using r(1) by auto
  then obtain x t where x: "skip_ws s = x # t" by (cases "skip_ws s") auto
  then show "\<not> is_space (hd (compact False s))" using skip_ws_hd [OF x] c by (simp add: cs value_compacts_def)
  show "parse_value n d (compact False s @ rest) = Some (v, rest)" if "stops rest" "2 * length (compact False s) + 1 \<le> n"
    using parse_depth(1) [OF _ assms(2), of n json_depth] that c unfolding cs value_compacts_def by blast
qed

end
