(* ===== verification/Float64_Exact.thy ===== *)
theory Float64_Exact
  imports Float64
begin

section \<open>When rounded quotients keep their ceiling\<close>

text \<open>
  The relative error of one rounding, and from it: the ceiling of a rounded quotient of two
  positive integers is the exact one as long as the dividend has at most 53 bits. The
  conversions of Go from floating point to integers truncate towards zero; on values the
  integer type cannot hold their result is not specified and no theorem relies on it.
\<close>

definition f64_trunc :: "rat \<Rightarrow> int" where
  "f64_trunc x = (if 0 \<le> x then \<lfloor>x\<rfloor> else \<lceil>x\<rceil>)"

lemma f64_trunc_of_int [simp]: "f64_trunc (of_int n) = n"
  by (simp add: f64_trunc_def)

lemma round_even_close: "\<bar>of_int (round_even y) - y\<bar> \<le> 1 / 2"
proof -
  define f where "f = \<lfloor>y\<rfloor>"
  have f: "of_int f \<le> y" "y < of_int f + 1" unfolding f_def by linarith+
  show ?thesis
    using f unfolding round_even_def Let_def f_def [symmetric] by (auto simp: abs_le_iff field_simps)
qed

lemma rnd_pos_close: "0 < x \<Longrightarrow> \<bar>rnd_pos x - x\<bar> \<le> p2 (ulp_exp x) / 2"
proof -
  assume "0 < x"
  let ?u = "p2 (ulp_exp x)"
  have u: "0 < ?u" by simp
  have "rnd_pos x - x = (of_int (round_even (x / ?u)) - x / ?u) * ?u"
    using u by (simp add: rnd_pos_def field_simps)
  then have "\<bar>rnd_pos x - x\<bar> = \<bar>of_int (round_even (x / ?u)) - x / ?u\<bar> * ?u"
    using u by (simp add: abs_mult)
  also have "\<dots> \<le> 1 / 2 * ?u"
    using round_even_close [of "x / ?u"] u by (intro mult_right_mono) simp_all
  finally show ?thesis by simp
qed

lemma rnd_of_pos: "0 < x \<Longrightarrow> rnd x = rnd_pos x"
  by (simp add: rnd_def)

lemma p2_52: "p2 52 = 4503599627370496"
  by (simp add: p2_nonneg_int)

lemma ulp_relative:
  assumes "p2 (- 64) \<le> x"
  shows "p2 (ulp_exp x) \<le> x / p2 52"
proof -
  have x: "0 < x" using assms p2_pos [of "- 64"] by linarith
  have "p2 (- 64) < p2 (ilog2 x + 1)" using assms ilog2_bounds(2) [OF x] by linarith
  then have "- 64 < ilog2 x + 1" by (rule p2_less)
  then have "ulp_exp x = ilog2 x - 52" by (simp add: ulp_exp_def)
  then have "p2 (ulp_exp x) = p2 (ilog2 x) / p2 52" by (simp only: p2_div)
  also have "\<dots> \<le> x / p2 52" using ilog2_bounds(1) [OF x] by (intro divide_right_mono) simp_all
  finally show ?thesis .
qed

lemma f64_div_gt_int:
  assumes "0 < a" "a < 2 ^ 53" "0 < b" "b < 2 ^ 63" "of_int n < (of_int a / of_int b :: rat)"
  shows "of_int n < f64_div (of_int a) (of_int b)"
proof -
  let ?q = "of_int a / of_int b :: rat"
  have b: "0 < (of_int b :: rat)" using assms by simp
  have q: "0 < ?q" using assms by simp
  have "(of_int b :: rat) \<le> of_int (2 ^ 64)" using assms(4) by (simp only: of_int_le_iff) simp
  then have "1 / of_int (2 ^ 64) \<le> (1 :: rat) / of_int b" using b by (intro divide_left_mono) simp_all
  also have "\<dots> \<le> ?q" using assms(1) b by (intro divide_right_mono) simp_all
  finally have "p2 (- 64) \<le> ?q" by (simp add: power_int_minus inverse_eq_divide)
  then have "p2 (ulp_exp ?q) \<le> ?q / p2 52" by (rule ulp_relative)
  then have err: "?q - rnd_pos ?q \<le> ?q / p2 52 / 2"
  proof -
    have "?q - rnd_pos ?q \<le> p2 (ulp_exp ?q) / 2" using rnd_pos_close [OF q] by (simp only: abs_le_iff minus_diff_eq)
    also have "\<dots> \<le> ?q / p2 52 / 2" using \<open>p2 (ulp_exp ?q) \<le> ?q / p2 52\<close> by (rule divide_right_mono) simp
    finally show ?thesis .
  qed
  have "of_int n * of_int b < (of_int a :: rat)" using assms(5) b by (simp add: pos_less_divide_eq)
  then have "n * b < a" by (simp only: of_int_mult [symmetric] of_int_less_iff)
  then have "of_int (n * b + 1) \<le> (of_int a :: rat)" by (simp only: of_int_le_iff)
  then have "of_int (n * b + 1) / of_int b \<le> ?q" using b by (intro divide_right_mono) simp_all
  moreover have "of_int (n * b + 1) / of_int b = of_int n + (1 :: rat) / of_int b"
    using b by (simp add: add_divide_distrib)
  ultimately have gap: "of_int n + 1 / of_int b \<le> ?q" by simp
  have "(of_int a :: rat) < of_int (2 ^ 53)" using assms(2) by (simp only: of_int_less_iff)
  then have "?q / p2 52 / 2 < 1 / of_int b" using b by (simp add: p2_52 field_simps)
  then have "of_int n < rnd_pos ?q" using err gap by linarith
  then show ?thesis by (simp only: f64_div_def rnd_of_pos [OF q])
qed

theorem f64_div_ceil_exact:
  assumes "0 < a" "a < 2 ^ 53" "0 < b" "b < 2 ^ 63"
  shows "f64_ceil (f64_div (of_int a) (of_int b)) = \<lceil>of_int a / of_int b :: rat\<rceil>"
proof -
  let ?q = "of_int a / of_int b :: rat" and ?n = "\<lceil>of_int a / of_int b :: rat\<rceil>"
  have "?q \<le> of_int a" using assms by (simp add: divide_le_eq)
  then have "?n \<le> a" by (simp add: ceiling_le_iff)
  moreover have "0 < ?q" using assms by simp
  then have "0 < ?n" by linarith
  ultimately have small: "\<bar>?n\<bar> < 2 ^ 53" using assms(2) by linarith
  have "?q \<le> of_int ?n" by (rule le_of_int_ceiling)
  then have "f64_div (of_int a) (of_int b) \<le> of_int ?n" by (rule f64_div_le_int [OF small])
  moreover have "of_int (?n - 1) < f64_div (of_int a) (of_int b)"
    using assms by (intro f64_div_gt_int) (simp_all, linarith)
  ultimately show ?thesis unfolding f64_ceil_def by (intro ceiling_unique) simp_all
qed

end
