(* ===== verification/Go_Encoding.thy ===== *)
theory Go_Encoding
  imports Json_Roundtrip Float64_Exact
begin

section \<open>Encodings of Go values\<close>

text \<open>
  The rest of the standard library's text formats that the program relies on: \<open>float64\<close> as
  JSON (the shortest decimal that reads back, in \<open>strconv\<close>'s two layouts), values of type
  \<open>interface{}\<close>, the verb \<open>%q\<close>, and RFC 3339 times. The tables of printable runes above 127
  are a parameter of \<open>%q\<close>.
\<close>

subsection \<open>Decimal literals\<close>

definition literal_val :: "string \<Rightarrow> rat" where
  "literal_val t =
     (let neg = (t \<noteq> [] \<and> hd t = CHR ''-''); s = (if neg then tl t else t);
          i = takeWhile is_digit s; s1 = dropWhile is_digit s;
          point = (s1 \<noteq> [] \<and> hd s1 = CHR ''.'');
          f = (if point then takeWhile is_digit (tl s1) else []);
          s2 = (if point then dropWhile is_digit (tl s1) else s1);
          e = (case s2 of _ # x # u \<Rightarrow>
                 if x = CHR ''-'' then - int (digits_val u) else if x = CHR ''+'' then int (digits_val u) else int (digits_val (x # u))
               | _ \<Rightarrow> 0);
          v = of_nat (digits_val (i @ f)) * 10 powi (e - int (length f))
      in if neg then - v else v)"

text \<open>\<open>strconv.ParseFloat\<close>, with its error for a value out of range.\<close>

definition parse_f64 :: "string \<Rightarrow> rat option" where
  "parse_f64 t = (let v = rnd (literal_val t) in if \<bar>v\<bar> < p2 1024 then Some v else None)"

subsection \<open>The shortest decimal\<close>

definition dec_exp :: "rat \<Rightarrow> int" where
  "dec_exp x =
     (if 1 \<le> x then int (floorlog 10 (nat \<lfloor>x\<rfloor>)) - 1
      else - int (floorlog 10 (nat (\<lceil>1 / x\<rceil> - 1))))"

text \<open>The decimals of \<open>n\<close> digits on either side, the nearer one first; one that reads back is taken.
  A carry to the next power of ten leaves one digit.\<close>

definition try_digits :: "rat \<Rightarrow> nat \<Rightarrow> (nat \<times> int) option" where
  "try_digits x n =
     (let k = dec_exp x - int n + 1; y = x / 10 powi k; lo = \<lfloor>y\<rfloor>; d = y - of_int lo;
          near = (if d < 1 / 2 \<or> d = 1 / 2 \<and> even lo then [nat lo, nat \<lceil>y\<rceil>] else [nat \<lceil>y\<rceil>, nat lo])
      in map_option (\<lambda>c. if c = 10 ^ n then (1, k + int n) else (c, k)) (List.find (\<lambda>c. rnd (of_nat c * 10 powi k) = x) near))"

text \<open>17 digits are always enough for a \<open>float64\<close>; the last case, the exact value, only makes the
  function total.\<close>

definition f64_scale :: nat where "f64_scale = 1074"

definition shortest :: "rat \<Rightarrow> nat \<times> int" where
  "shortest x =
     (case List.find (\<lambda>d. d \<noteq> None) (map (try_digits x) [1..<18]) of
        Some (Some d) \<Rightarrow> d
      | _ \<Rightarrow> (nat \<lfloor>x * 10 ^ f64_scale\<rfloor>, - int f64_scale))"

definition pad_digits :: "nat \<Rightarrow> nat \<Rightarrow> string" where
  "pad_digits m r = replicate (m - length (nat_str r)) (CHR ''0'') @ nat_str r"

definition fixed_text :: "nat \<Rightarrow> int \<Rightarrow> string" where
  "fixed_text c k =
     (if 0 \<le> k then nat_str (c * 10 ^ nat k)
      else (let m = nat (- k) in nat_str (c div 10 ^ m) @ CHR ''.'' # pad_digits m (c mod 10 ^ m)))"

definition exp_text :: "nat \<Rightarrow> int \<Rightarrow> string" where
  "exp_text c k =
     (let ds = nat_str c; e = k + int (length ds) - 1
      in hd ds # (if tl ds = [] then [] else CHR ''.'' # tl ds) @ CHR ''e'' # (if e < 0 then CHR ''-'' else CHR ''+'') # nat_str (nat \<bar>e\<bar>))"

definition f64_text_pos :: "rat \<Rightarrow> string" where
  "f64_text_pos x = (let (c, k) = shortest x in if x < rnd (1 / 10 ^ 6) \<or> 10 ^ 21 \<le> x then exp_text c k else fixed_text c k)"

definition f64_text :: "rat \<Rightarrow> string" where
  "f64_text x = (if x = 0 then ''0'' else if x < 0 then CHR ''-'' # f64_text_pos (- x) else f64_text_pos x)"

subsection \<open>Reading numbers back\<close>

lemma digits_val_append: "digits_val (a @ b) = digits_val a * 10 ^ length b + digits_val b"
proof (induction b rule: rev_induct)
  case (snoc c b)
  have s: "digits_val (x @ [c]) = 10 * digits_val x + digit_val c" for x by (simp add: digits_val_def)
  show ?case unfolding append_assoc [symmetric] s snoc by (simp add: algebra_simps)
qed (simp add: digits_val_def)

lemma digits_val_zeros: "digits_val (replicate n (CHR ''0'') @ s) = digits_val s"
proof -
  have "digits_val (replicate n (CHR ''0'')) = 0"
    by (induction n) (simp_all add: digits_val_append digits_val_def digit_val_def flip: replicate_append_same)
  then show ?thesis by (simp add: digits_val_append)
qed

lemma length_nat_str: "n < 10 ^ m \<Longrightarrow> 0 < m \<Longrightarrow> length (nat_str n) \<le> m"
proof (induction n arbitrary: m rule: nat_str.induct)
  case (1 n)
  show ?case
  proof (cases "n < 10")
    case False
    then obtain k where m: "m = Suc k" "0 < k" using 1(2,3) by (cases m; cases "m - 1") auto
    then have "n div 10 < 10 ^ k" using 1(2) by (simp add: less_mult_imp_div_less mult.commute)
    then show ?thesis using 1(1) [OF False _ m(2)] m False by (subst nat_str.simps) simp
  qed (use 1(3) in \<open>subst nat_str.simps; simp\<close>)
qed

lemma pad_digits_props:
  assumes "r < 10 ^ m" "0 < m"
  shows "length (pad_digits m r) = m" "digits_val (pad_digits m r) = r" "list_all is_digit (pad_digits m r)"
  using length_nat_str [OF assms] nat_str_digits [of _ r]
  by (auto simp: pad_digits_def digits_val_zeros list_all_iff is_digit_def)

lemma nat_str_all: "list_all is_digit (nat_str n)"
  using nat_str_digits by (auto simp: list_all_iff)

lemma digit_not_sign: "list_all is_digit s \<Longrightarrow> s \<noteq> [] \<Longrightarrow> hd s \<noteq> CHR ''-'' \<and> hd s \<noteq> CHR ''+'' \<and> hd s \<noteq> CHR ''.''"
  by (cases s) (auto simp: is_digit_def)

lemma not_digit_sym [simp]: "\<not> is_digit (CHR ''.'')" "\<not> is_digit (CHR ''e'')"
  by (simp_all add: is_digit_def)

text \<open>A literal with a fraction and an exponent, each possibly empty.\<close>

lemma literal_val_parts:
  assumes "list_all is_digit i" "i \<noteq> []" "list_all is_digit f" "list_all is_digit x"
  shows "literal_val (i @ (if f = [] then [] else CHR ''.'' # f)) = of_nat (digits_val (i @ f)) * 10 powi (- int (length f))"
    "literal_val (i @ (if f = [] then [] else CHR ''.'' # f) @ CHR ''e'' # CHR ''-'' # x) = of_nat (digits_val (i @ f)) * 10 powi (- int (digits_val x) - int (length f))"
    "literal_val (i @ (if f = [] then [] else CHR ''.'' # f) @ CHR ''e'' # CHR ''+'' # x) = of_nat (digits_val (i @ f)) * 10 powi (int (digits_val x) - int (length f))"
proof -
  have h: "hd (i @ u) \<noteq> CHR ''-''" for u using digit_not_sign [OF assms(1,2)] assms(2) by simp
  have n: "i @ u \<noteq> []" for u using assms(2) by simp
  show "literal_val (i @ (if f = [] then [] else CHR ''.'' # f)) = of_nat (digits_val (i @ f)) * 10 powi (- int (length f))"
    "literal_val (i @ (if f = [] then [] else CHR ''.'' # f) @ CHR ''e'' # CHR ''-'' # x) = of_nat (digits_val (i @ f)) * 10 powi (- int (digits_val x) - int (length f))"
    "literal_val (i @ (if f = [] then [] else CHR ''.'' # f) @ CHR ''e'' # CHR ''+'' # x) = of_nat (digits_val (i @ f)) * 10 powi (int (digits_val x) - int (length f))"
    using h assms by (auto simp: literal_val_def Let_def takeWhile_all_append takeWhile_all)
qed

lemma num_ok_parts:
  assumes "list_all is_digit i" "i \<noteq> []" "hd i = CHR ''0'' \<Longrightarrow> tl i = []" "list_all is_digit f" "list_all is_digit x" "x \<noteq> []"
  shows "num_ok (i @ (if f = [] then [] else CHR ''.'' # f))"
    "num_ok (i @ (if f = [] then [] else CHR ''.'' # f) @ CHR ''e'' # CHR ''-'' # x)"
    "num_ok (i @ (if f = [] then [] else CHR ''.'' # f) @ CHR ''e'' # CHR ''+'' # x)"
proof -
  obtain c u where i: "i = c # u" "c \<noteq> CHR ''-''" "is_digit c" "list_all is_digit u"
    using assms(1,2) digit_not_sign [OF assms(1,2)] by (cases i) auto
  have int: "json_int (i @ t) = Some (i, t)" if "t = [] \<or> \<not> is_digit (hd t)" for t
    using that i assms(3) by (cases t) (auto simp: json_int_def takeWhile_all_append takeWhile_all)
  have frac: "json_frac ((if f = [] then [] else CHR ''.'' # f) @ t) = Some (if f = [] then [] else CHR ''.'' # f, t)"
    if "t = [] \<or> hd t = CHR ''e''" for t
    using that assms(4) by (cases t) (auto simp: json_frac_def Let_def takeWhile_all_append takeWhile_all)
  have exp: "json_exp [] = Some ([], [])" "json_exp (CHR ''e'' # CHR ''-'' # x) = Some (CHR ''e'' # CHR ''-'' # x, [])"
    "json_exp (CHR ''e'' # CHR ''+'' # x) = Some (CHR ''e'' # CHR ''+'' # x, [])"
    using assms(5,6) by (simp_all add: json_exp_def Let_def takeWhile_all)
  have num: "json_number (i @ (if f = [] then [] else CHR ''.'' # f) @ t) = Some (i @ (if f = [] then [] else CHR ''.'' # f) @ t, [])"
    if "json_exp t = Some (t, [])" "t = [] \<or> hd t = CHR ''e''" for t
  proof -
    let ?f = "if f = [] then [] else CHR ''.'' # f"
    have "json_int (i @ ?f @ t) = Some (i, ?f @ t)" by (rule int) (use that(2) in auto)
    then show ?thesis using frac [OF that(2)] that(1) i(1,2) by (simp add: json_number_def)
  qed
  show "num_ok (i @ (if f = [] then [] else CHR ''.'' # f))" using num [OF exp(1)] by (simp add: num_ok_def)
  show "num_ok (i @ (if f = [] then [] else CHR ''.'' # f) @ CHR ''e'' # CHR ''-'' # x)" using num [OF exp(2)] by (simp add: num_ok_def)
  show "num_ok (i @ (if f = [] then [] else CHR ''.'' # f) @ CHR ''e'' # CHR ''+'' # x)" using num [OF exp(3)] by (simp add: num_ok_def)
qed

lemma nat_str_zero: "hd (nat_str n) = CHR ''0'' \<Longrightarrow> tl (nat_str n) = []"
proof -
  assume "hd (nat_str n) = CHR ''0''"
  then have "n = 0" using nat_str_hd by blast
  moreover have "nat_str 0 = [CHR ''0'']" by code_simp
  ultimately show ?thesis by simp
qed

lemma fixed_text_reads: "literal_val (fixed_text c k) = of_nat c * 10 powi k" "num_ok (fixed_text c k)"
proof -
  have "literal_val (fixed_text c k) = of_nat c * 10 powi k \<and> num_ok (fixed_text c k)"
  proof (cases "0 \<le> k")
    case True
    then have "literal_val (nat_str (c * 10 ^ nat k)) = of_nat c * 10 powi k"
      using literal_val_parts(1) [where f = "[]" and x = "[]", OF nat_str_all nat_str_not_Nil, of "c * 10 ^ nat k"] by (simp add: power_int_def)
    moreover have "num_ok (nat_str (c * 10 ^ nat k))"
      using num_ok_parts(1) [where f = "[]" and x = "''0''", OF nat_str_all nat_str_not_Nil nat_str_zero, of "c * 10 ^ nat k"] by (simp add: is_digit_def)
    ultimately show ?thesis using True by (simp add: fixed_text_def)
  next
    case False
    define m where "m = nat (- k)"
    have m: "0 < m" "k = - int m" using False by (simp_all add: m_def)
    define r where "r = c mod 10 ^ m"
    have "r < 10 ^ m" by (simp add: r_def)
    note p = pad_digits_props [OF this m(1)]
    have ne: "pad_digits m r \<noteq> []" using p(1) m(1) by auto
    have t: "fixed_text c k = nat_str (c div 10 ^ m) @ (if pad_digits m r = [] then [] else CHR ''.'' # pad_digits m r)"
      using False ne by (simp add: fixed_text_def m_def [symmetric] r_def [symmetric] Let_def)
    have "digits_val (nat_str (c div 10 ^ m) @ pad_digits m r) = c"
      unfolding digits_val_append p(1,2) digits_val_nat_str unfolding r_def by (rule div_mult_mod_eq)
    then have "literal_val (fixed_text c k) = of_nat c * 10 powi k"
      unfolding t using literal_val_parts(1) [where x = "[]", OF nat_str_all nat_str_not_Nil p(3)] p(1) m(2) by simp
    moreover have "num_ok (fixed_text c k)"
      unfolding t using num_ok_parts(1) [where x = "''0''", OF nat_str_all nat_str_not_Nil nat_str_zero p(3)] by (simp add: is_digit_def)
    ultimately show ?thesis by blast
  qed
  then show "literal_val (fixed_text c k) = of_nat c * 10 powi k" "num_ok (fixed_text c k)" by simp_all
qed

lemma exp_text_reads: "literal_val (exp_text c k) = of_nat c * 10 powi k" "num_ok (exp_text c k)"
proof -
  define ds where "ds = nat_str c"
  define e where "e = k + int (length ds) - 1"
  have ds: "ds \<noteq> []" "list_all is_digit ds" by (simp_all add: ds_def nat_str_all)
  then have parts: "[hd ds] @ tl ds = ds" "list_all is_digit [hd ds]" "list_all is_digit (tl ds)" "length ds = Suc (length (tl ds))"
    by (cases ds; simp)+
  have t: "exp_text c k = [hd ds] @ (if tl ds = [] then [] else CHR ''.'' # tl ds) @ CHR ''e'' # (if e < 0 then CHR ''-'' else CHR ''+'') # nat_str (nat \<bar>e\<bar>)"
    unfolding exp_text_def Let_def ds_def [symmetric] e_def [symmetric] by simp
  have v: "digits_val ([hd ds] @ tl ds) = c" unfolding parts(1) ds_def by simp
  have x: "(if e < 0 then - int (nat \<bar>e\<bar>) else int (nat \<bar>e\<bar>)) - int (length (tl ds)) = k" using parts(4) by (simp add: e_def)
  note val = literal_val_parts(2,3) [OF parts(2) _ parts(3) nat_str_all, of "nat \<bar>e\<bar>"]
  note ok = num_ok_parts(2,3) [OF parts(2) _ _ parts(3) nat_str_all, of "nat \<bar>e\<bar>"]
  show "literal_val (exp_text c k) = of_nat c * 10 powi k"
    unfolding t using val v x by (auto split: if_splits)
  show "num_ok (exp_text c k)" unfolding t using ok by auto
qed

lemma find_option_Some: "List.find (\<lambda>d. d \<noteq> None) (map f xs) = Some y \<Longrightarrow> \<exists>x \<in> set xs. f x = y \<and> y \<noteq> None"
  by (auto simp: find_Some_iff)

lemma scaled_int:
  assumes "x = of_int n * p2 u" "0 \<le> u + int m"
  shows "of_int \<lfloor>x * 10 ^ m\<rfloor> = (x * 10 ^ m :: rat)"
proof -
  have "(10 :: rat) ^ m = 5 ^ m * p2 (int m)" using power_mult_distrib [of "5 :: rat" 2 m] by simp
  then have "x * 10 ^ m = of_int n * (p2 u * p2 (int m)) * 5 ^ m" using assms(1) by (simp add: algebra_simps)
  also have "p2 u * p2 (int m) = of_int (2 ^ nat (u + int m))" unfolding p2_add [symmetric] by (rule p2_nonneg_int [OF assms(2)])
  finally have "x * 10 ^ m = of_int (n * 2 ^ nat (u + int m) * 5 ^ m)" by simp
  then show ?thesis by (metis floor_of_int)
qed

lemma nat_floor_scaled:
  fixes x :: rat
  assumes "0 < x" "of_int \<lfloor>x * 10 ^ m\<rfloor> = x * 10 ^ m"
  shows "of_nat (nat \<lfloor>x * 10 ^ m\<rfloor>) * 10 powi (- int m) = x"
proof -
  have "of_nat (nat \<lfloor>x * 10 ^ m\<rfloor>) = x * 10 ^ m" using assms by (subst of_nat_nat) simp_all
  then show ?thesis by (simp add: power_int_minus)
qed

lemma shortest_reads:
  assumes "0 < x" "rnd x = x" "shortest x = (c, k)"
  shows "rnd (of_nat c * 10 powi k) = x"
proof (cases "List.find (\<lambda>d. d \<noteq> None) (map (try_digits x) [1..<18])")
  case None
  then have ck: "c = nat \<lfloor>x * 10 ^ f64_scale\<rfloor>" "k = - int f64_scale" using assms(3) by (simp_all add: shortest_def)
  have "x = of_int (round_even (x / p2 (ulp_exp x))) * p2 (ulp_exp x)" using assms(1,2) by (simp add: rnd_def rnd_pos_def)
  moreover have "0 \<le> ulp_exp x + int f64_scale" by (simp add: ulp_exp_def f64_scale_def)
  ultimately have "of_nat c * 10 powi k = x" unfolding ck by (intro nat_floor_scaled assms(1) scaled_int)
  then show ?thesis using assms(2) by simp
next
  case (Some d)
  then obtain n where n: "try_digits x n = d" "d \<noteq> None" using find_option_Some [OF Some] by blast
  then have "try_digits x n = Some (c, k)" using Some assms(3) by (auto simp: shortest_def)
  then obtain xs c' k' where f: "List.find (\<lambda>c. rnd (of_nat c * 10 powi k') = x) xs = Some c'"
    and ck: "(c, k) = (if c' = 10 ^ n then (1, k' + int n) else (c', k'))" by (auto simp: try_digits_def Let_def)
  have "of_nat c * 10 powi k = (of_nat c' * 10 powi k' :: rat)" using ck by (auto simp: power_int_add split: if_splits)
  then show ?thesis using find_SomeD [OF f] by simp
qed

lemma f64_text_pos_reads:
  assumes "0 < x" "rnd x = x"
  shows "rnd (literal_val (f64_text_pos x)) = x" "num_ok (f64_text_pos x)"
proof -
  obtain c k where s: "shortest x = (c, k)" by force
  show "rnd (literal_val (f64_text_pos x)) = x" "num_ok (f64_text_pos x)"
    using shortest_reads [OF assms s] by (simp_all add: f64_text_pos_def s exp_text_reads fixed_text_reads)
qed

lemma literal_val_minus: "num_ok t \<Longrightarrow> hd t \<noteq> CHR ''-'' \<Longrightarrow> literal_val (CHR ''-'' # t) = - literal_val t"
  by (simp add: literal_val_def Let_def)

lemma f64_text_pos_start: "\<exists>c t. f64_text_pos x = c # t \<and> is_digit c"
proof -
  have "\<exists>c t. nat_str n @ s = c # t \<and> is_digit c" "is_digit (hd (nat_str n))" for n s
    using nat_str_all [of n] by (cases "nat_str n"; simp)+
  then show ?thesis
    by (auto simp: f64_text_pos_def exp_text_def fixed_text_def Let_def split: prod.split) (metis append_Nil2)
qed

lemma num_ok_minus: "num_ok (c # t) \<Longrightarrow> is_digit c \<Longrightarrow> num_ok (CHR ''-'' # c # t)"
proof -
  assume n: "num_ok (c # t)" "is_digit c"
  then have "c \<noteq> CHR ''-''" by auto
  with n show ?thesis by (auto simp: num_ok_def json_number_def Let_def split: option.splits)
qed

text \<open>A \<open>float64\<close> comes back from its text.\<close>

theorem f64_text_reads:
  assumes "rnd x = x" "\<bar>x\<bar> < p2 1024"
  shows "parse_f64 (f64_text x) = Some x" "num_ok (f64_text x)"
proof -
  consider "x = 0" | "0 < x" | "0 < - x" by linarith
  then have "rnd (literal_val (f64_text x)) = x \<and> num_ok (f64_text x)"
  proof cases
    case 1
    have "literal_val ''0'' = 0" "num_ok ''0''" by (code_simp, simp add: num_ok_def json_number_def json_int_def json_frac_def json_exp_def)
    with 1 show ?thesis by (simp add: f64_text_def)
  next
    case 2
    then show ?thesis using f64_text_pos_reads [OF 2 assms(1)] by (simp add: f64_text_def)
  next
    case 3
    have "rnd (- x) = - x" using assms(1) by (simp add: rnd_minus)
    note pos = f64_text_pos_reads [OF 3 this]
    obtain c t where t: "f64_text_pos (- x) = c # t" "is_digit c" using f64_text_pos_start by blast
    then have "c \<noteq> CHR ''-''" by auto
    then show ?thesis using 3 pos t literal_val_minus [OF pos(2)] num_ok_minus [of c t]
      by (auto simp: f64_text_def rnd_minus)
  qed
  then show "parse_f64 (f64_text x) = Some x" "num_ok (f64_text x)" using assms(2) by (simp_all add: parse_f64_def)
qed

end
