(* ===== verification/Go_Values.thy ===== *)
theory Go_Values
  imports Json_Compact Go_Encoding
begin

section \<open>Values of type interface\<close>

text \<open>
  What \<open>encoding/json\<close> makes of JSON when the Go type is \<open>interface{}\<close>, and back: numbers become
  \<open>float64\<close>, an object a map whose keys the encoder sorts, a repeated key keeps its last value, and
  a number out of range is an error. A value survives the trip (\<open>any_comes_back\<close>). Also the verb
  \<open>%q\<close>, whose text is a JSON string only for some strings (\<open>go_quote_reads\<close>).
\<close>

subsection \<open>Rounding twice\<close>

lemma rnd_pos_exact:
  assumes "0 < y" "y = of_int n * p2 e" "ulp_exp y \<le> e"
  shows "rnd_pos y = y"
proof -
  let ?u = "ulp_exp y"
  have "y / p2 ?u = of_int n * p2 (e - ?u)" using assms(2) p2_div [of e ?u] by (simp only: times_divide_eq_right [symmetric])
  also have "\<dots> = of_int (n * 2 ^ nat (e - ?u))" using assms(3) p2_nonneg_int [of "e - ?u"] by simp
  finally have q: "y / p2 ?u = of_int (n * 2 ^ nat (e - ?u))" .
  have "rnd_pos y = y / p2 ?u * p2 ?u" unfolding rnd_pos_def by (simp only: q round_even_int)
  then show ?thesis by simp
qed

lemma rnd_pos_again:
  assumes "0 < x" "0 < rnd_pos x"
  shows "rnd_pos (rnd_pos x) = rnd_pos x"
proof -
  define E where "E = ulp_exp x + 53"
  have e: "ilog2 x + 1 \<le> E" "- 1074 \<le> ulp_exp x" by (auto simp: E_def ulp_exp_def)
  have "x \<le> p2 E" using ilog2_bounds(2) [OF assms(1)] p2_mono [OF e(1)] by linarith
  then have le: "rnd_pos x \<le> p2 E" using assms(1) by (intro rnd_pos_le) (simp_all add: E_def)
  show ?thesis
  proof (cases "rnd_pos x = p2 E")
    case True
    have "p2 (ilog2 (rnd_pos x)) < p2 (E + 1)" using ilog2_bounds(1) [OF assms(2)] True power_int_strict_increasing [of E "E + 1" "2 :: rat"] by linarith
    then have "ilog2 (rnd_pos x) < E + 1" by (rule p2_less)
    then have "ulp_exp (rnd_pos x) \<le> E" using e(2) by (simp add: ulp_exp_def [of "rnd_pos x"] E_def)
    then show ?thesis using rnd_pos_exact [OF assms(2), of 1 E] True by simp
  next
    case False
    then have "ilog2 (rnd_pos x) < E" using le ilog2_less [OF assms(2)] by simp
    then have "ulp_exp (rnd_pos x) \<le> ulp_exp x" using e(2) by (simp add: ulp_exp_def [of "rnd_pos x"] E_def)
    then show ?thesis by (rule rnd_pos_exact [OF assms(2) rnd_pos_def])
  qed
qed

lemma rnd_again: "rnd (rnd x) = rnd x"
proof -
  have pos: "rnd (rnd_pos y) = rnd_pos y" if "0 < y" for y
    using rnd_pos_again [OF that] rnd_pos_nonneg [OF that] by (cases "rnd_pos y = 0") (simp_all add: rnd_def)
  consider "x = 0" | "0 < x" | "0 < - x" by linarith
  then show ?thesis
  proof cases
    case 2
    then show ?thesis using pos by (simp add: rnd_def [of x])
  next
    case 3
    then have "rnd (rnd (- x)) = rnd (- x)" using pos by (simp add: rnd_def [of "- x"])
    then show ?thesis by (simp add: rnd_minus)
  qed simp
qed

subsection \<open>Values\<close>

text \<open>A \<open>float64\<close> is its sign bit and its magnitude, so that \<open>-0\<close> stays apart. A map is its entries
  in the order of the keys.\<close>

datatype any_value =
    ANil | ABool bool | AFloat bool rat | AStr string | AArr "any_value list" | AMap "(string \<times> any_value) list"

fun map_insert :: "string \<Rightarrow> 'v \<Rightarrow> (string \<times> 'v) list \<Rightarrow> (string \<times> 'v) list" where
  "map_insert k v [] = [(k, v)]"
| "map_insert k v ((k', v') # m) =
     (if k < k' then (k, v) # (k', v') # m else if k = k' then (k, v) # m else (k', v') # map_insert k v m)"

definition map_fill :: "(string \<times> 'v) list \<Rightarrow> (string \<times> 'v) list \<Rightarrow> (string \<times> 'v) list" where
  "map_fill kvs m = fold (\<lambda>(k, v). map_insert k v) kvs m"

definition any_number :: "string \<Rightarrow> any_value option" where
  "any_number t =
     (let neg = (t \<noteq> [] \<and> hd t = CHR ''-'')
      in map_option (AFloat neg) (parse_f64 (if neg then tl t else t)))"

fun all_some :: "'a option list \<Rightarrow> 'a list option" where
  "all_some [] = Some []"
| "all_some (x # xs) = (case x of None \<Rightarrow> None | Some y \<Rightarrow> map_option ((#) y) (all_some xs))"

fun any_of_json :: "json_value \<Rightarrow> any_value option" where
  "any_of_json JNull = Some ANil"
| "any_of_json (JBool b) = Some (ABool b)"
| "any_of_json (JNum t) = any_number t"
| "any_of_json (JStr s) = Some (AStr s)"
| "any_of_json (JArr vs) = map_option AArr (all_some (map any_of_json vs))"
| "any_of_json (JObj kvs) = map_option (\<lambda>as. AMap (map_fill (zip (map fst kvs) as) [])) (all_some (map (\<lambda>(k, v). any_of_json v) kvs))"

fun json_of_any :: "any_value \<Rightarrow> json_value" where
  "json_of_any ANil = JNull"
| "json_of_any (ABool b) = JBool b"
| "json_of_any (AFloat neg r) = JNum ((if neg then ''-'' else []) @ f64_text r)"
| "json_of_any (AStr s) = JStr s"
| "json_of_any (AArr as) = JArr (map json_of_any as)"
| "json_of_any (AMap kvs) = JObj (map (\<lambda>(k, v). (k, json_of_any v)) kvs)"

text \<open>The values a program can hold: finite numbers, UTF-8 strings, and nested no deeper than \<open>d\<close>.\<close>

definition f64_mag :: "rat \<Rightarrow> bool" where
  "f64_mag r \<longleftrightarrow> 0 \<le> r \<and> rnd r = r \<and> r < p2 1024"

abbreviation keys_sorted :: "(string \<times> 'v) list \<Rightarrow> bool" where
  "keys_sorted m \<equiv> sorted_wrt (<) (map fst m)"

fun any_good :: "int \<Rightarrow> any_value \<Rightarrow> bool" where
  "any_good d (AFloat neg r) = f64_mag r"
| "any_good d (AStr s) = (json_clean s = s)"
| "any_good d (AArr as) = (0 < d \<and> list_all (any_good (d - 1)) as)"
| "any_good d (AMap kvs) = (0 < d \<and> keys_sorted kvs \<and> list_all (\<lambda>(k, v). json_clean k = k \<and> any_good (d - 1) v) kvs)"
| "any_good d a = True"

subsection \<open>Maps\<close>

lemma map_insert_set: "set (map_insert k v m) \<subseteq> insert (k, v) (set m)"
  by (induction k v m rule: map_insert.induct) auto

lemma map_insert_keys: "set (map fst (map_insert k v m)) = insert k (set (map fst m))"
  by (induction k v m rule: map_insert.induct) auto

lemma map_insert_sorted: "keys_sorted m \<Longrightarrow> keys_sorted (map_insert k v m)"
proof (induction k v m rule: map_insert.induct)
  case (2 k v k' v' m)
  then have "keys_sorted (map_insert k v m)" if "\<not> k < k'" "k \<noteq> k'" using that by simp
  moreover have "\<forall>x \<in> set (map fst (map_insert k v m)). k' < x" if "k' < k" using that "2.prems" by (simp only: map_insert_keys) auto
  ultimately show ?case using "2.prems" by auto
qed simp

lemma map_fill_sorted: "keys_sorted m \<Longrightarrow> keys_sorted (map_fill kvs m)"
  by (induction kvs arbitrary: m) (auto simp: map_fill_def map_insert_sorted)

lemma map_fill_set: "set (map_fill kvs m) \<subseteq> set kvs \<union> set m"
proof (induction kvs arbitrary: m)
  case (Cons kv kvs)
  obtain k v where kv: "kv = (k, v)" by force
  have "set (map_fill kvs (map_insert k v m)) \<subseteq> set kvs \<union> set (map_insert k v m)" by (rule Cons)
  then show ?case using map_insert_set [of k v m] by (auto simp: map_fill_def kv)
qed (simp add: map_fill_def)

lemma map_insert_last: "\<forall>x \<in> set (map fst m). x < k \<Longrightarrow> map_insert k v m = m @ [(k, v)]"
  by (induction m) auto

lemma map_fill_id: "keys_sorted (m @ kvs) \<Longrightarrow> map_fill kvs m = m @ kvs"
proof (induction kvs arbitrary: m)
  case (Cons kv kvs)
  obtain k v where kv: "kv = (k, v)" by force
  have "map_insert k v m = m @ [(k, v)]" by (rule map_insert_last) (use Cons.prems in \<open>auto simp: kv sorted_wrt_append\<close>)
  then show ?case using Cons.IH [of "m @ [(k, v)]"] Cons.prems by (simp add: map_fill_def kv)
qed (simp add: map_fill_def)

lemma map_of_insert: "keys_sorted m \<Longrightarrow> map_of (map_insert k v m) = (map_of m)(k \<mapsto> v)"
proof (induction m)
  case (Cons kv m)
  obtain k' v' where kv: "kv = (k', v')" by force
  have "k \<notin> fst ` set m" if "k < k'" using Cons.prems that by (force simp: kv)
  then show ?case using Cons by (auto simp: kv fun_eq_iff)
qed (simp add: fun_eq_iff)

lemma map_of_fill: "keys_sorted m \<Longrightarrow> map_of (map_fill kvs m) = map_of m ++ map_of (rev kvs)"
proof (induction kvs arbitrary: m)
  case (Cons kv kvs)
  obtain k v where kv: "kv = (k, v)" by force
  have "map_of (map_fill kvs (map_insert k v m)) = (map_of m)(k \<mapsto> v) ++ map_of (rev kvs)"
    using Cons.IH [OF map_insert_sorted [OF Cons.prems], of k v] by (simp only: map_of_insert [OF Cons.prems])
  moreover have "map_fill (kv # kvs) m = map_fill kvs (map_insert k v m)" by (simp add: map_fill_def kv)
  ultimately show ?case by (auto simp: kv fun_eq_iff map_add_def split: option.split)
qed (simp add: map_fill_def)

lemma map_of_rev: "distinct (map fst xs) \<Longrightarrow> map_of (rev xs) = map_of xs"
  using map_of_inject_set [of "rev xs" xs] by (simp add: rev_map [symmetric])

lemma keys_sorted_distinct: "keys_sorted m \<Longrightarrow> distinct (map fst m)"
  by (simp add: strict_sorted_iff)

lemma map_fill_lookup: "distinct (map fst kvs) \<Longrightarrow> map_of (map_fill kvs []) = map_of kvs"
  by (simp add: map_of_fill map_of_rev)

lemma all_some_map: "\<forall>x \<in> set xs. f x = Some (g x) \<Longrightarrow> all_some (map f xs) = Some (map g xs)"
  by (induction xs) auto

lemma all_someD: "all_some xs = Some ys \<Longrightarrow> xs = map Some ys"
  by (induction xs arbitrary: ys) (auto split: option.splits)

subsection \<open>Numbers\<close>

lemma any_number_good: "any_number t = Some a \<Longrightarrow> num_ok t \<Longrightarrow> any_good d a"
proof -
  assume t: "any_number t = Some a" "num_ok t"
  have "0 \<le> literal_val u" if "u = [] \<or> hd u \<noteq> CHR ''-''" for u using that by (auto simp: literal_val_def Let_def)
  moreover have "tl t = [] \<or> hd (tl t) \<noteq> CHR ''-''" if m: "hd t = CHR ''-''"
  proof -
    obtain u where u: "t = CHR ''-'' # u" using m t(2) by (cases t) (auto simp: num_ok_def json_number_def json_int_def)
    then show ?thesis using t(2) by (cases u) (auto simp: num_ok_def json_number_def json_int_def is_digit_def split: if_splits)
  qed
  ultimately have "0 \<le> literal_val (if t \<noteq> [] \<and> hd t = CHR ''-'' then tl t else t)" by auto
  then have "0 \<le> rnd (literal_val (if t \<noteq> [] \<and> hd t = CHR ''-'' then tl t else t))" by (rule rnd_nonneg)
  then show ?thesis using t(1) by (auto simp: any_number_def parse_f64_def Let_def f64_mag_def rnd_again simp del: if_split split: if_split_asm)
qed

lemma f64_text_start: "0 \<le> r \<Longrightarrow> \<exists>c t. f64_text r = c # t \<and> is_digit c"
  using f64_text_pos_start [of r] by (auto simp: f64_text_def is_digit_def)

lemma any_number_text:
  assumes "f64_mag r"
  shows "any_number ((if neg then ''-'' else []) @ f64_text r) = Some (AFloat neg r)" "num_ok ((if neg then ''-'' else []) @ f64_text r)"
proof -
  obtain c t where t: "f64_text r = c # t" "is_digit c" using f64_text_start [of r] assms unfolding f64_mag_def by blast
  then have c: "c \<noteq> CHR ''-''" by auto
  have r: "parse_f64 (c # t) = Some r" "num_ok (c # t)" using f64_text_reads [of r] assms t(1) by (simp_all add: f64_mag_def)
  show "any_number ((if neg then ''-'' else []) @ f64_text r) = Some (AFloat neg r)" using c r(1) by (simp add: any_number_def t(1))
  show "num_ok ((if neg then ''-'' else []) @ f64_text r)" using r(2) num_ok_minus [OF r(2) t(2)] by (simp add: t(1))
qed

subsection \<open>Round trips\<close>

lemma any_good_fits: "any_good d a \<Longrightarrow> json_fits d (json_of_any a)"
  by (induction d a rule: any_good.induct) (auto simp: list_all_iff any_number_text)

theorem any_comes_back: "any_good d a \<Longrightarrow> any_of_json (json_norm (json_of_any a)) = Some a"
proof (induction d a rule: any_good.induct)
  case (3 d as)
  then have "\<forall>a \<in> set as. any_of_json (json_norm (json_of_any a)) = Some a" by (auto simp: list_all_iff)
  then have "all_some (map (\<lambda>a. any_of_json (json_norm (json_of_any a))) as) = Some (map id as)" by (intro all_some_map) simp
  then show ?case by (simp add: comp_def)
next
  case (4 d kvs)
  then have "\<forall>kv \<in> set kvs. (\<lambda>(k, v). any_of_json (json_norm (json_of_any v))) kv = Some (snd kv)" by (auto simp: list_all_iff)
  then have "all_some (map (\<lambda>(k, v). any_of_json (json_norm (json_of_any v))) kvs) = Some (map snd kvs)" by (rule all_some_map)
  moreover have "map (\<lambda>kv. json_clean (fst kv)) kvs = map fst kvs" by (rule map_cong) (use 4 in \<open>auto simp: list_all_iff\<close>)
  then have "zip (map (\<lambda>kv. json_clean (fst kv)) kvs) (map snd kvs) = kvs" by (simp only: zip_map_fst_snd)
  moreover have "map_fill kvs [] = kvs" using map_fill_id [of "[]" kvs] 4 by simp
  ultimately show ?case by (simp add: comp_def case_prod_unfold zip_map_fst_snd)
qed (simp_all add: any_number_text(1))

lemma any_of_json_good: "json_good d v \<Longrightarrow> any_of_json v = Some a \<Longrightarrow> any_good d a"
proof (induction d v arbitrary: a rule: json_good.induct)
  case (1 d t)
  then show ?case using any_number_good by simp
next
  case (3 d vs)
  then obtain as where as: "map any_of_json vs = map Some as" "a = AArr as" by (auto dest: all_someD)
  have "any_good (d - 1) x" if "x \<in> set as" for x
  proof -
    have "Some x \<in> set (map any_of_json vs)" using that by (simp only: as(1)) simp
    then obtain v where "v \<in> set vs" "any_of_json v = Some x" by auto
    then show ?thesis using 3 by (auto simp: list_all_iff)
  qed
  then show ?case using 3 by (simp add: as(2) list_all_iff)
next
  case (4 d kvs)
  then obtain as where as: "map (\<lambda>(k, v). any_of_json v) kvs = map Some as" "a = AMap (map_fill (zip (map fst kvs) as) [])" by (auto dest: all_someD)
  have "json_clean k = k \<and> any_good (d - 1) x" if z: "(k, x) \<in> set (zip (map fst kvs) as)" for k x
  proof -
    obtain i where i: "i < length kvs" "i < length as" "k = fst (kvs ! i)" "x = as ! i" using z by (auto simp: set_zip)
    then have "any_of_json (snd (kvs ! i)) = Some x" using arg_cong [OF as(1), of "\<lambda>l. l ! i"] by (simp add: case_prod_beta)
    moreover have "(fst (kvs ! i), snd (kvs ! i)) \<in> set kvs" using i(1) by simp
    ultimately show ?thesis using 4 i(3) by (fastforce simp: list_all_iff)
  qed
  then have "list_all (\<lambda>(k, v). json_clean k = k \<and> any_good (d - 1) v) (map_fill (zip (map fst kvs) as) [])"
    using map_fill_set [of "zip (map fst kvs) as" "[]"] by (auto simp: list_all_iff)
  then show ?case using 4 map_fill_sorted [of "[]"] by (simp add: as(2))
qed auto

subsection \<open>The verb \<open>%q\<close>\<close>

text \<open>\<open>strconv.IsPrint\<close>; \<open>pr\<close> is its table above Latin-1.\<close>

definition go_print :: "(nat \<Rightarrow> bool) \<Rightarrow> nat \<Rightarrow> bool" where
  "go_print pr r = (if r \<le> 255 then 32 \<le> r \<and> r < 127 \<or> 161 \<le> r \<and> r \<noteq> 173 else pr r)"

definition quote_rune :: "(nat \<Rightarrow> bool) \<Rightarrow> nat \<Rightarrow> string" where
  "quote_rune pr r =
     (if r = 34 then [CHR 0x5C, CHR 0x22] else if r = 92 then [CHR 0x5C, CHR 0x5C]
      else if go_print pr r then runes_str [r]
      else if r = 7 then [CHR 0x5C, CHR ''a''] else if r = 8 then [CHR 0x5C, CHR ''b''] else if r = 12 then [CHR 0x5C, CHR ''f'']
      else if r = 10 then [CHR 0x5C, CHR ''n''] else if r = 13 then [CHR 0x5C, CHR ''r''] else if r = 9 then [CHR 0x5C, CHR ''t'']
      else if r = 11 then [CHR 0x5C, CHR ''v'']
      else if r < 32 \<or> r = 127 then [CHR 0x5C, CHR ''x'', hex_char (r div 16), hex_char (r mod 16)]
      else if r < 65536 then escape_u r
      else [CHR 0x5C, CHR ''U'', CHR ''0'', CHR ''0''] @ map (\<lambda>i. hex_char (r div 16 ^ i mod 16)) [5, 4, 3, 2, 1, 0])"

function go_quote_body :: "(nat \<Rightarrow> bool) \<Rightarrow> string \<Rightarrow> string" where
  "go_quote_body pr [] = []"
| "go_quote_body pr (c # cs) =
     (let (r, k) = str_step c cs
      in (if 128 \<le> (of_char c :: nat) \<and> k = 0 then [CHR 0x5C, CHR ''x'', hex_char (of_char c div 16), hex_char (of_char c mod 16)]
          else quote_rune pr r) @ go_quote_body pr (drop k cs))"
  by pat_completeness auto
termination by (relation "measure (\<lambda>(pr, s). length s)") auto

definition go_quote :: "(nat \<Rightarrow> bool) \<Rightarrow> string \<Rightarrow> string" where
  "go_quote pr s = CHR 0x22 # go_quote_body pr s @ [CHR 0x22]"

text \<open>The strings whose quotation is JSON: none of its characters is written \<open>\a\<close>, \<open>\v\<close>, \<open>\x\<close> or \<open>\U\<close>.\<close>

definition json_rune :: "(nat \<Rightarrow> bool) \<Rightarrow> nat \<Rightarrow> bool" where
  "json_rune pr r \<longleftrightarrow> go_print pr r \<or> r \<in> {8, 9, 10, 12, 13} \<or> 127 < r \<and> r < 65536"

function json_quotable :: "(nat \<Rightarrow> bool) \<Rightarrow> string \<Rightarrow> bool" where
  "json_quotable pr [] = True"
| "json_quotable pr (c # cs) =
     (let (r, k) = str_step c cs
      in \<not> (128 \<le> (of_char c :: nat) \<and> k = 0) \<and> json_rune pr r \<and> json_quotable pr (drop k cs))"
  by pat_completeness auto
termination by (relation "measure (\<lambda>(pr, s). length s)") auto

lemma str_step_valid: "str_step c cs = (r, k) \<Longrightarrow> valid_rune r"
  using valid_step [of "of_char c" "map of_char cs"] by (simp add: str_step_eq)

lemma str_step_bytes:
  assumes "str_step c cs = (r, k)" "\<not> (128 \<le> (of_char c :: nat) \<and> k = 0)"
  shows "runes_str [r] = c # take k cs" "\<And>ys. str_step c (take k cs @ ys) = (r, k)" "length (take k cs) = k"
    "(of_char c :: nat) < 128 \<and> r = of_char c \<or> 128 \<le> (of_char c :: nat) \<and> 127 < r"
proof -
  have "runes_str [r] = c # take k cs \<and> (\<forall>ys. str_step c (take k cs @ ys) = (r, k)) \<and> length (take k cs) = k \<and>
    ((of_char c :: nat) < 128 \<and> r = of_char c \<or> 128 \<le> (of_char c :: nat) \<and> 127 < r)"
  proof (cases "(of_char c :: nat) < 128")
    case True
    then show ?thesis using assms(1) runes_str_ascii [OF True] by (simp add: str_step_ascii)
  next
    case False
    then have c: "128 \<le> (of_char c :: nat)" by simp
    have b: "0 < k" "k \<le> length cs" "runes_str [r] = c # take k cs" "\<forall>ys. str_step c (take k cs @ ys) = (r, k)"
      using str_step_back [OF c assms(1)] assms(2) c by auto
    have "127 < r"
    proof (rule ccontr)
      assume "\<not> 127 < r"
      then have "runes_str [r] = [char_of r]" by (simp add: runes_str_def utf8_encode_def valid_rune_def)
      then show False using b(1-3) by (cases cs) auto
    qed
    then show ?thesis using b c by simp
  qed
  then show "runes_str [r] = c # take k cs" "\<And>ys. str_step c (take k cs @ ys) = (r, k)" "length (take k cs) = k"
    "(of_char c :: nat) < 128 \<and> r = of_char c \<or> 128 \<le> (of_char c :: nat) \<and> 127 < r" by auto
qed

lemma json_string_copied:
  assumes "str_step c cs = (r, k)" "\<not> (128 \<le> (of_char c :: nat) \<and> k = 0)" "32 \<le> r" "r \<noteq> 34" "r \<noteq> 92"
  shows "json_string (runes_str [r] @ rest) = map_option (apfst ((@) (runes_str [r]))) (json_string rest)"
proof -
  note b = str_step_bytes [OF assms(1,2)]
  have "c \<noteq> CHR 0x22" "c \<noteq> CHR 0x5C" "\<not> (of_char c :: nat) < 32" using b(4) assms(3-5) by auto
  moreover have "fst (str_step c (take k cs @ rest)) = r" "drop (snd (str_step c (take k cs @ rest))) (take k cs @ rest) = rest"
    using b(2) [of rest] b(3) by simp_all
  ultimately show ?thesis by (simp add: b(1))
qed

lemma json_string_quote_rune:
  assumes "str_step c cs = (r, k)" "\<not> (128 \<le> (of_char c :: nat) \<and> k = 0)"
  shows "json_string (quote_rune pr r @ rest)
    = (if json_rune pr r then map_option (apfst ((@) (runes_str [r]))) (json_string rest) else None)"
proof -
  have v: "valid_rune r" using assms(1) by (rule str_step_valid)
  have none: "json_string (CHR 0x5C # e # s) = None" if "e \<in> {CHR ''a'', CHR ''v'', CHR ''x'', CHR ''U''}" for e s
    using that by (auto simp: json_escape_def)
  consider (special) "r = 34 \<or> r = 92" | (print) "go_print pr r" "r \<noteq> 34" "r \<noteq> 92" | (ctl) "\<not> go_print pr r" "r \<in> {8, 9, 10, 12, 13}"
    | (bad) "\<not> go_print pr r" "r \<notin> {8, 9, 10, 12, 13}" "r < 32 \<or> r = 127"
    | (uni) "\<not> go_print pr r" "127 < r" "r < 65536" | (big) "\<not> go_print pr r" "65536 \<le> r"
  proof -
    have p: "go_print pr r" if "32 \<le> r" "r < 127" using that by (simp add: go_print_def)
    consider "go_print pr r" | "\<not> go_print pr r" "r < 32 \<or> r = 127" | "\<not> go_print pr r" "127 < r" "r < 65536" | "\<not> go_print pr r" "65536 \<le> r"
      using p by fastforce
    then show thesis using that by cases blast+
  qed
  then show ?thesis
  proof cases
    case special
    then have "json_rune pr r" by (auto simp: json_rune_def go_print_def)
    then show ?thesis using special by (auto simp: quote_rune_def json_escape_def)
  next
    case print
    then have "32 \<le> r" using assms(1) by (auto simp: go_print_def split: if_splits)
    then show ?thesis using print json_string_copied [OF assms] by (simp add: quote_rune_def json_rune_def)
  next
    case ctl
    then show ?thesis by (auto simp: quote_rune_def json_rune_def json_escape_def)
  next
    case bad
    then have r: "r \<noteq> 34" "r \<noteq> 92" "r \<noteq> 8" "r \<noteq> 9" "r \<noteq> 10" "r \<noteq> 12" "r \<noteq> 13" by auto
    define e where "e = (if r = 7 then CHR ''a'' else if r = 11 then CHR ''v'' else CHR ''x'')"
    define s where "s = (if r = 7 \<or> r = 11 then [] else [hex_char (r div 16), hex_char (r mod 16)])"
    have "quote_rune pr r = CHR 0x5C # e # s" using r bad(1,3) by (simp add: quote_rune_def e_def s_def)
    moreover have "json_string (CHR 0x5C # e # s @ rest) = None" by (rule none) (simp add: e_def)
    moreover have "\<not> json_rune pr r" using bad(1) r bad(3) unfolding json_rune_def by auto
    ultimately show ?thesis by simp
  next
    case uni
    then have q: "quote_rune pr r = escape_u r" by (simp add: quote_rune_def)
    have "r < 55296 \<or> 57344 \<le> r" using v by (auto simp: valid_rune_def)
    then show ?thesis using uni json_string_escape_u [of r rest] by (simp add: q json_rune_def)
  next
    case big
    then show ?thesis using none by (auto simp: quote_rune_def json_rune_def)
  qed
qed

text \<open>The quotation of a string reads back exactly when the string is quotable.\<close>

theorem go_quote_reads:
  "json_string (go_quote_body pr s @ CHR 0x22 # rest) = (if json_quotable pr s then Some (s, rest) else None)"
proof (induction pr s rule: go_quote_body.induct)
  case (2 pr c cs)
  obtain r k where rk: "str_step c cs = (r, k)" by force
  have ih: "json_string (go_quote_body pr (drop k cs) @ CHR 0x22 # rest) = (if json_quotable pr (drop k cs) then Some (drop k cs, rest) else None)"
    by (rule "2.IH" [OF rk [symmetric] refl])
  show ?case
  proof (cases "128 \<le> (of_char c :: nat) \<and> k = 0")
    case True
    then show ?thesis by (simp add: rk json_escape_def)
  next
    case False
    then have q: "go_quote_body pr (c # cs) = quote_rune pr r @ go_quote_body pr (drop k cs)" by (auto simp: rk)
    have s: "runes_str [r] @ drop k cs = c # cs" using str_step_bytes(1) [OF rk False] by simp
    have "json_quotable pr (c # cs) = (json_rune pr r \<and> json_quotable pr (drop k cs))" using False by (simp add: rk)
    then show ?thesis unfolding q append_assoc json_string_quote_rune [OF rk False] ih by (simp add: s)
  qed
qed simp

lemma go_quote_value:
  "parse_value (Suc n) d (go_quote pr s @ rest) = (if json_quotable pr s then Some (JStr s, rest) else None)"
  using go_quote_reads [of pr s rest] by (simp add: go_quote_def skip_ws_Cons)

lemma quotable_ascii: "list_all (\<lambda>c. 32 \<le> (of_char c :: nat) \<and> (of_char c :: nat) < 127) s \<Longrightarrow> json_quotable pr s"
  by (induction s) (auto simp: str_step_ascii json_rune_def go_print_def)

end
