(* ===== verification/Go_Time.thy ===== *)
theory Go_Time
  imports Go_Values
begin

section \<open>Times as text\<close>

text \<open>
  A \<open>time.Time\<close> as \<open>encoding/json\<close> writes and reads it: RFC 3339 with nanoseconds. A time is its
  wall clock and the offset of its zone in minutes. \<open>parse_time\<close> is the fast path of
  \<open>parseStrictRFC3339\<close>; what the lenient \<open>time.Parse\<close> makes of any other text is a parameter.
\<close>

record go_time =
  gt_year :: nat
  gt_month :: nat
  gt_day :: nat
  gt_hour :: nat
  gt_min :: nat
  gt_sec :: nat
  gt_nsec :: nat
  gt_offset :: int

definition days_in :: "nat \<Rightarrow> nat \<Rightarrow> nat" where
  "days_in m y =
     (if m = 2 then (if y mod 4 = 0 \<and> (y mod 100 \<noteq> 0 \<or> y mod 400 = 0) then 29 else 28)
      else if m \<in> {4, 6, 9, 11} then 30 else 31)"

definition time_ok :: "go_time \<Rightarrow> bool" where
  "time_ok t \<longleftrightarrow> gt_year t \<le> 9999 \<and> 1 \<le> gt_month t \<and> gt_month t \<le> 12 \<and> 1 \<le> gt_day t \<and> gt_day t \<le> days_in (gt_month t) (gt_year t)
     \<and> gt_hour t \<le> 23 \<and> gt_min t \<le> 59 \<and> gt_sec t \<le> 59 \<and> gt_nsec t < 10 ^ 9 \<and> \<bar>gt_offset t\<bar> < 1440"

subsection \<open>Writing\<close>

definition two :: "nat \<Rightarrow> string" where "two n = [digit_char (n div 10 mod 10), digit_char (n mod 10)]"

definition four :: "nat \<Rightarrow> string" where "four n = two (n div 100) @ two (n mod 100)"

definition strip_zeros :: "string \<Rightarrow> string" where
  "strip_zeros s = rev (dropWhile (\<lambda>c. c = CHR ''0'') (rev s))"

definition nsec_text :: "nat \<Rightarrow> string" where
  "nsec_text ns = (if ns = 0 then [] else CHR ''.'' # strip_zeros (pad_digits 9 ns))"

definition zone_text :: "int \<Rightarrow> string" where
  "zone_text off =
     (if off = 0 then ''Z''
      else (let m = nat \<bar>off\<bar> in (if off < 0 then CHR ''-'' else CHR ''+'') # two (m div 60) @ CHR '':'' # two (m mod 60)))"

definition time_text :: "go_time \<Rightarrow> string" where
  "time_text t =
     four (gt_year t) @ CHR ''-'' # two (gt_month t) @ CHR ''-'' # two (gt_day t) @ CHR ''T'' # two (gt_hour t) @ CHR '':''
       # two (gt_min t) @ CHR '':'' # two (gt_sec t) @ nsec_text (gt_nsec t) @ zone_text (gt_offset t)"

subsection \<open>Reading\<close>

definition parse_uint :: "string \<Rightarrow> nat \<Rightarrow> nat \<Rightarrow> nat option" where
  "parse_uint s lo hi = (if list_all is_digit s \<and> lo \<le> digits_val s \<and> digits_val s \<le> hi then Some (digits_val s) else None)"

definition parse_nsec :: "string \<Rightarrow> nat \<times> string" where
  "parse_nsec s =
     (if 2 \<le> length s \<and> s ! 0 = CHR ''.'' \<and> is_digit (s ! 1) then
        (let ds = take 9 (takeWhile is_digit (tl s)) in (digits_val ds * 10 ^ (9 - length ds), dropWhile is_digit (tl s)))
      else (0, s))"

definition parse_zone :: "string \<Rightarrow> int option" where
  "parse_zone s =
     (if s = ''Z'' then Some 0
      else if length s \<noteq> 6 then None
      else (case (parse_uint (take 2 (drop 1 s)) 0 23, parse_uint (drop 4 s) 0 59) of
          (Some h, Some m) \<Rightarrow>
            if (s ! 0 = CHR ''-'' \<or> s ! 0 = CHR ''+'') \<and> s ! 3 = CHR '':'' then
              Some (if s ! 0 = CHR ''-'' then - int (h * 60 + m) else int (h * 60 + m)) else None
        | _ \<Rightarrow> None))"

definition parse_time :: "string \<Rightarrow> go_time option" where
  "parse_time s =
     (if length s < 19 then None
      else (case (parse_uint (take 4 s) 0 9999, parse_uint (take 2 (drop 5 s)) 1 12) of
          (Some y, Some mo) \<Rightarrow>
            (case (parse_uint (take 2 (drop 8 s)) 1 (days_in mo y), parse_uint (take 2 (drop 11 s)) 0 23,
                   parse_uint (take 2 (drop 14 s)) 0 59, parse_uint (take 2 (drop 17 s)) 0 59) of
               (Some d, Some h, Some mi, Some se) \<Rightarrow>
                 if s ! 4 = CHR ''-'' \<and> s ! 7 = CHR ''-'' \<and> s ! 10 = CHR ''T'' \<and> s ! 13 = CHR '':'' \<and> s ! 16 = CHR '':'' then
                   (let (ns, z) = parse_nsec (drop 19 s)
                    in map_option (\<lambda>off. \<lparr>gt_year = y, gt_month = mo, gt_day = d, gt_hour = h, gt_min = mi, gt_sec = se,
                         gt_nsec = ns, gt_offset = off\<rparr>) (parse_zone z))
                 else None
             | _ \<Rightarrow> None)
        | _ \<Rightarrow> None))"

text \<open>\<open>Time.UnmarshalJSON\<close> on the raw text of a member, escapes included: \<open>null\<close> changes nothing.\<close>

definition time_field :: "(string \<Rightarrow> go_time option) \<Rightarrow> string \<Rightarrow> go_time \<Rightarrow> go_time option" where
  "time_field lenient raw t =
     (if raw = ''null'' then Some t
      else if length raw < 2 \<or> hd raw \<noteq> CHR 0x22 \<or> last raw \<noteq> CHR 0x22 then None
      else (let s = butlast (tl raw) in case parse_time s of Some t' \<Rightarrow> Some t' | None \<Rightarrow> lenient s))"

text \<open>\<open>Time.MarshalJSON\<close> refuses years of more than four digits and offsets of a day.\<close>

definition marshal_time :: "go_time \<Rightarrow> (string, json_value) outcome" where
  "marshal_time t =
     (if 9999 < gt_year t then Error ''json: error calling MarshalJSON for type time.Time: Time.MarshalJSON: year outside of range [0,9999]''
      else if 1440 \<le> \<bar>gt_offset t\<bar> then Error ''json: error calling MarshalJSON for type time.Time: Time.MarshalJSON: timezone hour outside of range [0,23]''
      else Done (JStr (time_text t)))"

definition zero_time :: go_time where
  "zero_time = \<lparr>gt_year = 1, gt_month = 1, gt_day = 1, gt_hour = 0, gt_min = 0, gt_sec = 0, gt_nsec = 0, gt_offset = 0\<rparr>"

subsection \<open>A time comes back\<close>

lemma two_props [simp]: "length (two n) = 2" "list_all is_digit (two n)"
  by (simp_all add: two_def)

lemma digits_val_two: "n < 100 \<Longrightarrow> digits_val (two n) = n"
  by (simp add: two_def digits_val_def)

lemma four_props [simp]: "length (four n) = 4" "list_all is_digit (four n)"
  by (simp_all add: four_def)

lemma digits_val_four: "n < 10000 \<Longrightarrow> digits_val (four n) = n"
  by (simp add: four_def digits_val_append digits_val_two less_mult_imp_div_less)

lemma parse_uint_two: "lo \<le> n \<Longrightarrow> n \<le> hi \<Longrightarrow> n < 100 \<Longrightarrow> parse_uint (two n) lo hi = Some n"
  by (simp add: parse_uint_def digits_val_two)

lemma parse_zone_text: "\<bar>off\<bar> < 1440 \<Longrightarrow> parse_zone (zone_text off) = Some off"
proof (cases "off = 0")
  case False
  assume off: "\<bar>off\<bar> < 1440"
  define m where "m = nat \<bar>off\<bar>"
  have m: "m div 60 < 24" "m mod 60 < 60" using off by (auto simp: m_def)
  then have p: "parse_uint (two (m div 60)) 0 23 = Some (m div 60)" "parse_uint (two (m mod 60)) 0 59 = Some (m mod 60)"
    by (simp_all add: parse_uint_two)
  have s: "int (m div 60 * 60 + m mod 60) = \<bar>off\<bar>" unfolding div_mult_mod_eq by (simp add: m_def)
  have z: "zone_text off = (if off < 0 then CHR ''-'' else CHR ''+'') # two (m div 60) @ CHR '':'' # two (m mod 60)"
    using False by (simp add: zone_text_def m_def Let_def)
  show ?thesis unfolding parse_zone_def z using p s by (auto simp: nth_append)
qed (simp add: parse_zone_def zone_text_def)

lemma zone_text_start: "\<exists>c u. zone_text off = c # u \<and> \<not> is_digit c \<and> c \<noteq> CHR ''.''"
  by (auto simp: zone_text_def Let_def is_digit_def)

lemma strip_zeros_split: "s = strip_zeros s @ replicate (length s - length (strip_zeros s)) (CHR ''0'')"
proof -
  have "rev s = takeWhile (\<lambda>c. c = CHR ''0'') (rev s) @ dropWhile (\<lambda>c. c = CHR ''0'') (rev s)" by simp
  moreover have "takeWhile (\<lambda>c. c = CHR ''0'') (rev s) = replicate (length (takeWhile (\<lambda>c. c = CHR ''0'') (rev s))) (CHR ''0'')"
    by (rule replicate_eqI [symmetric, THEN sym]) (auto dest: set_takeWhileD)
  ultimately have "rev (rev s) = strip_zeros s @ replicate (length (takeWhile (\<lambda>c. c = CHR ''0'') (rev s))) (CHR ''0'')"
    by (metis rev_append rev_replicate strip_zeros_def)
  then have e: "s = strip_zeros s @ replicate (length (takeWhile (\<lambda>c. c = CHR ''0'') (rev s))) (CHR ''0'')" by simp
  then have "length s - length (strip_zeros s) = length (takeWhile (\<lambda>c. c = CHR ''0'') (rev s))"
    by (metis add_diff_cancel_left' length_append length_replicate)
  with e show ?thesis by simp
qed

lemma parse_nsec_text:
  assumes "ns < 10 ^ 9" "z = c # u" "\<not> is_digit c" "c \<noteq> CHR ''.''"
  shows "parse_nsec (nsec_text ns @ z) = (ns, z)"
proof (cases "ns = 0")
  case False
  define ds where "ds = strip_zeros (pad_digits 9 ns)"
  note p = pad_digits_props [OF assms(1)]
  have sp: "pad_digits 9 ns = ds @ replicate (9 - length ds) (CHR ''0'')" using strip_zeros_split [of "pad_digits 9 ns"] p(1) by (simp add: ds_def)
  then have "list_all is_digit (ds @ replicate (9 - length ds) (CHR ''0''))" "digits_val (ds @ replicate (9 - length ds) (CHR ''0'')) = ns"
    "length (ds @ replicate (9 - length ds) (CHR ''0'')) = 9"
    using p by simp_all
  then have d: "list_all is_digit ds" "digits_val ds * 10 ^ (9 - length ds) = ns" "length ds \<le> 9"
    using digits_val_zeros [of "9 - length ds" "[]"] digits_val_append [of ds "replicate (9 - length ds) (CHR ''0'')"]
    by (simp_all add: digits_val_def [of "[]"])
  have "ds \<noteq> []" using d(2) False by (auto simp: digits_val_def)
  then obtain x xs where ds: "ds = x # xs" by (cases ds) auto
  have "takeWhile is_digit (ds @ z) = ds" "dropWhile is_digit (ds @ z) = z"
    using takeWhile_all_append [OF d(1), of z] assms(2,3) by simp_all
  moreover have "nsec_text ns = CHR ''.'' # ds" using False by (simp add: nsec_text_def ds_def)
  moreover have "is_digit x" using d(1) ds by simp
  ultimately show ?thesis using d(2,3) ds by (simp add: parse_nsec_def)
qed (use assms in \<open>simp add: parse_nsec_def nsec_text_def\<close>)

theorem parse_time_text:
  assumes "time_ok t"
  shows "parse_time (time_text t) = Some t"
proof -
  note r = assms [unfolded time_ok_def]
  obtain c u where z: "zone_text (gt_offset t) = c # u" "\<not> is_digit c" "c \<noteq> CHR ''.''" using zone_text_start by blast
  have "days_in (gt_month t) (gt_year t) \<le> 31" by (simp add: days_in_def)
  then have p: "parse_uint (four (gt_year t)) 0 9999 = Some (gt_year t)" "parse_uint (two (gt_month t)) 1 12 = Some (gt_month t)"
    "parse_uint (two (gt_day t)) 1 (days_in (gt_month t) (gt_year t)) = Some (gt_day t)" "parse_uint (two (gt_hour t)) 0 23 = Some (gt_hour t)"
    "parse_uint (two (gt_min t)) 0 59 = Some (gt_min t)" "parse_uint (two (gt_sec t)) 0 59 = Some (gt_sec t)"
    using r by (simp_all add: parse_uint_two) (simp add: parse_uint_def digits_val_four)
  have "parse_nsec (nsec_text (gt_nsec t) @ zone_text (gt_offset t)) = (gt_nsec t, zone_text (gt_offset t))"
    using r z by (intro parse_nsec_text) auto
  moreover have "parse_zone (zone_text (gt_offset t)) = Some (gt_offset t)" using r by (simp add: parse_zone_text)
  ultimately show ?thesis
    by (simp add: parse_time_def time_text_def nth_append p p [unfolded One_nat_def])
qed

lemma time_field_text:
  assumes "time_ok t"
  shows "time_field lenient (CHR 0x22 # time_text t @ [CHR 0x22]) old = Some t"
  using parse_time_text [OF assms] by (simp add: time_field_def)

lemma marshal_time_ok: "time_ok t \<Longrightarrow> marshal_time t = Done (JStr (time_text t))"
  by (simp add: marshal_time_def time_ok_def)

end
