(* ===== verification/Go_Duration.thy ===== *)
theory Go_Duration
  imports Go_Time Float64_Exact
begin

section \<open>Durations as text\<close>

text \<open>
  \<open>time.Duration\<close>, an \<open>int64\<close> of nanoseconds, as \<open>Duration.String\<close> writes it and
  \<open>time.ParseDuration\<close> reads it: a sequence of decimal numbers with units. Sums are unsigned and
  wrap; a fraction is scaled in floating point, which is exact for the texts that are written, so
  a duration comes back (\<open>ParseDuration_text\<close>).
\<close>

subsection \<open>Writing\<close>

definition frac_text :: "nat \<Rightarrow> nat \<Rightarrow> string" where
  "frac_text k u = (if u mod 10 ^ k = 0 then [] else CHR ''.'' # strip_zeros (pad_digits k (u mod 10 ^ k)))"

definition micro :: string where "micro = [CHR 0xC2, CHR 0xB5, CHR ''s'']"

definition abs_duration_text :: "nat \<Rightarrow> string" where
  "abs_duration_text u =
     (if u = 0 then ''0s''
      else if u < 10 ^ 3 then nat_str u @ ''ns''
      else if u < 10 ^ 6 then nat_str (u div 10 ^ 3) @ frac_text 3 u @ micro
      else if u < 10 ^ 9 then nat_str (u div 10 ^ 6) @ frac_text 6 u @ ''ms''
      else (let s = u div 10 ^ 9; m = s div 60; h = m div 60
            in (if 0 < h then nat_str h @ ''h'' else []) @ (if 0 < m then nat_str (m mod 60) @ ''m'' else [])
                 @ nat_str (s mod 60) @ frac_text 9 u @ ''s''))"

definition duration_text :: "int \<Rightarrow> string" where
  "duration_text d = (if d < 0 then CHR ''-'' # abs_duration_text (nat (- d)) else abs_duration_text (nat d))"

subsection \<open>Reading\<close>

definition duration_units :: "(string \<times> nat) list" where
  "duration_units = [(''ns'', 1), (''us'', 10 ^ 3), (micro, 10 ^ 3), ([CHR 0xCE, CHR 0xBC, CHR ''s''], 10 ^ 3),
     (''ms'', 10 ^ 6), (''s'', 10 ^ 9), (''m'', 60 * 10 ^ 9), (''h'', 3600 * 10 ^ 9)]"

text \<open>The digits of a fraction as long as they fit, with the power of ten to divide by, which a
  \<open>float64\<close> holds exactly.\<close>

fun lead_frac :: "nat \<Rightarrow> nat \<Rightarrow> string \<Rightarrow> nat \<times> nat" where
  "lead_frac x scale [] = (x, scale)"
| "lead_frac x scale (c # cs) =
     (if (2 ^ 63 - 1) div 10 < x \<or> 2 ^ 63 < 10 * x + digit_val c then (x, scale)
      else lead_frac (10 * x + digit_val c) (10 * scale) cs)"

text \<open>One number with its unit: its digits, the digits of its fraction, the unit and what follows;
  and the value in nanoseconds.\<close>

definition duration_split :: "string \<Rightarrow> string \<times> string \<times> string \<times> string" where
  "duration_split s =
     (let s1 = dropWhile is_digit s; point = (s1 \<noteq> [] \<and> hd s1 = CHR ''.'');
          s2 = (if point then dropWhile is_digit (tl s1) else s1);
          letter = (\<lambda>c. c \<noteq> CHR ''.'' \<and> \<not> is_digit c)
      in (takeWhile is_digit s, if point then takeWhile is_digit (tl s1) else [], takeWhile letter s2, dropWhile letter s2))"

definition duration_value :: "string \<Rightarrow> string \<Rightarrow> string \<Rightarrow> nat option" where
  "duration_value ds fs u =
     (if 2 ^ 63 < digits_val ds \<or> ds = [] \<and> fs = [] then None
      else (case map_of duration_units u of
          None \<Rightarrow> None
        | Some unit \<Rightarrow>
            if 2 ^ 63 div unit < digits_val ds then None
            else (let (f, scale) = lead_frac 0 1 fs; v = digits_val ds * unit
                  in if f = 0 then Some v
                     else (let v = v + nat (f64_trunc (f64_mul (f64_of_int (int f)) (f64_div (of_nat unit) (of_nat scale))))
                           in if 2 ^ 63 < v then None else Some v))))"

lemma duration_split_shrinks: "duration_split s = (ds, fs, u, rest) \<Longrightarrow> u \<noteq> [] \<Longrightarrow> length rest < length s"
proof -
  assume p: "duration_split s = (ds, fs, u, rest)" "u \<noteq> []"
  let ?s1 = "dropWhile is_digit s" and ?letter = "\<lambda>c. c \<noteq> CHR ''.'' \<and> \<not> is_digit c"
  define s2 where "s2 = (if ?s1 \<noteq> [] \<and> hd ?s1 = CHR ''.'' then dropWhile is_digit (tl ?s1) else ?s1)"
  have u: "u = takeWhile ?letter s2" "rest = dropWhile ?letter s2" using p(1) by (simp_all add: duration_split_def s2_def Let_def)
  have "length u + length rest = length s2" unfolding u by (metis length_append takeWhile_dropWhile_id)
  moreover have "0 < length u" using p(2) by simp
  moreover have "length s2 \<le> length s"
    using length_dropWhile_le [of is_digit s] length_dropWhile_le [of is_digit "tl ?s1"] by (auto simp: s2_def)
  ultimately show ?thesis by linarith
qed

lemma duration_value_unit: "duration_value ds fs [] = None"
  by (simp add: duration_value_def duration_units_def micro_def)

definition duration_part :: "string \<Rightarrow> (nat \<times> string) option" where
  "duration_part s = (case duration_split s of (ds, fs, u, rest) \<Rightarrow> map_option (\<lambda>v. (v, rest)) (duration_value ds fs u))"

lemma duration_part_shrinks: "duration_part s = Some (v, rest) \<Longrightarrow> length rest < length s"
proof -
  assume p: "duration_part s = Some (v, rest)"
  obtain ds fs u r where d: "duration_split s = (ds, fs, u, r)" by (cases "duration_split s")
  then have "r = rest" "duration_value ds fs u = Some v" using p by (auto simp: duration_part_def)
  then show ?thesis using duration_split_shrinks [OF d] duration_value_unit by (cases "u = []") auto
qed

function duration_sum :: "nat \<Rightarrow> string \<Rightarrow> nat option" where
  "duration_sum d s =
     (if s = [] then Some d
      else (case duration_part s of
          None \<Rightarrow> None
        | Some (v, rest) \<Rightarrow> let d = (d + v) mod 2 ^ 64 in if 2 ^ 63 < d then None else duration_sum d rest))"
  by pat_completeness auto
termination
  by (relation "measure (\<lambda>(d, s). length s)") (auto dest: duration_part_shrinks)

declare duration_sum.simps [simp del]

definition ParseDuration :: "string \<Rightarrow> int option" where
  "ParseDuration s =
     (let neg = (s \<noteq> [] \<and> hd s = CHR ''-''); s = (if s \<noteq> [] \<and> hd s \<in> {CHR ''-'', CHR ''+''} then tl s else s)
      in if s = ''0'' then Some 0
         else if s = [] then None
         else (case duration_sum 0 s of
             None \<Rightarrow> None
           | Some d \<Rightarrow> if neg then Some (- int d) else if 2 ^ 63 \<le> d then None else Some (int d)))"

subsection \<open>A duration comes back\<close>

lemma lead_frac_digits:
  "list_all is_digit ds \<Longrightarrow> (x + 1) * 10 ^ length ds \<le> 10 ^ 9 \<Longrightarrow> lead_frac x scale ds = (foldl (\<lambda>n c. 10 * n + digit_val c) x ds, scale * 10 ^ length ds)"
proof (induction ds arbitrary: x scale)
  case (Cons c cs)
  have d: "digit_val c < 10" using Cons.prems(1) by (auto simp: digit_val_def is_digit_def)
  have "(10 * x + digit_val c + 1) * 10 ^ length cs \<le> (10 * (x + 1)) * 10 ^ length cs" using d by (intro mult_right_mono) auto
  also have "\<dots> \<le> 10 ^ 9" using Cons.prems(2) by (simp add: algebra_simps)
  finally have le: "(10 * x + digit_val c + 1) * 10 ^ length cs \<le> 10 ^ 9" .
  have "(10 * x + digit_val c + 1) * 1 \<le> (10 * x + digit_val c + 1) * 10 ^ length cs" by (intro mult_left_mono) simp_all
  from order_trans [OF this le] have small: "10 * x + digit_val c < 10 ^ 9" by simp
  then have "lead_frac x scale (c # cs) = lead_frac (10 * x + digit_val c) (10 * scale) cs" by simp
  also have "\<dots> = (foldl (\<lambda>n c. 10 * n + digit_val c) (10 * x + digit_val c) cs, 10 * scale * 10 ^ length cs)"
    using Cons.prems(1) by (intro Cons.IH le) simp
  finally show ?case by simp
qed simp

lemma frac_digits:
  assumes "u mod 10 ^ k \<noteq> 0" "0 < k"
  defines "ds \<equiv> strip_zeros (pad_digits k (u mod 10 ^ k))"
  shows "list_all is_digit ds" "digits_val ds * 10 ^ (k - length ds) = u mod 10 ^ k" "length ds \<le> k" "ds \<noteq> []"
proof -
  have "u mod 10 ^ k < 10 ^ k" by simp
  note p = pad_digits_props [OF this assms(2)]
  have sp: "pad_digits k (u mod 10 ^ k) = ds @ replicate (k - length ds) (CHR ''0'')"
    using strip_zeros_split [of "pad_digits k (u mod 10 ^ k)"] p(1) by (simp add: ds_def)
  then have "list_all is_digit (ds @ replicate (k - length ds) (CHR ''0''))" "digits_val (ds @ replicate (k - length ds) (CHR ''0'')) = u mod 10 ^ k"
    "length (ds @ replicate (k - length ds) (CHR ''0'')) = k"
    using p by simp_all
  then show d: "list_all is_digit ds" "digits_val ds * 10 ^ (k - length ds) = u mod 10 ^ k" "length ds \<le> k"
    using digits_val_zeros [of "k - length ds" "[]"] digits_val_append [of ds "replicate (k - length ds) (CHR ''0'')"]
    by (simp_all add: digits_val_def [of "[]"])
  then show "ds \<noteq> []" using assms(1) by (auto simp: digits_val_def)
qed

lemma unit_frac:
  assumes "l \<le> k" "k \<le> 9" "f < 10 ^ l"
  shows "f64_trunc (f64_mul (f64_of_int (int f)) (f64_div (of_nat (10 ^ k)) (of_nat (10 ^ l)))) = int (f * 10 ^ (k - l))"
proof -
  have le: "(10 :: nat) ^ l \<le> 10 ^ 9" "(10 :: int) ^ (k - l) \<le> 10 ^ 9" using assms(1,2) by (intro power_increasing; simp)+
  have "(of_nat (10 ^ k) :: rat) / of_nat (10 ^ l) = of_int (10 ^ (k - l))"
    using assms(1) by (simp add: power_diff [of "10 :: rat" l k])
  moreover have "\<bar>10 ^ (k - l)\<bar> < (2 :: int) ^ 53" using le(2) by simp
  ultimately have d: "f64_div (of_nat (10 ^ k)) (of_nat (10 ^ l)) = of_int (10 ^ (k - l))"
    unfolding f64_div_def by (simp only: rnd_int)
  have f: "f64_of_int (int f) = of_int (int f)" using assms(3) le(1) by (intro f64_of_int_small) simp
  define N where "N = f * 10 ^ (k - l)"
  have "N < 10 ^ l * 10 ^ (k - l)" using assms(3) by (simp add: N_def)
  also have "\<dots> = 10 ^ k" using assms(1) by (simp flip: power_add)
  also have "\<dots> \<le> 10 ^ 9" using assms(2) by (intro power_increasing) simp_all
  finally have "\<bar>int N\<bar> < 2 ^ 53" by simp
  then have "rnd (of_int (int N)) = of_int (int N)" by (rule rnd_int)
  moreover have "(of_int (int f) :: rat) * of_int (10 ^ (k - l)) = of_int (int N)" by (simp add: N_def)
  ultimately show ?thesis unfolding f64_mul_def d f N_def [symmetric] by (simp only: f64_trunc_of_int)
qed

lemma duration_units_of:
  "map_of duration_units ''ns'' = Some 1" "map_of duration_units micro = Some (10 ^ 3)" "map_of duration_units ''ms'' = Some (10 ^ 6)"
  "map_of duration_units ''s'' = Some (10 ^ 9)" "map_of duration_units ''m'' = Some (60 * 10 ^ 9)" "map_of duration_units ''h'' = Some (3600 * 10 ^ 9)"
  by (simp_all add: duration_units_def micro_def)

definition unit_name :: "string \<Rightarrow> bool" where
  "unit_name u \<longleftrightarrow> list_all (\<lambda>c. c \<noteq> CHR ''.'' \<and> \<not> is_digit c) u \<and> u \<noteq> []"

definition ends_unit :: "string \<Rightarrow> bool" where
  "ends_unit rest \<longleftrightarrow> rest = [] \<or> is_digit (hd rest)"

lemma split_unit: "unit_name u \<Longrightarrow> ends_unit rest \<Longrightarrow> takeWhile (\<lambda>c. c \<noteq> CHR ''.'' \<and> \<not> is_digit c) (u @ rest) = u
    \<and> dropWhile (\<lambda>c. c \<noteq> CHR ''.'' \<and> \<not> is_digit c) (u @ rest) = rest"
  by (cases rest) (auto simp: unit_name_def ends_unit_def takeWhile_all takeWhile_all_append)

lemma nat_str_all_digits: "list_all is_digit (nat_str n)"
  using nat_str_digits by (auto simp: list_all_iff)

text \<open>A whole number of units.\<close>

lemma part_int:
  assumes "map_of duration_units u = Some unit" "unit_name u" "ends_unit rest" "n * unit \<le> 2 ^ 63" "0 < unit"
  shows "duration_part (nat_str n @ u @ rest) = Some (n * unit, rest)"
proof -
  have u: "\<not> is_digit (hd u)" "hd u \<noteq> CHR ''.''" "u \<noteq> []" using assms(2) by (cases u; simp add: unit_name_def)+
  have t: "takeWhile is_digit (u @ rest) = []" "dropWhile is_digit (u @ rest) = u @ rest" using u by (cases u; simp)+
  have "duration_split (nat_str n @ u @ rest) = (nat_str n, [], u, rest)"
    using split_unit [OF assms(2,3)] u
    by (simp add: duration_split_def takeWhile_all_append [OF nat_str_all_digits] t)
  moreover have "n \<le> 2 ^ 63 div unit" using assms(4,5) by (simp add: less_eq_div_iff_mult_less_eq)
  moreover have "n * 1 \<le> n * unit" using assms(5) by (intro mult_left_mono) simp_all
  from order_trans [OF this assms(4)] have "\<not> 2 ^ 63 < n" by simp
  ultimately show ?thesis using assms(1) by (simp add: duration_part_def duration_value_def)
qed

text \<open>A number with a fraction, in a unit that is a power of ten.\<close>

lemma part_frac:
  assumes "map_of duration_units u = Some (10 ^ k)" "unit_name u" "ends_unit rest" "0 < k" "k \<le> 9" "n * 10 ^ k + t mod 10 ^ k \<le> 2 ^ 63"
  shows "duration_part (nat_str n @ frac_text k t @ u @ rest) = Some (n * 10 ^ k + t mod 10 ^ k, rest)"
proof (cases "t mod 10 ^ k = 0")
  case True
  then show ?thesis using part_int [OF assms(1-3), of n] assms(6) by (simp add: frac_text_def)
next
  case False
  define ds where "ds = strip_zeros (pad_digits k (t mod 10 ^ k))"
  note d = frac_digits [OF False assms(4), folded ds_def]
  have u: "\<not> is_digit (hd u)" "u \<noteq> []" using assms(2) by (cases u; simp add: unit_name_def)+
  have tw: "takeWhile is_digit (ds @ u @ rest) = ds" "dropWhile is_digit (ds @ u @ rest) = u @ rest"
    using takeWhile_all_append [OF d(1), of "u @ rest"] u by (cases u; simp)+
  have split: "duration_split (nat_str n @ frac_text k t @ u @ rest) = (nat_str n, ds, u, rest)"
    using split_unit [OF assms(2,3)] False
    by (simp add: duration_split_def takeWhile_all_append [OF nat_str_all_digits] frac_text_def ds_def [symmetric] tw)
  have "10 ^ length ds \<le> (10 :: nat) ^ 9" using d(3) assms(5) by (intro power_increasing) simp_all
  then have lead: "lead_frac 0 1 ds = (digits_val ds, 10 ^ length ds)" using lead_frac_digits [OF d(1), of 0 1] by (simp add: digits_val_def)
  have f: "0 < digits_val ds" using d(2) False by (cases "digits_val ds") auto
  have "digits_val ds * 10 ^ (k - length ds) < 10 ^ length ds * 10 ^ (k - length ds)"
    using d(3) by (simp add: d(2) flip: power_add)
  then have "digits_val ds < 10 ^ length ds" by simp
  then have fr: "nat (f64_trunc (f64_mul (f64_of_int (int (digits_val ds))) (f64_div (of_nat (10 ^ k)) (of_nat (10 ^ length ds))))) = t mod 10 ^ k"
    by (simp only: unit_frac [OF d(3) assms(5)] nat_int d(2))
  have "n \<le> 2 ^ 63 div 10 ^ k" using assms(6) by (simp add: less_eq_div_iff_mult_less_eq)
  moreover have "2 ^ 63 div 10 ^ k \<le> (2 :: nat) ^ 63" by simp
  ultimately have "\<not> 2 ^ 63 div 10 ^ k < n" "\<not> 2 ^ 63 < n" by linarith+
  then have "duration_value (nat_str n) ds u = Some (n * 10 ^ k + t mod 10 ^ k)"
    using assms(1,6) d(4) f unfolding duration_value_def lead by (simp only: digits_val_nat_str fr option.case Let_def split_conv) simp
  then show ?thesis by (simp add: duration_part_def split)
qed

lemma sum_step: "duration_part s = Some (v, rest) \<Longrightarrow> d + v \<le> 2 ^ 63 \<Longrightarrow> duration_sum d s = duration_sum (d + v) rest"
proof -
  assume p: "duration_part s = Some (v, rest)" "d + v \<le> 2 ^ 63"
  then have "s \<noteq> []" using duration_part_shrinks by fastforce
  moreover have "(d + v) mod 2 ^ 64 = d + v" using p(2) by (intro mod_less) simp
  ultimately show ?thesis using p by (subst duration_sum.simps) (simp add: Let_def)
qed

lemma unit_names: "unit_name ''ns''" "unit_name micro" "unit_name ''ms''" "unit_name ''s''" "unit_name ''m''" "unit_name ''h''"
  by (simp_all add: unit_name_def micro_def is_digit_def)

lemma ends_unit_number: "ends_unit []" "ends_unit (nat_str n @ s)"
  using nat_str_all_digits [of n] by (cases "nat_str n"; simp add: ends_unit_def)+

lemma sum_nil: "duration_sum d [] = Some d"
  by (simp add: duration_sum.simps)

lemma sum_seconds:
  assumes "d + (s * 10 ^ 9 + u mod 10 ^ 9) \<le> 2 ^ 63"
  shows "duration_sum d (nat_str s @ frac_text 9 u @ ''s'') = Some (d + (s * 10 ^ 9 + u mod 10 ^ 9))"
proof -
  have "duration_part (nat_str s @ frac_text 9 u @ ''s'' @ []) = Some (s * 10 ^ 9 + u mod 10 ^ 9, [])"
    by (rule part_frac [OF duration_units_of(4) unit_names(4) ends_unit_number(1)]) (use assms in simp_all)
  then show ?thesis using sum_step [OF _ assms] by (simp add: sum_nil)
qed

lemma sum_units:
  assumes "map_of duration_units u = Some unit" "unit_name u" "0 < unit" "d + n * unit \<le> 2 ^ 63"
  shows "duration_sum d (nat_str n @ u @ nat_str k @ s) = duration_sum (d + n * unit) (nat_str k @ s)"
proof -
  have "duration_part (nat_str n @ u @ (nat_str k @ s)) = Some (n * unit, nat_str k @ s)"
    by (rule part_int [OF assms(1,2) ends_unit_number(2)]) (use assms in simp_all)
  then show ?thesis using assms(4) by (rule sum_step)
qed

lemma sum_text:
  assumes "u \<le> 2 ^ 63"
  shows "duration_sum 0 (abs_duration_text u) = Some u"
proof -
  have small: "duration_sum 0 (nat_str (u div 10 ^ k) @ frac_text k u @ n) = Some u"
    if n: "map_of duration_units n = Some (10 ^ k)" "unit_name n" "0 < k" "k \<le> 9" for n k
  proof -
    have "duration_part (nat_str (u div 10 ^ k) @ frac_text k u @ n @ []) = Some (u div 10 ^ k * 10 ^ k + u mod 10 ^ k, [])"
      by (rule part_frac [OF n(1,2) ends_unit_number(1) n(3,4)]) (simp only: div_mult_mod_eq assms)
    then have "duration_part (nat_str (u div 10 ^ k) @ frac_text k u @ n) = Some (u, [])" by (simp only: div_mult_mod_eq append_Nil2)
    then show ?thesis using sum_step [of _ u "[]" 0] assms by (simp add: sum_nil)
  qed
  define s where "s = u div 10 ^ 9"
  define m where "m = s div 60"
  define h where "h = m div 60"
  have u: "u = h * (3600 * 10 ^ 9) + m mod 60 * (60 * 10 ^ 9) + (s mod 60 * 10 ^ 9 + u mod 10 ^ 9)"
  proof -
    have "u = s * 10 ^ 9 + u mod 10 ^ 9" "s = m * 60 + s mod 60" "m = h * 60 + m mod 60"
      by (simp_all add: s_def m_def h_def)
    then show ?thesis by algebra
  qed
  consider "u = 0" | "0 < u" "u < 10 ^ 3" | "10 ^ 3 \<le> u" "u < 10 ^ 6" | "10 ^ 6 \<le> u" "u < 10 ^ 9" | "10 ^ 9 \<le> u" by linarith
  then show ?thesis
  proof cases
    case 1
    have "duration_sum 0 (nat_str 0 @ frac_text 9 0 @ ''s'') = Some 0" using sum_seconds [of 0 0 0] by simp
    moreover have "nat_str 0 = ''0''" by code_simp
    ultimately show ?thesis using 1 by (simp add: abs_duration_text_def frac_text_def)
  next
    case 2
    have "duration_part (nat_str u @ ''ns'' @ []) = Some (u * 1, [])"
      by (rule part_int [OF duration_units_of(1) unit_names(1) ends_unit_number(1)]) (use assms in simp_all)
    then show ?thesis using 2 sum_step [of "nat_str u @ ''ns''" u "[]" 0] assms by (simp add: abs_duration_text_def sum_nil)
  next
    case 3
    then show ?thesis using small [OF duration_units_of(2) unit_names(2)] by (simp add: abs_duration_text_def)
  next
    case 4
    then show ?thesis using small [OF duration_units_of(3) unit_names(3)] by (simp add: abs_duration_text_def)
  next
    case 5
    let ?sec = "nat_str (s mod 60) @ frac_text 9 u @ ''s''"
    have t: "abs_duration_text u = (if 0 < h then nat_str h @ ''h'' else []) @ (if 0 < m then nat_str (m mod 60) @ ''m'' else []) @ ?sec"
      using 5 by (simp add: abs_duration_text_def s_def m_def h_def Let_def)
    have hour: "duration_sum 0 (nat_str h @ ''h'' @ nat_str k @ x) = duration_sum (h * (3600 * 10 ^ 9)) (nat_str k @ x)" for k x
      using sum_units [OF duration_units_of(6) unit_names(6), of 0 h k x] u assms by simp
    have minute: "duration_sum d (nat_str (m mod 60) @ ''m'' @ nat_str k @ x) = duration_sum (d + m mod 60 * (60 * 10 ^ 9)) (nat_str k @ x)"
      if "d + m mod 60 * (60 * 10 ^ 9) \<le> 2 ^ 63" for d k x
      using sum_units [OF duration_units_of(5) unit_names(5), of d "m mod 60" k x] that by simp
    have sec: "duration_sum d ?sec = Some (d + (s mod 60 * 10 ^ 9 + u mod 10 ^ 9))" if "d + (s mod 60 * 10 ^ 9 + u mod 10 ^ 9) \<le> 2 ^ 63" for d
      using that by (rule sum_seconds)
    show ?thesis
    proof (cases "m = 0")
      case True
      then have "h = 0" by (simp add: h_def)
      then show ?thesis using sec [of 0] u assms True by (simp add: t)
    next
      case m: False
      show ?thesis
      proof (cases "h = 0")
        case True
        have "duration_sum 0 (nat_str (m mod 60) @ ''m'' @ ?sec) = duration_sum (m mod 60 * (60 * 10 ^ 9)) ?sec"
          using minute [of 0 "s mod 60" "frac_text 9 u @ ''s''"] u assms by simp
        then show ?thesis using sec [of "m mod 60 * (60 * 10 ^ 9)"] u assms True m by (simp add: t)
      next
        case False
        have "duration_sum 0 (nat_str h @ ''h'' @ nat_str (m mod 60) @ ''m'' @ ?sec) = duration_sum (h * (3600 * 10 ^ 9) + m mod 60 * (60 * 10 ^ 9)) ?sec"
          using hour [of "m mod 60" "''m'' @ ?sec"] minute [of "h * (3600 * 10 ^ 9)" "s mod 60" "frac_text 9 u @ ''s''"] u assms by simp
        then show ?thesis using sec [of "h * (3600 * 10 ^ 9) + m mod 60 * (60 * 10 ^ 9)"] u assms False m by (simp add: t)
      qed
    qed
  qed
qed

definition starts_number :: "string \<Rightarrow> bool" where
  "starts_number s \<longleftrightarrow> (\<exists>n y. s = nat_str n @ y \<and> y \<noteq> [])"

lemma starts_numberI: "y \<noteq> [] \<Longrightarrow> starts_number (nat_str n @ y)"
  by (auto simp: starts_number_def)

lemma abs_text_number: "starts_number (abs_duration_text u)"
proof -
  have "''0s'' = nat_str 0 @ ''s''" by code_simp
  then have zero: "starts_number ''0s''" by (metis list.distinct(1) starts_numberI)
  have "starts_number ((if P then nat_str h @ ''h'' else []) @ (if Q then nat_str m @ ''m'' else []) @ nat_str k @ f @ ''s'')" for P Q h m k f
    by (cases P; cases Q) (simp_all add: starts_numberI)
  then show ?thesis by (simp add: abs_duration_text_def Let_def zero starts_numberI micro_def)
qed

lemma abs_text_start: "\<exists>c t. abs_duration_text u = c # t \<and> is_digit c \<and> abs_duration_text u \<noteq> ''0''"
proof -
  obtain n y where y: "abs_duration_text u = nat_str n @ y" "y \<noteq> []" using abs_text_number [of u, unfolded starts_number_def] by blast
  then show ?thesis using nat_str_all_digits [of n] by (cases "nat_str n") auto
qed

theorem ParseDuration_text:
  assumes "in_int64 d"
  shows "ParseDuration (duration_text d) = Some d"
proof -
  have d: "- (2 ^ 63) \<le> d" "d < 2 ^ 63" using assms by (simp_all add: in_int64_def)
  define u where "u = nat \<bar>d\<bar>"
  have "u \<le> 2 ^ 63" using d by (simp add: u_def)
  then have s: "duration_sum 0 (abs_duration_text u) = Some u" by (rule sum_text)
  obtain c t where c: "abs_duration_text u = c # t" "is_digit c" "abs_duration_text u \<noteq> ''0''" using abs_text_start by blast
  have ne: "c \<noteq> CHR ''-''" "c \<noteq> CHR ''+''" using c(2) by (auto simp: is_digit_def)
  show ?thesis
  proof (cases "d < 0")
    case True
    then have "duration_text d = CHR ''-'' # abs_duration_text u" "d = - int u" by (simp_all add: duration_text_def u_def)
    then show ?thesis using s c(1,3) by (auto simp: ParseDuration_def Let_def)
  next
    case False
    then have "duration_text d = abs_duration_text u" "d = int u" "u < 2 ^ 63" using d by (simp_all add: duration_text_def u_def)
    then show ?thesis using s c(1,3) ne by (auto simp: ParseDuration_def Let_def)
  qed
qed

end
