(* ===== verification/System_Config.thy ===== *)
theory System_Config
  imports Go_Duration K8s_Types
begin

section \<open>The system configuration\<close>

text \<open>
  \<open>internal/config/system.go\<close>: the configuration types, their defaults, and the two counts
  the autoscaler derives from its durations. Durations are nanoseconds in an \<open>int64\<close>. The
  validator that checks the struct tags is a third-party package: a parameter.
\<close>

subsection \<open>Types\<close>

record leader_election =
  le_LeaseDuration :: int
  le_RenewDeadline :: int
  le_RetryPeriod :: int

record model_autoscaling =
  ma_Interval :: int
  ma_TimeWindow :: int
  ma_StateConfigMapName :: string

record secret_names =
  sn_Alibaba :: string
  sn_AWS :: string
  sn_GCP :: string
  sn_Huggingface :: string
  sn_OCI :: string

record message_stream =
  mstr_RequestsURL :: string
  mstr_ResponsesURL :: string
  mstr_MaxHandlers :: int

record messaging =
  msg_ErrorMaxBackoff :: int
  msg_Streams :: "message_stream list"

record resource_profile =
  rp_ImageName :: string
  rp_Requests :: "(string, int) gomap"
  rp_Limits :: "(string, int) gomap"
  rp_NodeSelector :: "(string, string) gomap"
  rp_Affinity :: "opaque option"
  rp_Tolerations :: "opaque list"
  rp_SchedulerName :: string
  rp_RuntimeClassName :: "string option"

record cache_shared_filesystem =
  csf_StorageClassName :: string
  csf_PersistentVolumeName :: string
  csf_StorageSize :: string

record cache_profile =
  cp_SharedFilesystem :: "cache_shared_filesystem option"

text \<open>A \<open>ModelServer\<close> is its map of images.\<close>

record model_servers =
  msv_OLlama :: "(string, string) gomap"
  msv_VLLM :: "(string, string) gomap"
  msv_FasterWhisper :: "(string, string) gomap"
  msv_Infinity :: "(string, string) gomap"

record json_patch =
  jp_Op :: string
  jp_Path :: string
  jp_Value :: opaque

record model_server_pods =
  msp_ServiceAccountName :: string
  msp_PodSecurityContext :: "opaque option"
  msp_ContainerSecurityContext :: "opaque option"
  msp_ImagePullSecrets :: "string list"
  msp_JSONPatches :: "json_patch list"

record system =
  sys_SecretNames :: secret_names
  sys_ProxyMode :: string
  sys_ModelServers :: model_servers
  sys_ModelLoadingImage :: string
  sys_ResourceProfiles :: "(string, resource_profile) gomap"
  sys_CacheProfiles :: "(string, cache_profile) gomap"
  sys_Messaging :: messaging
  sys_MetricsAddr :: string
  sys_HealthAddress :: string
  sys_ModelAutoscaling :: model_autoscaling
  sys_ModelServerPods :: model_server_pods
  sys_Surge :: int
  sys_LeaderElection :: leader_election
  sys_AllowPodAddressOverride :: bool
  sys_FixedSelfMetricAddrs :: "string list"

definition ProxyModeInternal :: string where "ProxyModeInternal = ''internal''"
definition ProxyModeExternal :: string where "ProxyModeExternal = ''external''"

definition second_ns :: int where "second_ns = 1000000000"

subsection \<open>Defaults\<close>

definition default_stream :: "message_stream \<Rightarrow> message_stream" where
  "default_stream m = (if mstr_MaxHandlers m = 0 then m\<lparr>mstr_MaxHandlers := 1\<rparr> else m)"

definition default_cache_profile :: "cache_profile \<Rightarrow> cache_profile" where
  "default_cache_profile p =
     (case cp_SharedFilesystem p of
        None \<Rightarrow> p
      | Some fs \<Rightarrow> p\<lparr>cp_SharedFilesystem :=
          Some (if csf_StorageSize fs = [] then fs\<lparr>csf_StorageSize := ''10Gi''\<rparr> else fs)\<rparr>)"

definition or_default :: "int \<Rightarrow> int \<Rightarrow> int" where
  "or_default d x = (if x = 0 then d else x)"

definition default_system :: "system \<Rightarrow> system" where
  "default_system s =
     (let s = (if sys_ProxyMode s = [] then s\<lparr>sys_ProxyMode := ProxyModeInternal\<rparr> else s);
          s = (if sys_MetricsAddr s = [] then s\<lparr>sys_MetricsAddr := '':8080''\<rparr> else s);
          s = (if sys_HealthAddress s = [] then s\<lparr>sys_HealthAddress := '':8081''\<rparr> else s);
          s = s\<lparr>sys_Messaging := (sys_Messaging s)\<lparr>msg_Streams := map default_stream (msg_Streams (sys_Messaging s))\<rparr>\<rparr>;
          a = sys_ModelAutoscaling s;
          s = s\<lparr>sys_ModelAutoscaling := a\<lparr>ma_Interval := or_default (10 * second_ns) (ma_Interval a),
                                          ma_TimeWindow := or_default (600 * second_ns) (ma_TimeWindow a)\<rparr>\<rparr>;
          l = sys_LeaderElection s;
          s = s\<lparr>sys_LeaderElection := \<lparr>le_LeaseDuration = or_default (15 * second_ns) (le_LeaseDuration l),
                                        le_RenewDeadline = or_default (10 * second_ns) (le_RenewDeadline l),
                                        le_RetryPeriod = or_default (2 * second_ns) (le_RetryPeriod l)\<rparr>\<rparr>
      in s\<lparr>sys_CacheProfiles := map (\<lambda>(n, p). (n, default_cache_profile p)) (sys_CacheProfiles s)\<rparr>)"

definition DefaultAndValidate :: "(system \<Rightarrow> string option) \<Rightarrow> system \<Rightarrow> (string, system) outcome" where
  "DefaultAndValidate validate s =
     (case validate (default_system s) of Some e \<Rightarrow> Error e | None \<Rightarrow> Done (default_system s))"

subsection \<open>The autoscaler's counts\<close>

definition RequiredConsecutiveScaleDowns :: "model_autoscaling \<Rightarrow> int \<Rightarrow> int" where
  "RequiredConsecutiveScaleDowns a scaleDownDelaySeconds =
     f64_ceil (f64_div (f64_of_int (wrap64 (scaleDownDelaySeconds * second_ns))) (f64_of_int (ma_Interval a)))"

definition AverageWindowCount :: "model_autoscaling \<Rightarrow> int" where
  "AverageWindowCount a = f64_ceil (f64_div (f64_of_int (ma_TimeWindow a)) (f64_of_int (ma_Interval a)))"

text \<open>\<open>Duration.UnmarshalJSON\<close> and \<open>MarshalJSON\<close>: a JSON number of nanoseconds, or a string for
  \<open>time.ParseDuration\<close>. The texts of the errors of the standard library are parameters, and so is
  what converting a \<open>float64\<close> outside the range of \<open>int64\<close> gives, which Go leaves to the
  implementation.\<close>

definition UnmarshalDuration ::
  "(string \<Rightarrow> string) \<Rightarrow> (string \<Rightarrow> string) \<Rightarrow> (rat \<Rightarrow> int) \<Rightarrow> string \<Rightarrow> (string, int) outcome" where
  "UnmarshalDuration jsonError timeError convert b =
     (case Option.bind (json_parse b) any_of_json of
        None \<Rightarrow> Error (jsonError b)
      | Some (AFloat neg r) \<Rightarrow>
          (let x = (if neg then - r else r); n = f64_trunc x
           in Done (if in_int64 n then n else convert x))
      | Some (AStr t) \<Rightarrow> (case ParseDuration t of None \<Rightarrow> Error (timeError t) | Some d \<Rightarrow> Done d)
      | Some v \<Rightarrow> Error ''invalid duration'')"

definition MarshalDuration :: "int \<Rightarrow> string" where
  "MarshalDuration d = json_text (JStr (duration_text d))"

subsection \<open>Properties\<close>

lemma default_stream_idem [simp]: "default_stream (default_stream m) = default_stream m"
  by (simp add: default_stream_def)

lemma default_cache_profile_idem [simp]: "default_cache_profile (default_cache_profile p) = default_cache_profile p"
  by (auto simp: default_cache_profile_def split: option.split)

lemma or_default_idem [simp]: "d \<noteq> 0 \<Longrightarrow> or_default d (or_default d x) = or_default d x"
  by (simp add: or_default_def)

lemma or_default_nonzero: "d \<noteq> 0 \<Longrightarrow> or_default d x \<noteq> 0"
  by (simp add: or_default_def)

lemma second_ns_nonzero [simp]: "second_ns \<noteq> 0"
  by (simp add: second_ns_def)

lemma default_system_fields:
  "sys_ProxyMode (default_system s) = (if sys_ProxyMode s = [] then ProxyModeInternal else sys_ProxyMode s)"
  "sys_MetricsAddr (default_system s) = (if sys_MetricsAddr s = [] then '':8080'' else sys_MetricsAddr s)"
  "sys_HealthAddress (default_system s) = (if sys_HealthAddress s = [] then '':8081'' else sys_HealthAddress s)"
  "msg_Streams (sys_Messaging (default_system s)) = map default_stream (msg_Streams (sys_Messaging s))"
  "ma_Interval (sys_ModelAutoscaling (default_system s)) = or_default (10 * second_ns) (ma_Interval (sys_ModelAutoscaling s))"
  "ma_TimeWindow (sys_ModelAutoscaling (default_system s)) = or_default (600 * second_ns) (ma_TimeWindow (sys_ModelAutoscaling s))"
  "sys_CacheProfiles (default_system s) = map (\<lambda>(n, p). (n, default_cache_profile p)) (sys_CacheProfiles s)"
  "le_LeaseDuration (sys_LeaderElection (default_system s)) = or_default (15 * second_ns) (le_LeaseDuration (sys_LeaderElection s))"
  "le_RenewDeadline (sys_LeaderElection (default_system s)) = or_default (10 * second_ns) (le_RenewDeadline (sys_LeaderElection s))"
  "le_RetryPeriod (sys_LeaderElection (default_system s)) = or_default (2 * second_ns) (le_RetryPeriod (sys_LeaderElection s))"
  by (simp_all add: default_system_def Let_def)

lemma default_system_fix:
  assumes "sys_ProxyMode s \<noteq> []" "sys_MetricsAddr s \<noteq> []" "sys_HealthAddress s \<noteq> []"
    and "map default_stream (msg_Streams (sys_Messaging s)) = msg_Streams (sys_Messaging s)"
    and "or_default (10 * second_ns) (ma_Interval (sys_ModelAutoscaling s)) = ma_Interval (sys_ModelAutoscaling s)"
    and "or_default (600 * second_ns) (ma_TimeWindow (sys_ModelAutoscaling s)) = ma_TimeWindow (sys_ModelAutoscaling s)"
    and "or_default (15 * second_ns) (le_LeaseDuration (sys_LeaderElection s)) = le_LeaseDuration (sys_LeaderElection s)"
    and "or_default (10 * second_ns) (le_RenewDeadline (sys_LeaderElection s)) = le_RenewDeadline (sys_LeaderElection s)"
    and "or_default (2 * second_ns) (le_RetryPeriod (sys_LeaderElection s)) = le_RetryPeriod (sys_LeaderElection s)"
    and "map (\<lambda>(n, p). (n, default_cache_profile p)) (sys_CacheProfiles s) = sys_CacheProfiles s"
  shows "default_system s = s"
  using assms by (simp add: default_system_def Let_def)

text \<open>The defaults leave no field empty that the program divides by or starts workers
  from, and applying them again changes nothing.\<close>

theorem DefaultAndValidate_defaults:
  assumes "DefaultAndValidate validate s = Done s'"
  shows "sys_ProxyMode s' \<noteq> [] \<and> sys_MetricsAddr s' \<noteq> [] \<and> sys_HealthAddress s' \<noteq> []
    \<and> ma_Interval (sys_ModelAutoscaling s') \<noteq> 0 \<and> ma_TimeWindow (sys_ModelAutoscaling s') \<noteq> 0
    \<and> (\<forall>m \<in> set (msg_Streams (sys_Messaging s')). mstr_MaxHandlers m \<noteq> 0)
    \<and> DefaultAndValidate validate s' = Done s'"
proof -
  have s': "s' = default_system s" "validate s' = None"
    using assms by (auto simp: DefaultAndValidate_def split: option.splits)
  have "default_system s' = s'"
    unfolding s'(1) by (intro default_system_fix) (simp_all add: default_system_fields ProxyModeInternal_def case_prod_beta comp_def)
  then have "DefaultAndValidate validate s' = Done s'" using s'(2) by (simp add: DefaultAndValidate_def)
  moreover have "sys_ProxyMode s' \<noteq> []" "sys_MetricsAddr s' \<noteq> []" "sys_HealthAddress s' \<noteq> []"
    "ma_Interval (sys_ModelAutoscaling s') \<noteq> 0" "ma_TimeWindow (sys_ModelAutoscaling s') \<noteq> 0"
    by (simp_all add: s'(1) default_system_fields or_default_nonzero ProxyModeInternal_def)
  moreover have "mstr_MaxHandlers m \<noteq> 0" if "m \<in> set (msg_Streams (sys_Messaging s'))" for m
    using that by (auto simp: s'(1) default_system_fields default_stream_def)
  ultimately show ?thesis by blast
qed

definition demo_system :: system where
  "demo_system = \<lparr>sys_SecretNames = \<lparr>sn_Alibaba = ''ali'', sn_AWS = ''aws'', sn_GCP = ''gcp'', sn_Huggingface = ''hf'', sn_OCI = ''oci''\<rparr>,
     sys_ProxyMode = [], sys_ModelServers = \<lparr>msv_OLlama = [(''default'', ''ollama'')], msv_VLLM = [(''default'', ''vllm''), (''gpu'', ''vllm-gpu'')],
       msv_FasterWhisper = [(''default'', ''fw'')], msv_Infinity = [(''default'', ''inf'')]\<rparr>,
     sys_ModelLoadingImage = ''loader'',
     sys_ResourceProfiles = [(''cpu'', \<lparr>rp_ImageName = [], rp_Requests = [(''cpu'', 1)], rp_Limits = [], rp_NodeSelector = [],
        rp_Affinity = None, rp_Tolerations = [], rp_SchedulerName = [], rp_RuntimeClassName = None\<rparr>)],
     sys_CacheProfiles = [(''efs'', \<lparr>cp_SharedFilesystem = Some \<lparr>csf_StorageClassName = ''efs'', csf_PersistentVolumeName = [], csf_StorageSize = []\<rparr>\<rparr>)],
     sys_Messaging = \<lparr>msg_ErrorMaxBackoff = 0, msg_Streams = [\<lparr>mstr_RequestsURL = ''r'', mstr_ResponsesURL = ''s'', mstr_MaxHandlers = 0\<rparr>]\<rparr>,
     sys_MetricsAddr = [], sys_HealthAddress = [],
     sys_ModelAutoscaling = \<lparr>ma_Interval = 0, ma_TimeWindow = 0, ma_StateConfigMapName = ''state''\<rparr>,
     sys_ModelServerPods = \<lparr>msp_ServiceAccountName = [], msp_PodSecurityContext = None, msp_ContainerSecurityContext = None,
        msp_ImagePullSecrets = [], msp_JSONPatches = []\<rparr>,
     sys_Surge = 1, sys_LeaderElection = \<lparr>le_LeaseDuration = 0, le_RenewDeadline = 0, le_RetryPeriod = 0\<rparr>,
     sys_AllowPodAddressOverride = False, sys_FixedSelfMetricAddrs = []\<rparr>"

theorem DefaultAndValidate_defaults_witness:
  "ma_Interval (sys_ModelAutoscaling (default_system demo_system)) \<noteq> 0
   \<and> DefaultAndValidate (\<lambda>_. None) (default_system demo_system) = Done (default_system demo_system)"
proof -
  have "DefaultAndValidate (\<lambda>_. None) demo_system = Done (default_system demo_system)"
    by (simp add: DefaultAndValidate_def)
  then show ?thesis using DefaultAndValidate_defaults by blast
qed

text \<open>C36: For durations below 104 days the counts are the exact ceilings of the quotients,
  whatever floating-point rounding does: the delay takes exactly as many intervals as needed
  to cover it, and the window has at least one sample.\<close>

theorem counts_exact:
  assumes "0 < ma_Interval a" "ma_Interval a < 2 ^ 53" "0 < ma_TimeWindow a" "ma_TimeWindow a < 2 ^ 53"
    and "0 < d" "d * second_ns < 2 ^ 53"
  shows "RequiredConsecutiveScaleDowns a d = \<lceil>of_int (d * second_ns) / of_int (ma_Interval a) :: rat\<rceil>
    \<and> d * second_ns \<le> RequiredConsecutiveScaleDowns a d * ma_Interval a
    \<and> AverageWindowCount a = \<lceil>of_int (ma_TimeWindow a) / of_int (ma_Interval a) :: rat\<rceil>
    \<and> 1 \<le> AverageWindowCount a"
proof -
  let ?i = "ma_Interval a" and ?t = "ma_TimeWindow a" and ?d = "d * second_ns"
  have d: "0 < ?d" using assms(5) by (simp add: second_ns_def)
  have w: "wrap64 ?d = ?d" using d assms(6) by (intro wrap64_id) (simp add: in_int64_def)
  have i: "?i < 2 ^ 63" using assms(2) by simp
  have r: "RequiredConsecutiveScaleDowns a d = \<lceil>of_int ?d / of_int ?i :: rat\<rceil>"
    using f64_div_ceil_exact [OF d assms(6,1) i] assms d
    by (simp add: RequiredConsecutiveScaleDowns_def w)
  have t: "AverageWindowCount a = \<lceil>of_int ?t / of_int ?i :: rat\<rceil>"
    using f64_div_ceil_exact [OF assms(3,4,1) i] assms by (simp add: AverageWindowCount_def)
  have "(of_int ?d / of_int ?i :: rat) \<le> of_int (RequiredConsecutiveScaleDowns a d)"
    unfolding r by (rule le_of_int_ceiling)
  then have "(of_int ?d :: rat) \<le> of_int (RequiredConsecutiveScaleDowns a d) * of_int ?i"
    using assms(1) by (simp add: pos_divide_le_eq)
  then have "?d \<le> RequiredConsecutiveScaleDowns a d * ?i" by (simp only: of_int_mult [symmetric] of_int_le_iff)
  moreover have "0 < (of_int ?t / of_int ?i :: rat)" using assms by simp
  then have "1 \<le> AverageWindowCount a" unfolding t by linarith
  ultimately show ?thesis using r t by blast
qed

theorem counts_exact_witness:
  "1 \<le> AverageWindowCount \<lparr>ma_Interval = 10 * second_ns, ma_TimeWindow = 600 * second_ns, ma_StateConfigMapName = []\<rparr>"
  using counts_exact [of "\<lparr>ma_Interval = 10 * second_ns, ma_TimeWindow = 600 * second_ns, ma_StateConfigMapName = []\<rparr>" 30]
  by (simp add: second_ns_def)

subsection \<open>Durations in configuration files\<close>

definition clean_text :: "string \<Rightarrow> bool" where
  "clean_text s \<longleftrightarrow> (\<exists>rs. s = runes_str rs)"

lemma clean_text_append: "clean_text a \<Longrightarrow> clean_text b \<Longrightarrow> clean_text (a @ b)"
  unfolding clean_text_def by (metis runes_str_append)

lemma clean_text_nil: "clean_text []"
  unfolding clean_text_def runes_str_def by (intro exI [of _ "[]"]) simp

lemma clean_text_ascii: "list_all (\<lambda>c. (of_char c :: nat) < 128) s \<Longrightarrow> clean_text s"
proof (induction s)
  case (Cons c s)
  then have "clean_text [c]" unfolding clean_text_def using runes_str_ascii [of c] by (intro exI [of _ "[of_char c]"]) simp
  then show ?case using clean_text_append [of "[c]" s] Cons by simp
qed (rule clean_text_nil)

lemma clean_text_nat: "clean_text (nat_str n)"
proof (rule clean_text_ascii)
  show "list_all (\<lambda>c. (of_char c :: nat) < 128) (nat_str n)"
    using nat_str_all_digits [of n] by (auto simp: list_all_iff is_digit_def)
qed

lemma clean_text_micro: "clean_text micro"
proof -
  have c: "char_of (194 :: nat) = CHR 0xC2" "char_of (181 :: nat) = CHR 0xB5" by code_simp+
  have "runes_str [181] = [CHR 0xC2, CHR 0xB5]" by (simp add: runes_str_def utf8_encode_def valid_rune_def c)
  moreover have "runes_str [115] = ''s''" using runes_str_ascii [of "CHR ''s''"] by simp
  ultimately have "micro = runes_str ([181] @ [115])" by (simp only: runes_str_append micro_def) simp
  then show ?thesis unfolding clean_text_def by blast
qed

lemma digits_clean: "list_all is_digit s \<Longrightarrow> clean_text s"
  by (rule clean_text_ascii) (auto simp: list_all_iff is_digit_def)

lemma frac_text_clean: "clean_text (frac_text k u)"
proof (cases "u mod 10 ^ k = 0")
  case False
  then have "0 < k" by (cases k) simp_all
  then have "list_all is_digit (strip_zeros (pad_digits k (u mod 10 ^ k)))" using frac_digits(1) [OF False] by simp
  moreover have "clean_text ''.''" by (rule clean_text_ascii) simp
  ultimately show ?thesis using False clean_text_append [of "''.''"] digits_clean by (simp add: frac_text_def)
qed (simp add: frac_text_def clean_text_nil)

lemma clean_units: "clean_text ''s''" "clean_text ''ns''" "clean_text ''ms''" "clean_text ''m''" "clean_text ''h''" "clean_text ''-''"
  "clean_text ''0s''"
  by (rule clean_text_ascii; simp)+

lemma duration_text_clean: "clean_text (duration_text d)"
proof -
  have a: "clean_text (abs_duration_text u)" for u
    unfolding abs_duration_text_def Let_def
    by (simp del: append_assoc add: clean_text_append clean_text_nat frac_text_clean clean_text_micro clean_units clean_text_nil)
  then show ?thesis using clean_text_append [of "''-''" "abs_duration_text (nat (- d))"] clean_units(6)
    by (simp add: duration_text_def)
qed

lemma duration_text_json: "json_clean (duration_text d) = duration_text d"
  using duration_text_clean [of d] json_clean_runes_str unfolding clean_text_def by metis

text \<open>A duration that the program writes into JSON comes back: unmarshalling what
  \<open>Duration.MarshalJSON\<close> wrote gives the same number of nanoseconds, whatever the \<open>int64\<close>.\<close>

theorem duration_comes_back:
  assumes "in_int64 d"
  shows "UnmarshalDuration jsonError timeError convert (MarshalDuration d) = Done d"
proof -
  have "json_parse (MarshalDuration d) = Some (JStr (duration_text d))"
    unfolding MarshalDuration_def using json_parse_text [of "JStr (duration_text d)"] by (simp add: duration_text_json)
  then show ?thesis using ParseDuration_text [OF assms] by (simp add: UnmarshalDuration_def)
qed

theorem duration_comes_back_witness:
  "UnmarshalDuration (\<lambda>_. []) (\<lambda>_. []) (\<lambda>_. 0) (MarshalDuration (- 9223372036854775808)) = Done (- 9223372036854775808)"
  by (rule duration_comes_back) (simp add: in_int64_def)

text \<open>A \<open>float64\<close> that JSON holds is taken as nanoseconds, cut to an integer, and neither
  \<open>null\<close> nor a list is a duration.\<close>

lemma duration_numbers:
  assumes "f64_mag r" "in_int64 \<lfloor>r\<rfloor>"
  shows "UnmarshalDuration jsonError timeError convert (json_text (json_of_any (AFloat False r))) = Done \<lfloor>r\<rfloor>"
proof -
  have g: "any_good json_depth (AFloat False r)" using assms(1) by simp
  have "Option.bind (json_parse (json_text (json_of_any (AFloat False r)))) any_of_json = Some (AFloat False r)"
    using any_comes_back [OF g] json_parse_text [OF any_good_fits [OF g]] by simp
  then show ?thesis using assms by (simp add: UnmarshalDuration_def f64_trunc_def f64_mag_def)
qed

lemma duration_others:
  "UnmarshalDuration jsonError timeError convert ''null'' = Error ''invalid duration''"
  "UnmarshalDuration jsonError timeError convert ''[]'' = Error ''invalid duration''"
  by code_simp+

end
