(* ===== verification/Pod_Plan.thy ===== *)
theory Pod_Plan
  imports Go_Sort Load_Balancer System_Config
begin

section \<open>The Pod plan\<close>

text \<open>
  \<open>internal/modelcontroller/pod_plan.go\<close>: which Pods of a Model are deleted and created, in
  what order, and how the plan is carried out against the API server. The Pod that the
  engine builds for the Model comes with its hash already computed; \<open>k8sutils.PodHash\<close> and
  the JSON patch library are third-party. \<open>pod_utils.go\<close> and \<open>patch.go\<close> follow at the end.
\<close>

subsection \<open>The deletion order\<close>

abbreviation pod_hash_label :: "pod \<Rightarrow> string" where
  "pod_hash_label p \<equiv> GetLabel (pod_meta p) PodHashLabel"

definition pod_before :: "string \<Rightarrow> pod \<Rightarrow> pod \<Rightarrow> bool" where
  "pod_before expectedHash p q =
     (if PodIsReady p \<noteq> PodIsReady q then \<not> PodIsReady p
      else if PodIsScheduled p \<noteq> PodIsScheduled q then \<not> PodIsScheduled p
      else if pod_hash_label p \<noteq> pod_hash_label q then pod_hash_label p \<noteq> expectedHash
      else om_created (pod_meta q) < om_created (pod_meta p))"

definition sortPodsByDeletionOrder :: "string \<Rightarrow> pod list \<Rightarrow> pod list" where
  "sortPodsByDeletionOrder expectedHash pods = slice_stable (pod_before expectedHash) pods"

subsection \<open>The plan\<close>

record pod_plan =
  pp_toCreate :: "pod list"
  pp_toDelete :: "pod list"
  pp_toRemain :: "pod list"
  pp_details :: "string list"

definition quoted :: "string \<Rightarrow> string" where
  "quoted s = CHR 0x22 # s @ [CHR 0x22]"

definition podKey :: "pod \<Rightarrow> string" where
  "podKey p = om_namespace (pod_meta p) @ ''/'' @ om_name (pod_meta p)"

text \<open>The variables that the closure \<open>appendToDelete\<close> and the loops change.\<close>

record plan_vars =
  pv_remainder :: "(string, pod) gomap"
  pv_toDelete :: "pod list"
  pv_toCreate :: "pod list"
  pv_details :: "string list"
  pv_recreated :: int

definition appendToDelete :: "pod \<Rightarrow> plan_vars \<Rightarrow> plan_vars" where
  "appendToDelete p v = v\<lparr>pv_remainder := gm_del (podKey p) (pv_remainder v), pv_toDelete := pv_toDelete v @ [p]\<rparr>"

fun scale_down :: "nat \<Rightarrow> pod list \<Rightarrow> plan_vars \<Rightarrow> plan_vars" where
  "scale_down n [] v = v"
| "scale_down 0 (p # ps) v = v"
| "scale_down (Suc n) (p # ps) v = scale_down n ps (appendToDelete p v)"

definition recreate :: "pod \<Rightarrow> int \<Rightarrow> int \<Rightarrow> pod \<Rightarrow> plan_vars \<Rightarrow> plan_vars" where
  "recreate podForModel outOfDate surge p v =
     (let v = appendToDelete p v
      in if pv_recreated v < outOfDate - surge
         then v\<lparr>pv_toCreate := pv_toCreate v @ [podForModel], pv_recreated := pv_recreated v + 1\<rparr> else v)"

fun rollout :: "pod \<Rightarrow> int \<Rightarrow> int \<Rightarrow> bool \<Rightarrow> pod list \<Rightarrow> plan_vars \<Rightarrow> plan_vars" where
  "rollout podForModel k surge allReady [] v = v"
| "rollout podForModel k surge allReady (p # ps) v =
     (if \<not> PodIsReady p then
        rollout podForModel k surge allReady ps
          (recreate podForModel k surge p (v\<lparr>pv_details := pv_details v @
             [''Out-of-date Pod '' @ quoted (om_name (pod_meta p)) @ '' is not ready, immediately recreating'']\<rparr>))
      else if allReady then
        recreate podForModel k surge p (v\<lparr>pv_details := pv_details v @
             [''All Pods ready, recreating out-of-date Pod '' @ quoted (om_name (pod_meta p))]\<rparr>)
      else rollout podForModel k surge allReady ps v)"

definition desired_with_surge :: "int option \<Rightarrow> int \<Rightarrow> bool \<Rightarrow> int" where
  "desired_with_surge replicas surge rolling =
     (let desired = (case replicas of None \<Rightarrow> 0 | Some r \<Rightarrow> r) in if rolling then wrap32 (desired + surge) else desired)"

definition calculatePodPlan :: "pod \<Rightarrow> string \<Rightarrow> int option \<Rightarrow> int \<Rightarrow> pod list \<Rightarrow> pod_plan" where
  "calculatePodPlan podForModel expectedHash replicas surge allPods =
     (let pods = sortPodsByDeletionOrder expectedHash (filter (\<lambda>p. \<not> om_deleting (pod_meta p)) allPods);
          remainder = gm_fill (map (\<lambda>p. (podKey p, p)) pods) [];
          outOfDate = filter (\<lambda>p. pod_hash_label p \<noteq> expectedHash) pods;
          readyAll = int (length (filter PodIsReady pods));
          desired = desired_with_surge replicas surge (outOfDate \<noteq> []);
          diff = wrap32 (wrap32 (int (length pods)) - desired);
          v = \<lparr>pv_remainder = remainder, pv_toDelete = [], pv_toCreate = [], pv_details = [], pv_recreated = 0\<rparr>;
          v = (if diff < 0 then v\<lparr>pv_details := [''Creating '' @ int_str \<bar>diff\<bar> @ '' Pods''],
                                  pv_toCreate := replicate (nat \<bar>diff\<bar>) podForModel\<rparr>
               else if 0 < diff then scale_down (nat \<bar>diff\<bar>) pods (v\<lparr>pv_details := [''Deleting '' @ int_str \<bar>diff\<bar> @ '' Pods'']\<rparr>)
               else v);
          v = rollout podForModel (int (length outOfDate)) surge (readyAll = desired) outOfDate v
      in \<lparr>pp_toCreate = pv_toCreate v, pp_toDelete = pv_toDelete v, pp_toRemain = map snd (pv_remainder v),
          pp_details = pv_details v\<rparr>)"

definition containsActions :: "pod_plan \<Rightarrow> bool" where
  "containsActions pp \<longleftrightarrow> 0 < length (pp_toCreate pp) \<or> 0 < length (pp_toDelete pp)"

subsection \<open>Carrying the plan out\<close>

datatype api_write = WOk | WNotFound | WAlreadyExists | WConflict | WErr string

datatype pod_action = DeletePod string string | CreatePod pod

text \<open>The actions attempted, whether something changed, and the error that stopped the plan.
  \<open>own\<close> is \<open>SetControllerReference\<close>, \<open>del\<close> and \<open>cre\<close> are the API server's answers.\<close>

fun exec_deletes :: "(pod \<Rightarrow> api_write) \<Rightarrow> pod list \<Rightarrow> bool \<Rightarrow> pod_action list \<times> bool \<times> string option" where
  "exec_deletes del [] changed = ([], changed, None)"
| "exec_deletes del (p # ps) changed =
     (let act = DeletePod (om_namespace (pod_meta p)) (om_name (pod_meta p))
      in if del p = WOk \<or> del p = WNotFound then
           (let (as, c, e) = exec_deletes del ps True in (act # as, c, e))
         else ([act], changed, Some ''deleting pod''))"

fun exec_creates :: "(pod \<Rightarrow> (string, pod) outcome) \<Rightarrow> (pod \<Rightarrow> api_write) \<Rightarrow> pod list \<Rightarrow> bool \<Rightarrow> pod_action list \<times> bool \<times> string option" where
  "exec_creates own cre [] changed = ([], changed, None)"
| "exec_creates own cre (p # ps) changed =
     (case own p of
        Done p' \<Rightarrow>
          (if cre p' = WOk \<or> cre p' = WAlreadyExists then
             (let (as, c, e) = exec_creates own cre ps True in (CreatePod p' # as, c, e))
           else ([CreatePod p'], changed, Some ''creating pod''))
      | _ \<Rightarrow> ([], changed, Some ''setting controller reference''))"

definition execute_plan ::
  "(pod \<Rightarrow> (string, pod) outcome) \<Rightarrow> (pod \<Rightarrow> api_write) \<Rightarrow> (pod \<Rightarrow> api_write) \<Rightarrow> pod_plan \<Rightarrow> pod_action list \<times> bool \<times> string option" where
  "execute_plan own del cre pp =
     (let (as, changed, e) = exec_deletes del (pp_toDelete pp) False
      in case e of
           Some m \<Rightarrow> (as, changed, e)
         | None \<Rightarrow> (let (bs, changed, e) = exec_creates own cre (pp_toCreate pp) changed in (as @ bs, changed, e)))"

subsection \<open>Label updates and JSON patches\<close>

definition updatePodRemoveLabel :: "(pod \<Rightarrow> string option) \<Rightarrow> string \<Rightarrow> pod \<Rightarrow> (string, pod) outcome" where
  "updatePodRemoveLabel upd key p =
     (if om_labels (pod_meta p) = [] then Done p
      else (let p' = p\<lparr>pod_meta := (pod_meta p)\<lparr>om_labels := gm_del key (om_labels (pod_meta p))\<rparr>\<rparr>
            in case upd p' of None \<Rightarrow> Done p' | Some e \<Rightarrow> Error (''update pod labels: '' @ e)))"

definition updatePodAddLabel :: "(pod \<Rightarrow> string option) \<Rightarrow> string \<Rightarrow> string \<Rightarrow> pod \<Rightarrow> (string, pod) outcome" where
  "updatePodAddLabel upd key value p =
     (let p' = p\<lparr>pod_meta := SetLabel (pod_meta p) key value\<rparr>
      in case upd p' of None \<Rightarrow> Done p' | Some e \<Rightarrow> Error (''update pod labels: '' @ e))"

definition applyJSONPatchToPod ::
  "(json_patch list \<Rightarrow> pod \<Rightarrow> (string, pod) outcome) \<Rightarrow> json_patch list \<Rightarrow> pod \<Rightarrow> (string, pod) outcome" where
  "applyJSONPatchToPod apply_patch patches p = (if patches = [] then Done p else apply_patch patches p)"

subsection \<open>The deletion order is an order when there is one old hash\<close>

definition one_old_hash :: "string \<Rightarrow> pod list \<Rightarrow> bool" where
  "one_old_hash expectedHash pods \<longleftrightarrow> (\<exists>h. \<forall>p \<in> set pods. pod_hash_label p = expectedHash \<or> pod_hash_label p = h)"

text \<open>With two old hashes the comparison is no order: of two Pods that differ in nothing else each is
  to go before the other.\<close>

lemma two_old_hashes_unordered:
  assumes "PodIsReady p = PodIsReady q" "PodIsScheduled p = PodIsScheduled q"
    "pod_hash_label p \<noteq> pod_hash_label q" "pod_hash_label p \<noteq> e" "pod_hash_label q \<noteq> e"
  shows "pod_before e p q \<and> pod_before e q p \<and> \<not> strict_weak (pod_before e) {p, q}"
proof -
  have "pod_before e p q" "pod_before e q p" using assms by (simp_all add: pod_before_def)
  then show ?thesis by (auto simp: strict_weak_def)
qed

lemma pod_before_strict_weak:
  assumes "\<And>p. p \<in> A \<Longrightarrow> pod_hash_label p = e \<or> pod_hash_label p = h"
  shows "strict_weak (pod_before e) A"
proof -
  have lex: "pod_before e p q \<longleftrightarrow>
      (\<not> PodIsReady p \<and> PodIsReady q) \<or> (PodIsReady p = PodIsReady q \<and>
        ((\<not> PodIsScheduled p \<and> PodIsScheduled q) \<or> (PodIsScheduled p = PodIsScheduled q \<and>
          ((pod_hash_label p \<noteq> e \<and> pod_hash_label q = e) \<or> (pod_hash_label p = pod_hash_label q
             \<and> om_created (pod_meta q) < om_created (pod_meta p))))))"
    if "p \<in> A" "q \<in> A" for p q
    using assms [OF that(1)] assms [OF that(2)] by (auto simp: pod_before_def)
  show ?thesis
    unfolding strict_weak_def
  proof (intro conjI ballI impI)
    fix p q assume "p \<in> A" "q \<in> A" "pod_before e p q"
    then show "\<not> pod_before e q p" by (auto simp: lex)
  next
    fix p q r assume m: "p \<in> A" "q \<in> A" "r \<in> A" and n: "\<not> pod_before e p q" "\<not> pod_before e q r"
    show "\<not> pod_before e p r"
      using n assms [OF m(1)] assms [OF m(2)] assms [OF m(3)]
      unfolding lex [OF m(1,2)] lex [OF m(2,3)] lex [OF m(1,3)] by (smt (verit))
  qed
qed

lemma deletion_order_sorted:
  assumes "one_old_hash e pods"
  shows "sorted_wrt (\<lambda>p q. \<not> pod_before e q p) (sortPodsByDeletionOrder e pods)"
proof -
  obtain h where h: "\<forall>p \<in> set pods. pod_hash_label p = e \<or> pod_hash_label p = h"
    using assms unfolding one_old_hash_def by blast
  then have "\<And>p. p \<in> set pods \<Longrightarrow> pod_hash_label p = e \<or> pod_hash_label p = h" by blast
  then show ?thesis unfolding sortPodsByDeletionOrder_def by (intro sorted_slice_stable pod_before_strict_weak)
qed

lemma sort_pods_simps [simp]:
  "set (sortPodsByDeletionOrder e pods) = set pods"
  "length (sortPodsByDeletionOrder e pods) = length pods"
  "distinct (sortPodsByDeletionOrder e pods) = distinct pods"
  by (simp_all add: sortPodsByDeletionOrder_def)

subsection \<open>The loops\<close>

lemma scale_down_effect:
  "n \<le> length ps \<Longrightarrow> pv_toDelete (scale_down n ps v) = pv_toDelete v @ take n ps
     \<and> pv_toCreate (scale_down n ps v) = pv_toCreate v \<and> pv_recreated (scale_down n ps v) = pv_recreated v"
  by (induction n ps v rule: scale_down.induct) (simp_all add: appendToDelete_def)

lemma recreate_effect:
  "pv_toDelete (recreate x k s p v) = pv_toDelete v @ [p]"
  "pv_toCreate (recreate x k s p v) = (if pv_recreated v < k - s then pv_toCreate v @ [x] else pv_toCreate v)"
  "pv_recreated (recreate x k s p v) = (if pv_recreated v < k - s then pv_recreated v + 1 else pv_recreated v)"
  by (simp_all add: recreate_def appendToDelete_def Let_def)

text \<open>The Pods that the rollout loop deletes: those that are not ready, up to and with the first
  ready one if all are ready.\<close>

fun rolled :: "bool \<Rightarrow> pod list \<Rightarrow> pod list" where
  "rolled allReady [] = []"
| "rolled allReady (p # ps) =
     (if \<not> PodIsReady p then p # rolled allReady ps else if allReady then [p] else rolled allReady ps)"

lemma rollout_deletes: "pv_toDelete (rollout x k s r ps v) = pv_toDelete v @ rolled r ps"
  by (cases r; induction ps arbitrary: v) (simp_all add: recreate_effect)

lemma rollout_creates:
  "0 \<le> pv_recreated v \<Longrightarrow> pv_toCreate (rollout x k s r ps v)
     = pv_toCreate v @ replicate (min (length (rolled r ps)) (nat (k - s - pv_recreated v))) x"
proof (induction ps arbitrary: v)
  case (Cons p ps)
  have suc: "nat (k - s - c) = Suc (nat (k - s - (c + 1)))" if "c < k - s" for c using that by linarith
  show ?case
  proof (cases "PodIsReady p")
    case True
    show ?thesis
    proof (cases r)
      case True
      with \<open>PodIsReady p\<close> show ?thesis by (cases "pv_recreated v < k - s") (simp_all add: recreate_effect suc)
    next
      case False
      with \<open>PodIsReady p\<close> Cons show ?thesis by simp
    qed
  next
    case False
    have ih: "pv_toCreate (rollout x k s r ps (recreate x k s p w))
        = pv_toCreate (recreate x k s p w) @ replicate (min (length (rolled r ps)) (nat (k - s - pv_recreated (recreate x k s p w)))) x"
      if "pv_recreated w = pv_recreated v" for w
      using Cons.prems that by (intro Cons.IH) (simp add: recreate_effect)
    from False show ?thesis
      by (cases "pv_recreated v < k - s") (simp_all add: ih recreate_effect suc)
  qed
qed simp

lemma rolled_subset: "set (rolled r ps) \<subseteq> set ps"
  by (induction ps) auto

lemma rolled_ready: "length (filter PodIsReady (rolled r ps)) \<le> 1"
  by (induction ps) auto

lemma rolled_not_all: "\<not> r \<Longrightarrow> filter PodIsReady (rolled r ps) = []"
  by (induction ps) auto

lemma rolled_all_ready: "\<forall>p \<in> set ps. PodIsReady p \<Longrightarrow> rolled r ps = (if r then take 1 ps else [])"
  by (induction ps) auto

text \<open>What a plan deletes and creates, as one formula.\<close>

definition live_pods :: "string \<Rightarrow> pod list \<Rightarrow> pod list" where
  "live_pods e ps = sortPodsByDeletionOrder e (filter (\<lambda>p. \<not> om_deleting (pod_meta p)) ps)"

definition out_of_date :: "string \<Rightarrow> pod list \<Rightarrow> pod list" where
  "out_of_date e ps = filter (\<lambda>p. pod_hash_label p \<noteq> e) (live_pods e ps)"

definition plan_desired :: "string \<Rightarrow> int option \<Rightarrow> int \<Rightarrow> pod list \<Rightarrow> int" where
  "plan_desired e replicas surge ps = desired_with_surge replicas surge (out_of_date e ps \<noteq> [])"

definition plan_ready :: "string \<Rightarrow> int option \<Rightarrow> int \<Rightarrow> pod list \<Rightarrow> bool" where
  "plan_ready e replicas surge ps \<longleftrightarrow> int (length (filter PodIsReady (live_pods e ps))) = plan_desired e replicas surge ps"

definition plan_in_range :: "string \<Rightarrow> int option \<Rightarrow> int \<Rightarrow> pod list \<Rightarrow> bool" where
  "plan_in_range e replicas surge ps \<longleftrightarrow> 0 \<le> (case replicas of None \<Rightarrow> 0 | Some r \<Rightarrow> r) \<and> 0 \<le> surge
     \<and> (case replicas of None \<Rightarrow> 0 | Some r \<Rightarrow> r) + surge < 2147483648 \<and> int (length ps) < 2147483648"

lemma plan_numbers:
  assumes "plan_in_range e replicas surge ps"
  shows "plan_desired e replicas surge ps
      = (case replicas of None \<Rightarrow> 0 | Some r \<Rightarrow> r) + (if out_of_date e ps = [] then 0 else surge)"
    and "wrap32 (wrap32 (int (length (live_pods e ps))) - plan_desired e replicas surge ps)
      = int (length (live_pods e ps)) - plan_desired e replicas surge ps"
proof -
  let ?n = "case replicas of None \<Rightarrow> 0 | Some r \<Rightarrow> r"
  have "wrap32 (?n + surge) = ?n + surge"
    using assms by (intro wrap32_id) (simp add: plan_in_range_def in_int32_def)
  then show d: "plan_desired e replicas surge ps = ?n + (if out_of_date e ps = [] then 0 else surge)"
    by (simp add: plan_desired_def desired_with_surge_def Let_def)
  have "length (live_pods e ps) \<le> length ps" by (simp add: live_pods_def)
  then have len: "int (length (live_pods e ps)) < 2147483648" using assms by (simp add: plan_in_range_def)
  then have "wrap32 (int (length (live_pods e ps))) = int (length (live_pods e ps))"
    by (intro wrap32_id) (simp add: in_int32_def)
  moreover have "wrap32 (int (length (live_pods e ps)) - plan_desired e replicas surge ps)
      = int (length (live_pods e ps)) - plan_desired e replicas surge ps"
    using len assms by (intro wrap32_id) (auto simp: d plan_in_range_def in_int32_def)
  ultimately show "wrap32 (wrap32 (int (length (live_pods e ps))) - plan_desired e replicas surge ps)
      = int (length (live_pods e ps)) - plan_desired e replicas surge ps" by simp
qed

lemma plan_effect:
  assumes "plan_in_range e replicas surge ps"
  defines "diff \<equiv> int (length (live_pods e ps)) - plan_desired e replicas surge ps"
    and "gone \<equiv> rolled (plan_ready e replicas surge ps) (out_of_date e ps)"
  shows "pp_toDelete (calculatePodPlan x e replicas surge ps) = take (nat diff) (live_pods e ps) @ gone"
    and "pp_toCreate (calculatePodPlan x e replicas surge ps)
      = replicate (nat (- diff) + min (length gone) (nat (int (length (out_of_date e ps)) - surge))) x"
proof -
  let ?live = "live_pods e ps" and ?old = "out_of_date e ps"
  let ?v = "\<lparr>pv_remainder = gm_fill (map (\<lambda>p. (podKey p, p)) ?live) [], pv_toDelete = [], pv_toCreate = [], pv_details = [], pv_recreated = 0\<rparr>"
  define v1 where "v1 = (if diff < 0 then ?v\<lparr>pv_details := [''Creating '' @ int_str \<bar>diff\<bar> @ '' Pods''],
                                  pv_toCreate := replicate (nat \<bar>diff\<bar>) x\<rparr>
               else if 0 < diff then scale_down (nat \<bar>diff\<bar>) ?live (?v\<lparr>pv_details := [''Deleting '' @ int_str \<bar>diff\<bar> @ '' Pods'']\<rparr>)
               else ?v)"
  have plan: "calculatePodPlan x e replicas surge ps =
      (let v = rollout x (int (length ?old)) surge (plan_ready e replicas surge ps) ?old v1
       in \<lparr>pp_toCreate = pv_toCreate v, pp_toDelete = pv_toDelete v, pp_toRemain = map snd (pv_remainder v), pp_details = pv_details v\<rparr>)"
    unfolding calculatePodPlan_def live_pods_def [symmetric] out_of_date_def [symmetric] Let_def
      plan_desired_def [symmetric] plan_ready_def [symmetric] plan_numbers(2) [OF assms(1)] diff_def [symmetric] v1_def ..
  have "0 \<le> plan_desired e replicas surge ps"
    using assms(1) by (auto simp: plan_numbers(1) plan_in_range_def)
  then have "nat \<bar>diff\<bar> \<le> length ?live" if "0 < diff" using that by (simp add: diff_def)
  then have v1: "pv_toDelete v1 = take (nat diff) ?live" "pv_toCreate v1 = replicate (nat (- diff)) x" "pv_recreated v1 = 0"
    by (auto simp: v1_def scale_down_effect)
  show "pp_toDelete (calculatePodPlan x e replicas surge ps) = take (nat diff) (live_pods e ps) @ gone"
    by (simp add: plan Let_def rollout_deletes v1 gone_def)
  show "pp_toCreate (calculatePodPlan x e replicas surge ps)
      = replicate (nat (- diff) + min (length gone) (nat (int (length (out_of_date e ps)) - surge))) x"
    by (simp add: plan Let_def rollout_creates v1 gone_def replicate_add)
qed

end
