(* ===== verification/Pod_Plan_Properties.thy ===== *)
theory Pod_Plan_Properties
  imports Pod_Plan
begin

section \<open>Properties of Pod plans\<close>

text \<open>
  What a plan does to the Pods of a Model when it scales, while it rolls out a new Pod hash,
  and when it is executed; and two cases in which it does not do what its comments say.
\<close>

definition plan_pod :: "string \<Rightarrow> bool \<Rightarrow> string \<Rightarrow> int \<Rightarrow> pod" where
  "plan_pod name ready hash created = (demo_pod name (if ready then ''True'' else ''False''))\<lparr>pod_meta :=
     empty_meta\<lparr>om_name := name, om_namespace := ''ns'', om_labels := [(''pod-hash'', hash)], om_created := created\<rparr>\<rparr>"

definition wanted :: "int option \<Rightarrow> int" where
  "wanted replicas = (case replicas of None \<Rightarrow> 0 | Some r \<Rightarrow> r)"

subsection \<open>Scaling\<close>

text \<open>C11: When no Pod is out of date, a plan brings the number of Pods to exactly the replicas of
  the Model: it only creates or only deletes, and deletes the first Pods in deletion order.\<close>

theorem plan_reaches_replicas:
  assumes "plan_in_range e replicas surge ps" "out_of_date e ps = []"
  shows "int (length (live_pods e ps)) - int (length (pp_toDelete (calculatePodPlan x e replicas surge ps)))
        + int (length (pp_toCreate (calculatePodPlan x e replicas surge ps))) = wanted replicas
    \<and> (pp_toDelete (calculatePodPlan x e replicas surge ps) = [] \<or> pp_toCreate (calculatePodPlan x e replicas surge ps) = [])
    \<and> (\<exists>k. pp_toDelete (calculatePodPlan x e replicas surge ps) = take k (live_pods e ps))"
proof -
  let ?diff = "int (length (live_pods e ps)) - wanted replicas"
  have d: "plan_desired e replicas surge ps = wanted replicas"
    using plan_numbers(1) [OF assms(1)] assms(2) by (simp add: wanted_def)
  have n: "0 \<le> wanted replicas" using assms(1) by (simp add: plan_in_range_def wanted_def)
  have del: "pp_toDelete (calculatePodPlan x e replicas surge ps) = take (nat ?diff) (live_pods e ps)"
    and cre: "pp_toCreate (calculatePodPlan x e replicas surge ps) = replicate (nat (- ?diff)) x"
    using plan_effect [OF assms(1), of x] by (simp_all add: d assms(2))
  have "int (length (live_pods e ps)) - int (length (take (nat ?diff) (live_pods e ps)))
      + int (length (replicate (nat (- ?diff)) x)) = wanted replicas"
    using n by (simp only: length_take length_replicate)
  moreover have "take (nat ?diff) (live_pods e ps) = [] \<or> replicate (nat (- ?diff)) x = []" by (cases "0 \<le> ?diff") simp_all
  ultimately show ?thesis unfolding del cre by blast
qed

theorem plan_reaches_replicas_witness:
  "length (pp_toDelete (calculatePodPlan (plan_pod ''new'' False ''h'' 0) ''h'' (Some 1) 1
     [plan_pod ''a'' True ''h'' 1, plan_pod ''b'' True ''h'' 2])) = 1"
proof -
  let ?ps = "[plan_pod ''a'' True ''h'' 1, plan_pod ''b'' True ''h'' 2]"
  have "out_of_date ''h'' ?ps = []" "length (live_pods ''h'' ?ps) = 2" by code_simp+
  moreover have "plan_in_range ''h'' (Some 1) 1 ?ps" by (simp add: plan_in_range_def)
  ultimately show ?thesis
    using plan_reaches_replicas [of "''h''" "Some 1" 1 ?ps "plan_pod ''new'' False ''h'' 0"]
    by (auto simp: wanted_def)
qed

text \<open>Scaling down without a rollout, a plan never deletes a ready Pod and keeps one that is
  not ready, nor a scheduled Pod and keeps an unscheduled one of the same readiness.\<close>

theorem plan_deletes_unready_first:
  assumes "plan_in_range e replicas surge ps" "out_of_date e ps = []"
    and "p \<in> set (pp_toDelete (calculatePodPlan x e replicas surge ps))"
    and "q \<in> set (live_pods e ps)" "q \<notin> set (pp_toDelete (calculatePodPlan x e replicas surge ps))"
  shows "(PodIsReady p \<longrightarrow> PodIsReady q) \<and> (PodIsReady p = PodIsReady q \<and> PodIsScheduled p \<longrightarrow> PodIsScheduled q)"
proof -
  let ?live = "live_pods e ps"
  have del: "pp_toDelete (calculatePodPlan x e replicas surge ps) = take (nat (int (length ?live) - plan_desired e replicas surge ps)) ?live"
    using plan_effect(1) [OF assms(1), of x] assms(2) by simp
  define k where "k = nat (int (length ?live) - plan_desired e replicas surge ps)"
  have q: "q \<in> set (drop k ?live)"
    using assms(4,5) unfolding del k_def [symmetric]
    by (metis Un_iff append_take_drop_id set_append)
  have "\<forall>p \<in> set ?live. pod_hash_label p = e" using assms(2) by (auto simp: out_of_date_def filter_empty_conv)
  then have "one_old_hash e (filter (\<lambda>p. \<not> om_deleting (pod_meta p)) ps)" by (auto simp: one_old_hash_def live_pods_def)
  then have "sorted_wrt (\<lambda>p q. \<not> pod_before e q p) ?live" unfolding live_pods_def by (rule deletion_order_sorted)
  then have "sorted_wrt (\<lambda>p q. \<not> pod_before e q p) (take k ?live @ drop k ?live)" by simp
  then have "\<not> pod_before e q p"
    using assms(3) q unfolding del k_def [symmetric] sorted_wrt_append by blast
  then show ?thesis by (auto simp: pod_before_def split: if_splits)
qed

theorem plan_deletes_unready_first_witness:
  "PodIsReady (plan_pod ''a'' True ''h'' 1)"
proof -
  let ?ps = "[plan_pod ''a'' True ''h'' 1, plan_pod ''b'' True ''h'' 2]"
  let ?plan = "calculatePodPlan (plan_pod ''new'' False ''h'' 0) ''h'' (Some 1) 1 ?ps"
  have "out_of_date ''h'' ?ps = []" "pp_toDelete ?plan = [plan_pod ''b'' True ''h'' 2]"
    "plan_pod ''a'' True ''h'' 1 \<in> set (live_pods ''h'' ?ps)" "plan_pod ''a'' True ''h'' 1 \<noteq> plan_pod ''b'' True ''h'' 2"
    "PodIsReady (plan_pod ''b'' True ''h'' 2)" by code_simp+
  moreover have "plan_in_range ''h'' (Some 1) 1 ?ps" by (simp add: plan_in_range_def)
  ultimately show ?thesis
    using plan_deletes_unready_first [of "''h''" "Some 1" 1 ?ps "plan_pod ''b'' True ''h'' 2" "plan_pod ''new'' False ''h'' 0"
        "plan_pod ''a'' True ''h'' 1"] by simp
qed

subsection \<open>Rollouts\<close>

text \<open>A rollout keeps the Model served. As long as there are not more Pods than the replicas
  and the surge, a plan deletes at most one ready Pod, an out-of-date one, and only when as
  many Pods are ready as are wanted with the surge.\<close>

theorem rollout_keeps_ready:
  assumes "plan_in_range e replicas surge ps" "int (length (live_pods e ps)) \<le> plan_desired e replicas surge ps"
  shows "length (filter PodIsReady (pp_toDelete (calculatePodPlan x e replicas surge ps))) \<le> 1
    \<and> (\<forall>p \<in> set (pp_toDelete (calculatePodPlan x e replicas surge ps)). pod_hash_label p \<noteq> e)
    \<and> (filter PodIsReady (pp_toDelete (calculatePodPlan x e replicas surge ps)) \<noteq> []
        \<longrightarrow> int (length (filter PodIsReady (live_pods e ps))) = plan_desired e replicas surge ps)"
proof -
  let ?gone = "rolled (plan_ready e replicas surge ps) (out_of_date e ps)"
  have del: "pp_toDelete (calculatePodPlan x e replicas surge ps) = ?gone"
    using plan_effect(1) [OF assms(1), of x] assms(2) by simp
  have sub: "set ?gone \<subseteq> set (out_of_date e ps)" by (rule rolled_subset)
  then have "\<forall>p \<in> set ?gone. pod_hash_label p \<noteq> e" by (auto simp: out_of_date_def)
  moreover have "filter PodIsReady ?gone \<noteq> [] \<longrightarrow> int (length (filter PodIsReady (live_pods e ps))) = plan_desired e replicas surge ps"
    using rolled_not_all [of "plan_ready e replicas surge ps" "out_of_date e ps"] unfolding plan_ready_def by blast
  ultimately show ?thesis
    unfolding del using rolled_ready [of "plan_ready e replicas surge ps" "out_of_date e ps"] by blast
qed

theorem rollout_keeps_ready_witness:
  "length (filter PodIsReady (pp_toDelete (calculatePodPlan (plan_pod ''new'' False ''h'' 0) ''h'' (Some 2) 1
     [plan_pod ''a'' True ''old'' 1, plan_pod ''b'' True ''old'' 2]))) \<le> 1"
proof -
  let ?ps = "[plan_pod ''a'' True ''old'' 1, plan_pod ''b'' True ''old'' 2]"
  have "length (live_pods ''h'' ?ps) = 2" "plan_desired ''h'' (Some 2) 1 ?ps = 3" by code_simp+
  moreover have "plan_in_range ''h'' (Some 2) 1 ?ps" by (simp add: plan_in_range_def)
  ultimately show ?thesis using rollout_keeps_ready [of "''h''" "Some 2" 1 ?ps] by simp
qed

text \<open>A rollout makes progress. When all Pods are ready and there are as many as wanted with
  the surge, the plan deletes exactly one out-of-date Pod, the first in deletion order, and
  replaces it as long as more Pods are out of date than the surge.\<close>

theorem rollout_step:
  assumes "plan_in_range e replicas surge ps" "out_of_date e ps \<noteq> []"
    and "int (length (live_pods e ps)) = plan_desired e replicas surge ps" "\<forall>p \<in> set (live_pods e ps). PodIsReady p"
  shows "pp_toDelete (calculatePodPlan x e replicas surge ps) = [hd (out_of_date e ps)]
    \<and> pp_toCreate (calculatePodPlan x e replicas surge ps) = (if surge < int (length (out_of_date e ps)) then [x] else [])"
proof -
  have "filter PodIsReady (live_pods e ps) = live_pods e ps" using assms(4) by (simp add: filter_id_conv)
  then have r: "plan_ready e replicas surge ps" using assms(3) by (simp add: plan_ready_def)
  have "\<forall>p \<in> set (out_of_date e ps). PodIsReady p" using assms(4) by (auto simp: out_of_date_def)
  then have g: "rolled True (out_of_date e ps) = [hd (out_of_date e ps)]"
    using assms(2) by (cases "out_of_date e ps") (simp_all add: rolled_all_ready)
  show ?thesis
    using plan_effect [OF assms(1), of x] assms(3) r g by (auto simp: min_def)
qed

theorem rollout_step_witness:
  "pp_toCreate (calculatePodPlan (plan_pod ''new'' False ''h'' 0) ''h'' (Some 1) 1
     [plan_pod ''a'' True ''old'' 1, plan_pod ''b'' True ''h'' 2]) = []"
proof -
  let ?ps = "[plan_pod ''a'' True ''old'' 1, plan_pod ''b'' True ''h'' 2]"
  have o: "out_of_date ''h'' ?ps = [plan_pod ''a'' True ''old'' 1]" by code_simp
  have "length (live_pods ''h'' ?ps) = 2" "plan_desired ''h'' (Some 1) 1 ?ps = 2"
    "list_all PodIsReady (live_pods ''h'' ?ps)" by code_simp+
  moreover have "plan_in_range ''h'' (Some 1) 1 ?ps" by (simp add: plan_in_range_def)
  ultimately show ?thesis using rollout_step [of "''h''" "Some 1" 1 ?ps "plan_pod ''new'' False ''h'' 0"] o
    by (simp add: list_all_iff)
qed

text \<open>A plan never touches a Pod that is already terminating.\<close>

theorem plan_skips_terminating:
  assumes "plan_in_range e replicas surge ps" "p \<in> set (pp_toDelete (calculatePodPlan x e replicas surge ps))"
  shows "p \<in> set ps \<and> \<not> om_deleting (pod_meta p)"
proof -
  let ?gone = "rolled (plan_ready e replicas surge ps) (out_of_date e ps)"
  have "set ?gone \<subseteq> set (out_of_date e ps)" by (rule rolled_subset)
  then have "p \<in> set (live_pods e ps)"
    using assms(2) plan_effect(1) [OF assms(1), of x] by (auto simp: out_of_date_def dest: in_set_takeD)
  then show ?thesis by (simp add: live_pods_def)
qed

theorem plan_skips_terminating_witness:
  "\<not> om_deleting (pod_meta (plan_pod ''b'' True ''h'' 2))"
proof -
  let ?ps = "[plan_pod ''a'' True ''h'' 1, plan_pod ''b'' True ''h'' 2]"
  have "pp_toDelete (calculatePodPlan (plan_pod ''new'' False ''h'' 0) ''h'' (Some 1) 1 ?ps) = [plan_pod ''b'' True ''h'' 2]" by code_simp
  then show ?thesis
    using plan_skips_terminating [of "''h''" "Some 1" 1 ?ps "plan_pod ''b'' True ''h'' 2" "plan_pod ''new'' False ''h'' 0"]
    by (simp add: plan_in_range_def)
qed

subsection \<open>Where the plan goes wrong\<close>

text \<open>Scaling down while Pods are out of date and not ready overshoots. With three such Pods,
  one replica wanted and no surge, the plan deletes two of them twice and creates three new
  Pods, two too many.\<close>

theorem scale_down_during_rollout_overshoots:
  "let plan = calculatePodPlan (plan_pod ''new'' False ''h'' 0) ''h'' (Some 1) 0
       [plan_pod ''a'' False ''old'' 3, plan_pod ''b'' False ''old'' 2, plan_pod ''c'' False ''old'' 1]
   in map (\<lambda>p. om_name (pod_meta p)) (pp_toDelete plan) = [''a'', ''b'', ''a'', ''b'', ''c'']
      \<and> length (pp_toCreate plan) = 3 \<and> pp_toRemain plan = []"
  by code_simp

text \<open>With Pods of two different old hashes the comparison is not an order: each of the two is
  before the other, so which is deleted first depends on their position in the list.\<close>

theorem deletion_order_not_asymmetric:
  "let p = plan_pod ''a'' True ''old1'' 1; q = plan_pod ''b'' True ''old2'' 2
   in pod_before ''h'' p q \<and> pod_before ''h'' q p \<and> sortPodsByDeletionOrder ''h'' [p, q] \<noteq> sortPodsByDeletionOrder ''h'' [q, p]"
  by code_simp

subsection \<open>Execution\<close>

definition delete_action :: "pod \<Rightarrow> pod_action" where
  "delete_action p = DeletePod (om_namespace (pod_meta p)) (om_name (pod_meta p))"

lemma exec_deletes_split:
  "exec_deletes del ps c = (as, c', e) \<Longrightarrow>
   (\<exists>k. as = map delete_action (take k ps)) \<and> (e = None \<longrightarrow> as = map delete_action ps \<and> c' = (c \<or> ps \<noteq> []))"
proof (induction ps arbitrary: as c)
  case (Cons p ps)
  obtain as1 c1 e1 where rec: "exec_deletes del ps True = (as1, c1, e1)" by (rule prod_cases3)
  show ?case
  proof (cases "del p = WOk \<or> del p = WNotFound")
    case True
    then have eq: "as = delete_action p # as1" "c' = c1" "e = e1"
      using Cons.prems by (simp_all add: rec Let_def delete_action_def)
    have ih: "(\<exists>k. as1 = map delete_action (take k ps))" "e = None \<longrightarrow> as1 = map delete_action ps \<and> c' = True"
      using Cons.IH [of True as1] rec by (simp_all add: eq)
    then obtain k where "as1 = map delete_action (take k ps)" by blast
    then have "as = map delete_action (take (Suc k) (p # ps))" by (simp add: eq(1))
    then have "\<exists>k. as = map delete_action (take k (p # ps))" by blast
    then show ?thesis using ih(2) by (simp add: eq(1))
  next
    case False
    then have eq: "as = map delete_action (take 1 (p # ps))" "e \<noteq> None"
      using Cons.prems by (auto simp: Let_def delete_action_def)
    have "\<exists>k. as = map delete_action (take k (p # ps))" using eq(1) by blast
    with eq(2) show ?thesis by blast
  qed
qed simp

lemma exec_creates_split:
  "exec_creates own cre ps c = (as, c', e) \<Longrightarrow>
   (\<forall>a \<in> set as. \<exists>p. a = CreatePod p) \<and> (e = None \<longrightarrow> length as = length ps \<and> c' = (c \<or> ps \<noteq> []))"
proof (induction ps arbitrary: as c)
  case (Cons p ps)
  obtain as1 c1 e1 where rec: "exec_creates own cre ps True = (as1, c1, e1)" by (rule prod_cases3)
  show ?case
  proof (cases "\<exists>q. own p = Done q \<and> (cre q = WOk \<or> cre q = WAlreadyExists)")
    case True
    then obtain q where "own p = Done q" "cre q = WOk \<or> cre q = WAlreadyExists" by blast
    then have "as = CreatePod q # as1" "c' = c1" "e = e1" using Cons.prems by (simp_all add: rec Let_def)
    with Cons.IH [of True as1] rec show ?thesis by simp
  next
    case False
    then show ?thesis using Cons.prems by (cases "own p") auto
  qed
qed simp

text \<open>Carrying a plan out makes all its deletions, in order, before any creation; a creation is
  attempted only if every deletion succeeded or found its Pod gone; and when nothing fails
  the plan reports a change exactly if it contains actions.\<close>

theorem execute_plan_order:
  assumes "execute_plan own del cre pp = (as, changed, e)"
  shows "\<exists>ds cs. as = ds @ cs
    \<and> (\<exists>k. ds = map delete_action (take k (pp_toDelete pp)))
    \<and> (\<forall>a \<in> set cs. \<exists>p. a = CreatePod p) \<and> (cs \<noteq> [] \<longrightarrow> length ds = length (pp_toDelete pp))
    \<and> (e = None \<longrightarrow> length as = length (pp_toDelete pp) + length (pp_toCreate pp) \<and> changed = containsActions pp)"
proof -
  obtain ds c ed where d: "exec_deletes del (pp_toDelete pp) False = (ds, c, ed)" by (rule prod_cases3)
  note split = exec_deletes_split [OF d]
  show ?thesis
  proof (cases ed)
    case None
    obtain cs c2 ec where cr: "exec_creates own cre (pp_toCreate pp) c = (cs, c2, ec)" by (rule prod_cases3)
    have r: "as = ds @ cs" "changed = c2" "e = ec" using assms d None cr by (simp_all add: execute_plan_def)
    have "ds = map delete_action (pp_toDelete pp) \<and> c = (pp_toDelete pp \<noteq> [])"
      using split None by auto
    then show ?thesis
      using r exec_creates_split [OF cr] split
      by (intro exI [of _ ds] exI [of _ cs]) (auto simp: containsActions_def)
  next
    case (Some m)
    then have "as = ds" "e = Some m" using assms d by (simp_all add: execute_plan_def)
    then show ?thesis using split by (intro exI [of _ ds] exI [of _ "[]"]) auto
  qed
qed

theorem execute_plan_order_witness:
  "execute_plan Done (\<lambda>p. WNotFound) (\<lambda>p. WErr []) \<lparr>pp_toCreate = [plan_pod ''new'' False ''h'' 0],
      pp_toDelete = [plan_pod ''a'' True ''h'' 1], pp_toRemain = [], pp_details = []\<rparr>
    = ([DeletePod ''ns'' ''a'', CreatePod (plan_pod ''new'' False ''h'' 0)], True, Some ''creating pod'')
   \<and> (\<exists>ds cs. [DeletePod ''ns'' ''a'', CreatePod (plan_pod ''new'' False ''h'' 0)] = ds @ cs \<and> (cs \<noteq> [] \<longrightarrow> length ds = 1))"
proof -
  let ?pp = "\<lparr>pp_toCreate = [plan_pod ''new'' False ''h'' 0], pp_toDelete = [plan_pod ''a'' True ''h'' 1], pp_toRemain = [], pp_details = []\<rparr>"
  have ex: "execute_plan Done (\<lambda>p. WNotFound) (\<lambda>p. WErr []) ?pp
    = ([DeletePod ''ns'' ''a'', CreatePod (plan_pod ''new'' False ''h'' 0)], True, Some ''creating pod'')"
    by (simp add: execute_plan_def plan_pod_def empty_meta_def)
  obtain ds cs where "[DeletePod ''ns'' ''a'', CreatePod (plan_pod ''new'' False ''h'' 0)] = ds @ cs"
    "cs \<noteq> [] \<longrightarrow> length ds = length (pp_toDelete ?pp)"
    using execute_plan_order [OF ex] by metis
  with ex show ?thesis by (intro conjI exI [of _ ds] exI [of _ cs]) simp_all
qed

end
