(* ===== verification/Rollout_Convergence.thy ===== *)
theory Rollout_Convergence
  imports Pod_Plan_Properties
begin

section \<open>Rollouts in a cluster\<close>

text \<open>
  The controller's plan in a loop with the cluster: passes, which may fail half-way, alternate in
  any order with Pods that become ready and Pods that finish terminating. A created Pod gets
  its name and times from the API server and starts out not ready. The controller sees the
  Pods as they are, which is what the wait after a scaling is for.
\<close>

subsection \<open>The cluster\<close>

abbreviation live :: "pod list \<Rightarrow> pod list" where
  "live ps \<equiv> filter (\<lambda>p. \<not> om_deleting (pod_meta p)) ps"

abbreviation ready_count :: "pod list \<Rightarrow> nat" where
  "ready_count ps \<equiv> length (filter PodIsReady (live ps))"

definition terminate_pod :: "pod \<Rightarrow> pod" where
  "terminate_pod p = p\<lparr>pod_meta := (pod_meta p)\<lparr>om_deleting := True\<rparr>\<rparr>"

definition delete_pods :: "pod_action set \<Rightarrow> pod list \<Rightarrow> pod list" where
  "delete_pods D ps = map (\<lambda>p. if delete_action p \<in> D then terminate_pod p else p) ps"

text \<open>What attempted actions leave behind: an answered deletion is carried out, one that failed may
  have been; a creation adds at most one Pod.\<close>

definition new_pod :: "pod \<Rightarrow> pod \<Rightarrow> bool" where
  "new_pod x q \<longleftrightarrow> om_labels (pod_meta q) = om_labels (pod_meta x) \<and> \<not> om_deleting (pod_meta q) \<and> \<not> PodIsReady q"

definition carried_out :: "(pod \<Rightarrow> api_write) \<Rightarrow> pod \<Rightarrow> pod_action list \<Rightarrow> pod list \<Rightarrow> pod list \<Rightarrow> bool" where
  "carried_out del x as ps ps' \<longleftrightarrow> (\<exists>D news. ps' = delete_pods D ps @ news \<and> D \<subseteq> set as
     \<and> (\<forall>p \<in> set ps. delete_action p \<in> set as \<longrightarrow> del p \<in> {WOk, WNotFound} \<longrightarrow> delete_action p \<in> D)
     \<and> length news \<le> length (filter (\<lambda>a. \<exists>p. a = CreatePod p) as) \<and> list_all (new_pod x) news
     \<and> distinct (map delete_action (ps @ news)))"

inductive cluster_step :: "pod \<Rightarrow> string \<Rightarrow> int option \<Rightarrow> int \<Rightarrow> pod list \<Rightarrow> pod list \<Rightarrow> bool"
  for x e replicas surge where
  ControllerPass: "execute_plan own del cre (calculatePodPlan x e replicas surge ps) = (as, changed, err) \<Longrightarrow>
     carried_out del x as ps ps' \<Longrightarrow> cluster_step x e replicas surge ps ps'"
| PodStatus: "pod_meta q = pod_meta p \<Longrightarrow> (PodIsReady p \<Longrightarrow> PodIsReady q) \<Longrightarrow>
     cluster_step x e replicas surge (us @ p # vs) (us @ q # vs)"
| PodGone: "om_deleting (pod_meta p) \<Longrightarrow> cluster_step x e replicas surge (us @ p # vs) (us @ vs)"

inductive cluster_reach :: "pod \<Rightarrow> string \<Rightarrow> int option \<Rightarrow> int \<Rightarrow> pod list \<Rightarrow> pod list \<Rightarrow> bool"
  for x e replicas surge ps where
  ReachStart: "cluster_reach x e replicas surge ps ps"
| ReachStep: "cluster_reach x e replicas surge ps qs \<Longrightarrow> cluster_step x e replicas surge qs rs \<Longrightarrow>
     cluster_reach x e replicas surge ps rs"

inductive_cases cluster_stepE: "cluster_step x e replicas surge ps ps'"

subsection \<open>Plans and executions\<close>

text \<open>A plan sees the live Pods only.\<close>

lemma plan_of_live:
  "calculatePodPlan x e replicas surge (live ps) = calculatePodPlan x e replicas surge ps"
  "live_pods e (live ps) = live_pods e ps" "out_of_date e (live ps) = out_of_date e ps"
  "plan_desired e replicas surge (live ps) = plan_desired e replicas surge ps"
  "plan_ready e replicas surge (live ps) = plan_ready e replicas surge ps"
  by (simp_all add: calculatePodPlan_def out_of_date_def plan_desired_def plan_ready_def live_pods_def)

lemma mset_live_pods: "mset (live_pods e ps) = mset (live ps)"
  by (simp add: live_pods_def sortPodsByDeletionOrder_def mset_slice_stable)

lemma count_live_pods:
  "length (live_pods e ps) = length (live ps)" "length (filter Q (live_pods e ps)) = length (filter Q (live ps))"
  "set (live_pods e ps) = set (live ps)"
  by (metis mset_live_pods size_mset, metis mset_live_pods mset_filter size_mset, metis mset_live_pods set_mset_mset)

lemma exec_deletes_ok:
  "exec_deletes del ps c = (as, c', None) \<Longrightarrow> \<forall>p \<in> set ps. del p \<in> {WOk, WNotFound}"
proof (induction ps arbitrary: as c c')
  case (Cons p ps)
  then show ?case by (cases "exec_deletes del ps True") (auto simp: Let_def split: if_splits)
qed simp

lemma exec_creates_length: "exec_creates own cre ps c = (as, c', e) \<Longrightarrow> length as \<le> length ps"
proof (induction ps arbitrary: as c c' e)
  case (Cons p ps)
  then show ?case
    by (cases "exec_creates own cre ps True") (force simp: Let_def split: outcome.splits if_splits)
qed simp

text \<open>The actions of an execution: a part of the deletions, and creations only after all deletions
  were answered.\<close>

lemma execute_plan_actions:
  assumes "execute_plan own del cre pp = (as, changed, err)"
  obtains (deleting) k where "as = map delete_action (take k (pp_toDelete pp))"
  | (creating) cs where "as = map delete_action (pp_toDelete pp) @ cs" "\<forall>a \<in> set cs. \<exists>p. a = CreatePod p"
      "length cs \<le> length (pp_toCreate pp)" "\<forall>p \<in> set (pp_toDelete pp). del p \<in> {WOk, WNotFound}"
proof -
  obtain ds c ed where d: "exec_deletes del (pp_toDelete pp) False = (ds, c, ed)" by (rule prod_cases3)
  note split = exec_deletes_split [OF d]
  show ?thesis
  proof (cases ed)
    case None
    obtain cs c2 ec where cr: "exec_creates own cre (pp_toCreate pp) c = (cs, c2, ec)" by (rule prod_cases3)
    have "as = map delete_action (pp_toDelete pp) @ cs" using assms d None cr split by (simp add: execute_plan_def)
    then show ?thesis
      using exec_creates_split [OF cr] exec_creates_length [OF cr] exec_deletes_ok [OF d [unfolded None]]
      by (intro creating) simp_all
  next
    case (Some m)
    then have "as = ds" using assms d by (simp add: execute_plan_def)
    then show ?thesis using split deleting by blast
  qed
qed

subsection \<open>What a pass takes away\<close>

lemma distinct_rolled: "distinct ps \<Longrightarrow> distinct (rolled r ps)"
  using rolled_subset by (induction ps) fastforce+

text \<open>Unready Pods come first in the deletion order, so scaling down takes as few ready ones as it can.\<close>

lemma scale_down_ready:
  assumes "sorted_wrt (\<lambda>p q. \<not> pod_before e q p) xs"
  shows "length (filter PodIsReady (take n xs)) \<le> length (filter PodIsReady xs) - (length xs - n)"
proof (cases "\<exists>p \<in> set (take n xs). PodIsReady p")
  case True
  then obtain p where p: "p \<in> set (take n xs)" "PodIsReady p" by blast
  have "sorted_wrt (\<lambda>p q. \<not> pod_before e q p) (take n xs @ drop n xs)" using assms by simp
  then have "\<forall>q \<in> set (drop n xs). \<not> pod_before e q p" using p(1) unfolding sorted_wrt_append by blast
  then have "\<forall>q \<in> set (drop n xs). PodIsReady q" using p(2) by (auto simp: pod_before_def split: if_splits)
  then have "filter PodIsReady (drop n xs) = drop n xs" by (simp add: filter_id_conv)
  then have "filter PodIsReady xs = filter PodIsReady (take n xs) @ drop n xs"
    by (metis append_take_drop_id filter_append)
  then have "length (filter PodIsReady xs) = length (filter PodIsReady (take n xs)) + (length xs - n)"
    by (metis length_append length_drop)
  then show ?thesis by simp
next
  case False
  then have "filter PodIsReady (take n xs) = []" by (simp add: filter_empty_conv)
  then show ?thesis by simp
qed

lemma plan_shape:
  assumes r: "plan_in_range e replicas surge (live ps)" and d: "distinct (live ps)"
    and n: "int (length (live ps)) \<le> wanted replicas + surge"
    and plan: "plan = calculatePodPlan x e replicas surge ps"
  shows "distinct (pp_toDelete plan)" "set (pp_toDelete plan) \<subseteq> set (live ps)"
    "int (length (live ps)) + int (length (pp_toCreate plan)) \<le> wanted replicas + surge + int (length (pp_toDelete plan))"
    "1 \<le> surge \<Longrightarrow> wanted replicas \<le> int (ready_count ps) \<Longrightarrow>
       wanted replicas + int (length (filter PodIsReady (pp_toDelete plan))) \<le> int (ready_count ps)"
proof -
  let ?D = "plan_desired e replicas surge ps" and ?old = "out_of_date e ps" and ?xs = "live_pods e ps"
  let ?gone = "rolled (plan_ready e replicas surge ps) ?old"
  note num = plan_numbers(1) [OF r, unfolded plan_of_live, folded wanted_def]
  note eff = plan_effect [OF r, of x, unfolded plan_of_live, folded plan]
  have dx: "distinct ?xs" using d by (simp add: live_pods_def)
  have w: "0 \<le> wanted replicas" "0 \<le> surge" using r by (simp_all add: plan_in_range_def wanted_def)
  have sub: "set ?gone \<subseteq> set ?xs" using rolled_subset [of "plan_ready e replicas surge ps" ?old] by (auto simp: out_of_date_def)
  have len: "length ?xs = length (live ps)" "length (filter PodIsReady ?xs) = ready_count ps" "set ?xs = set (live ps)"
    by (rule count_live_pods)+
  have "distinct (pp_toDelete plan) \<and> set (pp_toDelete plan) \<subseteq> set (live ps)
    \<and> int (length (live ps)) + int (length (pp_toCreate plan)) \<le> wanted replicas + surge + int (length (pp_toDelete plan))
    \<and> (1 \<le> surge \<longrightarrow> wanted replicas \<le> int (ready_count ps) \<longrightarrow>
        wanted replicas + int (length (filter PodIsReady (pp_toDelete plan))) \<le> int (ready_count ps))"
  proof (cases "?old = []")
    case True
    have del: "pp_toDelete plan = take (nat (int (length ?xs) - wanted replicas)) ?xs"
      and cre: "length (pp_toCreate plan) = nat (wanted replicas - int (length ?xs))"
      using eff by (simp_all add: True num)
    have "one_old_hash e (live ps)" using True by (auto simp: one_old_hash_def out_of_date_def filter_empty_conv live_pods_def)
    then have srt: "sorted_wrt (\<lambda>p q. \<not> pod_before e q p) ?xs" unfolding live_pods_def by (rule deletion_order_sorted)
    have "wanted replicas + int (length (filter PodIsReady (pp_toDelete plan))) \<le> int (ready_count ps)"
      if "wanted replicas \<le> int (ready_count ps)"
      using scale_down_ready [OF srt, of "nat (int (length ?xs) - wanted replicas)"] that w
        length_filter_le [of PodIsReady "live ps"]
      unfolding del len by linarith
    moreover have "distinct (pp_toDelete plan)" "set (pp_toDelete plan) \<subseteq> set (live ps)"
      using dx unfolding del len(3) [symmetric] by (simp_all add: set_take_subset)
    moreover have "int (length (live ps)) + int (length (pp_toCreate plan)) \<le> wanted replicas + surge + int (length (pp_toDelete plan))"
      using w n unfolding cre del len length_take by linarith
    ultimately show ?thesis by blast
  next
    case False
    have D: "?D = wanted replicas + surge" using num False by simp
    have del: "pp_toDelete plan = ?gone"
      and cre: "length (pp_toCreate plan) \<le> nat (wanted replicas + surge - int (length ?xs)) + length ?gone"
      using eff n by (simp_all add: D len)
    have "distinct ?gone" using dx by (intro distinct_rolled) (simp add: out_of_date_def)
    moreover have "filter PodIsReady ?gone \<noteq> [] \<longrightarrow> int (ready_count ps) = wanted replicas + surge"
      using rolled_not_all [of "plan_ready e replicas surge ps" ?old] unfolding plan_ready_def D len by blast
    ultimately show ?thesis
      using sub cre n rolled_ready [of "plan_ready e replicas surge ps" ?old] unfolding del len
      by (cases "filter PodIsReady ?gone = []") auto
  qed
  then show "distinct (pp_toDelete plan)" "set (pp_toDelete plan) \<subseteq> set (live ps)"
    "int (length (live ps)) + int (length (pp_toCreate plan)) \<le> wanted replicas + surge + int (length (pp_toDelete plan))"
    "1 \<le> surge \<Longrightarrow> wanted replicas \<le> int (ready_count ps) \<Longrightarrow>
       wanted replicas + int (length (filter PodIsReady (pp_toDelete plan))) \<le> int (ready_count ps)" by blast+
qed

subsection \<open>Availability\<close>

definition serving :: "int option \<Rightarrow> int \<Rightarrow> pod list \<Rightarrow> bool" where
  "serving replicas surge ps \<longleftrightarrow> distinct (map delete_action ps) \<and> int (length (live ps)) \<le> wanted replicas + surge
     \<and> wanted replicas \<le> int (ready_count ps)"

lemma delete_action_simps [simp]:
  "delete_action (terminate_pod p) = delete_action p" "delete_action p \<noteq> CreatePod q"
  by (simp_all add: delete_action_def terminate_pod_def)

lemma delete_pods_simps [simp]:
  "map delete_action (delete_pods D ps) = map delete_action ps"
  "live (delete_pods D ps) = filter (\<lambda>p. delete_action p \<notin> D) (live ps)"
proof -
  show "map delete_action (delete_pods D ps) = map delete_action ps" by (simp add: delete_pods_def)
  show "live (delete_pods D ps) = filter (\<lambda>p. delete_action p \<notin> D) (live ps)"
    unfolding delete_pods_def by (induction ps) (simp_all add: terminate_pod_def)
qed

lemma live_new_pods: "list_all (new_pod x) news \<Longrightarrow> live news = news \<and> filter PodIsReady news = []"
  by (induction news) (auto simp: new_pod_def)

lemma filter_split_length: "length (filter P xs) = length (filter (\<lambda>x. P x \<and> Q x) xs) + length (filter (\<lambda>x. P x \<and> \<not> Q x) xs)"
  by (induction xs) auto

lemma distinct_length_subset: "distinct xs \<Longrightarrow> set xs \<subseteq> set ys \<Longrightarrow> length xs \<le> length ys"
  by (metis List.finite_set card_length card_mono distinct_card order_trans)

lemma executed_deletions:
  assumes "execute_plan own del cre plan = (as, changed, err)" "delete_action p \<in> set as"
  shows "delete_action p \<in> delete_action ` set (pp_toDelete plan)"
  using assms(1)
proof (cases rule: execute_plan_actions)
  case (deleting k)
  then show ?thesis using assms(2) by (auto dest: in_set_takeD)
next
  case (creating cs)
  then have "delete_action p \<notin> set cs" by (metis delete_action_simps(2))
  then show ?thesis using assms(2) creating(1) by auto
qed

lemma executed_creations:
  assumes "execute_plan own del cre plan = (as, changed, err)"
  defines "n \<equiv> length (filter (\<lambda>a. \<exists>p. a = CreatePod p) as)"
  shows "n \<le> length (pp_toCreate plan)"
    and "0 < n \<Longrightarrow> p \<in> set (pp_toDelete plan) \<Longrightarrow> delete_action p \<in> set as \<and> del p \<in> {WOk, WNotFound}"
proof -
  have no: "filter (\<lambda>a. \<exists>p. a = CreatePod p) (map delete_action ps) = []" for ps by (simp add: filter_empty_conv)
  from assms(1) have "n \<le> length (pp_toCreate plan)
    \<and> (0 < n \<longrightarrow> (\<forall>p \<in> set (pp_toDelete plan). delete_action p \<in> set as \<and> del p \<in> {WOk, WNotFound}))"
  proof (cases rule: execute_plan_actions)
    case (deleting k)
    then show ?thesis by (simp add: n_def no)
  next
    case (creating cs)
    then have "n \<le> length cs" by (simp add: n_def no)
    then show ?thesis using creating by auto
  qed
  then show "n \<le> length (pp_toCreate plan)"
    "0 < n \<Longrightarrow> p \<in> set (pp_toDelete plan) \<Longrightarrow> delete_action p \<in> set as \<and> del p \<in> {WOk, WNotFound}" by blast+
qed

lemma serving_pass:
  assumes s: "serving replicas surge ps" and b: "1 \<le> surge" "0 \<le> wanted replicas" "wanted replicas + surge < 2147483648"
    and ex: "execute_plan own del cre plan = (as, changed, err)" and plan: "plan = calculatePodPlan x e replicas surge ps"
    and c: "carried_out del x as ps ps'"
  shows "serving replicas surge ps'"
proof -
  let ?T = "pp_toDelete plan"
  have keys: "distinct (map delete_action ps)" and n: "int (length (live ps)) \<le> wanted replicas + surge"
    and r: "wanted replicas \<le> int (ready_count ps)" using s by (simp_all add: serving_def)
  obtain D news where ps': "ps' = delete_pods D ps @ news" and D: "D \<subseteq> set as"
    and ok: "\<forall>p \<in> set ps. delete_action p \<in> set as \<longrightarrow> del p \<in> {WOk, WNotFound} \<longrightarrow> delete_action p \<in> D"
    and len: "length news \<le> length (filter (\<lambda>a. \<exists>p. a = CreatePod p) as)" and news: "list_all (new_pod x) news"
    and keys': "distinct (map delete_action (ps @ news))" using c unfolding carried_out_def by blast
  have range: "plan_in_range e replicas surge (live ps)" using b n by (simp add: plan_in_range_def wanted_def)
  have dp: "distinct ps" using keys by (simp add: distinct_map)
  then have dl: "distinct (live ps)" by simp
  note T = plan_shape [OF range dl n plan]
  have inj: "p \<in> set ?T" if p: "p \<in> set (live ps)" "delete_action p \<in> D" for p
  proof -
    obtain q where q: "q \<in> set ?T" "delete_action p = delete_action q"
      using executed_deletions [OF ex, of p] D p(2) by blast
    then have "p = q" using keys p(1) T(2) by (auto simp: distinct_map dest: inj_onD)
    with q(1) show ?thesis by simp
  qed
  let ?hit = "\<lambda>p. delete_action p \<in> D"
  have "length (filter (\<lambda>p. PodIsReady p \<and> ?hit p) (live ps)) \<le> length (filter PodIsReady ?T)"
    using dp inj by (intro distinct_length_subset) auto
  moreover have "ready_count ps' = length (filter (\<lambda>p. PodIsReady p \<and> \<not> ?hit p) (live ps))"
    using live_new_pods [OF news] by (simp add: ps' conj_ac)
  ultimately have "wanted replicas \<le> int (ready_count ps')"
    using T(4) [OF b(1) r] filter_split_length [of PodIsReady "live ps" ?hit] by linarith
  moreover have live': "length (live ps') = length (filter (\<lambda>p. \<not> ?hit p) (live ps)) + length news"
    using live_new_pods [OF news] by (simp add: ps')
  have "int (length (live ps')) \<le> wanted replicas + surge"
  proof (cases news)
    case Nil
    then show ?thesis using live' n length_filter_le [of "\<lambda>p. \<not> ?hit p" "live ps"] by simp
  next
    case (Cons q qs)
    then have "0 < length (filter (\<lambda>a. \<exists>p. a = CreatePod p) as)" using len by (cases "filter (\<lambda>a. \<exists>p. a = CreatePod p) as") simp_all
    then have "set ?T \<subseteq> set (filter ?hit (live ps))"
      using executed_creations(2) [OF ex] ok T(2) by fastforce
    then have "length ?T \<le> length (filter ?hit (live ps))" by (intro distinct_length_subset T(1))
    then show ?thesis
      using T(3) live' len executed_creations(1) [OF ex] filter_split_length [of "\<lambda>p. True" "live ps" ?hit] by simp
  qed
  moreover have "distinct (map delete_action ps')" using keys' by (simp add: ps')
  ultimately show ?thesis by (simp add: serving_def)
qed

lemma serving_step:
  assumes "cluster_step x e replicas surge ps ps'" "serving replicas surge ps"
    and "1 \<le> surge" "0 \<le> wanted replicas" "wanted replicas + surge < 2147483648"
  shows "serving replicas surge ps'"
  using assms(1)
proof cases
  case ControllerPass
  show ?thesis by (rule serving_pass [OF assms(2-5) ControllerPass(1) refl ControllerPass(2)])
next
  case (PodStatus q p us vs)
  then have "delete_action q = delete_action p" by (simp add: delete_action_def)
  then show ?thesis using assms(2) PodStatus by (auto simp: serving_def split: if_splits)
next
  case (PodGone p us vs)
  then show ?thesis using assms(2) by (auto simp: serving_def)
qed

text \<open>C9: A rollout has no downtime. With a surge of at least one, whatever the order of passes, Pods
  that become ready and Pods that go, and also when the API server fails or drops parts of
  a pass, there are at every moment at least as many ready Pods as replicas, once there
  were, and never more Pods than the replicas and the surge.\<close>

theorem rollout_without_downtime:
  assumes "cluster_reach x e replicas surge ps qs" "1 \<le> surge" "0 \<le> wanted replicas" "wanted replicas + surge < 2147483648"
    and "distinct (map delete_action ps)" "int (length (live ps)) \<le> wanted replicas + surge" "wanted replicas \<le> int (ready_count ps)"
  shows "wanted replicas \<le> int (ready_count qs) \<and> int (length (live qs)) \<le> wanted replicas + surge"
proof -
  have "serving replicas surge qs"
    using assms(1)
  proof induction
    case ReachStart
    then show ?case using assms(5-7) by (simp add: serving_def)
  next
    case (ReachStep qs rs)
    then show ?case using assms(2-4) by (intro serving_step [of x e replicas surge qs rs])
  qed
  then show ?thesis by (simp add: serving_def)
qed

theorem rollout_without_downtime_witness:
  "1 \<le> ready_count [plan_pod ''a'' True ''old'' 1, plan_pod ''b'' False ''h'' 2]"
proof -
  let ?x = "plan_pod ''b'' False ''h'' 2"
  let ?plan = "calculatePodPlan ?x ''h'' (Some 1) 1 [plan_pod ''a'' True ''old'' 1]"
  have "pp_toDelete ?plan = []" "pp_toCreate ?plan = [?x]" by code_simp+
  then have ex: "execute_plan Done (\<lambda>p. WOk) (\<lambda>p. WOk) ?plan = ([CreatePod ?x], True, None)" by (simp add: execute_plan_def)
  have new: "new_pod ?x ?x" "\<not> om_deleting (pod_meta ?x)" by code_simp+
  have "carried_out (\<lambda>p. WOk) ?x [CreatePod ?x] [plan_pod ''a'' True ''old'' 1] [plan_pod ''a'' True ''old'' 1, ?x]"
    unfolding carried_out_def using new
    by (intro exI [of _ "{}"] exI [of _ "[?x]"]) (simp add: delete_pods_def delete_action_def plan_pod_def)
  then have "cluster_step ?x ''h'' (Some 1) 1 [plan_pod ''a'' True ''old'' 1] [plan_pod ''a'' True ''old'' 1, ?x]"
    by (rule ControllerPass [OF ex])
  then have "cluster_reach ?x ''h'' (Some 1) 1 [plan_pod ''a'' True ''old'' 1] [plan_pod ''a'' True ''old'' 1, ?x]"
    by (rule ReachStep [OF ReachStart])
  moreover have "PodIsReady (plan_pod ''a'' True ''old'' 1)" "\<not> om_deleting (pod_meta (plan_pod ''a'' True ''old'' 1))" "\<not> PodIsReady ?x"
    by code_simp+
  ultimately show ?thesis
    using rollout_without_downtime [of ?x "''h''" "Some 1" 1 "[plan_pod ''a'' True ''old'' 1]"] by (simp add: wanted_def)
qed

subsection \<open>Convergence\<close>

text \<open>A round: a pass that nothing disturbs, after which every Pod becomes ready or goes.\<close>

definition settles :: "pod list \<Rightarrow> pod list \<Rightarrow> bool" where
  "settles ps qs \<longleftrightarrow> list_all2 (\<lambda>p q. pod_meta q = pod_meta p \<and> PodIsReady q) (live ps) qs"

definition rollout_round :: "pod \<Rightarrow> string \<Rightarrow> int option \<Rightarrow> int \<Rightarrow> pod list \<Rightarrow> pod list \<Rightarrow> bool" where
  "rollout_round x e replicas surge ps ps' \<longleftrightarrow> (\<exists>news.
     (let plan = calculatePodPlan x e replicas surge ps
      in length news = length (pp_toCreate plan)
         \<and> settles (delete_pods (delete_action ` set (pp_toDelete plan)) ps @ news) ps')
     \<and> list_all (new_pod x) news \<and> distinct (map delete_action (ps @ news)))"

definition settled :: "pod list \<Rightarrow> bool" where
  "settled ps \<longleftrightarrow> list_all (\<lambda>p. PodIsReady p \<and> \<not> om_deleting (pod_meta p)) ps \<and> distinct (map delete_action ps)"

definition rolled_out :: "string \<Rightarrow> int option \<Rightarrow> pod list \<Rightarrow> bool" where
  "rolled_out e replicas ps \<longleftrightarrow> settled ps \<and> list_all (\<lambda>p. pod_hash_label p = e) ps \<and> int (length ps) = wanted replicas"

text \<open>A round is a run of the cluster.\<close>

lemma cluster_reach_trans:
  "cluster_reach x e replicas surge qs rs \<Longrightarrow> cluster_reach x e replicas surge ps qs \<Longrightarrow> cluster_reach x e replicas surge ps rs"
  by (induction rule: cluster_reach.induct) (auto intro: cluster_reach.intros)

lemma terminating_pods_go: "cluster_reach x e replicas surge (us @ ps) (us @ live ps)"
proof (induction ps arbitrary: us)
  case (Cons p ps)
  show ?case
  proof (cases "om_deleting (pod_meta p)")
    case True
    then have "cluster_step x e replicas surge (us @ p # ps) (us @ ps)" by (rule PodGone)
    then show ?thesis using cluster_reach_trans [OF Cons ReachStep [OF ReachStart]] True by simp
  next
    case False
    then show ?thesis using Cons [of "us @ [p]"] by simp
  qed
qed (simp add: ReachStart)

lemma pods_become_ready:
  "list_all2 (\<lambda>p q. pod_meta q = pod_meta p \<and> PodIsReady q) ps qs \<Longrightarrow> cluster_reach x e replicas surge (us @ ps) (us @ qs)"
proof (induction ps qs arbitrary: us rule: list_all2_induct)
  case (Cons p ps q qs)
  then have "cluster_step x e replicas surge (us @ p # ps) (us @ q # ps)" by (intro PodStatus) simp_all
  then show ?case using cluster_reach_trans [OF Cons(3) [of "us @ [q]"]] ReachStep [OF ReachStart] by simp
qed (simp add: ReachStart)

lemma undisturbed_execution:
  "execute_plan Done (\<lambda>p. WOk) (\<lambda>p. WOk) plan
    = (map delete_action (pp_toDelete plan) @ map CreatePod (pp_toCreate plan), containsActions plan, None)"
proof -
  have d: "exec_deletes (\<lambda>p. WOk) ps c = (map delete_action ps, c \<or> ps \<noteq> [], None)" for ps c
    by (induction ps arbitrary: c) (simp_all add: delete_action_def)
  have c: "exec_creates Done (\<lambda>p. WOk) ps c = (map CreatePod ps, c \<or> ps \<noteq> [], None)" for ps c
    by (induction ps arbitrary: c) simp_all
  show ?thesis by (auto simp: execute_plan_def d c containsActions_def)
qed

lemma round_reach:
  assumes "rollout_round x e replicas surge ps ps'"
  shows "cluster_reach x e replicas surge ps ps'"
proof -
  let ?plan = "calculatePodPlan x e replicas surge ps"
  let ?D = "delete_action ` set (pp_toDelete ?plan)"
  obtain news where n: "length news = length (pp_toCreate ?plan)" "list_all (new_pod x) news" "distinct (map delete_action (ps @ news))"
    and s: "settles (delete_pods ?D ps @ news) ps'" using assms unfolding rollout_round_def Let_def by blast
  have "filter (\<lambda>a. \<exists>p. a = CreatePod p) (map delete_action qs @ map CreatePod rs) = map CreatePod rs" for qs rs
    by (simp add: filter_empty_conv filter_id_conv)
  then have "carried_out (\<lambda>p. WOk) x (map delete_action (pp_toDelete ?plan) @ map CreatePod (pp_toCreate ?plan)) ps (delete_pods ?D ps @ news)"
    unfolding carried_out_def using n by (intro exI [of _ ?D] exI [of _ news]) auto
  then have "cluster_step x e replicas surge ps (delete_pods ?D ps @ news)"
    by (rule ControllerPass [OF undisturbed_execution])
  then have "cluster_reach x e replicas surge ps (delete_pods ?D ps @ news)" by (rule ReachStep [OF ReachStart])
  moreover have "cluster_reach x e replicas surge (delete_pods ?D ps @ news) (live (delete_pods ?D ps @ news))"
    using terminating_pods_go [of x e replicas surge "[]" "delete_pods ?D ps @ news"] by (simp only: append_Nil)
  moreover have "cluster_reach x e replicas surge (live (delete_pods ?D ps @ news)) ps'"
    using pods_become_ready [of "live (delete_pods ?D ps @ news)" ps' x e replicas surge "[]"] s by (simp add: settles_def)
  ultimately show ?thesis by (meson cluster_reach_trans)
qed

abbreviation old_count :: "string \<Rightarrow> pod list \<Rightarrow> nat" where
  "old_count e ps \<equiv> length (filter (\<lambda>p. pod_hash_label p \<noteq> e) ps)"

text \<open>Two rounds for each out-of-date Pod, and one to reach the wanted number.\<close>

definition rollout_measure :: "string \<Rightarrow> int option \<Rightarrow> int \<Rightarrow> pod list \<Rightarrow> nat" where
  "rollout_measure e replicas surge ps =
     2 * old_count e ps + (if int (length ps) = wanted replicas + (if old_count e ps = 0 then 0 else surge) then 0 else 1)"

lemma settled_live: "settled ps \<Longrightarrow> live ps = ps \<and> filter PodIsReady ps = ps"
  by (auto simp: settled_def list_all_iff filter_id_conv)

lemma filter_by_meta:
  assumes "map pod_meta qs = map pod_meta ps"
  shows "length (filter (\<lambda>p. P (pod_meta p)) qs) = length (filter (\<lambda>p. P (pod_meta p)) ps)"
proof -
  have l: "length (filter (\<lambda>p. P (pod_meta p)) xs) = length (filter P (map pod_meta xs))" for xs by (simp add: filter_map comp_def)
  show ?thesis unfolding l [of qs] l [of ps] assms ..
qed

lemma round_result:
  assumes "rollout_round x e replicas surge ps ps'" "settled ps" "pod_hash_label x = e"
    and "distinct T" "set T \<subseteq> set ps" and T: "T = pp_toDelete (calculatePodPlan x e replicas surge ps)"
  shows "settled ps'" "length ps' + length T = length ps + length (pp_toCreate (calculatePodPlan x e replicas surge ps))"
    "old_count e ps' + old_count e T = old_count e ps"
proof -
  let ?C = "pp_toCreate (calculatePodPlan x e replicas surge ps)" and ?D = "delete_action ` set T"
  obtain news where n: "length news = length ?C" "list_all (new_pod x) news" "distinct (map delete_action (ps @ news))"
    and s: "settles (delete_pods ?D ps @ news) ps'" using assms(1) unfolding rollout_round_def Let_def T by blast
  have live: "live (delete_pods ?D ps @ news) = filter (\<lambda>p. delete_action p \<notin> ?D) ps @ news"
    using settled_live [OF assms(2)] live_new_pods [OF n(2)] by simp
  then have l2: "list_all2 (\<lambda>p q. pod_meta q = pod_meta p \<and> PodIsReady q) (filter (\<lambda>p. delete_action p \<notin> ?D) ps @ news) ps'"
    using s by (simp add: settles_def)
  then have m: "map pod_meta ps' = map pod_meta (filter (\<lambda>p. delete_action p \<notin> ?D) ps @ news)"
    by (induction rule: list_all2_induct) simp_all
  have rdy: "list_all PodIsReady ps'" using l2 by (induction rule: list_all2_induct) simp_all
  have "map delete_action ps' = map (\<lambda>md. DeletePod (om_namespace md) (om_name md)) (map pod_meta ps')"
    by (simp add: delete_action_def)
  also have "\<dots> = map delete_action (filter (\<lambda>p. delete_action p \<notin> ?D) ps @ news)" unfolding m by (simp add: delete_action_def)
  finally have "distinct (map delete_action ps')" using n(3) by (auto simp: distinct_map_filter)
  moreover have "list_all (\<lambda>md. \<not> om_deleting md) (map pod_meta ps')"
    unfolding m using assms(2) n(2) by (auto simp: settled_def new_pod_def list_all_iff)
  ultimately show "settled ps'" using rdy by (auto simp: settled_def list_all_iff)
  have dps: "distinct ps" "inj_on delete_action (set ps)" using n(3) by (simp_all add: distinct_map inj_on_Un)
  then have hit: "delete_action p \<in> ?D \<longleftrightarrow> p \<in> set T" if "p \<in> set ps" for p
    using assms(5) that by (auto dest: inj_onD)
  have counts: "length (filter (\<lambda>p. P p \<and> delete_action p \<in> ?D) ps) = length (filter P T)" for P
  proof -
    have "set (filter (\<lambda>p. P p \<and> delete_action p \<in> ?D) ps) = set (filter P T)" using hit assms(5) by auto
    moreover have "distinct (filter (\<lambda>p. P p \<and> delete_action p \<in> ?D) ps)" "distinct (filter P T)" using dps(1) assms(4) by simp_all
    ultimately show ?thesis by (simp only: distinct_card [symmetric])
  qed
  have "length ps' = length (filter (\<lambda>p. delete_action p \<notin> ?D) ps) + length ?C"
    using arg_cong [OF m, of length] n(1) by simp
  then show "length ps' + length T = length ps + length ?C"
    using counts [of "\<lambda>p. True"] filter_split_length [of "\<lambda>p. True" ps "\<lambda>p. delete_action p \<in> ?D"] by simp
  have "filter (\<lambda>p. pod_hash_label p \<noteq> e) news = []"
    using n(2) assms(3) by (auto simp: filter_empty_conv list_all_iff new_pod_def GetLabel_def)
  then have "old_count e ps' = length (filter (\<lambda>p. pod_hash_label p \<noteq> e \<and> delete_action p \<notin> ?D) ps)"
    using filter_by_meta [OF m, of "\<lambda>md. GetLabel md PodHashLabel \<noteq> e"] by (simp add: conj_commute)
  then show "old_count e ps' + old_count e T = old_count e ps"
    using counts [of "\<lambda>p. pod_hash_label p \<noteq> e"] filter_split_length [of "\<lambda>p. pod_hash_label p \<noteq> e" ps "\<lambda>p. delete_action p \<in> ?D"] by simp
qed

text \<open>The plan for settled Pods: it scales to the wanted number, or it replaces one Pod.\<close>

lemma settled_plan:
  assumes "settled ps" "plan_in_range e replicas surge ps" and plan: "plan = calculatePodPlan x e replicas surge ps"
  defines "k \<equiv> old_count e ps" and "D \<equiv> wanted replicas + (if old_count e ps = 0 then 0 else surge)"
  shows "distinct (pp_toDelete plan)" "set (pp_toDelete plan) \<subseteq> set ps"
    "k = 0 \<or> int (length ps) \<noteq> D \<Longrightarrow>
       int (length ps) + int (length (pp_toCreate plan)) = D + int (length (pp_toDelete plan))"
    "k \<noteq> 0 \<Longrightarrow> int (length ps) = D \<Longrightarrow>
       old_count e (pp_toDelete plan) = 1 \<and> length (pp_toCreate plan) \<le> length (pp_toDelete plan)"
    "k = 0 \<Longrightarrow> int (length ps) = D \<Longrightarrow> \<not> containsActions plan"
proof -
  let ?old = "out_of_date e ps" and ?xs = "live_pods e ps"
  note live = settled_live [OF assms(1)]
  have xs: "length ?xs = length ps" "set ?xs = set ps" "length (filter PodIsReady ?xs) = length ps" "distinct ?xs"
    "length ?old = k"
    using assms(1) live count_live_pods(1) [of e ps] count_live_pods(3) [of e ps]
      count_live_pods(2) [of PodIsReady e ps] count_live_pods(2) [of "\<lambda>p. pod_hash_label p \<noteq> e" e ps]
    by (simp_all add: live_pods_def settled_def distinct_map out_of_date_def k_def)
  have D: "plan_desired e replicas surge ps = D"
    using plan_numbers(1) [OF assms(2)] xs(5) by (auto simp: D_def k_def wanted_def)
  have r: "plan_ready e replicas surge ps \<longleftrightarrow> int (length ps) = D" by (simp add: plan_ready_def xs D)
  have all: "\<forall>p \<in> set ?old. PodIsReady p" using assms(1) by (auto simp: out_of_date_def xs settled_def list_all_iff)
  note eff = plan_effect [OF assms(2), of x, folded plan, unfolded D xs r rolled_all_ready [OF all]]
  have Dp: "0 \<le> D" using assms(2) by (auto simp: D_def plan_in_range_def wanted_def)
  have o: "set ?old \<subseteq> set ps" by (auto simp: out_of_date_def xs)
  have "distinct (pp_toDelete plan) \<and> set (pp_toDelete plan) \<subseteq> set ps
    \<and> (k = 0 \<or> int (length ps) \<noteq> D \<longrightarrow> int (length ps) + int (length (pp_toCreate plan)) = D + int (length (pp_toDelete plan)))
    \<and> (k \<noteq> 0 \<and> int (length ps) = D \<longrightarrow>
        old_count e (pp_toDelete plan) = 1 \<and> length (pp_toCreate plan) \<le> length (pp_toDelete plan))
    \<and> (k = 0 \<and> int (length ps) = D \<longrightarrow> \<not> containsActions plan)"
  proof (cases "int (length ps) = D")
    case True
    then have del: "pp_toDelete plan = take 1 ?old" and cre: "k = 0 \<longrightarrow> pp_toCreate plan = []" using eff xs(5) by simp_all
    have "old_count e (take 1 ?old) = (if k = 0 then 0 else 1)"
      using xs(5) by (cases ?old) (auto simp: out_of_date_def filter_eq_Cons_iff)
    moreover have "distinct (take 1 ?old)" by (cases ?old) simp_all
    moreover have "set (take 1 ?old) \<subseteq> set ps" using set_take_subset o by (rule subset_trans)
    moreover have "length (pp_toCreate plan) \<le> length (pp_toDelete plan)" using eff True by (auto simp: min_le_iff_disj)
    ultimately show ?thesis using True cre xs(5) by (auto simp: del containsActions_def)
  next
    case False
    then have del: "pp_toDelete plan = take (nat (int (length ps) - D)) ?xs"
      and cre: "length (pp_toCreate plan) = nat (D - int (length ps))" using eff by simp_all
    moreover have "set (pp_toDelete plan) \<subseteq> set ps" unfolding del xs(2) [symmetric] by (rule set_take_subset)
    ultimately show ?thesis using False Dp xs(4) by (simp add: xs(1))
  qed
  then show "distinct (pp_toDelete plan)" "set (pp_toDelete plan) \<subseteq> set ps"
    "k = 0 \<or> int (length ps) \<noteq> D \<Longrightarrow> int (length ps) + int (length (pp_toCreate plan)) = D + int (length (pp_toDelete plan))"
    "k \<noteq> 0 \<Longrightarrow> int (length ps) = D \<Longrightarrow>
       old_count e (pp_toDelete plan) = 1 \<and> length (pp_toCreate plan) \<le> length (pp_toDelete plan)"
    "k = 0 \<Longrightarrow> int (length ps) = D \<Longrightarrow> \<not> containsActions plan" by blast+
qed

lemma rolled_out_measure: "settled ps \<Longrightarrow> rollout_measure e replicas surge ps = 0 \<longleftrightarrow> rolled_out e replicas ps"
  by (auto simp: rollout_measure_def rolled_out_def list_all_iff filter_empty_conv)

lemma round_progress:
  assumes r: "rollout_round x e replicas surge ps ps'" and s: "settled ps" and h: "pod_hash_label x = e"
    and b: "0 \<le> wanted replicas" "0 \<le> surge" "wanted replicas + surge < 2147483648" "int (length ps) < 2147483648"
  shows "settled ps'" "int (length ps') < 2147483648"
    "rollout_measure e replicas surge ps' < rollout_measure e replicas surge ps \<or> rolled_out e replicas ps'"
proof -
  let ?plan = "calculatePodPlan x e replicas surge ps" and ?k = "old_count e ps" and ?k' = "old_count e ps'"
  let ?D = "wanted replicas + (if ?k = 0 then 0 else surge)"
  have "plan_in_range e replicas surge ps" using b by (simp add: plan_in_range_def wanted_def)
  note plan = settled_plan [OF s this refl, of x]
  note res = round_result [OF r s h plan(1,2) refl]
  show s': "settled ps'" by (rule res(1))
  have "int (length ps') < 2147483648
    \<and> (rollout_measure e replicas surge ps' < rollout_measure e replicas surge ps \<or> rollout_measure e replicas surge ps' = 0)"
  proof (cases "?k = 0 \<or> int (length ps) \<noteq> ?D")
    case True
    then have m: "int (length ps') = ?D" using plan(3) res(2) by linarith
    have "?k' \<le> ?k" using res(3) by simp
    then show ?thesis using True m b by (cases "?k' = 0") (auto simp: rollout_measure_def)
  next
    case False
    then have "old_count e (pp_toDelete ?plan) = 1" "length (pp_toCreate ?plan) \<le> length (pp_toDelete ?plan)" using plan(4) by auto
    then have "?k' + 1 = ?k" "length ps' \<le> length ps" using res(2,3) by linarith+
    then show ?thesis using b by (auto simp: rollout_measure_def)
  qed
  then show "int (length ps') < 2147483648"
    "rollout_measure e replicas surge ps' < rollout_measure e replicas surge ps \<or> rolled_out e replicas ps'"
    unfolding rolled_out_measure [OF s'] by blast+
qed

text \<open>C10: A rollout terminates. However many Pods are out of date, and whatever number there is, after at
  most two rounds for each of them and one more the Model has exactly the wanted number of
  Pods, all ready and up to date, and a pass finds nothing to do; and it stays so. Rounds are
  runs of the cluster.\<close>

theorem rollout_converges:
  assumes "\<And>i. rollout_round x e replicas surge (f i) (f (Suc i))" "settled (f 0)" "pod_hash_label x = e"
    and "0 \<le> wanted replicas" "0 \<le> surge" "wanted replicas + surge < 2147483648" "int (length (f 0)) < 2147483648"
    and "2 * old_count e (f 0) + 1 \<le> i"
  shows "rolled_out e replicas (f i) \<and> \<not> containsActions (calculatePodPlan x e replicas surge (f i))
    \<and> cluster_reach x e replicas surge (f 0) (f i)"
proof -
  let ?m = "\<lambda>i. rollout_measure e replicas surge (f i)"
  have inv: "settled (f i) \<and> int (length (f i)) < 2147483648 \<and> (?m i = 0 \<or> ?m i + i \<le> ?m 0)" for i
  proof (induction i)
    case (Suc i)
    then have "settled (f i)" "int (length (f i)) < 2147483648" by blast+
    note p = round_progress [OF assms(1) [of i] this(1) assms(3-6) this(2)]
    have "?m (Suc i) = 0 \<or> ?m (Suc i) < ?m i" using p(1,3) Suc rolled_out_measure by blast
    moreover have "?m (Suc i) = 0 \<or> 0 < ?m i" using calculation by linarith
    ultimately have "?m (Suc i) = 0 \<or> ?m (Suc i) + Suc i \<le> ?m 0" using Suc by linarith
    then show ?case using p(1,2) Suc by blast
  next
    case 0
    show ?case using assms(2,7) by simp
  qed
  have "?m 0 \<le> 2 * old_count e (f 0) + 1" by (simp add: rollout_measure_def)
  then have "?m i = 0" using inv [of i] assms(8) by linarith
  then have ro: "rolled_out e replicas (f i)" using inv [of i] rolled_out_measure by blast
  then have "old_count e (f i) = 0" "int (length (f i)) = wanted replicas"
    by (auto simp: rolled_out_def filter_empty_conv list_all_iff)
  moreover have "plan_in_range e replicas surge (f i)" using inv [of i] assms(4-6) by (simp add: plan_in_range_def wanted_def)
  ultimately have "\<not> containsActions (calculatePodPlan x e replicas surge (f i))"
    using settled_plan(5) [OF _ _ refl] inv [of i] by simp
  moreover have "cluster_reach x e replicas surge (f 0) (f j)" for j
    by (induction j) (auto intro: ReachStart cluster_reach_trans round_reach assms(1))
  ultimately show ?thesis using ro by blast
qed

theorem rollout_converges_witness:
  "rolled_out ''h'' (Some 1) [plan_pod ''n'' True ''h'' 2]
   \<and> cluster_reach (plan_pod ''n'' False ''h'' 2) ''h'' (Some 1) 0 [plan_pod ''a'' True ''old'' 1] [plan_pod ''n'' True ''h'' 2]"
proof -
  let ?x = "plan_pod ''n'' False ''h'' 2" and ?a = "plan_pod ''a'' True ''old'' 1" and ?n = "plan_pod ''n'' True ''h'' 2"
  let ?f = "\<lambda>i :: nat. if i = 0 then [?a] else [?n]"
  have facts: "PodIsReady ?a" "PodIsReady ?n" "\<not> om_deleting (pod_meta ?a)" "\<not> om_deleting (pod_meta ?n)" "new_pod ?x ?x"
    "pod_hash_label ?x = ''h''" "delete_action ?x \<noteq> delete_action ?a" "pod_meta ?n = pod_meta ?x" "\<not> om_deleting (pod_meta ?x)"
    by code_simp+
  have "pp_toDelete (calculatePodPlan ?x ''h'' (Some 1) 0 [?a]) = [?a]" "pp_toCreate (calculatePodPlan ?x ''h'' (Some 1) 0 [?a]) = [?x]"
    "pp_toDelete (calculatePodPlan ?x ''h'' (Some 1) 0 [?n]) = []" "pp_toCreate (calculatePodPlan ?x ''h'' (Some 1) 0 [?n]) = []"
    by code_simp+
  note plans = this
  have "rollout_round ?x ''h'' (Some 1) 0 [?a] [?n]"
    unfolding rollout_round_def Let_def plans
    using facts by (intro exI [of _ "[?x]"]) (auto simp: settles_def delete_pods_def terminate_pod_def)
  moreover have "rollout_round ?x ''h'' (Some 1) 0 [?n] [?n]"
    unfolding rollout_round_def Let_def plans using facts by (intro exI [of _ "[]"]) (simp add: settles_def delete_pods_def)
  ultimately have "rollout_round ?x ''h'' (Some 1) 0 (?f i) (?f (Suc i))" for i by simp
  moreover have "settled (?f 0)" using facts by (simp add: settled_def)
  moreover have "2 * old_count ''h'' (?f 0) + 1 \<le> 3" by simp
  ultimately show ?thesis
    using rollout_converges [of ?x "''h''" "Some 1" 0 ?f 3] facts by (simp add: wanted_def)
qed

end
