(* ===== verification/Model_Source.thy ===== *)
theory Model_Source
  imports System_Config
begin

section \<open>Model sources\<close>

text \<open>
  \<open>internal/modelcontroller/model_source.go\<close>: the URL of a Model and what it adds to the Pods
  that load it. The two regular expressions are written as scanners: their classes do not
  overlap with the literal that follows, so a match is unique. \<open>url.ParseQuery\<close> is the one of
  Go's standard library.
\<close>

subsection \<open>Model URLs\<close>

record model_url =
  mu_original :: string
  mu_scheme :: string
  mu_ref :: string
  mu_name :: string
  mu_path :: string
  mu_modelParam :: string
  mu_insecure :: bool
  mu_pull :: bool

definition char_in :: "nat \<Rightarrow> nat \<Rightarrow> char \<Rightarrow> bool" where
  "char_in a b c \<longleftrightarrow> a \<le> (of_char c :: nat) \<and> (of_char c :: nat) \<le> b"

text \<open>The class \<open>[a-z0-9]\<close> of a scheme and the class \<open>[a-zA-Z0-9._:/-]\<close> of a reference.\<close>

definition scheme_char :: "char \<Rightarrow> bool" where
  "scheme_char c \<longleftrightarrow> char_in 97 122 c \<or> char_in 48 57 c"

definition ref_char :: "char \<Rightarrow> bool" where
  "ref_char c \<longleftrightarrow> char_in 97 122 c \<or> char_in 65 90 c \<or> char_in 48 57 c \<or> c \<in> set ''._:/-''"

text \<open>The submatches of \<open>modelURLRegex\<close>: scheme, reference, and the query with its question mark.\<close>

definition modelURLRegex :: "string \<Rightarrow> (string \<times> string \<times> string) option" where
  "modelURLRegex s =
     (let scheme = takeWhile scheme_char s; s1 = dropWhile scheme_char s;
          s2 = trim_prefix s1 ''://''; ref = takeWhile ref_char s2; query = dropWhile ref_char s2
      in if scheme \<noteq> [] \<and> has_prefix s1 ''://'' \<and> ref \<noteq> []
            \<and> (query = [] \<or> hd query = CHR ''?'' \<and> CHR 0x0A \<notin> set query)
         then Some (scheme, ref, query) else None)"

definition safeQueryParamModelRef :: "string \<Rightarrow> bool" where
  "safeQueryParamModelRef s \<longleftrightarrow> s \<noteq> [] \<and> list_all ref_char s"

subsection \<open>Query strings\<close>

definition hex_val :: "char \<Rightarrow> nat option" where
  "hex_val c = (let n = of_char c :: nat in
     if char_in 48 57 c then Some (n - 48) else if char_in 97 102 c then Some (n - 87)
     else if char_in 65 70 c then Some (n - 55) else None)"

fun query_unescape :: "string \<Rightarrow> string option" where
  "query_unescape [] = Some []"
| "query_unescape (c # s) =
     (if c = CHR ''%'' then
        (case s of
           h # l # s' \<Rightarrow>
             (case (hex_val h, hex_val l) of
                (Some a, Some b) \<Rightarrow> map_option ((#) (char_of (16 * a + b))) (query_unescape s')
              | _ \<Rightarrow> None)
         | _ \<Rightarrow> None)
      else map_option ((#) (if c = CHR ''+'' then CHR '' '' else c)) (query_unescape s))"

text \<open>One piece of a query: nothing, an error, or a key and a value.\<close>

definition query_pair :: "string \<Rightarrow> (string \<times> string) option option" where
  "query_pair kv =
     (if CHR '';'' \<in> set kv then None
      else if kv = [] then Some None
      else (case str_cut (CHR ''='') kv of (k, v, _) \<Rightarrow>
        (case (query_unescape k, query_unescape v) of
           (Some k', Some v') \<Rightarrow> Some (Some (k', v'))
         | _ \<Rightarrow> None)))"

definition ParseQuery :: "string \<Rightarrow> (string \<times> string) list option" where
  "ParseQuery q =
     (let ps = map query_pair (str_split (CHR ''&'') q)
      in if None \<in> set ps then None else Some (List.map_filter (\<lambda>p. case p of Some kv \<Rightarrow> kv | None \<Rightarrow> None) ps))"

definition values_Get :: "(string \<times> string) list \<Rightarrow> string \<Rightarrow> string" where
  "values_Get vs k = (case map_of vs k of None \<Rightarrow> [] | Some v \<Rightarrow> v)"

subsection \<open>Parsing\<close>

definition parseModelURL :: "string \<Rightarrow> (string, model_url) outcome" where
  "parseModelURL urlStr =
     (case modelURLRegex urlStr of
        None \<Rightarrow> Error (''invalid model URL: '' @ urlStr)
      | Some (scheme, ref, m3) \<Rightarrow>
          (case str_cut (CHR ''/'') ref of (name, path, _) \<Rightarrow>
            (case ParseQuery (trim_prefix m3 ''?'') of
               None \<Rightarrow> Error (''invalid query parameters in model URL: '' @ urlStr)
             | Some q \<Rightarrow>
                 (let modelname = values_Get q ''model''
                  in if modelname \<noteq> [] \<and> \<not> safeQueryParamModelRef modelname then
                       Error (''invalid model parameter in URL: '' @ modelname)
                     else Done \<lparr>mu_original = urlStr, mu_scheme = scheme, mu_ref = ref, mu_name = name,
                       mu_path = path, mu_modelParam = modelname,
                       mu_insecure = (str_lower (values_Get q ''insecure'') = ''true''),
                       mu_pull = (str_lower (values_Get q ''pull'') \<noteq> ''false'')\<rparr>))))"

subsection \<open>Pod additions\<close>

record pod_additions =
  pa_envFrom :: "opaque list"
  pa_env :: "env_var list"
  pa_volumes :: "volume list"
  pa_mounts :: "volume_mount list"
  pa_pull_secrets :: "string list"

definition no_additions :: pod_additions where
  "no_additions = \<lparr>pa_envFrom = [], pa_env = [], pa_volumes = [], pa_mounts = [], pa_pull_secrets = []\<rparr>"

definition additions_append :: "pod_additions \<Rightarrow> pod_additions \<Rightarrow> pod_additions" where
  "additions_append c d = \<lparr>pa_envFrom = pa_envFrom c @ pa_envFrom d, pa_env = pa_env c @ pa_env d,
     pa_volumes = pa_volumes c @ pa_volumes d, pa_mounts = pa_mounts c @ pa_mounts d,
     pa_pull_secrets = pa_pull_secrets c @ pa_pull_secrets d\<rparr>"

text \<open>Indexing past the containers panics.\<close>

definition add_to_container :: "pod_additions \<Rightarrow> container \<Rightarrow> container" where
  "add_to_container c ct = ct\<lparr>c_env_from := c_env_from ct @ pa_envFrom c, c_env := c_env ct @ pa_env c,
     c_mounts := c_mounts ct @ pa_mounts c\<rparr>"

definition applyToPodSpec :: "pod_additions \<Rightarrow> nat \<Rightarrow> pod_spec \<Rightarrow> (string, pod_spec) outcome" where
  "applyToPodSpec c i spec =
     (if i < length (ps_containers spec) then
        Done (spec\<lparr>ps_containers := (ps_containers spec)[i := add_to_container c (ps_containers spec ! i)],
          ps_volumes := ps_volumes spec @ pa_volumes c, ps_pull_secrets := ps_pull_secrets spec @ pa_pull_secrets c\<rparr>)
      else Panic ''index out of range'')"

definition plain_env :: "string \<Rightarrow> string \<Rightarrow> env_var" where
  "plain_env n v = \<lparr>ev_name = n, ev_value = v, ev_secret = None\<rparr>"

definition secret_env :: "string \<Rightarrow> string \<Rightarrow> string \<Rightarrow> env_var" where
  "secret_env n secret key = \<lparr>ev_name = n, ev_value = [], ev_secret = Some (secret, key)\<rparr>"

definition authForS3 :: "secret_names \<Rightarrow> pod_additions" where
  "authForS3 sn = no_additions\<lparr>pa_env := [secret_env ''AWS_ACCESS_KEY_ID'' (sn_AWS sn) ''accessKeyID'',
     secret_env ''AWS_SECRET_ACCESS_KEY'' (sn_AWS sn) ''secretAccessKey'']\<rparr>"

definition authForHuggingfaceHub :: "secret_names \<Rightarrow> pod_additions" where
  "authForHuggingfaceHub sn = no_additions\<lparr>pa_env := [secret_env ''HF_TOKEN'' (sn_Huggingface sn) ''token'']\<rparr>"

definition authForGCS :: "secret_names \<Rightarrow> pod_additions" where
  "authForGCS sn = no_additions\<lparr>
     pa_env := [plain_env ''GOOGLE_APPLICATION_CREDENTIALS'' ''/secrets/gcp-credentials/credentials.json''],
     pa_volumes := [\<lparr>vol_name = ''gcp-credentials'', vol_source = VolSecret (sn_GCP sn) [(''jsonKeyfile'', ''credentials.json'')]\<rparr>],
     pa_mounts := [\<lparr>vm_name = ''gcp-credentials'', vm_path = ''/secrets/gcp-credentials'', vm_subpath = [], vm_readonly = False\<rparr>]\<rparr>"

definition authForOSS :: "secret_names \<Rightarrow> pod_additions" where
  "authForOSS sn = no_additions\<lparr>pa_env := [secret_env ''OSS_ACCESS_KEY_ID'' (sn_Alibaba sn) ''accessKeyID'',
     secret_env ''OSS_ACCESS_KEY_SECRET'' (sn_Alibaba sn) ''accessKeySecret'']\<rparr>"

definition pvcPodAdditions :: "model_url \<Rightarrow> pod_additions" where
  "pvcPodAdditions u = no_additions\<lparr>
     pa_volumes := [\<lparr>vol_name = ''model'', vol_source = VolPVC (mu_name u)\<rparr>],
     pa_mounts := [\<lparr>vm_name = ''model'', vm_path = ''/model'', vm_subpath = dropWhile (\<lambda>c. c = CHR ''/'') (mu_path u),
       vm_readonly = False\<rparr>]\<rparr>"

definition ociPodAdditions :: "secret_names \<Rightarrow> model_url \<Rightarrow> pod_additions" where
  "ociPodAdditions sn u = no_additions\<lparr>
     pa_volumes := [\<lparr>vol_name = ''model'', vol_source = VolImage (mu_name u @ ''/'' @ mu_path u) ''IfNotPresent''\<rparr>],
     pa_mounts := [\<lparr>vm_name = ''model'', vm_path = ''/model'', vm_subpath = [], vm_readonly = False\<rparr>],
     pa_pull_secrets := [sn_OCI sn]\<rparr>"

definition modelAuthCredentialsForAllSources :: "secret_names \<Rightarrow> pod_additions" where
  "modelAuthCredentialsForAllSources sn =
     (let c = additions_append no_additions (authForHuggingfaceHub sn);
          c = additions_append c (authForGCS sn);
          c = additions_append c (authForOSS sn)
      in additions_append c (authForS3 sn))"

definition modelEnvFrom :: "model_spec \<Rightarrow> pod_additions" where
  "modelEnvFrom sp = (case ms_EnvFrom sp of None \<Rightarrow> no_additions | Some e \<Rightarrow> no_additions\<lparr>pa_envFrom := e\<rparr>)"

record model_source =
  src_additions :: pod_additions
  src_url :: model_url

definition source_additions :: "secret_names \<Rightarrow> model_url \<Rightarrow> pod_additions" where
  "source_additions sn u =
     (if mu_scheme u = ''gs'' then authForGCS sn
      else if mu_scheme u = ''oss'' then authForOSS sn
      else if mu_scheme u = ''s3'' then authForS3 sn
      else if mu_scheme u = ''hf'' then authForHuggingfaceHub sn
      else if mu_scheme u = ''pvc'' then pvcPodAdditions u
      else if mu_scheme u = ''oci'' then ociPodAdditions sn u
      else no_additions)"

definition parseModelSource :: "secret_names \<Rightarrow> string \<Rightarrow> (string, model_source) outcome" where
  "parseModelSource sn urlStr =
     outcome_bind (parseModelURL urlStr) (\<lambda>u. Done \<lparr>src_additions = source_additions sn u, src_url = u\<rparr>)"


subsection \<open>What a parsed URL looks like\<close>

lemma modelURLRegex_eq:
  "modelURLRegex s = Some (scheme, ref, query) \<longleftrightarrow>
     s = scheme @ ''://'' @ ref @ query \<and> scheme \<noteq> [] \<and> list_all scheme_char scheme \<and> ref \<noteq> [] \<and> list_all ref_char ref
     \<and> (query = [] \<or> hd query = CHR ''?'' \<and> CHR 0x0A \<notin> set query)"
proof
  assume m: "modelURLRegex s = Some (scheme, ref, query)"
  let ?s1 = "dropWhile scheme_char s"
  have p: "has_prefix ?s1 ''://''" and sch: "scheme = takeWhile scheme_char s" "scheme \<noteq> []"
    and ref: "ref = takeWhile ref_char (trim_prefix ?s1 ''://'')" "ref \<noteq> []"
    and q: "query = dropWhile ref_char (trim_prefix ?s1 ''://'')"
       "query = [] \<or> hd query = CHR ''?'' \<and> CHR 0x0A \<notin> set query"
    using m by (auto simp: modelURLRegex_def Let_def split: if_splits)
  have "s = scheme @ ?s1" by (simp add: sch(1))
  moreover have "?s1 = ''://'' @ ref @ query" using has_prefixE [OF p] by (simp add: ref(1) q(1))
  ultimately have "s = scheme @ ''://'' @ ref @ query" by simp
  moreover have "list_all scheme_char scheme" "list_all ref_char ref"
    by (auto simp: sch(1) ref(1) list_all_iff dest: set_takeWhileD)
  ultimately show "s = scheme @ ''://'' @ ref @ query \<and> scheme \<noteq> [] \<and> list_all scheme_char scheme \<and> ref \<noteq> []
      \<and> list_all ref_char ref \<and> (query = [] \<or> hd query = CHR ''?'' \<and> CHR 0x0A \<notin> set query)"
    using sch(2) ref(2) q(2) by blast
next
  assume r: "s = scheme @ ''://'' @ ref @ query \<and> scheme \<noteq> [] \<and> list_all scheme_char scheme \<and> ref \<noteq> [] \<and> list_all ref_char ref
     \<and> (query = [] \<or> hd query = CHR ''?'' \<and> CHR 0x0A \<notin> set query)"
  have colon: "\<not> scheme_char (CHR '':'')" by (simp add: scheme_char_def char_in_def)
  have quest: "\<not> ref_char (CHR ''?'')" by (simp add: ref_char_def char_in_def)
  have 1: "takeWhile scheme_char s = scheme" "dropWhile scheme_char s = ''://'' @ ref @ query"
    using r colon by (simp_all add: takeWhile_append2 dropWhile_append2 list_all_iff)
  have 2: "takeWhile ref_char (ref @ query) = ref" "dropWhile ref_char (ref @ query) = query"
    using r quest by (cases query; simp add: takeWhile_append2 dropWhile_append2 list_all_iff)+
  have 3: "has_prefix (''://'' @ ref @ query) ''://''" "trim_prefix (''://'' @ ref @ query) ''://'' = ref @ query"
    by (rule has_prefix_append, rule trim_prefix_append)
  show "modelURLRegex s = Some (scheme, ref, query)"
    unfolding modelURLRegex_def Let_def 1 3(2) 2 using r 3(1) by simp
qed

lemma parseModelURL_Done:
  assumes "parseModelURL s = Done u"
  obtains query q where "modelURLRegex s = Some (mu_scheme u, mu_ref u, query)"
    "ParseQuery (trim_prefix query ''?'') = Some q" "mu_original u = s"
    "str_cut (CHR ''/'') (mu_ref u) = (mu_name u, mu_path u, CHR ''/'' \<in> set (mu_ref u))"
    "mu_modelParam u = values_Get q ''model''" "mu_modelParam u = [] \<or> safeQueryParamModelRef (mu_modelParam u)"
proof -
  obtain scheme ref m3 where m: "modelURLRegex s = Some (scheme, ref, m3)"
    using assms by (auto simp: parseModelURL_def split: option.splits)
  obtain name path b where c: "str_cut (CHR ''/'') ref = (name, path, b)" by (rule prod_cases3)
  obtain q where q: "ParseQuery (trim_prefix m3 ''?'') = Some q"
    using assms by (auto simp: parseModelURL_def m c split: option.splits)
  have safe: "values_Get q ''model'' = [] \<or> safeQueryParamModelRef (values_Get q ''model'')"
    and u: "mu_original u = s" "mu_scheme u = scheme" "mu_ref u = ref" "mu_name u = name" "mu_path u = path"
      "mu_modelParam u = values_Get q ''model''"
    using assms by (auto simp: parseModelURL_def m c q Let_def split: if_splits)
  have "b = (CHR ''/'' \<in> set ref)" using c by (auto simp: str_cut_def split: if_splits)
  then show ?thesis using m q c safe by (intro that [of m3 q]) (simp_all add: u)
qed

text \<open>A parsed Model URL is the URL itself, taken apart, and everything the controller later
  puts on a command line (reference, name, path and the model parameter) consists of
  letters, digits and \<open>._:/-\<close> only: no shell metacharacter gets through.\<close>

theorem parseModelURL_parts:
  assumes "parseModelURL s = Done u"
  shows "mu_original u = s \<and> has_prefix s (mu_scheme u @ ''://'' @ mu_ref u)
    \<and> (mu_ref u = mu_name u \<and> mu_path u = [] \<or> mu_ref u = mu_name u @ CHR ''/'' # mu_path u)
    \<and> CHR ''/'' \<notin> set (mu_name u) \<and> mu_ref u \<noteq> []
    \<and> list_all ref_char (mu_ref u) \<and> list_all ref_char (mu_modelParam u)"
proof -
  obtain query q where m: "modelURLRegex s = Some (mu_scheme u, mu_ref u, query)" and o: "mu_original u = s"
    and c: "str_cut (CHR ''/'') (mu_ref u) = (mu_name u, mu_path u, CHR ''/'' \<in> set (mu_ref u))"
    and p: "mu_modelParam u = [] \<or> safeQueryParamModelRef (mu_modelParam u)"
    by (rule parseModelURL_Done [OF assms])
  from m have s: "s = mu_scheme u @ ''://'' @ mu_ref u @ query" and r: "mu_ref u \<noteq> []" "list_all ref_char (mu_ref u)"
    unfolding modelURLRegex_eq by blast+
  have "s = (mu_scheme u @ ''://'' @ mu_ref u) @ query" by (subst s) simp
  then have "has_prefix s (mu_scheme u @ ''://'' @ mu_ref u)" using has_prefix_append by metis
  moreover have "(mu_ref u = mu_name u \<and> mu_path u = [] \<or> mu_ref u = mu_name u @ CHR ''/'' # mu_path u) \<and> CHR ''/'' \<notin> set (mu_name u)"
  proof (cases "CHR ''/'' \<in> set (mu_ref u)")
    case True
    then show ?thesis using c str_cut_found [of "CHR ''/''" "mu_ref u" "mu_name u" "mu_path u"] by simp
  next
    case False
    then show ?thesis using c str_cut_none [OF False] by auto
  qed
  moreover have "list_all ref_char (mu_modelParam u)" using p by (auto simp: safeQueryParamModelRef_def)
  ultimately show ?thesis using o r by blast
qed

theorem parseModelURL_parts_witness:
  "\<exists>u. parseModelURL ''pvc://my-pvc/dir?model=qwen2:0.5b'' = Done u \<and> mu_name u = ''my-pvc'' \<and> mu_path u = ''dir''
    \<and> list_all ref_char (mu_modelParam u)"
proof -
  have "map_option mu_name (case parseModelURL ''pvc://my-pvc/dir?model=qwen2:0.5b'' of Done u \<Rightarrow> Some u | _ \<Rightarrow> None) = Some ''my-pvc''"
    "map_option mu_path (case parseModelURL ''pvc://my-pvc/dir?model=qwen2:0.5b'' of Done u \<Rightarrow> Some u | _ \<Rightarrow> None) = Some ''dir''" by code_simp+
  then obtain u where u: "parseModelURL ''pvc://my-pvc/dir?model=qwen2:0.5b'' = Done u" "mu_name u = ''my-pvc''" "mu_path u = ''dir''"
    by (auto split: outcome.splits)
  then show ?thesis using parseModelURL_parts [OF u(1)] by blast
qed

text \<open>Every well-formed URL without a query is accepted, with its scheme and reference, and then the
  Model is pulled, from a secure registry.\<close>

theorem parseModelURL_accepts:
  assumes "scheme \<noteq> []" "list_all scheme_char scheme" "ref \<noteq> []" "list_all ref_char ref"
  shows "\<exists>u. parseModelURL (scheme @ ''://'' @ ref) = Done u \<and> mu_scheme u = scheme \<and> mu_ref u = ref
    \<and> mu_modelParam u = [] \<and> \<not> mu_insecure u \<and> mu_pull u"
proof -
  define s where "s = scheme @ ''://'' @ ref"
  have m: "modelURLRegex s = Some (scheme, ref, [])"
    using assms unfolding modelURLRegex_eq s_def by simp
  obtain name path b where c: "str_cut (CHR ''/'') ref = (name, path, b)" by (rule prod_cases3)
  have q: "ParseQuery [] = Some []" by (simp add: ParseQuery_def query_pair_def List.map_filter_def)
  show ?thesis
    unfolding s_def [symmetric] by (simp add: parseModelURL_def m c q trim_prefix_def values_Get_def Let_def str_lower_def)
qed

theorem parseModelURL_accepts_witness:
  "\<exists>u. parseModelURL ''hf://org/model'' = Done u \<and> mu_scheme u = ''hf'' \<and> mu_ref u = ''org/model''"
proof -
  have "list_all scheme_char ''hf''" "list_all ref_char ''org/model''" by code_simp+
  then show ?thesis using parseModelURL_accepts [of "''hf''" "''org/model''"] by auto
qed

subsection \<open>Mounts have volumes\<close>

definition mounts_covered :: "pod_spec \<Rightarrow> bool" where
  "mounts_covered spec \<longleftrightarrow> (\<forall>c \<in> set (ps_containers spec). vm_name ` set (c_mounts c) \<subseteq> vol_name ` set (ps_volumes spec))"

definition additions_covered :: "pod_additions \<Rightarrow> bool" where
  "additions_covered a \<longleftrightarrow> vm_name ` set (pa_mounts a) \<subseteq> vol_name ` set (pa_volumes a)"

lemma additions_covered_simps [simp]:
  "additions_covered no_additions" "additions_covered (authForS3 sn)" "additions_covered (authForHuggingfaceHub sn)"
  "additions_covered (authForGCS sn)" "additions_covered (authForOSS sn)" "additions_covered (pvcPodAdditions u)"
  "additions_covered (ociPodAdditions sn u)" "additions_covered (modelEnvFrom sp)"
  "additions_covered (c\<lparr>pa_envFrom := e\<rparr>) = additions_covered c"
  by (simp_all add: additions_covered_def no_additions_def authForS3_def authForHuggingfaceHub_def authForGCS_def
      authForOSS_def pvcPodAdditions_def ociPodAdditions_def modelEnvFrom_def split: option.splits)

lemma additions_covered_append [simp]:
  "additions_covered c \<Longrightarrow> additions_covered d \<Longrightarrow> additions_covered (additions_append c d)"
  by (auto simp: additions_covered_def additions_append_def)

lemma additions_covered_source [simp]: "additions_covered (source_additions sn u)"
  by (simp add: source_additions_def)

lemma additions_covered_all [simp]: "additions_covered (modelAuthCredentialsForAllSources sn)"
  by (simp add: modelAuthCredentialsForAllSources_def Let_def)

lemma applyToPodSpec_covered:
  assumes "applyToPodSpec a i spec = Done spec'" "mounts_covered spec" "additions_covered a"
  shows "mounts_covered spec'"
proof -
  have i: "i < length (ps_containers spec)"
    and s: "spec' = spec\<lparr>ps_containers := (ps_containers spec)[i := add_to_container a (ps_containers spec ! i)],
          ps_volumes := ps_volumes spec @ pa_volumes a, ps_pull_secrets := ps_pull_secrets spec @ pa_pull_secrets a\<rparr>"
    using assms(1) by (auto simp: applyToPodSpec_def split: if_splits)
  have "vm_name ` set (c_mounts c) \<subseteq> vol_name ` set (ps_volumes spec')" if "c \<in> set (ps_containers spec')" for c
  proof -
    from that consider "c \<in> set (ps_containers spec)" | "c = add_to_container a (ps_containers spec ! i)"
      using set_update_subset_insert [of "ps_containers spec" i] by (auto simp: s)
    then show ?thesis
    proof cases
      case 1
      then show ?thesis using assms(2) by (auto simp: s mounts_covered_def)
    next
      case 2
      have "ps_containers spec ! i \<in> set (ps_containers spec)" using i by simp
      then have "vm_name ` set (c_mounts (ps_containers spec ! i)) \<subseteq> vol_name ` set (ps_volumes spec)"
        using assms(2) by (auto simp: mounts_covered_def)
      then show ?thesis using assms(3) by (auto simp: 2 s add_to_container_def additions_covered_def)
    qed
  qed
  then show ?thesis by (auto simp: mounts_covered_def)
qed

lemma applyToPodSpec_zero:
  "ps_containers spec = ct # cts \<Longrightarrow> applyToPodSpec a 0 spec = Done (spec\<lparr>ps_containers := add_to_container a ct # cts,
      ps_volumes := ps_volumes spec @ pa_volumes a, ps_pull_secrets := ps_pull_secrets spec @ pa_pull_secrets a\<rparr>)"
  by (simp add: applyToPodSpec_def)

end
