(* ===== verification/Model_Pods.thy ===== *)
theory Model_Pods
  imports Model_Source Pod_Plan
begin

section \<open>The Pods of a Model\<close>

text \<open>
  What the controller puts into a model server Pod: labels and annotations
  (\<open>model_controller.go\<close>), the volumes of files (\<open>files.go\<close>), adapters (\<open>adapters.go\<close>) and caches
  (\<open>cache.go\<close>), and the four engines (\<open>engine_vllm.go\<close>, \<open>engine_ollama.go\<close>,
  \<open>engine_fasterwhisper.go\<close>, \<open>engine_infinity.go\<close>). The record \<open>reconciler\<close> holds the
  configuration fields of \<open>ModelReconciler\<close>.
\<close>

record reconciler =
  rc_ProxyMode :: string
  rc_AllowPodAddressOverride :: bool
  rc_SecretNames :: secret_names
  rc_ResourceProfiles :: "(string, resource_profile) gomap"
  rc_CacheProfiles :: "(string, cache_profile) gomap"
  rc_ModelServers :: model_servers
  rc_ModelServerPods :: model_server_pods
  rc_ModelLoadersImage :: string
  rc_Surge :: int

record model_config =
  cfg_CacheProfile :: cache_profile
  cfg_ResourceProfile :: resource_profile
  cfg_Image :: string
  cfg_Source :: model_source

definition serverContainerName :: string where "serverContainerName = ''server''"
definition modelFilesVolumeName :: string where "modelFilesVolumeName = ''model-files''"
definition appKubernetesIOName :: string where "appKubernetesIOName = ''app.kubernetes.io/name''"

subsection \<open>Labels and annotations\<close>

definition labelsForModel :: "model \<Rightarrow> (string, string) gomap" where
  "labelsForModel m =
     (let engine = str_lower (ms_Engine (md_spec m));
          base = [(''app'', ''model''), (''model'', md_name m), (''kubeai.org/model'', md_name m),
            (''kubeai.org/model-uid'', om_uid (md_meta m)), (appKubernetesIOName, engine),
            (''app.kubernetes.io/instance'', engine @ ''-'' @ md_name m), (''app.kubernetes.io/managed-by'', ''kubeai'')]
      in foldl (\<lambda>lbs (k, v). if gm_has lbs k then lbs else gm_put k v lbs) base (om_labels (md_meta m)))"

definition annotationsForModel :: "reconciler \<Rightarrow> model \<Rightarrow> (string, string) gomap" where
  "annotationsForModel r m =
     (let keys = (if rc_AllowPodAddressOverride r then [ModelPodIPAnnotation, ModelPodPortAnnotation] else [])
      in foldl (\<lambda>ann key. case gm_lookup (om_annotations (md_meta m)) key of None \<Rightarrow> ann | Some v \<Rightarrow> gm_put key v ann) [] keys)"

definition with_default_port :: "(string, string) gomap \<Rightarrow> (string, string) gomap" where
  "with_default_port ann = (if gm_has ann ModelPodPortAnnotation then ann else gm_put ModelPodPortAnnotation ''8000'' ann)"

text \<open>\<open>m.Spec.Env\<close> in the order of its sorted keys.\<close>

definition sorted_env :: "(string, string) gomap \<Rightarrow> env_var list" where
  "sorted_env env = map (\<lambda>k. plain_env k (gm_get [] env k)) (sort_slice (gm_keys env))"

subsection \<open>Cache names and volumes\<close>

definition modelCacheDir :: "model \<Rightarrow> string" where
  "modelCacheDir m = ''/models/'' @ md_name m @ ''-'' @ om_uid (md_meta m)"

definition cachePVCName :: "model \<Rightarrow> model_config \<Rightarrow> (string, string) outcome" where
  "cachePVCName m c =
     (case cp_SharedFilesystem (cfg_CacheProfile c) of
        Some fs \<Rightarrow> Done (''shared-model-cache-'' @ ms_CacheProfile (md_spec m))
      | None \<Rightarrow> (if length (om_uid (md_meta m)) < 7 then Panic ''slice bounds out of range''
                 else Done (''model-cache-'' @ md_name m @ ''-'' @ take 7 (om_uid (md_meta m)))))"

definition add_mount :: "volume_mount \<Rightarrow> container \<Rightarrow> container" where
  "add_mount vm c = c\<lparr>c_mounts := c_mounts c @ [vm]\<rparr>"

text \<open>The loops over the containers that patch the one called \<open>server\<close>.\<close>

definition map_server :: "(container \<Rightarrow> container) \<Rightarrow> pod_spec \<Rightarrow> pod_spec" where
  "map_server f spec = spec\<lparr>ps_containers := map (\<lambda>c. if c_name c = serverContainerName then f c else c) (ps_containers spec)\<rparr>"

definition add_volume :: "volume \<Rightarrow> pod_spec \<Rightarrow> pod_spec" where
  "add_volume v spec = spec\<lparr>ps_volumes := ps_volumes spec @ [v]\<rparr>"

definition patchServerCacheVolumes :: "model \<Rightarrow> model_config \<Rightarrow> pod_spec \<Rightarrow> (string, pod_spec) outcome" where
  "patchServerCacheVolumes m c spec =
     (if ms_CacheProfile (md_spec m) = [] then Done spec
      else outcome_bind (cachePVCName m c) (\<lambda>pvc. Done (map_server
        (add_mount \<lparr>vm_name = ''models'', vm_path = modelCacheDir m, vm_subpath = trim_prefix (modelCacheDir m) ''/'', vm_readonly = True\<rparr>)
        (add_volume \<lparr>vol_name = ''models'', vol_source = VolPVC pvc\<rparr> spec))))"

subsection \<open>Model files\<close>

definition getModelFilesConfigMapName :: "model \<Rightarrow> string" where
  "getModelFilesConfigMapName m = ''model-'' @ md_name m @ ''-files''"

definition fileConfigMapKey :: "string \<Rightarrow> string" where
  "fileConfigMapKey p = str_replace (CHR ''/'') (CHR ''_'') p"

definition patchFileVolumes :: "model \<Rightarrow> pod_spec \<Rightarrow> pod_spec" where
  "patchFileVolumes m spec =
     (if ms_Files (md_spec m) = [] then spec
      else map_server (\<lambda>c. foldl (\<lambda>c f. add_mount \<lparr>vm_name = modelFilesVolumeName, vm_path = mf_Path f,
              vm_subpath = fileConfigMapKey (mf_Path f), vm_readonly = True\<rparr> c) c (ms_Files (md_spec m)))
        (add_volume \<lparr>vol_name = modelFilesVolumeName, vol_source = VolConfigMap (getModelFilesConfigMapName m)\<rparr> spec))"

subsection \<open>The adapter loader\<close>

definition loaderContainerName :: string where "loaderContainerName = ''loader''"
definition adaptersVolName :: string where "adaptersVolName = ''adapters''"
definition adaptersRootDir :: string where "adaptersRootDir = ''/adapters''"

definition adapterDir :: "string \<Rightarrow> string" where
  "adapterDir name = adaptersRootDir @ ''/'' @ name"

definition empty_container :: container where
  "empty_container = \<lparr>c_name = [], c_image = [], c_pull_policy = [], c_command = [], c_args = [], c_env = [], c_env_from = [],
     c_ports = [], c_requests = [], c_limits = [], c_startup = None, c_readiness = None, c_liveness = None, c_mounts = [],
     c_security = None\<rparr>"

definition loader_container :: "reconciler \<Rightarrow> model \<Rightarrow> container" where
  "loader_container r m = empty_container\<lparr>c_name := loaderContainerName, c_image := rc_ModelLoadersImage r,
     c_pull_policy := ''IfNotPresent'', c_env := sorted_env (ms_Env (md_spec m)),
     c_security := msp_ContainerSecurityContext (rc_ModelServerPods r), c_command := [''sleep'', ''infinity''],
     c_mounts := [\<lparr>vm_name = adaptersVolName, vm_path = adaptersRootDir, vm_subpath = [], vm_readonly = False\<rparr>]\<rparr>"

definition patchServerAdapterLoader :: "reconciler \<Rightarrow> model \<Rightarrow> pod_spec \<Rightarrow> (string, pod_spec) outcome" where
  "patchServerAdapterLoader r m spec =
     (case ms_Adapters (md_spec m) of
        None \<Rightarrow> Done spec
      | Some as \<Rightarrow>
          (let spec = add_volume \<lparr>vol_name = adaptersVolName, vol_source = VolEmptyDir False\<rparr> spec;
               spec = map_server (add_mount \<lparr>vm_name = adaptersVolName, vm_path = adaptersRootDir, vm_subpath = [], vm_readonly = True\<rparr>) spec;
               spec = spec\<lparr>ps_containers := ps_containers spec @ [loader_container r m]\<rparr>
           in outcome_bind (applyToPodSpec (modelAuthCredentialsForAllSources (rc_SecretNames r)) (length (ps_containers spec) - 1) spec)
                (\<lambda>spec. applyToPodSpec (modelEnvFrom (md_spec m)) (length (ps_containers spec) - 1) spec)))"

subsection \<open>Engines\<close>

definition http_probe :: "string \<Rightarrow> int \<Rightarrow> int \<Rightarrow> int \<Rightarrow> int \<Rightarrow> probe" where
  "http_probe path delay failures period timeout = \<lparr>pr_initial_delay = delay, pr_period = period, pr_timeout = timeout,
     pr_failures = failures, pr_successes = 1, pr_handler = ProbeHTTPGet path ''http''\<rparr>"

text \<open>The fields that the Pod literals of the four engines share.\<close>

definition server_container :: "model \<Rightarrow> model_config \<Rightarrow> container" where
  "server_container m c = empty_container\<lparr>c_name := serverContainerName, c_image := cfg_Image c,
     c_requests := rp_Requests (cfg_ResourceProfile c), c_limits := rp_Limits (cfg_ResourceProfile c),
     c_ports := [(''http'', 8000)], c_mounts := [\<lparr>vm_name = ''dshm'', vm_path = ''/dev/shm'', vm_subpath = [], vm_readonly = False\<rparr>]\<rparr>"

definition server_pod :: "reconciler \<Rightarrow> model \<Rightarrow> model_config \<Rightarrow> container \<Rightarrow> pod" where
  "server_pod r m c ct = \<lparr>pod_meta = empty_meta\<lparr>om_namespace := om_namespace (md_meta m), om_labels := labelsForModel m,
       om_annotations := with_default_port (annotationsForModel r m)\<rparr>,
     pod_spec_of = \<lparr>ps_containers = [ct], ps_volumes = [\<lparr>vol_name = ''dshm'', vol_source = VolEmptyDir True\<rparr>],
       ps_pull_secrets = msp_ImagePullSecrets (rc_ModelServerPods r),
       ps_node_selector = rp_NodeSelector (cfg_ResourceProfile c), ps_affinity = rp_Affinity (cfg_ResourceProfile c),
       ps_tolerations = rp_Tolerations (cfg_ResourceProfile c), ps_scheduler = rp_SchedulerName (cfg_ResourceProfile c),
       ps_runtime_class = rp_RuntimeClassName (cfg_ResourceProfile c), ps_priority_class = ms_PriorityClassName (md_spec m),
       ps_service_account = msp_ServiceAccountName (rc_ModelServerPods r), ps_security = msp_PodSecurityContext (rc_ModelServerPods r),
       ps_restart_policy = [], ps_node_name = []\<rparr>,
     pod_status_of = \<lparr>pst_conditions = [], pst_pod_ip = [], pst_container_ready = []\<rparr>\<rparr>"

definition with_spec :: "pod \<Rightarrow> (pod_spec \<Rightarrow> (string, pod_spec) outcome) \<Rightarrow> (string, pod) outcome" where
  "with_spec p f = outcome_bind (f (pod_spec_of p)) (\<lambda>spec. Done (p\<lparr>pod_spec_of := spec\<rparr>))"

definition finish_spec :: "model \<Rightarrow> model_config \<Rightarrow> pod_spec \<Rightarrow> (string, pod_spec) outcome" where
  "finish_spec m c spec = outcome_bind (patchServerCacheVolumes m c spec) (applyToPodSpec (src_additions (cfg_Source c)) 0)"

definition vllm_model_flag :: "model \<Rightarrow> model_config \<Rightarrow> string \<times> bool" where
  "vllm_model_flag m c =
     (let u = src_url (cfg_Source c);
          (flag, streamer) = (if ms_CacheProfile (md_spec m) \<noteq> [] then (modelCacheDir m, False)
            else if mu_scheme u = ''s3'' then (mu_original u, True) else (mu_ref u, False))
      in (if mu_scheme u = ''pvc'' \<or> mu_scheme u = ''oci'' then ''/model'' else flag, streamer))"

definition vLLMPodForModel :: "reconciler \<Rightarrow> model \<Rightarrow> model_config \<Rightarrow> (string, pod) outcome" where
  "vLLMPodForModel r m c =
     (let (flag, streamer) = vllm_model_flag m c; lora = ms_Adapters (md_spec m) \<noteq> None;
          args = [''--model='' @ flag, ''--served-model-name='' @ md_name m]
            @ (if streamer then [''--load-format=runai_streamer''] else []) @ ms_Args (md_spec m) @ (if lora then [''--enable-lora''] else []);
          env = (if lora then [plain_env ''VLLM_ALLOW_RUNTIME_LORA_UPDATING'' ''True''] else []) @ sorted_env (ms_Env (md_spec m));
          ct = (server_container m c)\<lparr>c_command := [''python3'', ''-m'', ''vllm.entrypoints.openai.api_server''], c_args := args, c_env := env,
            c_security := msp_ContainerSecurityContext (rc_ModelServerPods r), c_startup := Some (http_probe ''/health'' 0 5400 2 2),
            c_readiness := Some (http_probe ''/health'' 0 3 10 2), c_liveness := Some (http_probe ''/health'' 0 3 30 3)\<rparr>
      in with_spec (server_pod r m c ct) (\<lambda>spec.
           outcome_bind (patchServerAdapterLoader r m (patchFileVolumes m spec)) (finish_spec m c)))"

definition ollamaStartupProbeScript :: "model \<Rightarrow> model_url \<Rightarrow> string list" where
  "ollamaStartupProbeScript m u =
     (let s = (if mu_scheme u = ''pvc'' then [''/bin/ollama'', ''cp'', mu_modelParam u, md_name m]
               else if mu_pull u then [''/bin/ollama'', ''pull''] @ (if mu_insecure u then [''--insecure''] else [])
                 @ [mu_ref u, ''&&'', ''/bin/ollama'', ''cp'', mu_ref u, md_name m]
               else [''/bin/ollama'', ''cp'', mu_ref u, md_name m])
      in if ModelFeatureTextGeneration \<in> set (ms_Features (md_spec m)) then s @ [''&&'', ''/bin/ollama'', ''run'', md_name m, ''hi''] else s)"

definition oLlamaPodForModel :: "reconciler \<Rightarrow> model \<Rightarrow> model_config \<Rightarrow> (string, pod) outcome" where
  "oLlamaPodForModel r m c =
     (let u = src_url (cfg_Source c);
          env = [plain_env ''OLLAMA_HOST'' ''0.0.0.0:8000'', plain_env ''OLLAMA_KEEP_ALIVE'' ''999999h'']
            @ (if mu_scheme u = ''pvc'' then [plain_env ''OLLAMA_MODELS'' ''/model''] else []) @ sorted_env (ms_Env (md_spec m));
          startup = \<lparr>pr_initial_delay = 1, pr_period = 3, pr_timeout = 60 * 180, pr_failures = 10, pr_successes = 0,
            pr_handler = ProbeExec ([''/bin/bash'', ''-c''] @ ollamaStartupProbeScript m u)\<rparr>;
          ct = (server_container m c)\<lparr>c_args := ms_Args (md_spec m), c_env := env,
            c_security := msp_ContainerSecurityContext (rc_ModelServerPods r), c_startup := Some startup,
            c_readiness := Some (http_probe ''/'' 0 3 10 2), c_liveness := Some (http_probe ''/'' 900 3 30 3)\<rparr>
      in with_spec (server_pod r m c ct) (\<lambda>spec. finish_spec m c (patchFileVolumes m spec)))"

definition fasterWhisperPodForModel :: "reconciler \<Rightarrow> model \<Rightarrow> model_config \<Rightarrow> (string, pod) outcome" where
  "fasterWhisperPodForModel r m c =
     (let whisperModel = (if ms_CacheProfile (md_spec m) \<noteq> [] then modelCacheDir m else mu_ref (src_url (cfg_Source c)));
          env = [plain_env ''WHISPER__MODEL'' whisperModel, plain_env ''ENABLE_UI'' ''false''] @ sorted_env (ms_Env (md_spec m));
          ct = (server_container m c)\<lparr>c_args := ms_Args (md_spec m), c_env := env,
            c_security := msp_ContainerSecurityContext (rc_ModelServerPods r), c_startup := Some (http_probe ''/health'' 0 900 2 2),
            c_readiness := Some (http_probe ''/health'' 0 3 10 2), c_liveness := Some (http_probe ''/health'' 0 3 30 3)\<rparr>
      in with_spec (server_pod r m c ct) (\<lambda>spec. finish_spec m c (patchFileVolumes m spec)))"

definition infinityPodForModel :: "reconciler \<Rightarrow> model \<Rightarrow> model_config \<Rightarrow> (string, pod) outcome" where
  "infinityPodForModel r m c =
     (let infinityModelID = (if ms_CacheProfile (md_spec m) \<noteq> [] then modelCacheDir m else mu_ref (src_url (cfg_Source c)));
          env = [plain_env ''INFINITY_MODEL_ID'' infinityModelID, plain_env ''INFINITY_SERVED_MODEL_NAME'' (md_name m),
            plain_env ''INFINITY_URL_PREFIX'' ''/v1'', plain_env ''INFINITY_ENGINE'' ''torch'', plain_env ''INFINITY_PORT'' ''8000'']
            @ sorted_env (ms_Env (md_spec m));
          ct = (server_container m c)\<lparr>c_args := ''v2'' # ms_Args (md_spec m), c_env := env, c_startup := Some (http_probe ''/health'' 0 600 2 2),
            c_readiness := Some (http_probe ''/health'' 0 3 10 2), c_liveness := Some (http_probe ''/health'' 0 3 30 3)\<rparr>
      in with_spec (server_pod r m c ct) (\<lambda>spec. finish_spec m c (patchFileVolumes m spec)))"

definition podForModel :: "reconciler \<Rightarrow> model \<Rightarrow> model_config \<Rightarrow> (string, pod) outcome" where
  "podForModel r m c =
     (if ms_Engine (md_spec m) = OLlamaEngine then oLlamaPodForModel r m c
      else if ms_Engine (md_spec m) = FasterWhisperEngine then fasterWhisperPodForModel r m c
      else if ms_Engine (md_spec m) = InfinityEngine then infinityPodForModel r m c
      else vLLMPodForModel r m c)"

text \<open>The first part of \<open>calculatePodPlan\<close>: the Pod, patched, hashed and labelled.\<close>

definition hashedPodForModel ::
  "(json_patch list \<Rightarrow> pod \<Rightarrow> (string, pod) outcome) \<Rightarrow> (pod_spec \<Rightarrow> string) \<Rightarrow> reconciler \<Rightarrow> model \<Rightarrow> model_config
     \<Rightarrow> (string, pod \<times> string) outcome" where
  "hashedPodForModel apply_patch pod_hash r m c =
     outcome_bind (podForModel r m c) (\<lambda>p.
     outcome_bind (applyJSONPatchToPod apply_patch (msp_JSONPatches (rc_ModelServerPods r)) p) (\<lambda>p.
       let expectedHash = pod_hash (pod_spec_of p);
           meta = (pod_meta p)\<lparr>om_generate_name := ''model-'' @ md_name m @ ''-'' @ expectedHash @ ''-''\<rparr>
       in Done (p\<lparr>pod_meta := SetLabel meta PodHashLabel expectedHash\<rparr>, expectedHash)))"

definition planForModel ::
  "(json_patch list \<Rightarrow> pod \<Rightarrow> (string, pod) outcome) \<Rightarrow> (pod_spec \<Rightarrow> string) \<Rightarrow> reconciler \<Rightarrow> pod list \<Rightarrow> model \<Rightarrow> model_config
     \<Rightarrow> (string, pod_plan) outcome" where
  "planForModel apply_patch pod_hash r allPods m c =
     outcome_bind (hashedPodForModel apply_patch pod_hash r m c)
       (\<lambda>(p, expectedHash). Done (calculatePodPlan p expectedHash (ms_Replicas (md_spec m)) (rc_Surge r) allPods))"

end
