(* ===== verification/Json_Struct.thy ===== *)
theory Json_Struct
  imports Go_Time
begin

section \<open>Structs in JSON\<close>

text \<open>
  How \<open>json.Unmarshal\<close> fills a struct: the members of the object in order, each into the field its
  key names, unknown keys skipped, \<open>null\<close> ignored. An object that does not fit is an error, whose
  text the callers take as a parameter. \<open>decode_first\<close> is \<open>Decoder.Decode\<close>, which reads one value
  and leaves what follows it.
\<close>

type_synonym json_member = "string \<times> string \<times> json_value"

definition struct_members :: "string \<Rightarrow> json_member list option" where
  "struct_members s =
     (case json_parse s of
        Some JNull \<Rightarrow> Some []
      | Some (JObj kvs) \<Rightarrow> json_members s
      | _ \<Rightarrow> None)"

fun set_fields :: "(string \<Rightarrow> string \<Rightarrow> json_value \<Rightarrow> 's \<Rightarrow> 's option) \<Rightarrow> json_member list \<Rightarrow> 's \<Rightarrow> 's option" where
  "set_fields f [] s = Some s"
| "set_fields f ((k, raw, v) # ms) s = (case f k raw v s of None \<Rightarrow> None | Some s' \<Rightarrow> set_fields f ms s')"

definition decode_struct :: "(string \<Rightarrow> string \<Rightarrow> json_value \<Rightarrow> 's \<Rightarrow> 's option) \<Rightarrow> 's \<Rightarrow> string \<Rightarrow> 's option" where
  "decode_struct f zero s = (case struct_members s of None \<Rightarrow> None | Some ms \<Rightarrow> set_fields f ms zero)"

text \<open>A struct inside another, whose members' texts do not matter.\<close>

definition fill_struct :: "(string \<Rightarrow> string \<Rightarrow> json_value \<Rightarrow> 's \<Rightarrow> 's option) \<Rightarrow> json_value \<Rightarrow> 's \<Rightarrow> 's option" where
  "fill_struct f v s =
     (case v of JNull \<Rightarrow> Some s | JObj kvs \<Rightarrow> set_fields f (map (\<lambda>(k, v). (k, [], v)) kvs) s | _ \<Rightarrow> None)"

definition string_field :: "json_value \<Rightarrow> string \<Rightarrow> string option" where
  "string_field v old = (case v of JNull \<Rightarrow> Some old | JStr s \<Rightarrow> Some s | _ \<Rightarrow> None)"

definition float_field :: "json_value \<Rightarrow> rat \<Rightarrow> rat option" where
  "float_field v old = (case v of JNull \<Rightarrow> Some old | JNum t \<Rightarrow> parse_f64 t | _ \<Rightarrow> None)"

definition decode_first :: "string \<Rightarrow> json_value option" where
  "decode_first s =
     (case parse_value (2 * length s + 2) json_depth s of
        Some (JObj kvs, rest) \<Rightarrow> Some (JObj kvs)
      | Some (JArr vs, rest) \<Rightarrow> Some (JArr vs)
      | Some (v, rest) \<Rightarrow> if rest = [] \<or> is_space (hd rest) then Some v else None
      | None \<Rightarrow> None)"

subsection \<open>Keys\<close>

abbreviation ascii :: "string \<Rightarrow> bool" where
  "ascii s \<equiv> list_all (\<lambda>c. (of_char c :: nat) < 128) s"

lemma str_runes_ascii: "ascii s \<Longrightarrow> str_runes s = map of_char s"
  by (induction s) (simp_all add: str_runes_def utf8_step_def)

lemma names_field_refl [simp]: "names_field f f"
  by (simp add: names_field_def)

lemma names_field_ascii: "ascii f \<Longrightarrow> ascii k \<Longrightarrow> names_field f k \<longleftrightarrow> map (\<lambda>c. fold_rune (of_char c)) f = map (\<lambda>c. fold_rune (of_char c)) k"
  unfolding names_field_def by (simp only: str_runes_ascii map_map comp_def) metis

subsection \<open>Texts the encoder writes\<close>

lemma struct_members_text:
  assumes "json_fits json_depth (JObj kvs)"
  shows "struct_members (json_text (JObj kvs)) = Some (fields_norm kvs)"
  using json_parse_text [OF assms] json_members_text [OF assms] by (simp add: struct_members_def)

lemma decode_struct_text:
  assumes "json_fits json_depth (JObj kvs)"
  shows "decode_struct f zero (json_text (JObj kvs)) = set_fields f (fields_norm kvs) zero"
  by (simp add: decode_struct_def struct_members_text [OF assms])

lemma json_depth_pos [simp]: "0 < json_depth" "0 < json_depth - 1" "0 < json_depth - 2" "1 < json_depth" "2 < json_depth"
  by (simp_all add: json_depth_def)

text \<open>Text without quotes, backslashes or HTML characters is its own quotation.\<close>

definition plain_char :: "char \<Rightarrow> bool" where
  "plain_char c \<longleftrightarrow> 32 \<le> (of_char c :: nat) \<and> (of_char c :: nat) < 127 \<and> (of_char c :: nat) \<notin> {34, 38, 60, 62, 92}"

lemma quote_plain: "list_all plain_char s \<Longrightarrow> quote_body s = s"
  by (induction s) (auto simp: plain_char_def escape_byte_def Let_def)

lemma plain_ascii: "list_all plain_char s \<Longrightarrow> ascii s"
  by (induction s) (auto simp: plain_char_def)

lemma json_clean_ascii_id: "ascii s \<Longrightarrow> json_clean s = s"
  by (rule json_clean_id)

lemma plain_digit: "is_digit c \<Longrightarrow> plain_char c"
  by (auto simp: plain_char_def is_digit_def)

lemma plain_time_text: "list_all plain_char (time_text t)"
proof -
  have dg: "list_all plain_char s" if "list_all is_digit s" for s using that plain_digit by (auto simp: list_all_iff)
  have "set (strip_zeros s) \<subseteq> set s" for s unfolding strip_zeros_def by (auto dest: set_dropWhileD)
  moreover have "list_all is_digit (pad_digits 9 n)" for n
    using nat_str_all [of n] by (auto simp: pad_digits_def list_all_iff is_digit_def)
  ultimately have "list_all is_digit (strip_zeros (pad_digits 9 n))" for n by (auto simp: list_all_iff)
  then have "list_all plain_char (nsec_text n)" for n using dg by (auto simp: nsec_text_def plain_char_def)
  moreover have "list_all plain_char (zone_text off)" for off
    using dg by (auto simp: zone_text_def Let_def plain_char_def)
  ultimately show ?thesis using dg by (simp add: time_text_def) (simp add: plain_char_def)
qed

lemma json_quote_time: "json_quote (time_text t) = CHR 0x22 # time_text t @ [CHR 0x22]"
  by (simp add: json_quote_def quote_plain [OF plain_time_text])

end
