(* ===== verification/Go_Hash.thy ===== *)
theory Go_Hash
  imports Go_Prelude "HOL-Library.Word"
begin

section \<open>Hashes of strings and of Pod specifications\<close>

text \<open>
  \<open>StringHash\<close>, \<open>DeepHashObject\<close> and \<open>PodHash\<close> of \<open>internal/k8sutils/pods.go\<close>: the 32-bit FNV-1a
  hash of the standard library, printed in decimal. \<open>rand.SafeEncodeString\<close> and the printer
  \<open>dump.ForHash\<close> of Kubernetes are parameters.
\<close>

unbundle bit_operations_syntax

definition fnv_step :: "32 word \<Rightarrow> char \<Rightarrow> 32 word" where
  "fnv_step h c = (h XOR of_nat (of_char c)) * 16777619"

definition fnv32a :: "string \<Rightarrow> 32 word" where
  "fnv32a s = foldl fnv_step 2166136261 s"

definition StringHash :: "(string \<Rightarrow> string) \<Rightarrow> string \<Rightarrow> string" where
  "StringHash safeEncode s = safeEncode (int_str (uint (fnv32a s)))"

definition DeepHashObject :: "('a \<Rightarrow> string) \<Rightarrow> 'a \<Rightarrow> 32 word" where
  "DeepHashObject forHash x = fnv32a (forHash x)"

definition PodHash :: "(string \<Rightarrow> string) \<Rightarrow> ('a \<Rightarrow> string) \<Rightarrow> 'a \<Rightarrow> string" where
  "PodHash safeEncode forHash spec = safeEncode (int_str (uint (DeepHashObject forHash spec)))"

text \<open>Printing on integers, for evaluation.\<close>

function int_digits :: "int \<Rightarrow> string" where
  "int_digits i = (if i < 10 then [digit_char (nat i)] else int_digits (i div 10) @ [digit_char (nat (i mod 10))])"
  by pat_completeness auto
termination by (relation "measure nat") auto

declare int_digits.simps [simp del]

lemma int_digits_nat: "0 \<le> i \<Longrightarrow> int_digits i = nat_str (nat i)"
proof (induction i rule: int_digits.induct)
  case (1 i)
  then show ?case
    by (subst int_digits.simps, subst nat_str.simps) (auto simp: nat_div_distrib nat_mod_distrib)
qed

lemma int_str_code [code]: "int_str i = (if i < 0 then CHR ''-'' # int_digits (- i) else int_digits i)"
  by (simp add: int_str_def int_digits_nat)

lemma fnv32a_empty: "fnv32a [] = 0x811C9DC5"
  by (simp add: fnv32a_def)

lemma fnv32a_a: "fnv32a ''a'' = 0xE40C292C"
  by (simp add: fnv32a_def fnv_step_def)

lemma fnv32a_foobar: "fnv32a ''foobar'' = 0xBF9CF968"
  by (simp add: fnv32a_def fnv_step_def)

end
