(* ===== verification/Adapters.thy ===== *)
theory Adapters
  imports Model_Pods Json_Struct Go_Hash
begin

section \<open>Adapters\<close>

text \<open>
  \<open>internal/modelcontroller/adapters.go\<close> and \<open>internal/vllmclient/client.go\<close>: loading and
  unloading LoRA adapters in the Pods of a Model. A run returns what it did outside the
  process, in order, the Pods with their updated labels, and the error that ended it. The
  exec stream, HTTP, the API server, \<open>rand.SafeEncodeString\<close> and the texts of JSON errors are the
  record \<open>adapter_env\<close>.
\<close>

record vllm_error =
  ve_Message :: string
  ve_Type :: string

record adapter_env =
  ae_safe_encode :: "string \<Rightarrow> string"
  ae_exec :: "pod \<Rightarrow> string list \<Rightarrow> string option"
  ae_http :: "string \<Rightarrow> string \<Rightarrow> (string, int \<times> string) outcome"
  ae_json_error :: "string \<Rightarrow> string"  \<comment> \<open>of a body that cannot be decoded\<close>
  ae_update :: "pod \<Rightarrow> string option"

definition ae_hash :: "adapter_env \<Rightarrow> string \<Rightarrow> string" where
  "ae_hash env = StringHash (ae_safe_encode env)"

datatype adapter_event =
    AExec string "string list"  \<comment> \<open>Pod, command in the loader container\<close>
  | APost string string string  \<comment> \<open>URL, adapter, body\<close>
  | AUpdate string "(string, string) gomap"  \<comment> \<open>Pod, its new labels\<close>

datatype ctl_error = ReturnEarly | CtlError string

subsection \<open>The vLLM client\<close>

fun str_contains :: "string \<Rightarrow> string \<Rightarrow> bool" where
  "str_contains [] t = (t = [])"
| "str_contains (c # s) t = (has_prefix (c # s) t \<or> str_contains s t)"

text \<open>The bodies of the requests, and of an error: a struct with the error inside.\<close>

definition load_adapter_body :: "string \<Rightarrow> string \<Rightarrow> string" where
  "load_adapter_body name path = json_text (JObj [(''lora_name'', JStr name), (''lora_path'', JStr path)])"

definition unload_adapter_body :: "string \<Rightarrow> string" where
  "unload_adapter_body name = json_text (JObj [(''lora_name'', JStr name)])"

definition vllm_error_field :: "string \<Rightarrow> string \<Rightarrow> json_value \<Rightarrow> vllm_error \<Rightarrow> vllm_error option" where
  "vllm_error_field k raw v e =
     (if names_field ''message'' k then map_option (\<lambda>s. e\<lparr>ve_Message := s\<rparr>) (string_field v (ve_Message e))
      else if names_field ''type'' k then map_option (\<lambda>s. e\<lparr>ve_Type := s\<rparr>) (string_field v (ve_Type e))
      else Some e)"

definition error_response_field :: "string \<Rightarrow> string \<Rightarrow> json_value \<Rightarrow> vllm_error \<Rightarrow> vllm_error option" where
  "error_response_field k raw v e = (if names_field ''error'' k then fill_struct vllm_error_field v e else Some e)"

definition decode_error_response :: "string \<Rightarrow> vllm_error option" where
  "decode_error_response body =
     (case decode_first body of
        None \<Rightarrow> None
      | Some v \<Rightarrow> fill_struct error_response_field v \<lparr>ve_Message = [], ve_Type = []\<rparr>)"

definition vllm_post ::
  "adapter_env \<Rightarrow> string \<Rightarrow> string \<Rightarrow> (int \<Rightarrow> vllm_error \<Rightarrow> string option) \<Rightarrow> string option" where
  "vllm_post env url body errorHandler =
     (case ae_http env url body of
        Done (status, resp) \<Rightarrow>
          (if status > 299 then
             (case decode_error_response resp of
                Some e \<Rightarrow> errorHandler status e
              | None \<Rightarrow> Some (''decoding error response body: '' @ ae_json_error env resp))
           else None)
      | Error m \<Rightarrow> Some (''sending http request: POST '' @ url @ '': '' @ m)
      | Panic m \<Rightarrow> Some m)"

definition unexpected_status :: "int \<Rightarrow> vllm_error \<Rightarrow> string" where
  "unexpected_status status e = ''unexpected status code: '' @ int_str status @ '': '' @ ve_Message e"

definition LoadLoraAdapter :: "adapter_env \<Rightarrow> bool \<Rightarrow> string \<Rightarrow> string \<Rightarrow> string \<Rightarrow> adapter_event \<times> string option" where
  "LoadLoraAdapter env ignoreAlreadyLoaded addr name path =
     (let url = addr @ ''/v1/load_lora_adapter''; body = load_adapter_body name path
      in (APost url name body, vllm_post env url body (\<lambda>status e.
           if ignoreAlreadyLoaded \<and> status = 400 \<and> ve_Type e = ''InvalidUserInput''
              \<and> str_contains (ve_Message e) ''already'' \<and> str_contains (ve_Message e) ''loaded''
           then None else Some (unexpected_status status e))))"

definition UnloadLoraAdapter :: "adapter_env \<Rightarrow> bool \<Rightarrow> string \<Rightarrow> string \<Rightarrow> adapter_event \<times> string option" where
  "UnloadLoraAdapter env ignoreNotFound addr name =
     (let url = addr @ ''/v1/unload_lora_adapter''; body = unload_adapter_body name
      in (APost url name body, vllm_post env url body (\<lambda>status e.
           if ignoreNotFound \<and> status = 400 \<and> ve_Type e = ''InvalidUserInput'' \<and> str_contains (ve_Message e) ''cannot be found''
           then None else Some (unexpected_status status e))))"

subsection \<open>Addresses and labels\<close>

definition getPodModelServerAddr :: "pod \<Rightarrow> string" where
  "getPodModelServerAddr p =
     (let ip = gm_get [] (om_annotations (pod_meta p)) ModelPodIPAnnotation;
          port = gm_get [] (om_annotations (pod_meta p)) ModelPodPortAnnotation;
          ip = (if ip = [] then pst_pod_ip (pod_status_of p) else ip)
      in ''http://'' @ ip @ '':'' @ port)"

definition getLabelledAdapters :: "pod \<Rightarrow> string list" where
  "getLabelledAdapters p = map (\<lambda>k. trim_prefix k PodAdapterLabelPrefix)
     (filter (\<lambda>k. has_prefix k PodAdapterLabelPrefix) (gm_keys (om_labels (pod_meta p))))"

record adapter_param =
  apm_pod :: pod
  apm_toEnsure :: "adapter list"
  apm_toRemoveIDs :: "string list"

definition adapter_matches_label :: "adapter_env \<Rightarrow> pod \<Rightarrow> adapter \<Rightarrow> bool" where
  "adapter_matches_label env p a \<longleftrightarrow> GetLabel (pod_meta p) (PodAdapterLabel (ad_Name a)) = ae_hash env (ad_URL a)"

definition adapter_params :: "adapter_env \<Rightarrow> pod \<Rightarrow> adapter list \<Rightarrow> adapter_param" where
  "adapter_params env p adapters =
     \<lparr>apm_pod = p, apm_toEnsure = filter (\<lambda>a. \<not> adapter_matches_label env p a) adapters,
      apm_toRemoveIDs = filter (\<lambda>n. n \<notin> ad_Name ` set (filter (adapter_matches_label env p) adapters)) (getLabelledAdapters p)\<rparr>"

text \<open>Pods without labels and Pods of other engines are skipped.\<close>

definition has_vllm_engine :: "pod \<Rightarrow> bool" where
  "has_vllm_engine p \<longleftrightarrow> om_labels (pod_meta p) \<noteq> []
     \<and> gm_get [] (om_labels (pod_meta p)) appKubernetesIOName = str_lower VLLMEngine"

subsection \<open>Reconciliation\<close>

definition ctl_of :: "string \<Rightarrow> string \<Rightarrow> ctl_error option" where
  "ctl_of ctx e = Some (CtlError (ctx @ e))"

definition ensure_adapter :: "adapter_env \<Rightarrow> adapter \<Rightarrow> pod \<Rightarrow> adapter_event list \<times> pod \<times> ctl_error option" where
  "ensure_adapter env a p =
     (let cmd = [''load'', ad_URL a, adapterDir (ad_Name a)]; ex = AExec (podKey p) cmd
      in case ae_exec env p cmd of
           Some e \<Rightarrow> ([ex], p, ctl_of (''exec adapter load for pod '' @ quoted (podKey p) @ '': exec adapter load: '') e)
         | None \<Rightarrow>
             (let (post, r) = LoadLoraAdapter env True (getPodModelServerAddr p) (ad_Name a) (adapterDir (ad_Name a))
              in case r of
                   Some e \<Rightarrow> ([ex, post], p, ctl_of (''load vllm adapter '' @ quoted (ad_Name a) @ '': '') e)
                 | None \<Rightarrow>
                     (let p' = p\<lparr>pod_meta := SetLabel (pod_meta p) (PodAdapterLabel (ad_Name a)) (ae_hash env (ad_URL a))\<rparr>;
                          upd = AUpdate (podKey p) (om_labels (pod_meta p'))
                      in case updatePodAddLabel (ae_update env) (PodAdapterLabel (ad_Name a)) (ae_hash env (ad_URL a)) p of
                           Done q \<Rightarrow> ([ex, post, upd], q, None)
                         | Error e \<Rightarrow> ([ex, post, upd], p', ctl_of (''update pod labels for pod '' @ quoted (podKey p) @ '': '') e)
                         | Panic e \<Rightarrow> ([ex, post, upd], p', ctl_of [] e))))"

definition remove_adapter :: "adapter_env \<Rightarrow> string \<Rightarrow> pod \<Rightarrow> adapter_event list \<times> pod \<times> ctl_error option" where
  "remove_adapter env n p =
     (let cmd = [''rm'', ''-rf'', adapterDir n]; ex = AExec (podKey p) cmd
      in case ae_exec env p cmd of
           Some e \<Rightarrow> ([ex], p, ctl_of (''exec adapter unload for pod '' @ quoted (podKey p) @ '': exec adapter load: '') e)
         | None \<Rightarrow>
             (let (post, r) = UnloadLoraAdapter env True (getPodModelServerAddr p) n
              in case r of
                   Some e \<Rightarrow> ([ex, post], p, ctl_of (''unload vllm adapter '' @ quoted n @ '': '') e)
                 | None \<Rightarrow>
                     (let p' = p\<lparr>pod_meta := (pod_meta p)\<lparr>om_labels := gm_del (PodAdapterLabel n) (om_labels (pod_meta p))\<rparr>\<rparr>;
                          upd = (if om_labels (pod_meta p) = [] then [] else [AUpdate (podKey p) (om_labels (pod_meta p'))])
                      in case updatePodRemoveLabel (ae_update env) (PodAdapterLabel n) p of
                           Done q \<Rightarrow> ([ex, post] @ upd, q, None)
                         | Error e \<Rightarrow> ([ex, post] @ upd, p', ctl_of (''update pod labels for pod '' @ quoted (podKey p) @ '': '') e)
                         | Panic e \<Rightarrow> ([ex, post] @ upd, p', ctl_of [] e))))"

text \<open>A loop that stops at the first error.\<close>

fun each_until :: "('a \<Rightarrow> 's \<Rightarrow> 'e list \<times> 's \<times> ctl_error option) \<Rightarrow> 'a list \<Rightarrow> 's \<Rightarrow> 'e list \<times> 's \<times> ctl_error option" where
  "each_until f [] s = ([], s, None)"
| "each_until f (x # xs) s =
     (let (evs, s', e) = f x s
      in case e of
           Some m \<Rightarrow> (evs, s', e)
         | None \<Rightarrow> (let (evs2, s'', e2) = each_until f xs s' in (evs @ evs2, s'', e2)))"

definition reconcile_adapter_pod :: "adapter_env \<Rightarrow> adapter_param \<Rightarrow> adapter_event list \<times> pod \<times> ctl_error option" where
  "reconcile_adapter_pod env prm =
     (if \<not> ContainerIsReady (apm_pod prm) loaderContainerName then ([], apm_pod prm, Some ReturnEarly)
      else (let (evs, p, e) = each_until (ensure_adapter env) (apm_toEnsure prm) (apm_pod prm)
            in case e of
                 Some m \<Rightarrow> (evs, p, e)
               | None \<Rightarrow> (let (evs2, p', e2) = each_until (remove_adapter env) (apm_toRemoveIDs prm) p in (evs @ evs2, p', e2))))"

fun reconcile_params :: "adapter_env \<Rightarrow> adapter_param list \<Rightarrow> adapter_event list \<times> pod list \<times> ctl_error option" where
  "reconcile_params env [] = ([], [], None)"
| "reconcile_params env (prm # prms) =
     (let (evs, p, e) = reconcile_adapter_pod env prm
      in case e of
           Some m \<Rightarrow> (evs, p # map apm_pod prms, e)
         | None \<Rightarrow> (let (evs2, ps, e2) = reconcile_params env prms in (evs @ evs2, p # ps, e2)))"

definition reconcileAdapters :: "adapter_env \<Rightarrow> pod list \<Rightarrow> adapter list \<Rightarrow> adapter_event list \<times> pod list \<times> ctl_error option" where
  "reconcileAdapters env pods adapters =
     reconcile_params env (map (\<lambda>p. adapter_params env p adapters) (filter has_vllm_engine pods))"


subsection \<open>What a run does to the labels\<close>

abbreviation pod_labels :: "pod \<Rightarrow> (string, string) gomap" where
  "pod_labels p \<equiv> om_labels (pod_meta p)"

definition relabel :: "(string, string) gomap \<Rightarrow> pod \<Rightarrow> pod" where
  "relabel ls p = p\<lparr>pod_meta := (pod_meta p)\<lparr>om_labels := ls\<rparr>\<rparr>"

lemma relabel_simps [simp]:
  "pod_labels (relabel ls p) = ls" "relabel ls (relabel ls' p) = relabel ls p" "relabel (pod_labels p) p = p"
  "pod_status_of (relabel ls p) = pod_status_of p" "podKey (relabel ls p) = podKey p"
  "getPodModelServerAddr (relabel ls p) = getPodModelServerAddr p"
  "ContainerIsReady (relabel ls p) n = ContainerIsReady p n"
  by (simp_all add: relabel_def podKey_def getPodModelServerAddr_def ContainerIsReady_def Let_def)

lemma ensure_adapter_cases:
  obtains (fail) e evs where "ensure_adapter env a p = (evs, p, Some e)"
    | (ok) ex post upd e where "ensure_adapter env a p = ([ex, post, upd], relabel (gm_put (PodAdapterLabel (ad_Name a)) (ae_hash env (ad_URL a)) (pod_labels p)) p, e)"
        "ae_exec env p [''load'', ad_URL a, adapterDir (ad_Name a)] = None"
        "LoadLoraAdapter env True (getPodModelServerAddr p) (ad_Name a) (adapterDir (ad_Name a)) = (post, None)"
proof (cases "ae_exec env p [''load'', ad_URL a, adapterDir (ad_Name a)]")
  case (Some e)
  then show ?thesis using fail by (simp add: ensure_adapter_def ctl_of_def)
next
  case None
  obtain post r where l: "LoadLoraAdapter env True (getPodModelServerAddr p) (ad_Name a) (adapterDir (ad_Name a)) = (post, r)"
    by (rule prod.exhaust)
  show ?thesis
  proof (cases r)
    case (Some e)
    then show ?thesis using fail None l by (simp add: ensure_adapter_def ctl_of_def)
  next
    case None
    let ?q = "relabel (gm_put (PodAdapterLabel (ad_Name a)) (ae_hash env (ad_URL a)) (pod_labels p)) p"
    have "\<exists>ex upd e. ensure_adapter env a p = ([ex, post, upd], ?q, e)"
      using \<open>ae_exec env p _ = None\<close> l None
      by (cases "ae_update env ?q") (auto simp: ensure_adapter_def updatePodAddLabel_def Let_def relabel_def SetLabel_def)
    then show ?thesis using ok \<open>ae_exec env p _ = None\<close> l None by blast
  qed
qed

lemma remove_adapter_cases:
  obtains (fail) e evs where "remove_adapter env n p = (evs, p, Some e)"
    | (ok) evs e where "remove_adapter env n p = (evs, relabel (gm_del (PodAdapterLabel n) (pod_labels p)) p, e)"
proof (cases "ae_exec env p [''rm'', ''-rf'', adapterDir n]")
  case (Some e)
  then show ?thesis using fail by (simp add: remove_adapter_def ctl_of_def)
next
  case None
  obtain post r where l: "UnloadLoraAdapter env True (getPodModelServerAddr p) n = (post, r)" by (rule prod.exhaust)
  show ?thesis
  proof (cases r)
    case (Some e)
    then show ?thesis using fail None l by (simp add: remove_adapter_def ctl_of_def)
  next
    case None
    let ?q = "relabel (gm_del (PodAdapterLabel n) (pod_labels p)) p"
    have "?q = p" if "pod_labels p = []" using that by (simp add: relabel_def gm_del_def)
    then have "\<exists>evs e. remove_adapter env n p = (evs, ?q, e)"
      using \<open>ae_exec env p _ = None\<close> l None
      by (cases "ae_update env ?q"; cases "pod_labels p = []")
         (auto simp: remove_adapter_def updatePodRemoveLabel_def Let_def relabel_def)
    then show ?thesis using ok by blast
  qed
qed

lemma each_ensure_Done:
  "each_until (ensure_adapter env) as p = (evs, q, None) \<Longrightarrow>
   q = relabel (foldl (\<lambda>ls a. gm_put (PodAdapterLabel (ad_Name a)) (ae_hash env (ad_URL a)) ls) (pod_labels p) as) p"
proof (induction as arbitrary: p evs)
  case (Cons a as)
  obtain evs1 p1 where one: "ensure_adapter env a p = (evs1, p1, None)"
    and rest: "\<exists>evs2. each_until (ensure_adapter env) as p1 = (evs2, q, None)"
    using Cons.prems by (auto simp: case_prod_beta Let_def prod_eq_iff split: option.splits)
  have "p1 = relabel (gm_put (PodAdapterLabel (ad_Name a)) (ae_hash env (ad_URL a)) (pod_labels p)) p"
    using one by (cases rule: ensure_adapter_cases [of env a p]) auto
  then show ?case using rest Cons.IH by fastforce
qed simp

lemma each_remove_Done:
  "each_until (remove_adapter env) ns p = (evs, q, None) \<Longrightarrow>
   q = relabel (foldl (\<lambda>ls n. gm_del (PodAdapterLabel n) ls) (pod_labels p) ns) p"
proof (induction ns arbitrary: p evs)
  case (Cons n ns)
  obtain evs1 p1 where one: "remove_adapter env n p = (evs1, p1, None)"
    and rest: "\<exists>evs2. each_until (remove_adapter env) ns p1 = (evs2, q, None)"
    using Cons.prems by (auto simp: case_prod_beta Let_def prod_eq_iff split: option.splits)
  have "p1 = relabel (gm_del (PodAdapterLabel n) (pod_labels p)) p"
    using one by (cases rule: remove_adapter_cases [of env n p]) auto
  then show ?case using rest Cons.IH by fastforce
qed simp

lemma distinct_names: "distinct (map ad_Name (a # as)) \<Longrightarrow> b \<in> set as \<Longrightarrow> ad_Name b \<noteq> ad_Name a"
  by (metis distinct.simps(2) image_eqI list.set_map list.simps(9))

lemma lookup_foldl_put:
  "distinct (map ad_Name as) \<Longrightarrow>
   gm_lookup (foldl (\<lambda>ls a. gm_put (PodAdapterLabel (ad_Name a)) (h a) ls) ls as) k
     = (case List.find (\<lambda>a. PodAdapterLabel (ad_Name a) = k) as of Some a \<Rightarrow> Some (h a) | None \<Rightarrow> gm_lookup ls k)"
proof (induction as arbitrary: ls)
  case (Cons a as)
  have "List.find (\<lambda>b. PodAdapterLabel (ad_Name b) = k) as = None" if k: "PodAdapterLabel (ad_Name a) = k"
    unfolding find_None_iff k [symmetric] using distinct_names [OF Cons.prems] by auto
  with Cons show ?case by (auto split: option.split)
qed simp

lemma lookup_foldl_del:
  "gm_lookup (foldl (\<lambda>ls n. gm_del (PodAdapterLabel n) ls) ls ns) k
     = (if k \<in> PodAdapterLabel ` set ns then None else gm_lookup ls k)"
  by (induction ns arbitrary: ls) auto

lemma gm_wf_foldl_labels:
  "gm_wf ls \<Longrightarrow> gm_wf (foldl (\<lambda>ls a. gm_put (f a) (h a) ls) ls as)"
  "gm_wf ls \<Longrightarrow> gm_wf (foldl (\<lambda>ls n. gm_del (g n) ls) ls ns)"
  by (induction as arbitrary: ls) (auto, induction ns arbitrary: ls, auto)

lemma getLabelledAdapters_set: "n \<in> set (getLabelledAdapters p) \<longleftrightarrow> gm_has (pod_labels p) (PodAdapterLabel n)"
  by (force simp: getLabelledAdapters_def gm_has_keys PodAdapterLabel_trim)

text \<open>The label of one adapter after a run that succeeds: \<open>old\<close> is the label before.\<close>

definition label_after :: "adapter_env \<Rightarrow> adapter list \<Rightarrow> string \<Rightarrow> string option \<Rightarrow> string option" where
  "label_after env as n old =
     (case List.find (\<lambda>a. ad_Name a = n) as of
        None \<Rightarrow> None
      | Some a \<Rightarrow> (if old = None \<or> old = Some (ae_hash env (ad_URL a)) then Some (ae_hash env (ad_URL a)) else None))"

definition adapters_wf :: "adapter_env \<Rightarrow> adapter list \<Rightarrow> bool" where
  "adapters_wf env as \<longleftrightarrow> distinct (map ad_Name as) \<and> (\<forall>a \<in> set as. ae_hash env (ad_URL a) \<noteq> [])"

definition adapter_effect :: "adapter_env \<Rightarrow> adapter list \<Rightarrow> pod \<Rightarrow> pod \<Rightarrow> bool" where
  "adapter_effect env as p q \<longleftrightarrow> ContainerIsReady p loaderContainerName \<and> q = relabel (pod_labels q) p
     \<and> (gm_wf (pod_labels p) \<longrightarrow> gm_wf (pod_labels q))
     \<and> (\<forall>n. gm_lookup (pod_labels q) (PodAdapterLabel n) = label_after env as n (gm_lookup (pod_labels p) (PodAdapterLabel n)))
     \<and> (\<forall>k. \<not> has_prefix k PodAdapterLabelPrefix \<longrightarrow> gm_lookup (pod_labels q) k = gm_lookup (pod_labels p) k)"

lemma find_filter_unique:
  "distinct (map ad_Name as) \<Longrightarrow> List.find (\<lambda>a. ad_Name a = n) (filter P as)
     = (case List.find (\<lambda>a. ad_Name a = n) as of Some a \<Rightarrow> if P a then Some a else None | None \<Rightarrow> None)"
proof (induction as)
  case (Cons a as)
  have "List.find (\<lambda>b. ad_Name b = n) as = None" if n: "ad_Name a = n"
    unfolding find_None_iff n [symmetric] using distinct_names [OF Cons.prems] by auto
  with Cons show ?case by (auto split: option.splits)
qed simp

lemma reconcile_adapter_pod_effect:
  assumes "adapters_wf env as" "reconcile_adapter_pod env (adapter_params env p as) = (evs, q, None)"
  shows "adapter_effect env as p q"
proof -
  let ?prm = "adapter_params env p as" and ?m = "adapter_matches_label env p"
  have ready: "ContainerIsReady p loaderContainerName"
    using assms(2) by (auto simp: reconcile_adapter_pod_def adapter_params_def split: if_splits)
  obtain evs1 p1 evs2 where ens: "each_until (ensure_adapter env) (filter (\<lambda>a. \<not> ?m a) as) p = (evs1, p1, None)"
    and rem: "each_until (remove_adapter env) (apm_toRemoveIDs ?prm) p1 = (evs2, q, None)"
    using assms(2) ready
    by (auto simp: reconcile_adapter_pod_def adapter_params_def case_prod_beta Let_def prod_eq_iff split: option.splits if_splits)
  define ls1 where "ls1 = foldl (\<lambda>ls a. gm_put (PodAdapterLabel (ad_Name a)) (ae_hash env (ad_URL a)) ls) (pod_labels p) (filter (\<lambda>a. \<not> ?m a) as)"
  define ls2 where "ls2 = foldl (\<lambda>ls n. gm_del (PodAdapterLabel n) ls) ls1 (apm_toRemoveIDs ?prm)"
  have "p1 = relabel ls1 p" using each_ensure_Done [OF ens] by (simp add: ls1_def)
  then have q: "q = relabel ls2 p" using each_remove_Done [OF rem] by (simp add: ls2_def)
  have d: "distinct (map ad_Name as)" "distinct (map ad_Name (filter (\<lambda>a. \<not> ?m a) as))"
    using assms(1) by (simp_all add: adapters_wf_def distinct_map_filter)
  have wf: "gm_wf (pod_labels p) \<Longrightarrow> gm_wf ls2" by (simp add: ls1_def ls2_def gm_wf_foldl_labels)
  have other: "gm_lookup ls2 k = gm_lookup (pod_labels p) k" if k: "\<not> has_prefix k PodAdapterLabelPrefix" for k
  proof -
    have ne: "PodAdapterLabel n \<noteq> k" for n using k PodAdapterLabel_prefix(1) by blast
    then have "List.find (\<lambda>a. PodAdapterLabel (ad_Name a) = k) (filter (\<lambda>a. \<not> ?m a) as) = None" by (simp add: find_None_iff)
    then show ?thesis using ne by (auto simp: ls2_def ls1_def lookup_foldl_del lookup_foldl_put [OF d(2)])
  qed
  have L2: "gm_lookup ls2 (PodAdapterLabel n) = (if n \<in> set (apm_toRemoveIDs ?prm) then None else gm_lookup ls1 (PodAdapterLabel n))" for n
    by (simp add: ls2_def lookup_foldl_del image_iff)
  have L1: "gm_lookup ls1 (PodAdapterLabel n) = (case List.find (\<lambda>a. ad_Name a = n) as of
      Some a \<Rightarrow> if ?m a then gm_lookup (pod_labels p) (PodAdapterLabel n) else Some (ae_hash env (ad_URL a))
    | None \<Rightarrow> gm_lookup (pod_labels p) (PodAdapterLabel n))" for n
    by (simp add: ls1_def lookup_foldl_put [OF d(2)] find_filter_unique [OF d(1)] split: option.split)
  have eq: "gm_lookup ls2 (PodAdapterLabel n) = label_after env as n (gm_lookup (pod_labels p) (PodAdapterLabel n))" for n
  proof (cases "List.find (\<lambda>a. ad_Name a = n) as")
    case None
    then have none: "n \<notin> ad_Name ` set as" by (auto simp: find_None_iff)
    then have "n \<in> set (apm_toRemoveIDs ?prm) \<longleftrightarrow> gm_has (pod_labels p) (PodAdapterLabel n)"
      by (auto simp: adapter_params_def getLabelledAdapters_set)
    then show ?thesis using None by (auto simp: L2 L1 label_after_def gm_has_def)
  next
    case (Some a)
    then have a: "a \<in> set as" "ad_Name a = n" by (auto simp: find_Some_iff)
    have uniq: "b = a" if "b \<in> set as" "ad_Name b = n" for b
      using that a d(1) by (auto simp: distinct_map inj_on_def)
    have "ae_hash env (ad_URL a) \<noteq> []" using assms(1) a(1) by (simp add: adapters_wf_def)
    then have m: "?m a \<longleftrightarrow> gm_lookup (pod_labels p) (PodAdapterLabel n) = Some (ae_hash env (ad_URL a))"
      by (cases "gm_lookup (pod_labels p) (PodAdapterLabel n)") (simp_all add: adapter_matches_label_def a(2) GetLabel_def gm_get_def)
    have "n \<in> ad_Name ` set (filter ?m as) \<longleftrightarrow> ?m a"
    proof
      assume "n \<in> ad_Name ` set (filter ?m as)"
      then obtain b where "b \<in> set as" "?m b" "ad_Name b = n" by auto
      then show "?m a" using uniq [of b] by simp
    next
      assume "?m a"
      then have "a \<in> set (filter ?m as)" using a(1) by simp
      then show "n \<in> ad_Name ` set (filter ?m as)" unfolding a(2) [symmetric] by (rule imageI)
    qed
    then have r: "n \<in> set (apm_toRemoveIDs ?prm) \<longleftrightarrow> gm_has (pod_labels p) (PodAdapterLabel n) \<and> \<not> ?m a"
      by (simp add: adapter_params_def getLabelledAdapters_set)
    show ?thesis
    proof (cases "?m a")
      case True
      then show ?thesis using r m by (simp add: L2 L1 Some label_after_def)
    next
      case False
      then show ?thesis using r m by (simp add: L2 L1 Some label_after_def gm_has_def)
    qed
  qed
  show ?thesis using ready wf other eq by (simp add: adapter_effect_def q)
qed

lemma reconcile_params_effect:
  "adapters_wf env as \<Longrightarrow> reconcile_params env (map (\<lambda>p. adapter_params env p as) ps) = (evs, qs, None) \<Longrightarrow>
     list_all2 (adapter_effect env as) ps qs"
proof (induction ps arbitrary: evs qs)
  case (Cons p ps)
  obtain evs1 q evs2 qs2 where one: "reconcile_adapter_pod env (adapter_params env p as) = (evs1, q, None)"
    and rest: "reconcile_params env (map (\<lambda>p. adapter_params env p as) ps) = (evs2, qs2, None)" and qs: "qs = q # qs2"
    using Cons.prems(2) by (auto simp: case_prod_beta Let_def prod_eq_iff split: option.splits)
  show ?case using reconcile_adapter_pod_effect [OF Cons.prems(1) one] Cons.IH [OF Cons.prems(1) rest] by (simp add: qs)
qed simp

end
