(* ===== verification/Controller_Actions.thy ===== *)
theory Controller_Actions
  imports Adapters
begin

section \<open>Controller runs\<close>

text \<open>
  A pass of the controller changes the Model it holds in memory, writes to the API server, and
  ends with a value, an error or a panic. A run returns the writes in order, the Model, and
  the outcome; \<open>ctl_bind\<close> is Go's sequencing with an early return at the first error. What
  the API server answers and what it holds are parameters (\<open>ctl_env\<close>). \<open>wp\<close> is the weakest
  precondition of a run: it bounds the writes it makes and describes the state it returns.
\<close>

subsection \<open>Objects and writes\<close>

record pvc =
  pvc_meta :: obj_meta
  pvc_access :: "string list"
  pvc_storage_class :: "string option"
  pvc_volume :: string
  pvc_request :: string

record config_map =
  cm_meta :: obj_meta
  cm_data :: "(string, string) gomap"

record service_port =
  spt_name :: string
  spt_port :: int
  spt_protocol :: string
  spt_target :: int

record service =
  svc_meta :: obj_meta
  svc_owned :: bool  \<comment> \<open>the Model is its controller owner\<close>
  svc_cluster_ip :: string
  svc_selector :: "(string, string) gomap"
  svc_ports :: "service_port list"

datatype ctl_act =
    ActCreateConfigMap config_map | ActUpdateConfigMap config_map | ActDeleteConfigMap string
  | ActUpdateModel model | ActUpdateStatus model
  | ActCreatePVC pvc | ActUpdatePVC pvc
  | ActCreateJob job | ActDeleteJob string
  | ActDeletePods string string  \<comment> \<open>\<open>DeleteAllOf\<close> by label\<close>
  | ActDeleteService string | ActPutService service
  | ActDeletePod string string | ActCreatePod pod
  | ActAdapter adapter_event

datatype 'a read = Found 'a | Missing | ReadErr string

record ctl_env =
  ce_answer :: "ctl_act \<Rightarrow> api_write"
  ce_own :: "obj_meta \<Rightarrow> string option"  \<comment> \<open>\<open>SetControllerReference\<close>\<close>
  ce_config_map :: "string \<Rightarrow> config_map read"
  ce_pvc :: "string \<Rightarrow> pvc read"
  ce_job :: "string \<Rightarrow> job read"
  ce_service :: "string \<Rightarrow> service read"
  ce_pods :: "string \<Rightarrow> string \<Rightarrow> (string, pod list) outcome"
  ce_now :: go_time
  ce_time_lenient :: "string \<Rightarrow> go_time option"  \<comment> \<open>\<open>time.Parse\<close> for text that is not strictly RFC 3339\<close>
  ce_json_error :: "string \<Rightarrow> string"  \<comment> \<open>of an annotation that cannot be decoded\<close>
  ce_quantity_ok :: "string \<Rightarrow> bool"  \<comment> \<open>\<open>resource.MustParse\<close> does not panic\<close>
  ce_adapters :: adapter_env
  ce_patch :: "json_patch list \<Rightarrow> pod \<Rightarrow> (string, pod) outcome"
  ce_dump :: "pod_spec \<Rightarrow> string"  \<comment> \<open>\<open>dump.ForHash\<close>\<close>

definition ce_pod_hash :: "ctl_env \<Rightarrow> pod_spec \<Rightarrow> string" where
  "ce_pod_hash env = PodHash (ae_safe_encode (ce_adapters env)) (ce_dump env)"

subsection \<open>Sequencing\<close>

type_synonym 'a ctl = "model \<Rightarrow> ctl_act list \<times> model \<times> (ctl_error, 'a) outcome"

definition ctl_return :: "'a \<Rightarrow> 'a ctl" where
  "ctl_return x m = ([], m, Done x)"

definition ctl_fail :: "ctl_error \<Rightarrow> 'a ctl" where
  "ctl_fail e m = ([], m, Error e)"

definition ctl_panic :: "string \<Rightarrow> 'a ctl" where
  "ctl_panic e m = ([], m, Panic e)"

definition ctl_bind :: "'a ctl \<Rightarrow> ('a \<Rightarrow> 'b ctl) \<Rightarrow> 'b ctl" where
  "ctl_bind c f m =
     (case c m of
        (as, m', Done x) \<Rightarrow> (let (bs, m'', r) = f x m' in (as @ bs, m'', r))
      | (as, m', Error e) \<Rightarrow> (as, m', Error e)
      | (as, m', Panic e) \<Rightarrow> (as, m', Panic e))"

definition ctl_get :: "model ctl" where
  "ctl_get m = ([], m, Done m)"

definition ctl_modify :: "(model \<Rightarrow> model) \<Rightarrow> unit ctl" where
  "ctl_modify f m = ([], f m, Done ())"

definition ctl_lift :: "string \<Rightarrow> (string, 'a) outcome \<Rightarrow> 'a ctl" where
  "ctl_lift ctx r = (case r of Done x \<Rightarrow> ctl_return x | Error e \<Rightarrow> ctl_fail (CtlError (ctx @ e)) | Panic e \<Rightarrow> ctl_panic e)"

text \<open>The error of a write, if its answer is not tolerated.\<close>

fun write_error :: "api_write \<Rightarrow> string" where
  "write_error WOk = []"
| "write_error WNotFound = ''not found''"
| "write_error WAlreadyExists = ''already exists''"
| "write_error WConflict = ''conflict''"
| "write_error (WErr e) = e"

definition ctl_write :: "ctl_env \<Rightarrow> api_write set \<Rightarrow> string \<Rightarrow> ctl_act \<Rightarrow> unit ctl" where
  "ctl_write env tolerated ctx a m =
     (let w = ce_answer env a
      in ([a], m, if w = WOk \<or> w \<in> tolerated then Done () else Error (CtlError (ctx @ write_error w))))"

definition ctl_owned :: "ctl_env \<Rightarrow> string \<Rightarrow> obj_meta \<Rightarrow> unit ctl" where
  "ctl_owned env ctx meta = (case ce_own env meta of None \<Rightarrow> ctl_return () | Some e \<Rightarrow> ctl_fail (CtlError (ctx @ e)))"

definition ctl_when :: "bool \<Rightarrow> unit ctl \<Rightarrow> unit ctl" where
  "ctl_when b c = (if b then c else ctl_return ())"

text \<open>\<open>fmt.Errorf(ctx + "%w", err)\<close>: the early return stays recognisable by \<open>errors.Is\<close>.\<close>

definition ctl_within :: "string \<Rightarrow> 'a ctl \<Rightarrow> 'a ctl" where
  "ctl_within ctx c m =
     (case c m of (as, m', r) \<Rightarrow> (as, m', case r of Error (CtlError e) \<Rightarrow> Error (CtlError (ctx @ e)) | _ \<Rightarrow> r))"

subsection \<open>Weakest preconditions\<close>

text \<open>\<open>wp c A Q m\<close>: from \<open>m\<close>, all writes of \<open>c\<close> satisfy \<open>A\<close>, also when it fails, and if it ends
  with a value \<open>Q\<close> holds of it. The equations compute it by simplification.\<close>

definition wp :: "'a ctl \<Rightarrow> (ctl_act \<Rightarrow> bool) \<Rightarrow> ('a \<Rightarrow> model \<Rightarrow> bool) \<Rightarrow> model \<Rightarrow> bool" where
  "wp c A Q m \<longleftrightarrow> (case c m of (as, m', r) \<Rightarrow> list_all A as \<and> (\<forall>x. r = Done x \<longrightarrow> Q x m'))"

named_theorems wp_simps "weakest preconditions of runs"

lemma wp_basic [simp, wp_simps]:
  "wp (ctl_return x) A Q m \<longleftrightarrow> Q x m"
  "wp (ctl_fail e) A Q' m" "wp (ctl_panic s) A Q' m"
  "wp ctl_get A R m \<longleftrightarrow> R m m"
  "wp (ctl_modify f) A S m \<longleftrightarrow> S () (f m)"
  by (simp_all add: wp_def ctl_return_def ctl_fail_def ctl_panic_def ctl_get_def ctl_modify_def)

lemma wp_bind [simp, wp_simps]: "wp (ctl_bind c f) A Q m \<longleftrightarrow> wp c A (\<lambda>x. wp (f x) A Q) m"
proof -
  obtain as1 m1 r1 where c: "c m = (as1, m1, r1)" by (rule prod_cases3)
  show ?thesis
  proof (cases r1)
    case (Done x)
    obtain as2 m2 r2 where f: "f x m1 = (as2, m2, r2)" by (rule prod_cases3)
    show ?thesis by (simp add: wp_def ctl_bind_def c Done f)
  qed (simp_all add: wp_def ctl_bind_def c)
qed

lemma wp_lift [simp, wp_simps]: "wp (ctl_lift ctx r) A Q m \<longleftrightarrow> (\<forall>x. r = Done x \<longrightarrow> Q x m)"
  by (cases r) (simp_all add: ctl_lift_def)

lemma wp_write [simp, wp_simps]:
  "wp (ctl_write env T ctx a) A Q m \<longleftrightarrow> A a \<and> (ce_answer env a = WOk \<or> ce_answer env a \<in> T \<longrightarrow> Q () m)"
  by (auto simp: wp_def ctl_write_def Let_def)

lemma wp_owned [simp, wp_simps]: "wp (ctl_owned env ctx meta) A Q m \<longleftrightarrow> (ce_own env meta = None \<longrightarrow> Q () m)"
  by (simp add: ctl_owned_def split: option.split)

lemma wp_when [simp, wp_simps]: "wp (ctl_when b c) A Q m \<longleftrightarrow> (if b then wp c A Q m else Q () m)"
  by (simp add: ctl_when_def)

lemma wp_within [simp, wp_simps]: "wp (ctl_within ctx c) A Q m \<longleftrightarrow> wp c A Q m"
  by (auto simp: wp_def ctl_within_def split: prod.splits outcome.splits ctl_error.splits)

lemma wp_mono: "wp c A Q m \<Longrightarrow> (\<And>a. A a \<Longrightarrow> A' a) \<Longrightarrow> (\<And>x m. Q x m \<Longrightarrow> Q' x m) \<Longrightarrow> wp c A' Q' m"
  by (auto simp: wp_def list_all_iff split: prod.splits)

lemma wp_run: "wp c A Q m \<Longrightarrow> c m = (as, m', r) \<Longrightarrow> (\<forall>a \<in> set as. A a) \<and> (\<forall>x. r = Done x \<longrightarrow> Q x m')"
  by (simp add: wp_def list_all_iff)

text \<open>The same under a binder.\<close>

lemma wp_eta:
  "wp (ctl_bind c f) A Q = wp c A (\<lambda>x. wp (f x) A Q)" "wp (ctl_within ctx c) A Q = wp c A Q"
  by (simp_all add: fun_eq_iff)

text \<open>The other direction: \<open>wa c A Q m\<close> describes the runs whose writes all satisfy \<open>A\<close>; with the
  negation of a condition for \<open>A\<close> and a false \<open>Q\<close> it says that some write meets the condition.\<close>

definition wa :: "'a ctl \<Rightarrow> (ctl_act \<Rightarrow> bool) \<Rightarrow> ('a \<Rightarrow> model \<Rightarrow> bool) \<Rightarrow> model \<Rightarrow> bool" where
  "wa c A Q m \<longleftrightarrow> (case c m of (as, m', r) \<Rightarrow> list_all A as \<longrightarrow> (\<forall>x. r = Done x \<longrightarrow> Q x m'))"

lemma wa_basic [simp, wp_simps]:
  "wa (ctl_return x) A Q m \<longleftrightarrow> Q x m"
  "wa (ctl_fail e) A Q' m" "wa (ctl_panic s) A Q' m"
  "wa ctl_get A R m \<longleftrightarrow> R m m"
  "wa (ctl_modify f) A S m \<longleftrightarrow> S () (f m)"
  by (simp_all add: wa_def ctl_return_def ctl_fail_def ctl_panic_def ctl_get_def ctl_modify_def)

lemma wa_bind [simp, wp_simps]: "wa (ctl_bind c f) A Q m \<longleftrightarrow> wa c A (\<lambda>x. wa (f x) A Q) m"
proof -
  obtain as1 m1 r1 where c: "c m = (as1, m1, r1)" by (rule prod_cases3)
  show ?thesis
  proof (cases r1)
    case (Done x)
    obtain as2 m2 r2 where f: "f x m1 = (as2, m2, r2)" by (rule prod_cases3)
    show ?thesis by (auto simp: wa_def ctl_bind_def c Done f)
  qed (simp_all add: wa_def ctl_bind_def c)
qed

lemma wa_write [simp, wp_simps]:
  "wa (ctl_write env T ctx a) A Q m \<longleftrightarrow> (A a \<longrightarrow> ce_answer env a = WOk \<or> ce_answer env a \<in> T \<longrightarrow> Q () m)"
  by (auto simp: wa_def ctl_write_def Let_def)

lemma wa_lift [simp, wp_simps]: "wa (ctl_lift ctx r) A Q m \<longleftrightarrow> (\<forall>x. r = Done x \<longrightarrow> Q x m)"
  by (cases r) (simp_all add: ctl_lift_def)

lemma wa_owned [simp, wp_simps]: "wa (ctl_owned env ctx meta) A Q m \<longleftrightarrow> (ce_own env meta = None \<longrightarrow> Q () m)"
  by (simp add: ctl_owned_def split: option.split)

lemma wa_when [simp, wp_simps]: "wa (ctl_when b c) A Q m \<longleftrightarrow> (if b then wa c A Q m else Q () m)"
  by (simp add: ctl_when_def)

lemma wa_within [simp, wp_simps]: "wa (ctl_within ctx c) A Q m \<longleftrightarrow> wa c A Q m"
  by (auto simp: wa_def ctl_within_def split: prod.splits outcome.splits ctl_error.splits)

lemma wa_mono: "wa c A Q m \<Longrightarrow> (\<And>x m. Q x m \<Longrightarrow> Q' x m) \<Longrightarrow> wa c A Q' m"
  by (auto simp: wa_def split: prod.splits)

lemma wa_run: "wa c A Q m \<Longrightarrow> c m = (as, m', Done x) \<Longrightarrow> Q x m' \<or> (\<exists>a \<in> set as. \<not> A a)"
  by (auto simp: wa_def list_all_iff)

text \<open>Runs that end with a value, taken apart.\<close>

lemma ctl_bind_Done:
  "ctl_bind c f m = (as, m', Done y) \<longleftrightarrow>
     (\<exists>as1 m1 x as2. c m = (as1, m1, Done x) \<and> f x m1 = (as2, m', Done y) \<and> as = as1 @ as2)"
  by (auto simp: ctl_bind_def split: prod.splits outcome.splits)

lemma ctl_Done_simps [simp]:
  "ctl_return x m = (as, m', Done y) \<longleftrightarrow> as = [] \<and> m' = m \<and> y = x"
  "\<not> (ctl_fail e m = (as, m', Done y))" "\<not> (ctl_panic s m = (as, m', Done y))"
  "ctl_get m = (as, m', Done y') \<longleftrightarrow> as = [] \<and> m' = m \<and> y' = m"
  "ctl_modify g m = (as, m', Done u) \<longleftrightarrow> as = [] \<and> m' = g m"
  by (auto simp: ctl_return_def ctl_fail_def ctl_panic_def ctl_get_def ctl_modify_def)

lemma ctl_lift_Done [simp]: "ctl_lift ctx r m = (as, m', Done y) \<longleftrightarrow> r = Done y \<and> as = [] \<and> m' = m"
  by (cases r) (auto simp: ctl_lift_def)

lemma ctl_write_Done [simp]:
  "ctl_write env T ctx a m = (as, m', Done u) \<longleftrightarrow> as = [a] \<and> m' = m \<and> (ce_answer env a = WOk \<or> ce_answer env a \<in> T)"
  by (auto simp: ctl_write_def Let_def)

lemma ctl_within_Done [simp]: "ctl_within ctx c m = (as, m', Done u) \<longleftrightarrow> c m = (as, m', Done u)"
  by (auto simp: ctl_within_def split: prod.splits outcome.splits ctl_error.splits)

lemma ctl_owned_Done [simp]: "ctl_owned env ctx meta m = (as, m', Done u) \<longleftrightarrow> as = [] \<and> m' = m \<and> ce_own env meta = None"
  by (auto simp: ctl_owned_def split: option.splits)

lemma ctl_when_Done [simp]:
  "ctl_when b c m = (as, m', Done u) \<longleftrightarrow> (if b then c m = (as, m', Done u) else as = [] \<and> m' = m)"
  by (simp add: ctl_when_def)

subsection \<open>What a run leaves unchanged\<close>

text \<open>\<open>stable g c\<close>: however \<open>c\<close> ends, the part \<open>g\<close> of the Model is as before.\<close>

definition stable :: "(model \<Rightarrow> 'b) \<Rightarrow> 'a ctl \<Rightarrow> bool" where
  "stable g c \<longleftrightarrow> (\<forall>m as m' r. c m = (as, m', r) \<longrightarrow> g m' = g m)"

named_theorems stable_rules "runs that keep a part of the Model"

lemma stable_run: "stable g c \<Longrightarrow> c m = (as, m', r) \<Longrightarrow> g m' = g m"
  by (simp add: stable_def)

lemma stable_basic [simp, stable_rules]:
  "stable g (ctl_return x)" "stable g (ctl_fail e)" "stable g (ctl_panic s)" "stable g ctl_get"
  "stable g (ctl_write env T ctx a)"
  by (simp_all add: stable_def ctl_return_def ctl_fail_def ctl_panic_def ctl_get_def ctl_write_def Let_def)

lemma stable_modify [simp]: "stable g (ctl_modify f) \<longleftrightarrow> (\<forall>m. g (f m) = g m)"
  by (simp add: stable_def ctl_modify_def)

lemma stable_bind [stable_rules]: "stable g c \<Longrightarrow> (\<And>x. stable g (f x)) \<Longrightarrow> stable g (ctl_bind c f)"
  unfolding stable_def ctl_bind_def by (auto split: prod.splits outcome.splits)

lemma stable_lift [simp, stable_rules]: "stable g (ctl_lift ctx r)"
  by (cases r) (simp_all add: ctl_lift_def)

lemma stable_owned [simp, stable_rules]: "stable g (ctl_owned env ctx meta)"
  by (simp add: ctl_owned_def split: option.split)

lemma stable_when [stable_rules]: "stable g c \<Longrightarrow> stable g (ctl_when b c)"
  by (simp add: ctl_when_def)

lemma stable_within [stable_rules]: "stable g c \<Longrightarrow> stable g (ctl_within ctx c)"
  by (auto simp: stable_def ctl_within_def split: prod.splits)

text \<open>The two ways a sequence runs.\<close>

lemma ctl_bind_run:
  assumes "ctl_bind c f m = (as, m', r)"
  obtains (stopped) r1 where "c m = (as, m', r1)" "\<forall>x. r1 \<noteq> Done x" "\<forall>x. r \<noteq> Done x"
    | (went_on) as1 m1 x as2 where "c m = (as1, m1, Done x)" "f x m1 = (as2, m', r)" "as = as1 @ as2"
proof -
  obtain as1 m1 r1 where c: "c m = (as1, m1, r1)" by (rule prod_cases3)
  show ?thesis
  proof (cases r1)
    case (Done x)
    obtain as2 m2 r2 where "f x m1 = (as2, m2, r2)" by (rule prod_cases3)
    then show ?thesis using assms went_on c Done by (simp add: ctl_bind_def)
  qed (use assms stopped c in \<open>auto simp: ctl_bind_def\<close>)
qed

end
