(* ===== verification/Cache.thy ===== *)
theory Cache
  imports Controller_Actions
begin

section \<open>Model caches\<close>

text \<open>
  \<open>internal/modelcontroller/cache.go\<close>: the volume claim that holds downloaded Models, the Job that
  loads a Model into it, and the Job that evicts it before the Model is deleted. A claim
  carries an annotation per loaded Model with the Model's UID.
\<close>

definition md_uid :: "model \<Rightarrow> string" where "md_uid m = om_uid (md_meta m)"

definition empty_pvc :: pvc where
  "empty_pvc = \<lparr>pvc_meta = empty_meta, pvc_access = [], pvc_storage_class = None, pvc_volume = [], pvc_request = []\<rparr>"

subsection \<open>Annotations\<close>

text \<open>The value of an annotation: the UID of the Model and the time.\<close>

type_synonym PVCModelAnnotationValue = "string \<times> go_time"

definition ann_field :: "(string \<Rightarrow> go_time option) \<Rightarrow> string \<Rightarrow> string \<Rightarrow> json_value \<Rightarrow> PVCModelAnnotationValue \<Rightarrow> PVCModelAnnotationValue option" where
  "ann_field lenient k raw v a =
     (if names_field ''uid'' k then map_option (\<lambda>u. (u, snd a)) (string_field v (fst a))
      else if names_field ''timestamp'' k then map_option (\<lambda>t. (fst a, t)) (time_field lenient raw (snd a))
      else Some a)"

definition marshal_annotation :: "PVCModelAnnotationValue \<Rightarrow> (string, string) outcome" where
  "marshal_annotation a =
     outcome_bind (marshal_time (snd a)) (\<lambda>t. Done (json_text (JObj [(''uid'', JStr (fst a)), (''timestamp'', t)])))"

definition parsePVCModelAnnotation :: "ctl_env \<Rightarrow> pvc \<Rightarrow> string \<Rightarrow> (string, PVCModelAnnotationValue) outcome" where
  "parsePVCModelAnnotation env p modelName =
     (let js = GetAnnotation (pvc_meta p) (PVCModelAnnotation modelName)
      in if js = [] then Done ([], zero_time)
         else (case decode_struct (ann_field (ce_time_lenient env)) ([], zero_time) js of
             None \<Rightarrow> Error (''unmarshalling pvc model status: '' @ ce_json_error env js) | Some a \<Rightarrow> Done a))"

definition updatePVCModelAnnotation :: "ctl_env \<Rightarrow> pvc \<Rightarrow> string \<Rightarrow> PVCModelAnnotationValue \<Rightarrow> unit ctl" where
  "updatePVCModelAnnotation env p modelName status =
     ctl_bind (ctl_lift ''marshalling pvc model status: '' (marshal_annotation status)) (\<lambda>js.
     ctl_write env {} ''updating pvc: '' (ActUpdatePVC
       (p\<lparr>pvc_meta := SetAnnotation (pvc_meta p) (PVCModelAnnotation modelName) js\<rparr>)))"

text \<open>An annotation is read as it was written.\<close>

lemma annotation_keys [simp]: "\<not> names_field ''uid'' ''timestamp''" "\<not> names_field ''timestamp'' ''uid''"
  by (simp_all add: names_field_ascii)

lemma annotation_comes_back:
  assumes "time_ok t" "json_clean u = u"
  obtains js where "marshal_annotation (u, t) = Done js" "js \<noteq> []" "decode_struct (ann_field lenient) z js = Some (u, t)"
proof
  let ?kvs = "[(''uid'', JStr u), (''timestamp'', JStr (time_text t))]"
  show "marshal_annotation (u, t) = Done (json_text (JObj ?kvs))"
    using marshal_time_ok [OF assms(1)] by (simp add: marshal_annotation_def)
  show "json_text (JObj ?kvs) \<noteq> []" by simp
  have keys: "json_clean ''uid'' = ''uid''" "json_clean ''timestamp'' = ''timestamp''" by (simp_all add: json_clean_ascii_id)
  have "fields_norm ?kvs = [(''uid'', json_quote u, JStr u), (''timestamp'', CHR 0x22 # time_text t @ [CHR 0x22], JStr (time_text t))]"
    using assms(2) by (simp add: fields_norm_def keys json_quote_time json_clean_ascii_id [OF plain_ascii [OF plain_time_text]] del: json_clean_ascii)
  moreover have "json_fits json_depth (JObj ?kvs)" by simp
  ultimately show "decode_struct (ann_field lenient) z (json_text (JObj ?kvs)) = Some (u, t)"
    using time_field_text [OF assms(1)] by (cases z) (simp add: decode_struct_text ann_field_def string_field_def del: json_text.simps)
qed

subsection \<open>Objects\<close>

definition loadCacheJobName :: "model \<Rightarrow> string" where
  "loadCacheJobName m = ''load-cache-'' @ md_name m"

definition evictCacheJobName :: "model \<Rightarrow> string" where
  "evictCacheJobName m = ''evict-cache-'' @ md_name m"

definition cachePVCForModel :: "ctl_env \<Rightarrow> model \<Rightarrow> model_config \<Rightarrow> (string, pvc) outcome" where
  "cachePVCForModel env m c =
     outcome_bind (cachePVCName m c) (\<lambda>name.
     case cp_SharedFilesystem (cfg_CacheProfile c) of
       Some fs \<Rightarrow>
         (if ce_quantity_ok env (csf_StorageSize fs) then
            Done \<lparr>pvc_meta = empty_meta\<lparr>om_name := name, om_namespace := om_namespace (md_meta m)\<rparr>,
              pvc_access = [''ReadWriteMany''], pvc_storage_class = Some (csf_StorageClassName fs),
              pvc_volume = csf_PersistentVolumeName fs, pvc_request = csf_StorageSize fs\<rparr>
          else Panic ''cannot parse quantity'')
     | None \<Rightarrow> Panic ''unsupported cache profile, this point should not be reached'')"

definition cache_job_spec :: "reconciler \<Rightarrow> string \<Rightarrow> container \<Rightarrow> pod_spec" where
  "cache_job_spec r pvcName ct = \<lparr>ps_containers = [ct], ps_volumes = [\<lparr>vol_name = ''model'', vol_source = VolPVC pvcName\<rparr>],
     ps_pull_secrets = [], ps_node_selector = [], ps_affinity = None, ps_tolerations = [], ps_scheduler = [], ps_runtime_class = None,
     ps_priority_class = [], ps_service_account = [], ps_security = msp_PodSecurityContext (rc_ModelServerPods r),
     ps_restart_policy = ''OnFailure'', ps_node_name = []\<rparr>"

definition cache_job :: "string \<Rightarrow> model \<Rightarrow> pod_spec \<Rightarrow> job" where
  "cache_job name m spec = \<lparr>job_meta = empty_meta\<lparr>om_name := name, om_namespace := om_namespace (md_meta m)\<rparr>,
     job_ttl = 60, job_parallelism = 1, job_completions = 1, job_pod_spec = spec, job_conditions = []\<rparr>"

definition loadCacheJobForModel :: "reconciler \<Rightarrow> model \<Rightarrow> model_config \<Rightarrow> (string, job) outcome" where
  "loadCacheJobForModel r m c =
     outcome_bind (cachePVCName m c) (\<lambda>pvcName.
     let ct = empty_container\<lparr>c_name := ''loader'', c_env := sorted_env (ms_Env (md_spec m)),
           c_security := msp_ContainerSecurityContext (rc_ModelServerPods r),
           c_mounts := [\<lparr>vm_name = ''model'', vm_path = modelCacheDir m, vm_subpath = trim_prefix (modelCacheDir m) ''/'', vm_readonly = False\<rparr>],
           c_image := rc_ModelLoadersImage r, c_args := [ms_URL (md_spec m), modelCacheDir m]\<rparr>
     in outcome_bind (applyToPodSpec (src_additions (cfg_Source c)) 0 (cache_job_spec r pvcName ct))
          (\<lambda>spec. Done (cache_job (loadCacheJobName m) m spec)))"

definition evictCacheJobForModel :: "reconciler \<Rightarrow> model \<Rightarrow> model_config \<Rightarrow> (string, job) outcome" where
  "evictCacheJobForModel r m c =
     outcome_bind (cachePVCName m c) (\<lambda>pvcName.
     let ct = empty_container\<lparr>c_name := ''evictor'', c_security := msp_ContainerSecurityContext (rc_ModelServerPods r),
           c_mounts := [\<lparr>vm_name = ''model'', vm_path = ''/models'', vm_subpath = ''models'', vm_readonly = False\<rparr>],
           c_image := rc_ModelLoadersImage r, c_command := [''bash'', ''-c'', ''rm -rf '' @ modelCacheDir m]\<rparr>
     in Done (cache_job (evictCacheJobName m) m (cache_job_spec r pvcName ct)))"

subsection \<open>Finalizers\<close>

definition has_finalizer :: "model \<Rightarrow> bool" where
  "has_finalizer m \<longleftrightarrow> ModelCacheEvictionFinalizer \<in> set (om_finalizers (md_meta m))"

definition add_finalizer :: "model \<Rightarrow> model" where
  "add_finalizer m = m\<lparr>md_meta := (md_meta m)\<lparr>om_finalizers := om_finalizers (md_meta m) @ [ModelCacheEvictionFinalizer]\<rparr>\<rparr>"

definition remove_finalizer :: "model \<Rightarrow> model" where
  "remove_finalizer m = m\<lparr>md_meta := (md_meta m)\<lparr>om_finalizers := removeAll ModelCacheEvictionFinalizer (om_finalizers (md_meta m))\<rparr>\<rparr>"

definition update_model :: "ctl_env \<Rightarrow> string \<Rightarrow> unit ctl" where
  "update_model env ctx = ctl_bind ctl_get (\<lambda>m. ctl_write env {} ctx (ActUpdateModel m))"

definition set_cache_loaded :: "bool \<Rightarrow> model \<Rightarrow> model" where
  "set_cache_loaded b m = m\<lparr>md_status := (md_status m)\<lparr>mst_CacheLoaded := Some b\<rparr>\<rparr>"

subsection \<open>Loading\<close>

definition get_or_create_pvc :: "ctl_env \<Rightarrow> model \<Rightarrow> model_config \<Rightarrow> pvc ctl" where
  "get_or_create_pvc env m c =
     ctl_bind (ctl_lift [] (cachePVCName m c)) (\<lambda>name.
     case ce_pvc env name of
       ReadErr e \<Rightarrow> ctl_fail (CtlError (''getting cache PVC: '' @ e))
     | Found p \<Rightarrow> ctl_return p
     | Missing \<Rightarrow>
         (if om_deleting (md_meta m) then ctl_return empty_pvc
          else ctl_bind (ctl_lift [] (cachePVCForModel env m c)) (\<lambda>p.
               ctl_bind (ctl_write env {} ''creating cache PVC: '' (ActCreatePVC p)) (\<lambda>_. ctl_return p))))"

definition read_job :: "ctl_env \<Rightarrow> string \<Rightarrow> string \<Rightarrow> job option ctl" where
  "read_job env ctx name =
     (case ce_job env name of Found j \<Rightarrow> ctl_return (Some j) | Missing \<Rightarrow> ctl_return None | ReadErr e \<Rightarrow> ctl_fail (CtlError (ctx @ e)))"

definition create_job :: "ctl_env \<Rightarrow> string \<Rightarrow> string \<Rightarrow> (string, job) outcome \<Rightarrow> unit ctl" where
  "create_job env ownCtx ctx j =
     ctl_bind (ctl_lift [] j) (\<lambda>j. ctl_bind (ctl_owned env ownCtx (job_meta j)) (\<lambda>_. ctl_write env {} ctx (ActCreateJob j)))"

text \<open>The run that populates the claim: it returns only if the Job is complete.\<close>

definition load_cache :: "ctl_env \<Rightarrow> reconciler \<Rightarrow> model \<Rightarrow> model_config \<Rightarrow> pvc \<Rightarrow> job option \<Rightarrow> unit ctl" where
  "load_cache env r m c p loadJob =
     (case loadJob of
        None \<Rightarrow> ctl_bind (create_job env ''setting controller reference on job: '' ''creating job: '' (loadCacheJobForModel r m c))
                  (\<lambda>_. ctl_fail ReturnEarly)
      | Some j \<Rightarrow> (if \<not> IsJobCompleted j then ctl_fail ReturnEarly
                    else ctl_within ''setting pvc model annotation: '' (updatePVCModelAnnotation env p (md_name m) (md_uid m, ce_now env))))"

definition reconcileCache :: "ctl_env \<Rightarrow> reconciler \<Rightarrow> model_config \<Rightarrow> unit ctl" where
  "reconcileCache env r c =
     ctl_bind (ctl_modify (\<lambda>m. if mst_CacheLoaded (md_status m) = None then set_cache_loaded False m else m)) (\<lambda>_.
     ctl_bind ctl_get (\<lambda>m.
     ctl_bind (get_or_create_pvc env m c) (\<lambda>p.
     ctl_bind (ctl_when (cp_SharedFilesystem (cfg_CacheProfile c) \<noteq> None \<and> \<not> has_finalizer m)
       (ctl_bind (ctl_modify add_finalizer) (\<lambda>_. update_model env ''adding cache deletion finalizer: ''))) (\<lambda>_.
     ctl_bind (read_job env ''getting cache job: '' (loadCacheJobName m)) (\<lambda>loadJob.
     ctl_bind (ctl_lift ''parsing pvc model annotation: '' (parsePVCModelAnnotation env p (md_name m))) (\<lambda>(uid, ts).
     ctl_bind (ctl_when (uid \<noteq> md_uid m) (load_cache env r m c p loadJob)) (\<lambda>_.
     ctl_bind (ctl_modify (set_cache_loaded (uid = md_uid m))) (\<lambda>_.
     ctl_when (loadJob \<noteq> None) (ctl_write env {} ''deleting job: '' (ActDeleteJob (loadCacheJobName m)))))))))))"

subsection \<open>Eviction\<close>

definition JobNameLabel :: string where "JobNameLabel = ''batch.kubernetes.io/job-name''"

definition delete_job_and_pods :: "ctl_env \<Rightarrow> string \<Rightarrow> unit ctl" where
  "delete_job_and_pods env name =
     ctl_bind (ctl_write env {WNotFound} (''deleting job '' @ quoted name @ '': '') (ActDeleteJob name)) (\<lambda>_.
     ctl_write env {WNotFound} (''deleting pods for job '' @ quoted name @ '': '') (ActDeletePods JobNameLabel name))"

definition deleteAllCacheJobsAndPods :: "ctl_env \<Rightarrow> model \<Rightarrow> unit ctl" where
  "deleteAllCacheJobsAndPods env m =
     ctl_within ''deleting all cache jobs and pods: ''
       (ctl_bind (delete_job_and_pods env (loadCacheJobName m)) (\<lambda>_. delete_job_and_pods env (evictCacheJobName m)))"

definition drop_pvc_annotation :: "ctl_env \<Rightarrow> pvc \<Rightarrow> string \<Rightarrow> unit ctl" where
  "drop_pvc_annotation env p modelName =
     ctl_when (gm_has (om_annotations (pvc_meta p)) (PVCModelAnnotation modelName))
       (ctl_write env {} ''updating PVC, removing cache annotation: '' (ActUpdatePVC
         (p\<lparr>pvc_meta := (pvc_meta p)\<lparr>om_annotations := gm_del (PVCModelAnnotation modelName) (om_annotations (pvc_meta p))\<rparr>\<rparr>)))"

text \<open>Eviction of a Model that has the finalizer, while the claim exists.\<close>

definition evict_cache :: "ctl_env \<Rightarrow> reconciler \<Rightarrow> model \<Rightarrow> model_config \<Rightarrow> pvc \<Rightarrow> unit ctl" where
  "evict_cache env r m c p =
     ctl_bind (read_job env ''getting cache deletion job: '' (evictCacheJobName m)) (\<lambda>evictJob.
     ctl_bind
       (case evictJob of
          None \<Rightarrow> ctl_bind (create_job env ''setting controller reference on cache deletion job: '' ''creating cache deletion job: ''
                    (evictCacheJobForModel r m c)) (\<lambda>_. ctl_fail ReturnEarly)
        | Some j \<Rightarrow> (if \<not> IsJobCompleted j then ctl_fail ReturnEarly else drop_pvc_annotation env p (md_name m))) (\<lambda>_.
     ctl_bind (ctl_modify remove_finalizer) (\<lambda>_. update_model env ''removing cache deletion finalizer: '')))"

definition finalizeCache :: "ctl_env \<Rightarrow> reconciler \<Rightarrow> model_config \<Rightarrow> unit ctl" where
  "finalizeCache env r c =
     ctl_bind ctl_get (\<lambda>m.
     ctl_bind (ctl_lift [] (cachePVCName m c)) (\<lambda>name.
     case ce_pvc env name of
       ReadErr e \<Rightarrow> ctl_fail (CtlError (''getting cache PVC: '' @ e))
     | Missing \<Rightarrow>
         ctl_bind (deleteAllCacheJobsAndPods env m) (\<lambda>_.
         ctl_when (has_finalizer m) (ctl_bind (ctl_modify remove_finalizer) (\<lambda>_. update_model env ''removing cache deletion finalizer: '')))
     | Found p \<Rightarrow>
         (if om_deleting (pvc_meta p) then
            ctl_bind (deleteAllCacheJobsAndPods env m) (\<lambda>_.
            ctl_when (has_finalizer m) (ctl_bind (ctl_modify remove_finalizer) (\<lambda>_. update_model env ''removing cache deletion finalizer: '')))
          else ctl_bind (ctl_when (has_finalizer m) (evict_cache env r m c p)) (\<lambda>_. deleteAllCacheJobsAndPods env m))))"

end
