(* ===== verification/Model_Controller.thy ===== *)
theory Model_Controller
  imports Cache
begin

section \<open>The Model controller\<close>

text \<open>
  \<open>internal/modelcontroller/model_controller.go\<close> and the ConfigMap of \<open>files.go\<close>: one pass of
  \<open>Reconcile\<close> over a Model. The result is the list of writes in order and what the pass
  returns to the work queue. The three second sleep after a scaling is not modelled. An
  \<open>errReturnEarly\<close> that reaches the top of the run is the \<open>return nil\<close> of the code.
\<close>

subsection \<open>The ConfigMap of Model files\<close>

definition gm_eq :: "('k, 'v) gomap \<Rightarrow> ('k, 'v) gomap \<Rightarrow> bool" where
  "gm_eq a b \<longleftrightarrow> list_all (\<lambda>k. gm_lookup a k = gm_lookup b k) (gm_keys a @ gm_keys b)"

definition model_files_data :: "model_spec \<Rightarrow> (string, string) gomap" where
  "model_files_data sp = gm_fill (map (\<lambda>f. (fileConfigMapKey (mf_Path f), mf_Content f)) (ms_Files sp)) []"

definition ensureModelFilesConfigMap :: "ctl_env \<Rightarrow> model \<Rightarrow> unit ctl" where
  "ensureModelFilesConfigMap env m =
     (let name = getModelFilesConfigMapName m; expected = model_files_data (md_spec m)
      in case ce_config_map env name of
           ReadErr e \<Rightarrow> ctl_fail (CtlError (''getting model files configmap: '' @ e))
         | Missing \<Rightarrow>
             (let cm = \<lparr>cm_meta = empty_meta\<lparr>om_name := name, om_namespace := om_namespace (md_meta m)\<rparr>, cm_data = expected\<rparr>
              in ctl_bind (ctl_owned env ''setting controller reference on model files configmap: '' (cm_meta cm))
                   (\<lambda>_. ctl_write env {} ''creating model files configmap: '' (ActCreateConfigMap cm)))
         | Found cm \<Rightarrow>
             (if ms_Files (md_spec m) = [] then
                ctl_write env {} ''deleting empty model files configmap: '' (ActDeleteConfigMap name)
              else ctl_when (\<not> gm_eq (cm_data cm) expected)
                (ctl_write env {} ''updating model files configmap: '' (ActUpdateConfigMap (cm\<lparr>cm_data := expected\<rparr>)))))"

subsection \<open>What the controller sets on the Model itself\<close>

definition feature_label :: "string \<Rightarrow> string" where
  "feature_label feat = ModelFeatureLabelDomain @ ''/'' @ feat"

definition stale_feature_label :: "string list \<Rightarrow> string \<Rightarrow> bool" where
  "stale_feature_label feats key \<longleftrightarrow> has_prefix key ModelFeatureLabelDomain
     \<and> trim_prefix key (ModelFeatureLabelDomain @ ''/'') \<notin> set feats"

definition applySelfLabels :: "model \<Rightarrow> model \<times> bool" where
  "applySelfLabels m =
     (let feats = remdups (ms_Features (md_spec m)); labels = om_labels (md_meta m);
          kept = filter (\<lambda>(k, v). \<not> stale_feature_label feats k) labels;
          missing = filter (\<lambda>f. \<not> gm_has kept (feature_label f)) feats;
          all = gm_fill (map (\<lambda>f. (feature_label f, ''true'')) missing) kept
      in (m\<lparr>md_meta := (md_meta m)\<lparr>om_labels := all\<rparr>\<rparr>, length kept < length labels \<or> missing \<noteq> []))"

definition set_replicas :: "int \<Rightarrow> model \<Rightarrow> model" where
  "set_replicas n m = m\<lparr>md_spec := (md_spec m)\<lparr>ms_Replicas := Some n\<rparr>\<rparr>"

definition applyAutoscalingReplicaBounds :: "model \<Rightarrow> model \<times> bool" where
  "applyAutoscalingReplicaBounds m =
     (let lo = ms_MinReplicas (md_spec m); hi = ms_MaxReplicas (md_spec m)
      in case ms_Replicas (md_spec m) of
           None \<Rightarrow> (set_replicas lo m, True)
         | Some n \<Rightarrow>
             (if n < lo then (set_replicas lo m, True)
              else (case hi of
                      None \<Rightarrow> (m, False)
                    | Some x \<Rightarrow> if x < n then (set_replicas x m, True) else (m, False))))"

definition self_update :: "model \<Rightarrow> model \<times> bool" where
  "self_update m =
     (let (m, changed) = applySelfLabels m
      in if ms_AutoscalingDisabled (md_spec m) then (m, changed)
         else (let (m, bounded) = applyAutoscalingReplicaBounds m in (m, bounded \<or> changed)))"

subsection \<open>The configuration of a Model\<close>

definition server_images :: "reconciler \<Rightarrow> string \<Rightarrow> (string, string) gomap" where
  "server_images r engine =
     (if engine = OLlamaEngine then msv_OLlama (rc_ModelServers r)
      else if engine = FasterWhisperEngine then msv_FasterWhisper (rc_ModelServers r)
      else if engine = InfinityEngine then msv_Infinity (rc_ModelServers r)
      else msv_VLLM (rc_ModelServers r))"

definition lookupServerImage :: "reconciler \<Rightarrow> model \<Rightarrow> resource_profile \<Rightarrow> (string, string) outcome" where
  "lookupServerImage r m profile =
     (if ms_Image (md_spec m) \<noteq> [] then Done (ms_Image (md_spec m))
      else (let imgs = server_images r (ms_Engine (md_spec m));
                name = (if rp_ImageName profile \<noteq> [] then rp_ImageName profile else ''default'')
            in case gm_lookup imgs name of
                 Some img \<Rightarrow> Done img
               | None \<Rightarrow> (case gm_lookup imgs ''default'' of
                            Some img \<Rightarrow> Done img | None \<Rightarrow> Error ''missing default server image'')))"

definition multiply_resources :: "int \<Rightarrow> (string, int) gomap \<Rightarrow> (string, int) gomap" where
  "multiply_resources n rs = map (\<lambda>(k, q). (k, q * n)) rs"

definition lookup_cache_profile :: "reconciler \<Rightarrow> string \<Rightarrow> (string, cache_profile) outcome" where
  "lookup_cache_profile r name =
     (if name = [] then Done \<lparr>cp_SharedFilesystem = None\<rparr>
      else (case gm_lookup (rc_CacheProfiles r) name of
              Some p \<Rightarrow> Done p | None \<Rightarrow> Error (''cache profile not found: '' @ quoted name)))"

text \<open>The error of \<open>strconv.Atoi\<close>.\<close>

definition atoi_error :: "string \<Rightarrow> string" where
  "atoi_error s =
     (let ds = (if s \<noteq> [] \<and> (hd s = CHR ''-'' \<or> hd s = CHR ''+'') then tl s else s)
      in ''strconv.Atoi: parsing '' @ quoted s @ (if ds = [] \<or> \<not> list_all is_digit ds then '': invalid syntax'' else '': value out of range''))"

definition wrap_error :: "string \<Rightarrow> (string, 'a) outcome \<Rightarrow> (string, 'a) outcome" where
  "wrap_error ctx r = (case r of Error e \<Rightarrow> Error (ctx @ e) | x \<Rightarrow> x)"

lemma wrap_error_Done [simp]: "wrap_error ctx r = Done x \<longleftrightarrow> r = Done x"
  by (cases r) (simp_all add: wrap_error_def)

definition lookup_resource_profile :: "reconciler \<Rightarrow> string \<Rightarrow> (string, resource_profile \<times> int) outcome" where
  "lookup_resource_profile r s =
     (case str_split (CHR '':'') s of
        [name, factor] \<Rightarrow>
          (case atoi factor of
             None \<Rightarrow> Error (''invalid multiple in resource profile multiple: '' @ quoted factor @ '': '' @ atoi_error factor)
           | Some n \<Rightarrow>
               (case gm_lookup (rc_ResourceProfiles r) name of
                  None \<Rightarrow> Error (''resource profile not found: '' @ quoted name)
                | Some p \<Rightarrow> Done (p, n)))
      | _ \<Rightarrow> Error (''invalid resource profile: '' @ quoted s @ '', should match <name>:<multiple>, example: nvidia-gpu-l4:2''))"

definition getModelConfig :: "reconciler \<Rightarrow> model \<Rightarrow> (string, model_config) outcome" where
  "getModelConfig r m =
     outcome_bind (wrap_error ''parsing model source: '' (parseModelSource (rc_SecretNames r) (ms_URL (md_spec m)))) (\<lambda>src.
     outcome_bind (lookup_cache_profile r (ms_CacheProfile (md_spec m))) (\<lambda>cp.
     outcome_bind (lookup_resource_profile r (ms_ResourceProfile (md_spec m))) (\<lambda>(profile, n).
     let rp = profile\<lparr>rp_Requests := multiply_resources n (rp_Requests profile),
                      rp_Limits := multiply_resources n (rp_Limits profile)\<rparr>;
         src = (case ms_EnvFrom (md_spec m) of
                  None \<Rightarrow> src | Some e \<Rightarrow> src\<lparr>src_additions := (src_additions src)\<lparr>pa_envFrom := e\<rparr>\<rparr>)
     in outcome_bind (wrap_error ''looking up server image: '' (lookupServerImage r m profile)) (\<lambda>img.
        Done \<lparr>cfg_CacheProfile = cp, cfg_ResourceProfile = rp, cfg_Image = img, cfg_Source = src\<rparr>))))"

subsection \<open>The headless Service of external mode\<close>

definition enginePort :: int where "enginePort = 8000"

definition headless_service :: "model \<Rightarrow> service \<Rightarrow> service" where
  "headless_service m s =
     (let meta = SetLabel (svc_meta s) ''kubeai.org/model'' (md_name m);
          sel = gm_put ''kubeai.org/model-uid'' (md_uid m) (gm_put ''kubeai.org/model'' (md_name m) (svc_selector s));
          port = \<lparr>spt_name = ''inference'', spt_port = enginePort, spt_protocol = ''TCP'', spt_target = enginePort\<rparr>
      in \<lparr>svc_meta = meta, svc_owned = True, svc_cluster_ip = ''None'', svc_selector = sel, svc_ports = port # tl (svc_ports s)\<rparr>)"

definition new_service :: "string \<Rightarrow> model \<Rightarrow> service" where
  "new_service name m = \<lparr>svc_meta = empty_meta\<lparr>om_name := name, om_namespace := om_namespace (md_meta m)\<rparr>, svc_owned = False,
     svc_cluster_ip = [], svc_selector = [], svc_ports = []\<rparr>"

definition reconcileHeadlessService :: "ctl_env \<Rightarrow> reconciler \<Rightarrow> model \<Rightarrow> unit ctl" where
  "reconcileHeadlessService env r m =
     (if length (md_uid m) < 6 then ctl_panic ''slice bounds out of range''
      else (let name = md_name m @ ''-'' @ take 6 (md_uid m); ctx = ''creating or updating headless service '' @ name @ '': '';
                put = (\<lambda>s. ctl_bind (ctl_owned env ctx (svc_meta s)) (\<lambda>_.
                        ctl_when (headless_service m s \<noteq> s) (ctl_write env {} ctx (ActPutService (headless_service m s)))))
            in if rc_ProxyMode r \<noteq> ProxyModeExternal then
                 ctl_write env {WNotFound} ''deleting headless service in internal mode: '' (ActDeleteService name)
               else (case ce_service env name of
                       ReadErr e \<Rightarrow> ctl_fail (CtlError (ctx @ e))
                     | Missing \<Rightarrow> put (new_service name m)
                     | Found s \<Rightarrow> put s)))"

subsection \<open>Pods and adapters\<close>

fun act_of_pod_action :: "pod_action \<Rightarrow> ctl_act" where
  "act_of_pod_action (DeletePod ns n) = ActDeletePod ns n"
| "act_of_pod_action (CreatePod p) = ActCreatePod p"

definition run_plan :: "ctl_env \<Rightarrow> pod_plan \<Rightarrow> unit ctl" where
  "run_plan env pp m =
     (let (as, changed, e) = execute_plan
            (\<lambda>p. case ce_own env (pod_meta p) of None \<Rightarrow> Done p | Some e \<Rightarrow> Error e)
            (\<lambda>p. ce_answer env (ActDeletePod (om_namespace (pod_meta p)) (om_name (pod_meta p))))
            (\<lambda>p. ce_answer env (ActCreatePod p)) pp
      in (map act_of_pod_action as, m, case e of None \<Rightarrow> Done () | Some x \<Rightarrow> Error (CtlError x)))"

definition run_adapters :: "ctl_env \<Rightarrow> pod list \<Rightarrow> adapter list \<Rightarrow> unit ctl" where
  "run_adapters env pods adapters m =
     (let (evs, ps, e) = reconcileAdapters (ce_adapters env) pods adapters
      in (map ActAdapter evs, m, case e of None \<Rightarrow> Done () | Some x \<Rightarrow> Error x))"

definition set_pod_counts :: "pod list \<Rightarrow> model \<Rightarrow> model" where
  "set_pod_counts pods m = m\<lparr>md_status := (md_status m)\<lparr>
     mst_All := wrap32 (int (length pods)), mst_Ready := wrap32 (int (length (filter PodIsReady pods)))\<rparr>\<rparr>"

definition reconcile_pods :: "ctl_env \<Rightarrow> reconciler \<Rightarrow> model_config \<Rightarrow> unit ctl" where
  "reconcile_pods env r c =
     ctl_bind ctl_get (\<lambda>m.
     ctl_bind (ctl_lift ''listing all node pools: '' (ce_pods env PodModelLabel (md_name m))) (\<lambda>allPods.
     ctl_bind (ctl_modify (set_pod_counts allPods)) (\<lambda>_.
     case planForModel (ce_patch env) (ce_pod_hash env) r allPods m c of
       Error e \<Rightarrow> ctl_return ()
     | Panic e \<Rightarrow> ctl_panic e
     | Done plan \<Rightarrow>
         ctl_bind (ctl_when (containsActions plan) (ctl_within ''executing pod plan: '' (run_plan env plan))) (\<lambda>_.
         ctl_within ''reconciling adapters: '' (run_adapters env (pp_toRemain plan) (adapters_of (md_spec m)))))))"

subsection \<open>Reconcile\<close>

definition delete_model :: "ctl_env \<Rightarrow> reconciler \<Rightarrow> model_config \<Rightarrow> unit ctl" where
  "delete_model env r c =
     ctl_bind ctl_get (\<lambda>m.
     ctl_bind (ctl_write env {WNotFound} ''deleting all pods: '' (ActDeletePods PodModelLabel (md_name m))) (\<lambda>_.
     ctl_when (ms_CacheProfile (md_spec m) \<noteq> []) (ctl_within ''finalizing cache: '' (finalizeCache env r c))))"

definition serve_model :: "ctl_env \<Rightarrow> reconciler \<Rightarrow> model_config \<Rightarrow> unit ctl" where
  "serve_model env r c =
     ctl_bind ctl_get (\<lambda>m.
     ctl_bind (ctl_when (ms_CacheProfile (md_spec m) \<noteq> []) (ctl_within ''reconciling cache: '' (reconcileCache env r c))) (\<lambda>_.
     ctl_bind (ctl_within ''reconciling headless service: '' (reconcileHeadlessService env r m)) (\<lambda>_.
     reconcile_pods env r c)))"

definition reconcile_body :: "ctl_env \<Rightarrow> reconciler \<Rightarrow> unit ctl" where
  "reconcile_body env r =
     ctl_bind ctl_get (\<lambda>m.
     ctl_bind (ensureModelFilesConfigMap env m) (\<lambda>_.
     ctl_bind (ctl_modify (\<lambda>m. fst (self_update m))) (\<lambda>_.
     if snd (self_update m) then update_model env ''updating model: ''
     else ctl_bind (ctl_lift ''getting model profile: '' (getModelConfig r m)) (\<lambda>c.
          if om_deleting (md_meta m) then delete_model env r c else serve_model env r c))))"

text \<open>The deferred status update: it compares a pointer with a struct by \<open>reflect.DeepEqual\<close>, which
  is always false, so the status is written on every pass, unless the Model is being deleted;
  also after an error or a panic.\<close>

definition update_status :: "ctl_env \<Rightarrow> model \<Rightarrow> (ctl_error, unit) outcome \<Rightarrow> ctl_act list \<times> (ctl_error, unit) outcome" where
  "update_status env m res =
     (if om_deleting (md_meta m) then ([], res)
      else ([ActUpdateStatus m],
        case ce_answer env (ActUpdateStatus m) of
          WOk \<Rightarrow> res
        | w \<Rightarrow> (case res of
                  Error (CtlError e) \<Rightarrow> Error (CtlError (e @ [CHR 0x0A] @ write_error w))
                | Panic e \<Rightarrow> Panic e
                | _ \<Rightarrow> Error (CtlError (write_error w)))))"

definition Reconcile :: "ctl_env \<Rightarrow> reconciler \<Rightarrow> model read \<Rightarrow> ctl_act list \<times> (ctl_error, unit) outcome" where
  "Reconcile env r rd =
     (case rd of
        Missing \<Rightarrow> ([], Done ())
      | ReadErr e \<Rightarrow> ([], Error (CtlError e))
      | Found m \<Rightarrow>
          (let (as, m', res) = reconcile_body env r m;
               res = (case res of Error ReturnEarly \<Rightarrow> Done () | x \<Rightarrow> x);
               (bs, res) = update_status env m' res
           in (as @ bs, res)))"

end
