(* ===== verification/Adapters_Properties.thy ===== *)
theory Adapters_Properties
  imports Adapters
begin

section \<open>Properties of adapter reconciliation\<close>

text \<open>
  The load balancer sends requests for an adapter to the Pods that carry its label, so the
  labels are what these properties are about: what a pass leaves, that two passes are enough,
  and that no label appears before its adapter is loaded.
\<close>

subsection \<open>One pass\<close>

text \<open>After a pass without errors, a Pod has the label of an adapter exactly if the Model lists
  it and the Pod had no label for it or the right one; a label with another hash, which is
  what a changed URL leaves behind, is removed after the new version was loaded. Labels of
  adapters that are not listed are gone, and all other labels are untouched.\<close>

theorem adapters_one_pass:
  assumes "adapters_wf env as" "reconcileAdapters env pods as = (evs, qs, None)"
  shows "list_all2 (\<lambda>p q. (\<forall>n. gm_lookup (pod_labels q) (PodAdapterLabel n)
            = (case List.find (\<lambda>a. ad_Name a = n) as of
                 None \<Rightarrow> None
               | Some a \<Rightarrow> if gm_lookup (pod_labels p) (PodAdapterLabel n) \<in> {None, Some (ae_hash env (ad_URL a))}
                          then Some (ae_hash env (ad_URL a)) else None))
        \<and> (\<forall>k. \<not> has_prefix k PodAdapterLabelPrefix \<longrightarrow> gm_lookup (pod_labels q) k = gm_lookup (pod_labels p) k))
     (filter has_vllm_engine pods) qs"
  by (rule list.rel_mono_strong [OF reconcile_params_effect [OF assms(1) assms(2) [unfolded reconcileAdapters_def]]])
     (simp add: adapter_effect_def label_after_def cong: option.case_cong)

definition adapter_pod :: "(string, string) gomap \<Rightarrow> pod" where
  "adapter_pod ls = relabel ((appKubernetesIOName, ''vllm'') # ls)
     ((demo_pod ''a'' ''True'')\<lparr>pod_status_of := \<lparr>pst_conditions = [], pst_pod_ip = ''10.0.0.1'', pst_container_ready = [(''loader'', True)]\<rparr>\<rparr>)"

definition ok_env :: adapter_env where
  "ok_env = \<lparr>ae_safe_encode = (\<lambda>u. CHR ''h'' # u), ae_exec = (\<lambda>p c. None), ae_http = (\<lambda>u b. Done (200, [])),
     ae_json_error = (\<lambda>b. []), ae_update = (\<lambda>p. None)\<rparr>"

definition adapter_x :: adapter where
  "adapter_x = \<lparr>ad_Name = ''x'', ad_URL = ''u2''\<rparr>"

definition run_labels :: "adapter_event list \<times> pod list \<times> ctl_error option \<Rightarrow> (string, string) gomap list option" where
  "run_labels r = (case r of (evs, qs, None) \<Rightarrow> Some (map pod_labels qs) | _ \<Rightarrow> None)"

lemma run_labels_Some: "run_labels r = Some ls \<Longrightarrow> \<exists>evs qs. r = (evs, qs, None) \<and> ls = map pod_labels qs"
  by (auto simp: run_labels_def split: prod.splits option.splits)

lemma demo_wf: "adapters_wf ok_env [adapter_x]"
  by (simp add: adapters_wf_def ok_env_def ae_hash_def StringHash_def)

lemma hash_u2: "ae_hash ok_env ''u2'' = ''h88254854''"
  by code_simp

lemma demo_changed_run:
  "run_labels (reconcileAdapters ok_env [adapter_pod [(''adapter.kubeai.org/x'', ''h1'')]] [adapter_x]) = Some [[(''app.kubernetes.io/name'', ''vllm'')]]"
  by code_simp

theorem adapters_one_pass_witness:
  "\<exists>evs q. reconcileAdapters ok_env [adapter_pod [(''adapter.kubeai.org/x'', ''h1'')]] [adapter_x] = (evs, [q], None)
    \<and> gm_lookup (pod_labels q) (PodAdapterLabel ''x'') = None"
proof -
  let ?p = "adapter_pod [(''adapter.kubeai.org/x'', ''h1'')]"
  obtain evs qs where r: "reconcileAdapters ok_env [?p] [adapter_x] = (evs, qs, None)" and "length qs = 1"
    using run_labels_Some [OF demo_changed_run] by (metis length_map One_nat_def length_Cons list.size(3))
  then obtain q where q: "qs = [q]" by (metis One_nat_def length_0_conv length_Suc_conv)
  have f: "filter has_vllm_engine [?p] = [?p]" by code_simp
  have "gm_lookup (pod_labels ?p) (PodAdapterLabel ''x'') = Some ''h1''" by code_simp
  then have "gm_lookup (pod_labels q) (PodAdapterLabel ''x'') = None"
    using adapters_one_pass [OF demo_wf r] unfolding f q
    by (force simp: adapter_x_def hash_u2)
  with r q show ?thesis by blast
qed

subsection \<open>Two passes\<close>

lemma list_all2_set2: "list_all2 P xs ys \<Longrightarrow> y \<in> set ys \<Longrightarrow> \<exists>x \<in> set xs. P x y"
  by (induction rule: list_all2_induct) auto

lemma adapter_effect_vllm: "adapter_effect env as p q \<Longrightarrow> has_vllm_engine p \<Longrightarrow> has_vllm_engine q"
proof -
  assume e: "adapter_effect env as p q" and v: "has_vllm_engine p"
  have "\<not> has_prefix appKubernetesIOName PodAdapterLabelPrefix" by code_simp
  then have "gm_lookup (pod_labels q) appKubernetesIOName = gm_lookup (pod_labels p) appKubernetesIOName"
    using e by (simp add: adapter_effect_def)
  moreover have "str_lower VLLMEngine \<noteq> []" by code_simp
  ultimately show ?thesis using v by (auto simp: has_vllm_engine_def gm_get_def split: option.splits)
qed

lemma label_after_twice:
  "label_after env as n (label_after env as n old) = (case List.find (\<lambda>a. ad_Name a = n) as of None \<Rightarrow> None | Some a \<Rightarrow> Some (ae_hash env (ad_URL a)))"
  by (simp add: label_after_def split: option.split)

lemma settled_pod_idle:
  assumes wf: "adapters_wf env as" "gm_wf (pod_labels q)" and ready: "ContainerIsReady q loaderContainerName"
    and lab: "\<forall>n. gm_lookup (pod_labels q) (PodAdapterLabel n)
      = (case List.find (\<lambda>a. ad_Name a = n) as of None \<Rightarrow> None | Some a \<Rightarrow> Some (ae_hash env (ad_URL a)))"
  shows "reconcile_adapter_pod env (adapter_params env q as) = ([], q, None)"
proof -
  have m: "adapter_matches_label env q a" if "a \<in> set as" for a
  proof -
    have "List.find (\<lambda>b. ad_Name b = ad_Name a) as = Some a"
      using that wf(1) unfolding adapters_wf_def
      by (metis (mono_tags, lifting) distinct_map find_SomeD find_SomeI inj_onD)
    then show ?thesis using lab by (simp add: adapter_matches_label_def GetLabel_def gm_get_def)
  qed
  then have e: "filter (\<lambda>a. \<not> adapter_matches_label env q a) as = []" "filter (adapter_matches_label env q) as = as"
    by (auto simp: filter_empty_conv filter_id_conv)
  have "n \<in> ad_Name ` set as" if n: "n \<in> set (getLabelledAdapters q)" for n
  proof -
    have "gm_lookup (pod_labels q) (PodAdapterLabel n) \<noteq> None" using n by (simp add: getLabelledAdapters_set gm_has_def)
    then obtain a where "List.find (\<lambda>a. ad_Name a = n) as = Some a" using lab by (auto split: option.splits)
    then show ?thesis by (auto dest: find_SomeD)
  qed
  then have "filter (\<lambda>n. n \<notin> ad_Name ` set as) (getLabelledAdapters q) = []" by (auto simp: filter_empty_conv)
  then show ?thesis using ready by (simp add: reconcile_adapter_pod_def adapter_params_def e)
qed

text \<open>C21: Two passes without errors are enough: afterwards every vLLM Pod has exactly the labels of
  the listed adapters, with the hashes of their URLs, and a further pass does nothing.\<close>

theorem adapters_converge:
  assumes "adapters_wf env as" "\<forall>p \<in> set pods. gm_wf (pod_labels p)"
    and "reconcileAdapters env pods as = (evs1, qs, None)" "reconcileAdapters env qs as = (evs2, rs, None)"
  shows "(\<forall>r \<in> set rs. \<forall>n. gm_lookup (pod_labels r) (PodAdapterLabel n)
        = map_option (\<lambda>a. ae_hash env (ad_URL a)) (List.find (\<lambda>a. ad_Name a = n) as))
    \<and> reconcileAdapters env rs as = ([], rs, None) \<and> length rs = length (filter has_vllm_engine pods)"
proof -
  have e1: "list_all2 (adapter_effect env as) (filter has_vllm_engine pods) qs"
    using assms(3) by (auto simp: reconcileAdapters_def intro: reconcile_params_effect [OF assms(1)])
  have vq: "q \<in> set qs \<Longrightarrow> has_vllm_engine q" for q
    using list_all2_set2 [OF e1] adapter_effect_vllm by fastforce
  then have fq: "filter has_vllm_engine qs = qs" by (simp add: filter_id_conv)
  have e2: "list_all2 (adapter_effect env as) qs rs"
    using assms(4) unfolding reconcileAdapters_def fq by (rule reconcile_params_effect [OF assms(1)])
  have vr: "r \<in> set rs \<Longrightarrow> has_vllm_engine r" for r
    using list_all2_set2 [OF e2] adapter_effect_vllm vq by fastforce
  then have fr: "filter has_vllm_engine rs = rs" by (simp add: filter_id_conv)
  have each: "gm_wf (pod_labels r) \<and> ContainerIsReady r loaderContainerName \<and> (\<forall>n. gm_lookup (pod_labels r) (PodAdapterLabel n)
        = (case List.find (\<lambda>a. ad_Name a = n) as of None \<Rightarrow> None | Some a \<Rightarrow> Some (ae_hash env (ad_URL a))))"
    if r: "r \<in> set rs" for r
  proof -
    obtain q where q: "q \<in> set qs" "adapter_effect env as q r" using list_all2_set2 [OF e2] r by blast
    obtain p where p: "p \<in> set (filter has_vllm_engine pods)" "adapter_effect env as p q" using list_all2_set2 [OF e1] q(1) by blast
    have "ContainerIsReady r loaderContainerName" using q(2) unfolding adapter_effect_def by (metis relabel_simps(7))
    then show ?thesis using p q(2) assms(2) unfolding adapter_effect_def by (simp add: label_after_twice)
  qed
  have "reconcile_params env (map (\<lambda>p. adapter_params env p as) xs) = ([], xs, None)" if "set xs \<subseteq> set rs" for xs
    using that by (induction xs) (simp_all add: settled_pod_idle [OF assms(1)] each)
  then have "reconcileAdapters env rs as = ([], rs, None)" by (simp add: reconcileAdapters_def fr)
  moreover have "length rs = length (filter has_vllm_engine pods)" using e1 e2 by (simp add: list_all2_lengthD)
  ultimately show ?thesis using each by (simp add: map_option_case)
qed

lemma demo_two_runs:
  "(case reconcileAdapters ok_env [adapter_pod [(''adapter.kubeai.org/x'', ''h1'')]] [adapter_x] of
      (evs, qs, None) \<Rightarrow> run_labels (reconcileAdapters ok_env qs [adapter_x]) | _ \<Rightarrow> None)
     = Some [[(''app.kubernetes.io/name'', ''vllm''), (''adapter.kubeai.org/x'', ''h88254854'')]]"
  by code_simp

theorem adapters_converge_witness:
  "\<exists>evs1 qs evs2 rs. reconcileAdapters ok_env [adapter_pod [(''adapter.kubeai.org/x'', ''h1'')]] [adapter_x] = (evs1, qs, None)
    \<and> reconcileAdapters ok_env qs [adapter_x] = (evs2, rs, None) \<and> reconcileAdapters ok_env rs [adapter_x] = ([], rs, None) \<and> rs \<noteq> []"
proof -
  let ?p = "adapter_pod [(''adapter.kubeai.org/x'', ''h1'')]"
  obtain evs1 qs where r1: "reconcileAdapters ok_env [?p] [adapter_x] = (evs1, qs, None)"
    using run_labels_Some [OF demo_changed_run] by blast
  have "run_labels (reconcileAdapters ok_env qs [adapter_x]) = Some [[(''app.kubernetes.io/name'', ''vllm''), (''adapter.kubeai.org/x'', ''h88254854'')]]"
    using demo_two_runs unfolding r1 by (simp del: append.simps)
  from run_labels_Some [OF this] obtain evs2 rs where r2: "reconcileAdapters ok_env qs [adapter_x] = (evs2, rs, None)" "rs \<noteq> []"
    by auto
  note r = r1 r2
  have "gm_wf (pod_labels ?p)" by code_simp
  then show ?thesis using adapters_converge [OF demo_wf _ r(1,2)] r by auto
qed

subsection \<open>No label without a load\<close>

text \<open>The adapter was fetched by the loader and the server accepted it, during this run.\<close>

definition loaded_in :: "adapter_env \<Rightarrow> pod \<Rightarrow> adapter_event list \<Rightarrow> adapter \<Rightarrow> bool" where
  "loaded_in env p evs a \<longleftrightarrow> (\<exists>ls post. ae_exec env (relabel ls p) [''load'', ad_URL a, adapterDir (ad_Name a)] = None
     \<and> LoadLoraAdapter env True (getPodModelServerAddr p) (ad_Name a) (adapterDir (ad_Name a)) = (post, None) \<and> post \<in> set evs)"

definition new_labels_loaded :: "adapter_env \<Rightarrow> adapter list \<Rightarrow> adapter_event list \<Rightarrow> pod \<Rightarrow> pod \<Rightarrow> bool" where
  "new_labels_loaded env as evs p q \<longleftrightarrow> (\<forall>n h. gm_lookup (pod_labels q) (PodAdapterLabel n) = Some h
     \<longrightarrow> gm_lookup (pod_labels p) (PodAdapterLabel n) = Some h \<or> (\<exists>a \<in> set as. ad_Name a = n \<and> h = ae_hash env (ad_URL a) \<and> loaded_in env p evs a))"

lemma loaded_in_mono: "loaded_in env p evs a \<Longrightarrow> set evs \<subseteq> set evs' \<Longrightarrow> loaded_in env p evs' a"
  unfolding loaded_in_def by blast

lemma loaded_in_relabel: "loaded_in env (relabel ls p) evs a = loaded_in env p evs a"
  by (simp add: loaded_in_def)

lemma new_labels_mono: "new_labels_loaded env as evs p q \<Longrightarrow> set evs \<subseteq> set evs' \<Longrightarrow> set as \<subseteq> set as' \<Longrightarrow> new_labels_loaded env as' evs' p q"
  unfolding new_labels_loaded_def by (meson loaded_in_mono subsetD)

lemma new_labels_refl [simp]: "new_labels_loaded env as evs p p"
  by (simp add: new_labels_loaded_def)

lemma ensure_new_labels:
  "each_until (ensure_adapter env) as p = (evs, q, e) \<Longrightarrow> (\<exists>ls. q = relabel ls p) \<and> new_labels_loaded env as evs p q"
proof (induction as arbitrary: p evs q)
  case Nil
  then show ?case by (auto intro: exI [of _ "pod_labels p"])
next
  case (Cons a as)
  show ?case
  proof (cases rule: ensure_adapter_cases [of env a p])
    case (fail m evs1)
    then have "q = p" using Cons.prems by simp
    then show ?thesis by (auto intro: exI [of _ "pod_labels p"])
  next
    case (ok ex post upd e1)
    let ?p1 = "relabel (gm_put (PodAdapterLabel (ad_Name a)) (ae_hash env (ad_URL a)) (pod_labels p)) p"
    have load: "loaded_in env p [ex, post, upd] a"
      unfolding loaded_in_def using ok(2,3) by (intro exI [of _ "pod_labels p"] exI [of _ post]) simp
    show ?thesis
    proof (cases e1)
      case (Some m)
      then have "q = ?p1" "evs = [ex, post, upd]" using Cons.prems ok(1) by simp_all
      then show ?thesis using load by (auto simp: new_labels_loaded_def)
    next
      case None
      obtain evs2 where rest: "each_until (ensure_adapter env) as ?p1 = (evs2, q, e)" and evs: "evs = [ex, post, upd] @ evs2"
        using Cons.prems ok(1) None by (auto simp: Let_def case_prod_beta prod_eq_iff)
      from Cons.IH [OF rest] obtain ls where q: "q = relabel ls p" and new: "new_labels_loaded env as evs2 ?p1 q" by auto
      have "new_labels_loaded env (a # as) evs p q"
        unfolding new_labels_loaded_def
      proof (intro allI impI)
        fix n h assume h: "gm_lookup (pod_labels q) (PodAdapterLabel n) = Some h"
        consider "gm_lookup (pod_labels ?p1) (PodAdapterLabel n) = Some h"
          | b where "b \<in> set as" "ad_Name b = n" "h = ae_hash env (ad_URL b)" "loaded_in env p evs2 b"
          using new h unfolding new_labels_loaded_def loaded_in_relabel by blast
        then show "gm_lookup (pod_labels p) (PodAdapterLabel n) = Some h
            \<or> (\<exists>a \<in> set (a # as). ad_Name a = n \<and> h = ae_hash env (ad_URL a) \<and> loaded_in env p evs a)"
        proof cases
          case 1
          then show ?thesis using loaded_in_mono [OF load, of evs] by (auto simp: evs split: if_splits)
        next
          case 2
          then show ?thesis using loaded_in_mono [of env p evs2 b evs] by (auto simp: evs)
        qed
      qed
      with q show ?thesis by blast
    qed
  qed
qed

lemma remove_no_new_labels:
  "each_until (remove_adapter env) ns p = (evs, q, e) \<Longrightarrow>
   (\<exists>ls. q = relabel ls p) \<and> (\<forall>k h. gm_lookup (pod_labels q) k = Some h \<longrightarrow> gm_lookup (pod_labels p) k = Some h)"
proof (induction ns arbitrary: p evs q)
  case Nil
  then show ?case by (auto intro: exI [of _ "pod_labels p"])
next
  case (Cons n ns)
  show ?case
  proof (cases rule: remove_adapter_cases [of env n p])
    case (fail m evs1)
    then have "q = p" using Cons.prems by simp
    then show ?thesis by (auto intro: exI [of _ "pod_labels p"])
  next
    case (ok evs1 e1)
    let ?p1 = "relabel (gm_del (PodAdapterLabel n) (pod_labels p)) p"
    have "q = ?p1 \<or> (\<exists>evs2. each_until (remove_adapter env) ns ?p1 = (evs2, q, e))"
      using Cons.prems ok by (cases e1) (auto simp: Let_def case_prod_beta prod_eq_iff)
    then show ?thesis
    proof
      assume "q = ?p1"
      then show ?thesis by (auto split: if_splits)
    next
      assume "\<exists>evs2. each_until (remove_adapter env) ns ?p1 = (evs2, q, e)"
      then obtain evs2 where "each_until (remove_adapter env) ns ?p1 = (evs2, q, e)" by blast
      from Cons.IH [OF this] obtain ls where q: "q = relabel ls p"
        and k: "gm_lookup (pod_labels q) k = Some h \<Longrightarrow> gm_lookup (pod_labels ?p1) k = Some h" for k h by auto
      have "gm_lookup (pod_labels p) k = Some h" if "gm_lookup (pod_labels q) k = Some h" for k h
        using k [OF that] by (simp split: if_splits)
      with q show ?thesis by blast
    qed
  qed
qed

lemma pod_new_labels:
  assumes "reconcile_adapter_pod env (adapter_params env p as) = (evs, q, e)"
  shows "new_labels_loaded env as evs p q"
proof (cases "ContainerIsReady p loaderContainerName")
  case False
  then show ?thesis using assms by (simp add: reconcile_adapter_pod_def adapter_params_def)
next
  case True
  let ?ens = "filter (\<lambda>a. \<not> adapter_matches_label env p a) as"
  obtain evs1 p1 e1 where ens: "each_until (ensure_adapter env) ?ens p = (evs1, p1, e1)" by (rule prod_cases3)
  have new: "new_labels_loaded env as evs1 p p1"
    using ensure_new_labels [OF ens] by (auto elim: new_labels_mono)
  show ?thesis
  proof (cases e1)
    case (Some m)
    then show ?thesis using assms True ens new by (simp add: reconcile_adapter_pod_def adapter_params_def)
  next
    case None
    obtain evs2 p2 e2 where rem: "each_until (remove_adapter env) (apm_toRemoveIDs (adapter_params env p as)) p1 = (evs2, p2, e2)"
      by (rule prod_cases3)
    have r: "evs = evs1 @ evs2" "q = p2"
      using assms True ens None rem by (simp_all add: reconcile_adapter_pod_def adapter_params_def)
    have "new_labels_loaded env as (evs1 @ evs2) p p1" using new by (rule new_labels_mono) auto
    then show ?thesis using remove_no_new_labels [OF rem] unfolding r new_labels_loaded_def by blast
  qed
qed

text \<open>C20: In every run, failed ones included, a Pod gets the label of an adapter only after, in the same
  run, the loader of that Pod fetched the adapter and its server accepted the request to
  load it (or answered that it is loaded): no request is routed to a Pod that lacks it.\<close>

theorem no_label_without_load:
  assumes "reconcileAdapters env pods as = (evs, qs, e)"
  shows "list_all2 (\<lambda>p q. \<forall>n h. gm_lookup (pod_labels q) (PodAdapterLabel n) = Some h \<longrightarrow> gm_lookup (pod_labels p) (PodAdapterLabel n) \<noteq> Some h
      \<longrightarrow> (\<exists>a \<in> set as. ad_Name a = n \<and> h = ae_hash env (ad_URL a) \<and> loaded_in env p evs a)) (filter has_vllm_engine pods) qs"
proof -
  have "list_all2 (new_labels_loaded env as evs) ps qs"
    if "reconcile_params env (map (\<lambda>p. adapter_params env p as) ps) = (evs, qs, e)" for ps evs qs
    using that
  proof (induction ps arbitrary: evs qs)
    case (Cons p ps)
    obtain evs1 q e1 where one: "reconcile_adapter_pod env (adapter_params env p as) = (evs1, q, e1)" by (rule prod_cases3)
    note new = pod_new_labels [OF one]
    show ?case
    proof (cases e1)
      case (Some m)
      then have "qs = q # ps" "evs = evs1" using Cons.prems one by (simp_all add: adapter_params_def comp_def)
      then show ?thesis using new by (simp add: list_all2_same)
    next
      case None
      obtain evs2 qs2 e2 where rest: "reconcile_params env (map (\<lambda>p. adapter_params env p as) ps) = (evs2, qs2, e2)" by (rule prod_cases3)
      have r: "evs = evs1 @ evs2" "qs = q # qs2" "e2 = e" using Cons.prems one None rest by simp_all
      have "list_all2 (new_labels_loaded env as evs2) ps qs2" using Cons.IH rest r(3) by simp
      then have "list_all2 (new_labels_loaded env as evs) ps qs2"
        by (rule list.rel_mono_strong) (auto simp: r elim: new_labels_mono)
      then show ?thesis using new_labels_mono [OF new, of evs as] by (simp add: r)
    qed
  qed simp
  then have "list_all2 (new_labels_loaded env as evs) (filter has_vllm_engine pods) qs"
    using assms by (simp add: reconcileAdapters_def)
  then show ?thesis by (rule list.rel_mono_strong) (auto simp: new_labels_loaded_def)
qed

theorem no_label_without_load_witness:
  "\<exists>evs q. reconcileAdapters ok_env [adapter_pod []] [adapter_x] = (evs, [q], None) \<and> loaded_in ok_env (adapter_pod []) evs adapter_x"
proof -
  have "run_labels (reconcileAdapters ok_env [adapter_pod []] [adapter_x])
     = Some [[(''app.kubernetes.io/name'', ''vllm''), (''adapter.kubeai.org/x'', ''h88254854'')]]" by code_simp
  then obtain evs qs where r: "reconcileAdapters ok_env [adapter_pod []] [adapter_x] = (evs, qs, None)"
    and l: "map pod_labels qs = [[(''app.kubernetes.io/name'', ''vllm''), (''adapter.kubeai.org/x'', ''h88254854'')]]"
    using run_labels_Some by metis
  obtain q where q: "qs = [q]" using l by (cases qs) simp_all
  have f: "filter has_vllm_engine [adapter_pod []] = [adapter_pod []]" by code_simp
  have "gm_lookup (pod_labels q) (PodAdapterLabel ''x'') = Some ''h88254854''"
    using l by (simp add: q PodAdapterLabel_def PodAdapterLabelPrefix_def)
  moreover have "gm_lookup (pod_labels (adapter_pod [])) (PodAdapterLabel ''x'') \<noteq> Some ''h88254854''" by code_simp
  ultimately have "loaded_in ok_env (adapter_pod []) evs adapter_x"
    using no_label_without_load [OF r] unfolding f q by auto
  with r q show ?thesis by blast
qed

subsection \<open>Errors of the model server\<close>

text \<open>The answer to the removal of an adapter the server does not have: as the comment in the client
  gives it, and with the error inside a member \<open>error\<close>, as the client reads it.\<close>

definition not_found_message :: "string \<Rightarrow> string" where
  "not_found_message n = ''The lora adapter '' @ CHR 0x27 # n @ CHR 0x27 # '' cannot be found.''"

definition not_found_flat :: "string \<Rightarrow> string" where
  "not_found_flat n = json_text (JObj [(''object'', JStr ''error''), (''message'', JStr (not_found_message n)),
     (''type'', JStr ''InvalidUserInput''), (''param'', JNull), (''code'', JNum ''400'')])"

definition not_found_nested :: "string \<Rightarrow> string" where
  "not_found_nested n = json_text (JObj [(''error'', JObj [(''message'', JStr (not_found_message n)),
     (''type'', JStr ''InvalidUserInput''), (''param'', JNull), (''code'', JNum ''400'')])])"

lemma decode_first_text: "json_fits json_depth (JObj kvs) \<Longrightarrow> decode_first (json_text (JObj kvs)) = Some (json_norm (JObj kvs))"
  using json_reads [of "JObj kvs"] unfolding reads_def decode_first_def
  by (elim allE [of _ "2 * length (json_text (JObj kvs)) + 2"] allE [of _ json_depth] allE [of _ "[]"]) (simp add: stops_def)

lemma str_contains_mid: "str_contains (a @ t @ b) t"
proof (induction a)
  case Nil
  have "has_prefix (t @ b) t" by (simp add: has_prefix_def)
  then show ?case by (cases "t @ b") (simp_all add: has_prefix_def)
qed simp

lemma num_400: "num_ok ''400''"
  by code_simp

lemma vllm_names:
  "names_field ''error'' ''object'' = False" "names_field ''error'' ''message'' = False" "names_field ''error'' ''type'' = False"
  "names_field ''error'' ''param'' = False" "names_field ''error'' ''code'' = False" "names_field ''message'' ''type'' = False"
  "names_field ''message'' ''param'' = False" "names_field ''message'' ''code'' = False" "names_field ''type'' ''param'' = False"
  "names_field ''type'' ''code'' = False"
  by code_simp+

lemma decode_error_text:
  "json_fits json_depth (JObj kvs) \<Longrightarrow> decode_error_response (json_text (JObj kvs))
    = set_fields error_response_field (map (\<lambda>(k, v). (json_clean k, [], json_norm v)) kvs) \<lparr>ve_Message = [], ve_Type = []\<rparr>"
  unfolding decode_error_response_def by (simp only: decode_first_text) (simp add: fill_struct_def comp_def case_prod_unfold)

lemma decode_flat: "decode_error_response (not_found_flat n) = Some \<lparr>ve_Message = [], ve_Type = []\<rparr>"
  unfolding not_found_flat_def by (subst decode_error_text) (simp_all add: num_400 error_response_field_def json_clean_ascii_id vllm_names)

lemma not_found_ascii: "ascii n \<Longrightarrow> json_clean (not_found_message n) = not_found_message n"
  by (intro json_clean_ascii_id) (simp add: not_found_message_def)

lemma decode_nested:
  assumes "ascii n"
  shows "decode_error_response (not_found_nested n) = Some \<lparr>ve_Message = not_found_message n, ve_Type = ''InvalidUserInput''\<rparr>"
  unfolding not_found_nested_def
  by (subst decode_error_text) (simp_all add: num_400 fill_struct_def error_response_field_def vllm_error_field_def string_field_def
      json_clean_ascii_id vllm_names not_found_ascii [OF assms])

text \<open>C22: An adapter that the server does not have counts as removed when the answer has its error
  under \<open>error\<close>. The answer in the form the client documents is not recognised: the pass fails,
  and the label that routes requests to the Pod stays.\<close>

theorem unload_not_found:
  assumes "ae_exec env p [''rm'', ''-rf'', adapterDir n] = None" "ascii n"
    and "ae_http env (getPodModelServerAddr p @ ''/v1/unload_lora_adapter'') (unload_adapter_body n) = Done (400, answer)"
  shows "(answer = not_found_flat n \<longrightarrow> (\<exists>evs e. remove_adapter env n p = (evs, p, Some (CtlError e))))
    \<and> (answer = not_found_nested n \<longrightarrow> snd (UnloadLoraAdapter env True (getPodModelServerAddr p) n) = None)"
proof (intro conjI impI)
  assume flat: "answer = not_found_flat n"
  obtain post m where u: "UnloadLoraAdapter env True (getPodModelServerAddr p) n = (post, Some m)"
    using assms(3) by (simp add: UnloadLoraAdapter_def vllm_post_def flat decode_flat)
  then show "\<exists>evs e. remove_adapter env n p = (evs, p, Some (CtlError e))"
    by (simp add: remove_adapter_def assms(1) ctl_of_def)
next
  assume nested: "answer = not_found_nested n"
  have "str_contains ((''The lora adapter '' @ CHR 0x27 # n @ [CHR 0x27, CHR '' '']) @ ''cannot be found'' @ ''.'') ''cannot be found''"
    by (rule str_contains_mid)
  then have "str_contains (not_found_message n) ''cannot be found''" by (simp only: not_found_message_def append_Cons append_Nil append_assoc)
  then show "snd (UnloadLoraAdapter env True (getPodModelServerAddr p) n) = None"
    using assms(3) by (simp add: UnloadLoraAdapter_def vllm_post_def nested decode_nested [OF assms(2)] del: str_contains.simps)
qed

theorem unload_not_found_witness:
  "\<exists>evs e. remove_adapter (ok_env\<lparr>ae_http := \<lambda>u b. Done (400, not_found_flat ''x'')\<rparr>) ''x'' (adapter_pod []) = (evs, adapter_pod [], Some (CtlError e))"
  using unload_not_found [of "ok_env\<lparr>ae_http := \<lambda>u b. Done (400, not_found_flat ''x'')\<rparr>" "adapter_pod []" "''x''" "not_found_flat ''x''"]
  by (simp add: ok_env_def)

subsection \<open>Hashes that collide\<close>

text \<open>The label of an adapter holds the 32-bit FNV hash of its URL, and nothing else tells whether
  it is loaded. When a URL is replaced by one with the same hash, the Pod that serves the old
  adapter is never told to load the new one.\<close>

theorem colliding_url_not_loaded:
  assumes "GetLabel (pod_meta p) (PodAdapterLabel n) = ae_hash env ''hf://a/kubkoyy''"
  shows "apm_toEnsure (adapter_params env p [\<lparr>ad_Name = n, ad_URL = ''hf://a/xiwipst''\<rparr>]) = []
    \<and> n \<notin> set (apm_toRemoveIDs (adapter_params env p [\<lparr>ad_Name = n, ad_URL = ''hf://a/xiwipst''\<rparr>]))"
proof -
  have "fnv32a ''hf://a/kubkoyy'' = fnv32a ''hf://a/xiwipst''" by code_simp
  then have "ae_hash env ''hf://a/kubkoyy'' = ae_hash env ''hf://a/xiwipst''" by (simp add: ae_hash_def StringHash_def)
  then show ?thesis using assms by (simp add: adapter_params_def adapter_matches_label_def)
qed

theorem colliding_url_not_loaded_witness:
  "apm_toEnsure (adapter_params ok_env (adapter_pod [(''adapter.kubeai.org/x'', ''h3677720057'')]) [\<lparr>ad_Name = ''x'', ad_URL = ''hf://a/xiwipst''\<rparr>]) = []"
proof -
  have "GetLabel (pod_meta (adapter_pod [(''adapter.kubeai.org/x'', ''h3677720057'')])) (PodAdapterLabel ''x'') = ae_hash ok_env ''hf://a/kubkoyy''"
    by code_simp
  then show ?thesis using colliding_url_not_loaded by blast
qed

end
