(* ===== verification/Model_Pods_Properties.thy ===== *)
theory Model_Pods_Properties
  imports Model_Pods
begin

section \<open>Properties of the Pods of a Model\<close>

subsection \<open>Labels and annotations\<close>

definition reserved_labels :: "string list" where
  "reserved_labels = [''app'', ''model'', ''kubeai.org/model'', ''kubeai.org/model-uid'', appKubernetesIOName,
     ''app.kubernetes.io/instance'', ''app.kubernetes.io/managed-by'']"

lemma foldl_keep_first:
  "gm_lookup (foldl (\<lambda>lbs (k, v). if gm_has lbs k then lbs else gm_put k v lbs) base kvs) k
    = (case gm_lookup base k of Some v \<Rightarrow> Some v | None \<Rightarrow> gm_lookup kvs k)"
proof (induction kvs arbitrary: base)
  case (Cons kv kvs)
  obtain k1 v1 where kv: "kv = (k1, v1)" by force
  show ?case
  proof (cases "gm_has base k1")
    case True
    then have "gm_lookup base k1 \<noteq> None" by (simp add: gm_has_def)
    with True show ?thesis by (auto simp: Cons kv split: option.splits)
  next
    case False
    then have "gm_lookup base k1 = None" by (simp add: gm_has_def)
    with False show ?thesis by (auto simp: Cons kv split: option.splits)
  qed
qed (simp split: option.splits)

text \<open>The labels of a Pod. The controller's own labels cannot be overridden by labels of the
  Model, in particular the one that ties the Pod to its Model; every other label is copied.\<close>

theorem labelsForModel_lookup:
  "gm_lookup (labelsForModel m) PodModelLabel = Some (md_name m)
    \<and> gm_lookup (labelsForModel m) ''kubeai.org/model-uid'' = Some (om_uid (md_meta m))
    \<and> (k \<notin> set reserved_labels \<longrightarrow> gm_lookup (labelsForModel m) k = gm_lookup (om_labels (md_meta m)) k)"
  unfolding labelsForModel_def Let_def foldl_keep_first
  by (auto simp: PodModelLabel_def reserved_labels_def)

theorem labelsForModel_lookup_witness:
  "gm_lookup (labelsForModel ((default_model ''m'')\<lparr>md_meta := empty_meta\<lparr>om_name := ''m'', om_labels := [(''model'', ''other''), (''team'', ''a'')]\<rparr>\<rparr>)) ''team''
     = Some ''a''"
proof -
  have "''team'' \<notin> set reserved_labels" by code_simp
  then show ?thesis
    using labelsForModel_lookup [of "(default_model ''m'')\<lparr>md_meta := empty_meta\<lparr>om_name := ''m'', om_labels := [(''model'', ''other''), (''team'', ''a'')]\<rparr>\<rparr>" "''team''"]
    by simp
qed

lemma annotationsForModel_lookup:
  "gm_lookup (annotationsForModel r m) k
    = (if rc_AllowPodAddressOverride r \<and> k \<in> {ModelPodIPAnnotation, ModelPodPortAnnotation}
       then gm_lookup (om_annotations (md_meta m)) k else None)"
  by (auto simp: annotationsForModel_def ModelPodIPAnnotation_def ModelPodPortAnnotation_def split: option.splits)

lemma with_default_port_lookup:
  "gm_lookup (with_default_port ann) ModelPodPortAnnotation \<noteq> None"
  by (simp add: with_default_port_def gm_has_def)

subsection \<open>The environment does not depend on the visiting order of a map\<close>

lemma sorted_env_eq:
  assumes "gm_wf e" "gm_wf e'" "gm_lookup e = gm_lookup e'"
  shows "sorted_env e = sorted_env e'"
proof -
  have "set (gm_keys e) = set (gm_keys e')" using assms(3) by (metis gm_has_def gm_has_keys subset_antisym subsetI)
  moreover have "distinct (gm_keys e)" "distinct (gm_keys e')" using assms(1,2) by (simp_all add: gm_wf_def gm_keys_def)
  ultimately have "mset (gm_keys e) = mset (gm_keys e')" by (simp add: set_eq_iff_mset_eq_distinct)
  then have "sort (gm_keys e) = sort (gm_keys e')" by (simp add: properties_for_sort)
  then show ?thesis using assms(3) by (simp add: sorted_env_def sort_slice_def gm_get_def)
qed

definition with_env :: "(string, string) gomap \<Rightarrow> model \<Rightarrow> model" where
  "with_env e m = m\<lparr>md_spec := (md_spec m)\<lparr>ms_Env := e\<rparr>\<rparr>"

lemma with_env_simps [simp]:
  "md_meta (with_env e m) = md_meta m" "ms_Env (md_spec (with_env e m)) = e"
  "ms_Engine (md_spec (with_env e m)) = ms_Engine (md_spec m)" "ms_Adapters (md_spec (with_env e m)) = ms_Adapters (md_spec m)"
  "ms_CacheProfile (md_spec (with_env e m)) = ms_CacheProfile (md_spec m)" "ms_Files (md_spec (with_env e m)) = ms_Files (md_spec m)"
  "ms_Args (md_spec (with_env e m)) = ms_Args (md_spec m)" "ms_EnvFrom (md_spec (with_env e m)) = ms_EnvFrom (md_spec m)"
  "ms_Features (md_spec (with_env e m)) = ms_Features (md_spec m)"
  "ms_PriorityClassName (md_spec (with_env e m)) = ms_PriorityClassName (md_spec m)"
  "ms_Replicas (md_spec (with_env e m)) = ms_Replicas (md_spec m)"
  by (simp_all add: with_env_def)

lemma with_env_parts [simp]:
  "labelsForModel (with_env e m) = labelsForModel m" "annotationsForModel r (with_env e m) = annotationsForModel r m"
  "modelCacheDir (with_env e m) = modelCacheDir m" "cachePVCName (with_env e m) c = cachePVCName m c"
  "patchServerCacheVolumes (with_env e m) c = patchServerCacheVolumes m c" "patchFileVolumes (with_env e m) = patchFileVolumes m"
  "server_container (with_env e m) c = server_container m c" "server_pod r (with_env e m) c = server_pod r m c"
  "finish_spec (with_env e m) c = finish_spec m c" "vllm_model_flag (with_env e m) c = vllm_model_flag m c"
  "ollamaStartupProbeScript (with_env e m) u = ollamaStartupProbeScript m u"
  by (simp_all add: labelsForModel_def annotationsForModel_def modelCacheDir_def cachePVCName_def fun_eq_iff
      patchServerCacheVolumes_def patchFileVolumes_def getModelFilesConfigMapName_def server_container_def server_pod_def
      finish_spec_def vllm_model_flag_def ollamaStartupProbeScript_def Let_def split: option.split cong: if_cong)

text \<open>C26: A rollout is not triggered by the order in which Go visits the map of environment
  variables: for the same map, in any order, the Pod, its hash and its labels are the same.\<close>

theorem pod_hash_stable:
  assumes "gm_wf e" "gm_wf e'" "gm_lookup e = gm_lookup e'"
  shows "hashedPodForModel patch h r (with_env e m) c = hashedPodForModel patch h r (with_env e' m) c"
proof -
  note env = sorted_env_eq [OF assms]
  have loader: "patchServerAdapterLoader r (with_env e m) = patchServerAdapterLoader r (with_env e' m)"
    by (simp add: patchServerAdapterLoader_def loader_container_def modelEnvFrom_def env fun_eq_iff Let_def split: option.split)
  have "podForModel r (with_env e m) c = podForModel r (with_env e' m) c"
    by (simp add: podForModel_def vLLMPodForModel_def oLlamaPodForModel_def fasterWhisperPodForModel_def
        infinityPodForModel_def env loader cong: if_cong)
  then show ?thesis by (simp add: hashedPodForModel_def)
qed

subsection \<open>Volumes\<close>

lemma mounts_covered_map_server:
  assumes "mounts_covered spec" "\<And>c. vm_name ` set (c_mounts (f c)) \<subseteq> vm_name ` set (c_mounts c) \<union> N"
    and "N \<subseteq> vol_name ` set (ps_volumes spec)"
  shows "mounts_covered (map_server f spec)"
proof -
  have "vm_name ` set (c_mounts ct) \<subseteq> vol_name ` set (ps_volumes spec)" if ct: "ct \<in> set (ps_containers (map_server f spec))" for ct
  proof -
    obtain c where c: "c \<in> set (ps_containers spec)" "ct = c \<or> ct = f c"
      using ct by (auto simp: map_server_def)
    then have "vm_name ` set (c_mounts c) \<subseteq> vol_name ` set (ps_volumes spec)" using assms(1) by (simp add: mounts_covered_def)
    then show ?thesis using c(2) assms(2) [of c] assms(3) by blast
  qed
  then show ?thesis by (simp add: mounts_covered_def map_server_def)
qed

lemma mounts_covered_add_volume: "mounts_covered spec \<Longrightarrow> mounts_covered (add_volume v spec)"
  unfolding mounts_covered_def add_volume_def by auto

lemma add_volume_simps [simp]:
  "ps_volumes (add_volume v spec) = ps_volumes spec @ [v]" "ps_containers (add_volume v spec) = ps_containers spec"
  by (simp_all add: add_volume_def)

lemma map_server_simps [simp]:
  "ps_volumes (map_server f spec) = ps_volumes spec" "length (ps_containers (map_server f spec)) = length (ps_containers spec)"
  "ps_containers (map_server f spec) = [] \<longleftrightarrow> ps_containers spec = []"
  by (simp_all add: map_server_def)

lemma add_mount_names: "vm_name ` set (c_mounts (add_mount vm c)) = insert (vm_name vm) (vm_name ` set (c_mounts c))"
  by (auto simp: add_mount_def)

lemma applyToPodSpec_volumes:
  "applyToPodSpec a i spec = Done spec' \<Longrightarrow> ps_volumes spec' = ps_volumes spec @ pa_volumes a
    \<and> length (ps_containers spec') = length (ps_containers spec)"
  by (auto simp: applyToPodSpec_def split: if_splits)

lemma patchFileVolumes_covered:
  assumes "mounts_covered spec"
  shows "mounts_covered (patchFileVolumes m spec)"
proof -
  have names: "vm_name ` set (c_mounts (foldl (\<lambda>c f. add_mount \<lparr>vm_name = n, vm_path = mf_Path f,
      vm_subpath = fileConfigMapKey (mf_Path f), vm_readonly = True\<rparr> c) c fs)) \<subseteq> vm_name ` set (c_mounts c) \<union> {n}"
    for n c and fs :: "model_file list"
  proof (induction fs arbitrary: c)
    case (Cons f fs)
    show ?case
      using Cons.IH [of "add_mount \<lparr>vm_name = n, vm_path = mf_Path f, vm_subpath = fileConfigMapKey (mf_Path f), vm_readonly = True\<rparr> c"]
      by (simp add: add_mount_names)
  qed auto
  show ?thesis
  proof (cases "ms_Files (md_spec m) = []")
    case True
    then show ?thesis using assms by (simp add: patchFileVolumes_def)
  next
    case False
    show ?thesis
      unfolding patchFileVolumes_def if_not_P [OF False]
      by (rule mounts_covered_map_server [where N = "{modelFilesVolumeName}"], rule mounts_covered_add_volume, rule assms, rule names) simp
  qed
qed

lemma patchFileVolumes_volumes:
  "map vol_name (ps_volumes (patchFileVolumes m spec))
     = map vol_name (ps_volumes spec) @ (if ms_Files (md_spec m) = [] then [] else [modelFilesVolumeName])"
  "length (ps_containers (patchFileVolumes m spec)) = length (ps_containers spec)"
  by (simp_all add: patchFileVolumes_def)

lemma patchServerCacheVolumes_Done:
  assumes "patchServerCacheVolumes m c spec = Done spec'" "mounts_covered spec"
  shows "mounts_covered spec' \<and> length (ps_containers spec') = length (ps_containers spec)
    \<and> map vol_name (ps_volumes spec') = map vol_name (ps_volumes spec) @ (if ms_CacheProfile (md_spec m) = [] then [] else [''models''])"
proof (cases "ms_CacheProfile (md_spec m) = []")
  case True
  then show ?thesis using assms by (simp add: patchServerCacheVolumes_def)
next
  case False
  let ?vm = "\<lparr>vm_name = ''models'', vm_path = modelCacheDir m, vm_subpath = trim_prefix (modelCacheDir m) ''/'', vm_readonly = True\<rparr>"
  obtain pvc where spec': "spec' = map_server (add_mount ?vm) (add_volume \<lparr>vol_name = ''models'', vol_source = VolPVC pvc\<rparr> spec)"
    using assms(1) False by (auto simp: patchServerCacheVolumes_def outcome_bind_eq_Done)
  have "mounts_covered spec'"
    unfolding spec' by (rule mounts_covered_map_server [where N = "{''models''}"], rule mounts_covered_add_volume, rule assms)
      (simp_all add: add_mount_names)
  with False show ?thesis by (simp add: spec')
qed

lemma modelAuth_volumes: "map vol_name (pa_volumes (modelAuthCredentialsForAllSources sn)) = [''gcp-credentials'']"
  by (simp add: modelAuthCredentialsForAllSources_def Let_def additions_append_def no_additions_def authForHuggingfaceHub_def
      authForGCS_def authForOSS_def authForS3_def)

lemma modelEnvFrom_volumes: "pa_volumes (modelEnvFrom sp) = []"
  by (simp add: modelEnvFrom_def no_additions_def split: option.splits)

lemma patchServerAdapterLoader_Done:
  assumes "patchServerAdapterLoader r m spec = Done spec'" "mounts_covered spec"
  shows "mounts_covered spec' \<and> length (ps_containers spec) \<le> length (ps_containers spec')
    \<and> map vol_name (ps_volumes spec') = map vol_name (ps_volumes spec)
        @ (if ms_Adapters (md_spec m) = None then [] else [adaptersVolName, ''gcp-credentials''])"
proof (cases "ms_Adapters (md_spec m)")
  case None
  then show ?thesis using assms by (simp add: patchServerAdapterLoader_def)
next
  case (Some as)
  let ?s1 = "map_server (add_mount \<lparr>vm_name = adaptersVolName, vm_path = adaptersRootDir, vm_subpath = [], vm_readonly = True\<rparr>)
     (add_volume \<lparr>vol_name = adaptersVolName, vol_source = VolEmptyDir False\<rparr> spec)"
  let ?s2 = "?s1\<lparr>ps_containers := ps_containers ?s1 @ [loader_container r m]\<rparr>"
  obtain s3 i j where s3: "applyToPodSpec (modelAuthCredentialsForAllSources (rc_SecretNames r)) i ?s2 = Done s3"
    and s4: "applyToPodSpec (modelEnvFrom (md_spec m)) j s3 = Done spec'"
    using assms(1) unfolding patchServerAdapterLoader_def Some option.case Let_def outcome_bind_eq_Done by blast
  have "mounts_covered ?s1"
    by (rule mounts_covered_map_server [where N = "{adaptersVolName}"])
       (use assms(2) in \<open>auto simp: add_mount_names mounts_covered_add_volume\<close>)
  then have "mounts_covered ?s2" by (simp add: mounts_covered_def loader_container_def)
  then have "mounts_covered s3" using applyToPodSpec_covered [OF s3] by simp
  then have c: "mounts_covered spec'" using applyToPodSpec_covered [OF s4] by simp
  have l: "length (ps_containers spec') = Suc (length (ps_containers spec))"
    using applyToPodSpec_volumes [OF s3] applyToPodSpec_volumes [OF s4] by simp
  have "map vol_name (ps_volumes spec') = map vol_name (ps_volumes spec) @ [adaptersVolName, ''gcp-credentials'']"
    using applyToPodSpec_volumes [OF s3] applyToPodSpec_volumes [OF s4] by (simp add: modelAuth_volumes modelEnvFrom_volumes)
  with c l Some show ?thesis by simp
qed


text \<open>Every engine builds one server container, whose only mount is the shared memory, and hands the
  specification to the patches.\<close>

definition is_vllm :: "model \<Rightarrow> bool" where
  "is_vllm m \<longleftrightarrow> ms_Engine (md_spec m) \<notin> {OLlamaEngine, FasterWhisperEngine, InfinityEngine}"

definition loader_volumes :: "model \<Rightarrow> string list" where
  "loader_volumes m = (if is_vllm m \<and> ms_Adapters (md_spec m) \<noteq> None then [adaptersVolName, ''gcp-credentials''] else [])"

lemma with_spec_Done: "with_spec p f = Done p' \<longleftrightarrow> (\<exists>spec. f (pod_spec_of p) = Done spec \<and> p' = p\<lparr>pod_spec_of := spec\<rparr>)"
  by (auto simp: with_spec_def outcome_bind_eq_Done)

lemma podForModel_Done:
  assumes "podForModel r m c = Done p"
  obtains ct spec where "c_mounts ct = c_mounts (server_container m c)" "c_name ct = serverContainerName"
    "(if is_vllm m then patchServerAdapterLoader r m else Done) (patchFileVolumes m (pod_spec_of (server_pod r m c ct))) = Done spec"
    "finish_spec m c spec = Done (pod_spec_of p)"
    "p = (server_pod r m c ct)\<lparr>pod_spec_of := pod_spec_of p\<rparr>"
proof -
  consider "ms_Engine (md_spec m) = OLlamaEngine" | "ms_Engine (md_spec m) = FasterWhisperEngine"
    | "ms_Engine (md_spec m) = InfinityEngine" | "is_vllm m"
    by (auto simp: is_vllm_def)
  then show ?thesis
  proof cases
    case 1
    then have "oLlamaPodForModel r m c = Done p" "\<not> is_vllm m" using assms by (simp_all add: podForModel_def is_vllm_def)
    then show ?thesis unfolding oLlamaPodForModel_def Let_def with_spec_Done
      by (elim exE conjE) (rule that, auto simp: server_container_def)
  next
    case 2
    then have "fasterWhisperPodForModel r m c = Done p" "\<not> is_vllm m"
      using assms by (simp_all add: podForModel_def is_vllm_def OLlamaEngine_def FasterWhisperEngine_def)
    then show ?thesis unfolding fasterWhisperPodForModel_def Let_def with_spec_Done
      by (elim exE conjE) (rule that, auto simp: server_container_def)
  next
    case 3
    then have "infinityPodForModel r m c = Done p" "\<not> is_vllm m"
      using assms by (simp_all add: podForModel_def is_vllm_def OLlamaEngine_def FasterWhisperEngine_def InfinityEngine_def)
    then show ?thesis unfolding infinityPodForModel_def Let_def with_spec_Done
      by (elim exE conjE) (rule that, auto simp: server_container_def)
  next
    case 4
    then have v: "vLLMPodForModel r m c = Done p" using assms by (simp add: podForModel_def is_vllm_def)
    obtain flag streamer where f: "vllm_model_flag m c = (flag, streamer)" by (rule prod.exhaust)
    from v show ?thesis unfolding vLLMPodForModel_def f Let_def prod.case with_spec_Done outcome_bind_eq_Done
      using 4 by (elim exE conjE) (rule that, auto simp: server_container_def)
  qed
qed

text \<open>What the patches make of the volumes of a Pod.\<close>

lemma podForModel_volumes:
  assumes "podForModel r m c = Done p" "additions_covered (src_additions (cfg_Source c))"
  shows "mounts_covered (pod_spec_of p)
    \<and> map vol_name (ps_volumes (pod_spec_of p)) = ''dshm'' # (if ms_Files (md_spec m) = [] then [] else [modelFilesVolumeName])
        @ loader_volumes m @ (if ms_CacheProfile (md_spec m) = [] then [] else [''models''])
        @ map vol_name (pa_volumes (src_additions (cfg_Source c)))"
proof -
  obtain ct spec where ct: "c_mounts ct = c_mounts (server_container m c)"
    and s1: "(if is_vllm m then patchServerAdapterLoader r m else Done) (patchFileVolumes m (pod_spec_of (server_pod r m c ct))) = Done spec"
    and s2: "finish_spec m c spec = Done (pod_spec_of p)"
    by (rule podForModel_Done [OF assms(1)])
  let ?s0 = "pod_spec_of (server_pod r m c ct)"
  have "mounts_covered ?s0"
    by (simp add: mounts_covered_def server_pod_def ct server_container_def)
  then have f: "mounts_covered (patchFileVolumes m ?s0)" by (rule patchFileVolumes_covered)
  have fv: "map vol_name (ps_volumes (patchFileVolumes m ?s0)) = ''dshm'' # (if ms_Files (md_spec m) = [] then [] else [modelFilesVolumeName])"
    by (simp add: patchFileVolumes_volumes server_pod_def)
  have s: "mounts_covered spec \<and> map vol_name (ps_volumes spec) = map vol_name (ps_volumes (patchFileVolumes m ?s0)) @ loader_volumes m"
  proof (cases "is_vllm m")
    case True
    then show ?thesis using s1 patchServerAdapterLoader_Done [OF _ f] by (simp add: loader_volumes_def)
  next
    case False
    then show ?thesis using s1 f by (simp add: loader_volumes_def)
  qed
  obtain s3 where s3: "patchServerCacheVolumes m c spec = Done s3"
    and s4: "applyToPodSpec (src_additions (cfg_Source c)) 0 s3 = Done (pod_spec_of p)"
    using s2 by (auto simp: finish_spec_def outcome_bind_eq_Done)
  note c3 = patchServerCacheVolumes_Done [OF s3 conjunct1 [OF s]]
  have "mounts_covered (pod_spec_of p)" using applyToPodSpec_covered [OF s4] c3 assms(2) by simp
  then show ?thesis using applyToPodSpec_volumes [OF s4] c3 s fv by simp
qed

lemma parseModelSource_additions:
  "parseModelSource sn url = Done src \<Longrightarrow> src_additions src = source_additions sn (src_url src)"
  by (auto simp: parseModelSource_def outcome_bind_eq_Done)

text \<open>C25: Every volume that a container of a model server Pod mounts is a volume of the Pod, for
  every engine and every source, cache, file and adapter setting of the Model.\<close>

theorem pod_mounts_have_volumes:
  assumes "podForModel r m c = Done p" "parseModelSource sn url = Done src"
    and "cfg_Source c = src\<lparr>src_additions := (src_additions src)\<lparr>pa_envFrom := envFrom\<rparr>\<rparr>"
  shows "\<forall>ct \<in> set (ps_containers (pod_spec_of p)). \<forall>vm \<in> set (c_mounts ct). \<exists>v \<in> set (ps_volumes (pod_spec_of p)). vol_name v = vm_name vm"
proof -
  have "additions_covered (src_additions (cfg_Source c))"
    using parseModelSource_additions [OF assms(2)] by (simp add: assms(3))
  then have "mounts_covered (pod_spec_of p)" using podForModel_volumes [OF assms(1)] by simp
  then show ?thesis by (fastforce simp: mounts_covered_def)
qed

definition demo_reconciler :: reconciler where
  "demo_reconciler = \<lparr>rc_ProxyMode = ''internal'', rc_AllowPodAddressOverride = False,
     rc_SecretNames = \<lparr>sn_Alibaba = ''ali'', sn_AWS = ''aws'', sn_GCP = ''gcp'', sn_Huggingface = ''hf'', sn_OCI = ''oci''\<rparr>,
     rc_ResourceProfiles = [(''cpu'', \<lparr>rp_ImageName = [], rp_Requests = [(''cpu'', 1)], rp_Limits = [], rp_NodeSelector = [],
        rp_Affinity = None, rp_Tolerations = [], rp_SchedulerName = [], rp_RuntimeClassName = None\<rparr>)],
     rc_CacheProfiles = [(''fs'', \<lparr>cp_SharedFilesystem = Some \<lparr>csf_StorageClassName = ''sc'', csf_PersistentVolumeName = [], csf_StorageSize = ''10Gi''\<rparr>\<rparr>)],
     rc_ModelServers = \<lparr>msv_OLlama = [(''default'', ''ollama'')], msv_VLLM = [(''default'', ''vllm'')], msv_FasterWhisper = [], msv_Infinity = []\<rparr>,
     rc_ModelServerPods = \<lparr>msp_ServiceAccountName = [], msp_PodSecurityContext = None, msp_ContainerSecurityContext = None,
        msp_ImagePullSecrets = [], msp_JSONPatches = []\<rparr>,
     rc_ModelLoadersImage = ''loader'', rc_Surge = 1\<rparr>"

definition demo_gs_source :: model_source where
  "demo_gs_source = \<lparr>src_additions = authForGCS (rc_SecretNames demo_reconciler),
     src_url = \<lparr>mu_original = ''gs://bucket/m'', mu_scheme = ''gs'', mu_ref = ''bucket/m'', mu_name = ''bucket'', mu_path = ''m'',
       mu_modelParam = [], mu_insecure = False, mu_pull = True\<rparr>\<rparr>"

definition demo_config :: model_config where
  "demo_config = \<lparr>cfg_CacheProfile = \<lparr>cp_SharedFilesystem = None\<rparr>, cfg_ResourceProfile = gm_get undefined (rc_ResourceProfiles demo_reconciler) ''cpu'',
     cfg_Image = ''img'', cfg_Source = demo_gs_source\<rparr>"

lemma demo_gs_source_of_config:
  "cfg_Source demo_config = demo_gs_source\<lparr>src_additions := (src_additions demo_gs_source)\<lparr>pa_envFrom := []\<rparr>\<rparr>"
  by (simp add: demo_config_def demo_gs_source_def authForGCS_def no_additions_def)

lemma demo_gs_parsed: "parseModelSource (rc_SecretNames demo_reconciler) ''gs://bucket/m'' = Done demo_gs_source"
  by code_simp

definition lora_model :: model where
  "lora_model = (default_model ''m'')\<lparr>md_spec := default_spec\<lparr>ms_Adapters := Some [\<lparr>ad_Name = ''a'', ad_URL = ''gs://bucket/a''\<rparr>]\<rparr>\<rparr>"

lemma demo_pod_built:
  "map_option (\<lambda>p. map vol_name (ps_volumes (pod_spec_of p))) (case podForModel demo_reconciler lora_model demo_config of Done p \<Rightarrow> Some p | _ \<Rightarrow> None)
     = Some [''dshm'', ''adapters'', ''gcp-credentials'', ''gcp-credentials'']"
  by code_simp

theorem pod_hash_stable_witness:
  "hashedPodForModel (\<lambda>ps p. Done p) (\<lambda>s. ''h'') demo_reconciler (with_env [(''A'', ''1''), (''B'', ''2'')] lora_model) demo_config
    = hashedPodForModel (\<lambda>ps p. Done p) (\<lambda>s. ''h'') demo_reconciler (with_env [(''B'', ''2''), (''A'', ''1'')] lora_model) demo_config"
  by (rule pod_hash_stable) (auto simp: gm_wf_def fun_eq_iff)

theorem pod_mounts_have_volumes_witness:
  "\<exists>p. podForModel demo_reconciler lora_model demo_config = Done p \<and>
     (\<forall>ct \<in> set (ps_containers (pod_spec_of p)). \<forall>vm \<in> set (c_mounts ct). \<exists>v \<in> set (ps_volumes (pod_spec_of p)). vol_name v = vm_name vm)"
proof -
  obtain p where p: "podForModel demo_reconciler lora_model demo_config = Done p"
    using demo_pod_built by (auto split: outcome.splits)
  then show ?thesis using pod_mounts_have_volumes [OF p demo_gs_parsed demo_gs_source_of_config] by blast
qed

text \<open>The volumes of a Pod have different names, as the API server requires, with one exception:
  a vLLM Model with adapters whose own source is a \<open>gs://\<close> URL gets the credentials volume
  twice, once for the loader and once for the server, and its Pods are rejected.\<close>

theorem pod_volumes_distinct_iff:
  assumes "podForModel r m c = Done p" "parseModelSource sn url = Done src"
    and "cfg_Source c = src\<lparr>src_additions := (src_additions src)\<lparr>pa_envFrom := envFrom\<rparr>\<rparr>"
  shows "distinct (map vol_name (ps_volumes (pod_spec_of p)))
    \<longleftrightarrow> \<not> (ms_Engine (md_spec m) \<notin> {OLlamaEngine, FasterWhisperEngine, InfinityEngine}
           \<and> ms_Adapters (md_spec m) \<noteq> None \<and> mu_scheme (src_url src) = ''gs'')"
proof -
  have cov: "additions_covered (src_additions (cfg_Source c))"
    and src: "pa_volumes (src_additions (cfg_Source c)) = pa_volumes (source_additions sn (src_url src))"
    using parseModelSource_additions [OF assms(2)] by (simp_all add: assms(3))
  have vols: "map vol_name (pa_volumes (source_additions sn u))
      = (if mu_scheme u = ''gs'' then [''gcp-credentials''] else if mu_scheme u \<in> {''pvc'', ''oci''} then [''model''] else [])" for u
    by (simp add: source_additions_def authForGCS_def authForOSS_def authForS3_def authForHuggingfaceHub_def pvcPodAdditions_def
        ociPodAdditions_def no_additions_def)
  have names: "map vol_name (ps_volumes (pod_spec_of p)) = ''dshm'' # (if ms_Files (md_spec m) = [] then [] else [modelFilesVolumeName])
        @ loader_volumes m @ (if ms_CacheProfile (md_spec m) = [] then [] else [''models''])
        @ map vol_name (pa_volumes (source_additions sn (src_url src)))"
    using podForModel_volumes [OF assms(1) cov] by (simp add: src)
  show ?thesis
    unfolding names vols loader_volumes_def is_vllm_def
    by (simp add: modelFilesVolumeName_def adaptersVolName_def)
qed

theorem pod_volumes_distinct_iff_witness:
  "\<exists>p. podForModel demo_reconciler lora_model demo_config = Done p \<and> \<not> distinct (map vol_name (ps_volumes (pod_spec_of p)))"
proof -
  obtain p where p: "podForModel demo_reconciler lora_model demo_config = Done p"
    using demo_pod_built by (auto split: outcome.splits)
  have "ms_Engine (md_spec lora_model) \<notin> {OLlamaEngine, FasterWhisperEngine, InfinityEngine}" "ms_Adapters (md_spec lora_model) \<noteq> None"
    "mu_scheme (src_url demo_gs_source) = ''gs''"
    by (simp_all add: lora_model_def default_spec_def VLLMEngine_def OLlamaEngine_def FasterWhisperEngine_def InfinityEngine_def demo_gs_source_def)
  then show ?thesis using p pod_volumes_distinct_iff [OF p demo_gs_parsed demo_gs_source_of_config] by blast
qed

subsection \<open>The Ollama start-up probe\<close>

text \<open>The start-up probe of Ollama never pulls the model. Bash takes as its command only the one
  word after \<open>-c\<close>, which is \<open>/bin/ollama\<close>; the words that should pull, copy and run the
  model are separate arguments and become the positional parameters of that command.\<close>

theorem ollama_probe_runs_bare_command:
  assumes "oLlamaPodForModel r m c = Done p"
  shows "\<exists>args ct pr. ct \<in> set (ps_containers (pod_spec_of p)) \<and> c_name ct = serverContainerName \<and> c_startup ct = Some pr
    \<and> pr_handler pr = ProbeExec (''/bin/bash'' # ''-c'' # ''/bin/ollama'' # args)"
proof -
  let ?args = "tl (ollamaStartupProbeScript m (src_url (cfg_Source c)))"
  have script: "ollamaStartupProbeScript m (src_url (cfg_Source c)) = ''/bin/ollama'' # ?args"
    by (simp add: ollamaStartupProbeScript_def Let_def)
  obtain ct spec where ct: "c_name ct = serverContainerName"
      "map_option pr_handler (c_startup ct) = Some (ProbeExec (''/bin/bash'' # ''-c'' # ''/bin/ollama'' # ?args))"
    and s: "finish_spec m c (patchFileVolumes m (pod_spec_of (server_pod r m c ct))) = Done spec" and p: "pod_spec_of p = spec"
    using assms unfolding oLlamaPodForModel_def Let_def with_spec_Done
    by (elim exE conjE) (rule that, auto simp: server_container_def simp flip: script)
  define Q :: "container \<Rightarrow> bool" where "Q x \<longleftrightarrow> c_name x = c_name ct \<and> c_startup x = c_startup ct" for x
  have mount: "Q (add_mount vm x) = Q x" and add: "Q (add_to_container a x) = Q x" for vm x a
    by (simp_all add: Q_def add_mount_def add_to_container_def)
  have fold: "Q (foldl (\<lambda>c f. add_mount (g f) c) x fs) = Q x" for x g and fs :: "model_file list"
    by (induction fs arbitrary: x) (simp_all add: mount)
  have server: "\<exists>x \<in> set (ps_containers (map_server f sp)). Q x" if "\<exists>x \<in> set (ps_containers sp). Q x" "\<And>x. Q (f x) = Q x" for f sp
    using that by (auto simp: map_server_def)
  have "\<exists>x \<in> set (ps_containers (patchFileVolumes m (pod_spec_of (server_pod r m c ct)))). Q x"
  proof (cases "ms_Files (md_spec m) = []")
    case True
    then show ?thesis by (simp add: patchFileVolumes_def server_pod_def Q_def)
  next
    case False
    have "\<exists>x \<in> set (ps_containers (add_volume v (pod_spec_of (server_pod r m c ct)))). Q x" for v
      by (simp add: server_pod_def Q_def)
    then show ?thesis unfolding patchFileVolumes_def if_not_P [OF False] by (rule server) (rule fold)
  qed
  moreover obtain s2 where s2: "patchServerCacheVolumes m c (patchFileVolumes m (pod_spec_of (server_pod r m c ct))) = Done s2"
    and s3: "applyToPodSpec (src_additions (cfg_Source c)) 0 s2 = Done spec"
    using s by (auto simp: finish_spec_def outcome_bind_eq_Done)
  ultimately have "\<exists>x \<in> set (ps_containers s2). Q x"
    using s2 unfolding patchServerCacheVolumes_def by (auto split: if_splits simp: outcome_bind_eq_Done mount intro!: server)
  then obtain x where x: "x \<in> set (ps_containers s2)" "Q x" by blast
  then obtain i where i: "i < length (ps_containers s2)" "ps_containers s2 ! i = x" by (auto simp: in_set_conv_nth)
  have sp: "ps_containers spec = (ps_containers s2)[0 := add_to_container (src_additions (cfg_Source c)) (ps_containers s2 ! 0)]"
    using s3 by (auto simp: applyToPodSpec_def split: if_splits)
  have "Q (ps_containers spec ! i)" using i x(2) by (cases i) (simp_all add: sp add)
  moreover have "ps_containers spec ! i \<in> set (ps_containers spec)" using i by (simp add: sp)
  ultimately obtain y pr where "y \<in> set (ps_containers (pod_spec_of p))" "c_name y = serverContainerName" "c_startup y = Some pr"
      "pr_handler pr = ProbeExec (''/bin/bash'' # ''-c'' # ''/bin/ollama'' # ?args)"
    using ct p by (auto simp: Q_def)
  then show ?thesis by blast
qed

definition ollama_model :: model where
  "ollama_model = (default_model ''m'')\<lparr>md_spec := default_spec\<lparr>ms_Engine := OLlamaEngine\<rparr>\<rparr>"

theorem ollama_probe_runs_bare_command_witness:
  "\<exists>p args ct pr. oLlamaPodForModel demo_reconciler ollama_model demo_config = Done p \<and> ct \<in> set (ps_containers (pod_spec_of p))
    \<and> c_startup ct = Some pr \<and> pr_handler pr = ProbeExec (''/bin/bash'' # ''-c'' # ''/bin/ollama'' # args)"
proof -
  have "map_option (\<lambda>p. length (ps_containers (pod_spec_of p))) (case oLlamaPodForModel demo_reconciler ollama_model demo_config of Done p \<Rightarrow> Some p | _ \<Rightarrow> None)
     = Some 1" by code_simp
  then obtain p where p: "oLlamaPodForModel demo_reconciler ollama_model demo_config = Done p" by (auto split: outcome.splits)
  then show ?thesis using ollama_probe_runs_bare_command [OF p] by blast
qed

end
