(* ===== verification/Cache_Properties.thy ===== *)
theory Cache_Properties
  imports Cache Adapters_Properties Model_Pods_Properties
begin

section \<open>Properties of Model caches\<close>

lemma outcome_bind_Done_all: "(\<forall>x. outcome_bind r f = Done x \<longrightarrow> P x) \<longleftrightarrow> (\<forall>y x. r = Done y \<longrightarrow> f y = Done x \<longrightarrow> P x)"
  by (cases r) auto

subsection \<open>Names\<close>

lemma PVCModelAnnotation_inject [simp]: "PVCModelAnnotation a = PVCModelAnnotation b \<longleftrightarrow> a = b"
  by (simp add: PVCModelAnnotation_def)

text \<open>Two Models never share a cache directory: with UIDs of the same length, as the API server
  gives them, equal directories mean the same name and the same UID; so an eviction removes
  the files of its own Model only.\<close>

theorem modelCacheDir_inject:
  assumes "length (md_uid m) = length (md_uid m')" "modelCacheDir m = modelCacheDir m'"
  shows "md_name m = md_name m' \<and> md_uid m = md_uid m'"
  using assms by (simp add: modelCacheDir_def md_uid_def)

theorem modelCacheDir_inject_witness:
  "md_name (default_model ''m'') = md_name ((default_model ''m'')\<lparr>md_status := md_status (default_model ''n'')\<rparr>)"
  using modelCacheDir_inject [of "default_model ''m''" "(default_model ''m'')\<lparr>md_status := md_status (default_model ''n'')\<rparr>"]
  by (simp add: md_uid_def modelCacheDir_def)

subsection \<open>Loading\<close>

text \<open>The annotation on the claim says that the Model is loaded.\<close>

definition claim_has_model :: "ctl_env \<Rightarrow> model \<Rightarrow> model_config \<Rightarrow> bool" where
  "claim_has_model env m c \<longleftrightarrow> (\<exists>name p ts. cachePVCName m c = Done name \<and> ce_pvc env name = Found p
     \<and> parsePVCModelAnnotation env p (md_name m) = Done (md_uid m, ts))"

definition load_job_done :: "ctl_env \<Rightarrow> model \<Rightarrow> bool" where
  "load_job_done env m \<longleftrightarrow> (\<exists>j. ce_job env (loadCacheJobName m) = Found j \<and> IsJobCompleted j)"

text \<open>The claim as the pass sees it: the one of the API server, or a new one without annotations.\<close>

definition cache_claim :: "ctl_env \<Rightarrow> model \<Rightarrow> model_config \<Rightarrow> pvc \<Rightarrow> bool" where
  "cache_claim env m c p \<longleftrightarrow> (\<exists>name. cachePVCName m c = Done name
     \<and> (ce_pvc env name = Found p \<or> ce_pvc env name = Missing \<and> om_annotations (pvc_meta p) = []))"

definition keeps_other_annotations :: "model \<Rightarrow> pvc \<Rightarrow> pvc \<Rightarrow> bool" where
  "keeps_other_annotations m p p' \<longleftrightarrow> (\<forall>k. k \<noteq> PVCModelAnnotation (md_name m)
     \<longrightarrow> gm_lookup (om_annotations (pvc_meta p')) k = gm_lookup (om_annotations (pvc_meta p)) k)"

fun cache_write_ok :: "ctl_env \<Rightarrow> model \<Rightarrow> model_config \<Rightarrow> ctl_act \<Rightarrow> bool" where
  "cache_write_ok env m c (ActCreatePVC p) = True"
| "cache_write_ok env m c (ActUpdatePVC p') = (\<exists>p. cache_claim env m c p \<and> keeps_other_annotations m p p')"
| "cache_write_ok env m c (ActUpdateModel m') = has_finalizer m'"
| "cache_write_ok env m c (ActCreateJob j) = (om_name (job_meta j) = loadCacheJobName m)"
| "cache_write_ok env m c (ActDeleteJob n) = (n = loadCacheJobName m)"
| "cache_write_ok env m c _ = False"

lemma cache_claim_has_model:
  assumes "cache_claim env m c p" "parsePVCModelAnnotation env p (md_name m) = Done (uid, ts)" "md_uid m \<noteq> []"
  shows "uid = md_uid m \<longleftrightarrow> claim_has_model env m c"
proof -
  obtain name where n: "cachePVCName m c = Done name"
    "ce_pvc env name = Found p \<or> ce_pvc env name = Missing \<and> om_annotations (pvc_meta p) = []"
    using assms(1) by (auto simp: cache_claim_def)
  have "uid = []" if "om_annotations (pvc_meta p) = []"
    using assms(2) that by (simp add: parsePVCModelAnnotation_def GetAnnotation_def gm_get_def)
  then show ?thesis using n assms(2,3) by (auto simp: claim_has_model_def)
qed

lemma get_or_create_pvc_wp:
  assumes "\<And>p. cache_claim env m c p \<Longrightarrow> Q p m0" "\<And>p. A (ActCreatePVC p)"
  shows "wp (get_or_create_pvc env m c) A Q m0"
proof -
  have new: "om_annotations (pvc_meta p) = []" if "cachePVCForModel env m c = Done p" for p
    using that by (auto simp: cachePVCForModel_def outcome_bind_eq_Done empty_meta_def split: option.splits if_splits)
  show ?thesis
    unfolding get_or_create_pvc_def
    by (auto split: read.split intro!: assms simp: cache_claim_def new empty_pvc_def empty_meta_def)
qed

lemma read_job_wp [simp]:
  "wp (read_job env ctx n) A Q m \<longleftrightarrow> (\<forall>j. ce_job env n = Found j \<longrightarrow> Q (Some j) m) \<and> (ce_job env n = Missing \<longrightarrow> Q None m)"
  by (simp add: read_job_def split: read.split)

lemma loadCacheJobForModel_name:
  "loadCacheJobForModel r m c = Done j \<Longrightarrow> om_name (job_meta j) = loadCacheJobName m"
  by (auto simp: loadCacheJobForModel_def outcome_bind_eq_Done cache_job_def Let_def)

lemma load_cache_wp:
  assumes "cache_claim env m c p" "load_job_done env m \<Longrightarrow> Q () m0"
    and "j = (case ce_job env (loadCacheJobName m) of Found x \<Rightarrow> Some x | _ \<Rightarrow> None)"
  shows "wp (load_cache env r m c p j) (cache_write_ok env m c) Q m0"
proof (cases j)
  case None
  then show ?thesis by (auto simp: load_cache_def create_job_def loadCacheJobForModel_name)
next
  case (Some x)
  then have "ce_job env (loadCacheJobName m) = Found x" using assms(3) by (auto split: read.splits)
  then show ?thesis using Some assms(1,2)
    by (auto simp: load_cache_def updatePVCModelAnnotation_def load_job_done_def keeps_other_annotations_def SetAnnotation_def)
qed

lemma set_cache_loaded_simps [simp]:
  "md_meta (set_cache_loaded b m) = md_meta m" "md_spec (set_cache_loaded b m) = md_spec m"
  "mst_CacheLoaded (md_status (set_cache_loaded b m)) = Some b"
  by (simp_all add: set_cache_loaded_def)

lemma cache_frame:
  assumes "md_meta m' = md_meta m" "md_spec m' = md_spec m"
  shows "cache_claim env m' c = cache_claim env m c" "claim_has_model env m' c = claim_has_model env m c"
    "load_job_done env m' = load_job_done env m" "cache_write_ok env m' c = cache_write_ok env m c" "md_uid m' = md_uid m"
    "loadCacheJobName m' = loadCacheJobName m"
proof -
  have n: "cachePVCName m' c = cachePVCName m c" using assms by (simp add: cachePVCName_def cong: option.case_cong)
  show "cache_claim env m' c = cache_claim env m c" and u: "md_uid m' = md_uid m" and j: "loadCacheJobName m' = loadCacheJobName m"
    using assms by (simp_all add: fun_eq_iff cache_claim_def n md_uid_def loadCacheJobName_def)
  then show "claim_has_model env m' c = claim_has_model env m c" "load_job_done env m' = load_job_done env m"
    using assms by (simp_all add: claim_has_model_def n load_job_done_def)
  have "cache_write_ok env m' c a = cache_write_ok env m c a" for a
    using assms \<open>cache_claim env m' c = cache_claim env m c\<close> j by (cases a) (simp_all add: keeps_other_annotations_def)
  then show "cache_write_ok env m' c = cache_write_ok env m c" by blast
qed

lemma reconcileCache_wp:
  assumes "md_uid m \<noteq> []"
  shows "wp (reconcileCache env r c) (cache_write_ok env m c)
    (\<lambda>_ m'. (claim_has_model env m c \<or> load_job_done env m) \<and> mst_CacheLoaded (md_status m') = Some (claim_has_model env m c)
       \<and> md_spec m' = md_spec m \<and> md_name m' = md_name m) m"
proof -
  define m1 where "m1 = (if mst_CacheLoaded (md_status m) = None then set_cache_loaded False m else m)"
  have f: "md_meta m1 = md_meta m" "md_spec m1 = md_spec m" by (simp_all add: m1_def)
  note frame = cache_frame [OF f]
  have step: "wp (load_cache env r m1 c p j) (cache_write_ok env m c) Q m0"
    if "cache_claim env m1 c p" "load_job_done env m1 \<Longrightarrow> Q () m0"
      "j = (case ce_job env (loadCacheJobName m1) of Found x \<Rightarrow> Some x | _ \<Rightarrow> None)" for p j Q m0
    using load_cache_wp [where Q = Q, OF that(1) _ that(3), of m0 r] that(2) by (simp add: frame)
  show ?thesis
    unfolding reconcileCache_def wp_bind wp_basic m1_def [symmetric]
  proof (rule get_or_create_pvc_wp, goal_cases)
    case (1 p)
    have claim: "cache_claim env m c p" using 1 by (simp add: frame)
    show ?case
      using 1 by (auto simp: frame f update_model_def has_finalizer_def add_finalizer_def cache_claim_has_model [OF claim _ assms] intro!: step)
  qed simp
qed


text \<open>The controller does not go on to the server Pods of a cached Model before the cache holds
  it: a pass over the cache succeeds only if the annotation of the claim names this Model's
  UID or the loading Job is complete.\<close>

theorem cache_loaded_before_serving:
  assumes "md_uid m \<noteq> []" "reconcileCache env r c m = (as, m', Done ())"
  shows "(\<exists>name p ts. cachePVCName m c = Done name \<and> ce_pvc env name = Found p
            \<and> parsePVCModelAnnotation env p (md_name m) = Done (md_uid m, ts))
    \<or> (\<exists>j. ce_job env (loadCacheJobName m) = Found j \<and> IsJobCompleted j)"
  using wp_run [OF reconcileCache_wp [OF assms(1)] assms(2)] by (auto simp: claim_has_model_def load_job_done_def)

definition cached_model :: model where
  "cached_model = (default_model ''m'')\<lparr>md_meta := empty_meta\<lparr>om_name := ''m'', om_uid := ''abcdefgh'',
     om_finalizers := [ModelCacheEvictionFinalizer]\<rparr>, md_spec := default_spec\<lparr>ms_CacheProfile := ''fs''\<rparr>\<rparr>"

definition cached_config :: model_config where
  "cached_config = demo_config\<lparr>cfg_CacheProfile := \<lparr>cp_SharedFilesystem = Some \<lparr>csf_StorageClassName = ''sc'',
     csf_PersistentVolumeName = [], csf_StorageSize = ''10Gi''\<rparr>\<rparr>\<rparr>"

text \<open>An API server that has the claim, without annotations, and the given Jobs; it accepts every write.\<close>

definition demo_ctl_env :: "(string \<Rightarrow> job read) \<Rightarrow> ctl_env" where
  "demo_ctl_env jobs = \<lparr>ce_answer = (\<lambda>a. WOk), ce_own = (\<lambda>m. None), ce_config_map = (\<lambda>n. Missing), ce_pvc = (\<lambda>n. Found empty_pvc),
     ce_job = jobs, ce_service = (\<lambda>n. Missing), ce_pods = (\<lambda>k v. Done []), ce_now = zero_time,
     ce_time_lenient = (\<lambda>s. None), ce_json_error = (\<lambda>s. []), ce_quantity_ok = (\<lambda>q. True), ce_adapters = ok_env, ce_patch = (\<lambda>ps p. Done p),
     ce_dump = (\<lambda>s. ''h'')\<rparr>"

definition demo_done_job :: job where
  "demo_done_job = (cache_job ''load-cache-m'' cached_model (cache_job_spec demo_reconciler ''shared-model-cache-fs'' empty_container))\<lparr>
     job_conditions := [(''Complete'', ''True'')]\<rparr>"

abbreviation done_env :: ctl_env where
  "done_env \<equiv> demo_ctl_env (\<lambda>n. Found demo_done_job)"

lemma cached_run:
  "\<exists>as m'. reconcileCache done_env demo_reconciler cached_config cached_model = (as, m', Done ())"
proof -
  have "(case reconcileCache done_env demo_reconciler cached_config cached_model of (as, m', r) \<Rightarrow> r) = Done ()" by code_simp
  then show ?thesis by (auto split: prod.splits)
qed

theorem cache_loaded_before_serving_witness:
  "\<exists>j. ce_job done_env (loadCacheJobName cached_model) = Found j \<and> IsJobCompleted j"
proof -
  obtain as m' where r: "reconcileCache done_env demo_reconciler cached_config cached_model = (as, m', Done ())" using cached_run by blast
  have "md_uid cached_model \<noteq> []" by (simp add: md_uid_def cached_model_def)
  moreover have "parsePVCModelAnnotation done_env p n = Done (md_uid cached_model, ts) \<Longrightarrow> p \<noteq> empty_pvc" for p n ts
    by (auto simp: parsePVCModelAnnotation_def empty_pvc_def GetAnnotation_def gm_get_def empty_meta_def md_uid_def cached_model_def)
  ultimately show ?thesis using cache_loaded_before_serving [OF _ r] by (auto simp: demo_ctl_env_def)
qed

text \<open>The status lags. The pass that records a finished load on the claim still reports the cache
  as not loaded, because it reports the annotation it read before.\<close>

theorem cache_status_lags:
  assumes "md_uid m \<noteq> []" "reconcileCache env r c m = (as, m', Done ())"
    and "\<nexists>name p ts. cachePVCName m c = Done name \<and> ce_pvc env name = Found p
            \<and> parsePVCModelAnnotation env p (md_name m) = Done (md_uid m, ts)"
  shows "mst_CacheLoaded (md_status m') = Some False
    \<and> (\<exists>p. ActUpdatePVC p \<in> set as
      \<and> marshal_annotation (md_uid m, ce_now env) = Done (GetAnnotation (pvc_meta p) (PVCModelAnnotation (md_name m))))"
proof -
  have no: "\<not> claim_has_model env m c" using assms(3) by (simp add: claim_has_model_def)
  define B where "B a \<longleftrightarrow> \<not> (\<exists>p. a = ActUpdatePVC p \<and> marshal_annotation (md_uid m, ce_now env) = Done (GetAnnotation (pvc_meta p) (PVCModelAnnotation (md_name m))))" for a
  define m1 where "m1 = (if mst_CacheLoaded (md_status m) = None then set_cache_loaded False m else m)"
  have f: "md_meta m1 = md_meta m" "md_spec m1 = md_spec m" by (simp_all add: m1_def)
  note frame = cache_frame [OF f]
  have pvc: "wa (get_or_create_pvc env m1 c) B (\<lambda>p _. cache_claim env m c p) m1"
    using get_or_create_pvc_wp [where Q = "\<lambda>p _. cache_claim env m c p" and A = "\<lambda>_. True" and env = env and m = m1 and c = c and ?m0.0 = m1]
    by (simp add: wp_def wa_def frame split: prod.splits)
  have load: "wa (load_cache env r m1 c p j) B Q m0" for p j Q m0
    by (cases j) (simp_all add: B_def load_cache_def create_job_def updatePVCModelAnnotation_def frame f)
  have "wa (reconcileCache env r c) B (\<lambda>_ _. False) m"
    unfolding reconcileCache_def wa_bind wa_basic m1_def [symmetric]
  proof (rule wa_mono [OF pvc], goal_cases)
    case (1 p ma)
    have "uid \<noteq> md_uid m" if "parsePVCModelAnnotation env p (md_name m) = Done (uid, ts)" for uid ts
      using cache_claim_has_model [OF 1 that assms(1)] no by simp
    then show ?case by (auto simp: frame f update_model_def read_job_def load split: read.split)
  qed
  from wa_run [OF this assms(2)] have "\<exists>a \<in> set as. \<not> B a" by blast
  then show ?thesis using wp_run [OF reconcileCache_wp [OF assms(1)] assms(2)] no by (auto simp: B_def)
qed


theorem cache_status_lags_witness:
  "\<exists>as m' p. reconcileCache done_env demo_reconciler cached_config cached_model = (as, m', Done ())
    \<and> mst_CacheLoaded (md_status m') = Some False \<and> ActUpdatePVC p \<in> set as"
proof -
  obtain as m' where r: "reconcileCache done_env demo_reconciler cached_config cached_model = (as, m', Done ())" using cached_run by blast
  have "md_uid cached_model \<noteq> []" by (simp add: md_uid_def cached_model_def)
  moreover have "parsePVCModelAnnotation done_env p n = Done (md_uid cached_model, ts) \<Longrightarrow> p \<noteq> empty_pvc" for p n ts
    by (auto simp: parsePVCModelAnnotation_def empty_pvc_def GetAnnotation_def gm_get_def empty_meta_def md_uid_def cached_model_def)
  ultimately show ?thesis using cache_status_lags [OF _ r] r by (auto simp: demo_ctl_env_def)
qed

text \<open>C19: The claim is shared by the Models of a cache profile. Whatever a pass over the cache of one
  Model writes to it leaves the annotations of all other Models as they are, and the Jobs it
  creates or deletes are its own.\<close>

theorem cache_pass_keeps_other_models:
  assumes "md_uid m \<noteq> []" "reconcileCache env r c m = (as, m', res)" "ActUpdatePVC p' \<in> set as"
  shows "\<exists>name p. cachePVCName m c = Done name \<and> (ce_pvc env name = Found p \<or> ce_pvc env name = Missing \<and> om_annotations (pvc_meta p) = [])
    \<and> (\<forall>other. other \<noteq> md_name m \<longrightarrow> GetAnnotation (pvc_meta p') (PVCModelAnnotation other) = GetAnnotation (pvc_meta p) (PVCModelAnnotation other))"
proof -
  have "cache_write_ok env m c (ActUpdatePVC p')"
    using wp_run [OF reconcileCache_wp [OF assms(1)] assms(2)] assms(3) by blast
  then obtain p where "cache_claim env m c p" and k: "keeps_other_annotations m p p'" by auto
  then obtain name where "cachePVCName m c = Done name"
    "ce_pvc env name = Found p \<or> ce_pvc env name = Missing \<and> om_annotations (pvc_meta p) = []"
    by (auto simp: cache_claim_def)
  moreover have "GetAnnotation (pvc_meta p') (PVCModelAnnotation other) = GetAnnotation (pvc_meta p) (PVCModelAnnotation other)"
    if "other \<noteq> md_name m" for other
    using k that by (simp add: keeps_other_annotations_def GetAnnotation_def gm_get_def)
  ultimately show ?thesis by blast
qed

theorem cache_pass_keeps_other_models_witness:
  "\<exists>as m' p'. reconcileCache done_env demo_reconciler cached_config cached_model = (as, m', Done ()) \<and> ActUpdatePVC p' \<in> set as
    \<and> GetAnnotation (pvc_meta p') (PVCModelAnnotation ''other'') = []"
proof -
  have "(case reconcileCache done_env demo_reconciler cached_config cached_model of (as, m', r) \<Rightarrow> (map (\<lambda>a. case a of ActUpdatePVC p \<Rightarrow> True | _ \<Rightarrow> False) as, r))
     = ([True, False], Done ())" by code_simp
  then obtain as m' where r: "reconcileCache done_env demo_reconciler cached_config cached_model = (as, m', Done ())"
    and k: "map (\<lambda>a. case a of ActUpdatePVC p \<Rightarrow> True | _ \<Rightarrow> False) as = [True, False]" by (auto split: prod.splits)
  then obtain p' where p': "ActUpdatePVC p' \<in> set as" by (cases as) (auto split: ctl_act.splits)
  have "md_uid cached_model \<noteq> []" "''other'' \<noteq> md_name cached_model" by (simp_all add: md_uid_def cached_model_def)
  then have "GetAnnotation (pvc_meta p') (PVCModelAnnotation ''other'') = []"
    using cache_pass_keeps_other_models [OF _ r p']
    by (auto simp: demo_ctl_env_def empty_pvc_def empty_meta_def GetAnnotation_def gm_get_def)
  with r p' show ?thesis by blast
qed

subsection \<open>Eviction\<close>

definition evicted :: "ctl_env \<Rightarrow> model \<Rightarrow> model_config \<Rightarrow> bool" where
  "evicted env m c \<longleftrightarrow> (\<exists>name. cachePVCName m c = Done name
       \<and> (ce_pvc env name = Missing \<or> (\<exists>p. ce_pvc env name = Found p \<and> om_deleting (pvc_meta p))))
     \<or> (\<exists>j. ce_job env (evictCacheJobName m) = Found j \<and> IsJobCompleted j)"

fun evict_write_ok :: "ctl_env \<Rightarrow> model \<Rightarrow> model_config \<Rightarrow> ctl_act \<Rightarrow> bool" where
  "evict_write_ok env m c (ActUpdateModel m') = evicted env m c"
| "evict_write_ok env m c (ActUpdatePVC p') = (\<exists>p. cache_claim env m c p \<and> keeps_other_annotations m p p')"
| "evict_write_ok env m c (ActCreateJob j) = (om_name (job_meta j) = evictCacheJobName m
     \<and> map c_command (ps_containers (job_pod_spec j)) = [[''bash'', ''-c'', ''rm -rf '' @ modelCacheDir m]])"
| "evict_write_ok env m c (ActDeleteJob n) = (n \<in> {loadCacheJobName m, evictCacheJobName m})"
| "evict_write_ok env m c (ActDeletePods k n) = (k = JobNameLabel \<and> n \<in> {loadCacheJobName m, evictCacheJobName m})"
| "evict_write_ok env m c _ = False"

lemma deleteAll_wp [simp]:
  "wp (deleteAllCacheJobsAndPods env m) (evict_write_ok env m c) (\<lambda>_ m'. m' = m0) m0"
  by (auto simp: deleteAllCacheJobsAndPods_def delete_job_and_pods_def)

lemma finalizeCache_wp:
  "wp (finalizeCache env r c) (evict_write_ok env m c) (\<lambda>_ m'. has_finalizer m' \<longrightarrow> False) m"
proof -
  have del: "wp (deleteAllCacheJobsAndPods env m) (evict_write_ok env m c) Q m0" if "Q () m0" for Q m0
    by (rule wp_mono [OF deleteAll_wp]) (use that in auto)
  have gone: "\<not> has_finalizer (remove_finalizer m)" by (simp add: has_finalizer_def remove_finalizer_def)
  have evict_job: "om_name (job_meta j) = evictCacheJobName m"
      "map c_command (ps_containers (job_pod_spec j)) = [[''bash'', ''-c'', ''rm -rf '' @ modelCacheDir m]]" if "evictCacheJobForModel r m c = Done j" for j
    using that by (auto simp: evictCacheJobForModel_def outcome_bind_eq_Done cache_job_def cache_job_spec_def Let_def)
  note job_simps = evict_job [simplified]
  show ?thesis
    unfolding finalizeCache_def
    by (auto simp: evict_cache_def create_job_def drop_pvc_annotation_def update_model_def evicted_def cache_claim_def
        keeps_other_annotations_def gone job_simps split: read.split option.split intro!: del)
qed

text \<open>C17: The finalizer, which holds the Model back from being deleted, is taken off only when the
  claim is gone or the Job that evicts the Model is complete; the Job it starts removes the
  directory of this Model; and after a successful pass the finalizer is off.\<close>

theorem finalizer_kept_until_evicted:
  assumes "finalizeCache env r c m = (as, m', res)"
  shows "((\<exists>m''. ActUpdateModel m'' \<in> set as)
      \<longrightarrow> (\<exists>name. cachePVCName m c = Done name
            \<and> (ce_pvc env name = Missing \<or> (\<exists>p. ce_pvc env name = Found p \<and> om_deleting (pvc_meta p))))
        \<or> (\<exists>j. ce_job env (evictCacheJobName m) = Found j \<and> IsJobCompleted j))
    \<and> (\<forall>j. ActCreateJob j \<in> set as \<longrightarrow> map c_command (ps_containers (job_pod_spec j)) = [[''bash'', ''-c'', ''rm -rf '' @ modelCacheDir m]])
    \<and> (res = Done () \<longrightarrow> \<not> has_finalizer m')"
proof -
  note run = wp_run [OF finalizeCache_wp assms]
  have "evict_write_ok env m c a" if "a \<in> set as" for a using run that by blast
  then have "\<And>m''. ActUpdateModel m'' \<in> set as \<Longrightarrow> evicted env m c"
    "\<And>j. ActCreateJob j \<in> set as \<Longrightarrow> map c_command (ps_containers (job_pod_spec j)) = [[''bash'', ''-c'', ''rm -rf '' @ modelCacheDir m]]"
    using evict_write_ok.simps(1,3) by blast+
  then show ?thesis using run unfolding evicted_def by blast
qed

theorem finalizer_kept_until_evicted_witness:
  "\<exists>as m'. finalizeCache (demo_ctl_env (\<lambda>n. Missing)) demo_reconciler cached_config cached_model = (as, m', Error ReturnEarly)
    \<and> (\<nexists>m''. ActUpdateModel m'' \<in> set as)"
proof -
  let ?env = "demo_ctl_env (\<lambda>n. Missing)"
  have "(case finalizeCache ?env demo_reconciler cached_config cached_model of (as, m', r) \<Rightarrow> r) = Error ReturnEarly" by code_simp
  then obtain as m' where r: "finalizeCache ?env demo_reconciler cached_config cached_model = (as, m', Error ReturnEarly)"
    by (auto split: prod.splits)
  have "ce_pvc ?env name = Found empty_pvc" "ce_job ?env n = Missing" for name n by (simp_all add: demo_ctl_env_def)
  then show ?thesis using finalizer_kept_until_evicted [OF r] r by (simp add: empty_pvc_def empty_meta_def)
qed

end
