(* ===== verification/Model_Controller_Properties.thy ===== *)
theory Model_Controller_Properties
  imports Model_Controller Cache_Properties
begin

section \<open>Properties of the Model controller\<close>

subsection \<open>Labels and bounds\<close>

lemma lookup_filter_keys: "gm_lookup (filter (\<lambda>(k, v). P k) m) k = (if P k then gm_lookup m k else None)"
  by (induction m) auto

lemma gm_has_filter_keys: "gm_has (filter (\<lambda>(k, v). P k) m) k \<longleftrightarrow> P k \<and> gm_has m k"
  by (simp add: gm_has_def lookup_filter_keys)

lemma feature_label_simps [simp]:
  "has_prefix (feature_label f) ModelFeatureLabelDomain"
  "trim_prefix (feature_label f) (ModelFeatureLabelDomain @ ''/'') = f"
  "feature_label f = feature_label g \<longleftrightarrow> f = g"
  "stale_feature_label fs (feature_label f) \<longleftrightarrow> f \<notin> set fs"
proof -
  show t: "trim_prefix (feature_label f) (ModelFeatureLabelDomain @ ''/'') = f"
    using trim_prefix_append [of "ModelFeatureLabelDomain @ ''/''" f] by (simp add: feature_label_def)
  show p: "has_prefix (feature_label f) ModelFeatureLabelDomain"
    using has_prefix_append [of ModelFeatureLabelDomain "CHR ''/'' # f"] by (simp add: feature_label_def)
  show "feature_label f = feature_label g \<longleftrightarrow> f = g" by (simp add: feature_label_def)
  show "stale_feature_label fs (feature_label f) \<longleftrightarrow> f \<notin> set fs" using p t by (simp add: stale_feature_label_def)
qed

lemma applySelfLabels_frame [simp]:
  "md_spec (fst (applySelfLabels m)) = md_spec m" "md_status (fst (applySelfLabels m)) = md_status m"
  "md_name (fst (applySelfLabels m)) = md_name m" "md_uid (fst (applySelfLabels m)) = md_uid m"
  "om_deleting (md_meta (fst (applySelfLabels m))) = om_deleting (md_meta m)"
  by (simp_all add: applySelfLabels_def Let_def md_uid_def)

definition self_labels :: "model \<Rightarrow> (string, string) gomap" where
  "self_labels m = om_labels (md_meta (fst (applySelfLabels m)))"

lemma self_labels_has:
  "gm_has (self_labels m) k \<longleftrightarrow>
     (\<not> stale_feature_label (ms_Features (md_spec m)) k \<and> gm_has (om_labels (md_meta m)) k)
     \<or> k \<in> feature_label ` set (ms_Features (md_spec m))"
  by (auto simp: self_labels_def applySelfLabels_def Let_def gm_has_fill gm_has_filter_keys image_iff stale_feature_label_def)

lemma self_labels_kept:
  assumes "\<not> has_prefix k ModelFeatureLabelDomain"
  shows "gm_lookup (self_labels m) k = gm_lookup (om_labels (md_meta m)) k"
proof -
  have "k \<noteq> feature_label f" for f using assms feature_label_simps(1) [of f] by auto
  then have "k \<notin> fst ` set (rev (map (\<lambda>f. (feature_label f, ''true'')) fs))" for fs by (simp add: image_image) blast
  then have "map_of (rev (map (\<lambda>f. (feature_label f, ''true'')) fs)) k = None" for fs
    by (simp only: map_of_eq_None_iff not_False_eq_True)
  then show ?thesis
    using assms by (simp add: self_labels_def applySelfLabels_def Let_def gm_lookup_fill lookup_filter_keys map_add_def stale_feature_label_def)
qed

lemma self_labels_stale: "gm_has (self_labels m) k \<Longrightarrow> \<not> stale_feature_label (ms_Features (md_spec m)) k"
  by (auto simp: self_labels_has)

lemma applySelfLabels_twice: "\<not> snd (applySelfLabels (fst (applySelfLabels m)))"
proof -
  let ?fs = "ms_Features (md_spec m)" and ?ls = "self_labels m"
  have kept: "filter (\<lambda>(k, v). \<not> stale_feature_label (remdups ?fs) k) ?ls = ?ls"
  proof (rule filter_True, clarify)
    fix k v assume "(k, v) \<in> set ?ls" "stale_feature_label (remdups ?fs) k"
    then have "gm_has ?ls k" by (force simp: gm_has_keys gm_keys_def)
    then have "\<not> stale_feature_label ?fs k" by (rule self_labels_stale)
    then show False using \<open>stale_feature_label (remdups ?fs) k\<close> by (simp add: stale_feature_label_def)
  qed
  have none: "filter (\<lambda>f. \<not> gm_has ?ls (feature_label f)) (remdups ?fs) = []" by (auto simp: filter_empty_conv self_labels_has)
  have "snd (applySelfLabels n) \<longleftrightarrow> (let feats = remdups (ms_Features (md_spec n));
      kept = filter (\<lambda>(k, v). \<not> stale_feature_label feats k) (om_labels (md_meta n))
    in length kept < length (om_labels (md_meta n)) \<or> filter (\<lambda>f. \<not> gm_has kept (feature_label f)) feats \<noteq> [])" for n
    by (simp add: applySelfLabels_def Let_def)
  from this [of "fst (applySelfLabels m)"] show ?thesis
    by (simp only: applySelfLabels_frame self_labels_def [symmetric] Let_def kept none) simp
qed

text \<open>The feature labels of a Model become exactly its features; every other label keeps its value.\<close>

theorem applySelfLabels_exact:
  "(gm_has (om_labels (md_meta (fst (applySelfLabels m)))) (feature_label f) \<longleftrightarrow> f \<in> set (ms_Features (md_spec m)))
   \<and> (\<not> has_prefix k ModelFeatureLabelDomain \<longrightarrow>
        gm_lookup (om_labels (md_meta (fst (applySelfLabels m)))) k = gm_lookup (om_labels (md_meta m)) k)
   \<and> (has_prefix k ModelFeatureLabelDomain \<longrightarrow> gm_has (om_labels (md_meta (fst (applySelfLabels m)))) k \<longrightarrow>
        k \<in> feature_label ` set (ms_Features (md_spec m)) \<or> k \<in> set (ms_Features (md_spec m)))"
proof -
  have "k \<in> feature_label ` set (ms_Features (md_spec m)) \<or> k \<in> set (ms_Features (md_spec m))"
    if "has_prefix k ModelFeatureLabelDomain" "gm_has (self_labels m) k"
  proof -
    from that have "trim_prefix k (ModelFeatureLabelDomain @ ''/'') \<in> set (ms_Features (md_spec m))"
      using self_labels_stale [of m k] by (simp add: stale_feature_label_def)
    moreover have "k = feature_label (trim_prefix k (ModelFeatureLabelDomain @ ''/'')) \<or> k = trim_prefix k (ModelFeatureLabelDomain @ ''/'')"
      using has_prefixE [of k "ModelFeatureLabelDomain @ ''/''"]
      by (cases "has_prefix k (ModelFeatureLabelDomain @ ''/'')") (auto simp: feature_label_def trim_prefix_def)
    ultimately show ?thesis by auto
  qed
  then show ?thesis using self_labels_kept [of k m] by (auto simp: self_labels_def [symmetric] self_labels_has)
qed

theorem applySelfLabels_exact_witness:
  "gm_lookup (om_labels (md_meta (fst (applySelfLabels
      ((default_model ''m'')\<lparr>md_meta := empty_meta\<lparr>om_labels := [(''team'', ''a''), (''features.kubeai.org/TextEmbedding'', ''true'')]\<rparr>,
        md_spec := default_spec\<lparr>ms_Features := [''TextGeneration'']\<rparr>\<rparr>))))) ''team'' = Some ''a''"
  using applySelfLabels_exact [of "(default_model ''m'')\<lparr>md_meta := empty_meta\<lparr>om_labels := [(''team'', ''a''), (''features.kubeai.org/TextEmbedding'', ''true'')]\<rparr>,
        md_spec := default_spec\<lparr>ms_Features := [''TextGeneration'']\<rparr>\<rparr>" f "''team''" for f]
  by (simp add: has_prefix_def ModelFeatureLabelDomain_def)

definition replicas_in_bounds :: "model_spec \<Rightarrow> bool" where
  "replicas_in_bounds sp \<longleftrightarrow> (\<exists>n. ms_Replicas sp = Some n \<and> ms_MinReplicas sp \<le> n \<and> (\<forall>x. ms_MaxReplicas sp = Some x \<longrightarrow> n \<le> x))"

lemma bounds_unchanged: "\<not> snd (applyAutoscalingReplicaBounds m) \<longleftrightarrow> replicas_in_bounds (md_spec m)"
  by (auto simp: applyAutoscalingReplicaBounds_def Let_def replicas_in_bounds_def split: option.splits)

lemma bounds_fst: "\<not> snd (applyAutoscalingReplicaBounds m) \<Longrightarrow> fst (applyAutoscalingReplicaBounds m) = m"
  by (auto simp: applyAutoscalingReplicaBounds_def Let_def split: option.splits if_splits)

lemma bounds_applied:
  assumes "\<forall>x. ms_MaxReplicas (md_spec m) = Some x \<longrightarrow> ms_MinReplicas (md_spec m) \<le> x"
  shows "replicas_in_bounds (md_spec (fst (applyAutoscalingReplicaBounds m)))"
  using assms by (auto simp: applyAutoscalingReplicaBounds_def Let_def replicas_in_bounds_def set_replicas_def split: option.splits)

lemma bounds_frame [simp]:
  "md_meta (fst (applyAutoscalingReplicaBounds m)) = md_meta m"
  "md_status (fst (applyAutoscalingReplicaBounds m)) = md_status m"
  "(md_spec (fst (applyAutoscalingReplicaBounds m)))\<lparr>ms_Replicas := x\<rparr> = (md_spec m)\<lparr>ms_Replicas := x\<rparr>"
  "ms_Features (md_spec (fst (applyAutoscalingReplicaBounds m))) = ms_Features (md_spec m)"
  "ms_AutoscalingDisabled (md_spec (fst (applyAutoscalingReplicaBounds m))) = ms_AutoscalingDisabled (md_spec m)"
  by (simp_all add: applyAutoscalingReplicaBounds_def Let_def set_replicas_def split: option.split)

lemma self_update_simps:
  "fst (self_update m) = (if ms_AutoscalingDisabled (md_spec m) then fst (applySelfLabels m)
     else fst (applyAutoscalingReplicaBounds (fst (applySelfLabels m))))"
  "snd (self_update m) \<longleftrightarrow> snd (applySelfLabels m)
     \<or> \<not> ms_AutoscalingDisabled (md_spec m) \<and> snd (applyAutoscalingReplicaBounds (fst (applySelfLabels m)))"
  by (auto simp: self_update_def Let_def case_prod_beta)

lemma self_labels_meta_only:
  assumes "md_meta n = md_meta m" "ms_Features (md_spec n) = ms_Features (md_spec m)"
  shows "snd (applySelfLabels n) = snd (applySelfLabels m)"
  using assms by (simp add: applySelfLabels_def Let_def)

text \<open>The self-update settles: after one update of a Model with \<open>min \<le> max\<close>, which is what the
  validation of the resource demands, the next pass has nothing left to change and goes on
  to the Pods.\<close>

theorem self_update_settles:
  assumes "\<forall>x. ms_MaxReplicas (md_spec m) = Some x \<longrightarrow> ms_MinReplicas (md_spec m) \<le> x"
  shows "\<not> snd (self_update (fst (self_update m)))"
proof (cases "ms_AutoscalingDisabled (md_spec m)")
  case True
  then show ?thesis by (simp add: self_update_simps applySelfLabels_twice)
next
  case False
  let ?l = "fst (applySelfLabels m)"
  let ?b = "fst (applyAutoscalingReplicaBounds ?l)"
  have "replicas_in_bounds (md_spec ?b)" using assms by (intro bounds_applied) simp
  moreover have "\<not> snd (applySelfLabels ?b)"
    using self_labels_meta_only [of ?b ?l] applySelfLabels_twice [of m] by simp
  ultimately show ?thesis using False by (simp add: self_update_simps bounds_unchanged)
qed

theorem self_update_settles_witness:
  "snd (self_update (default_model ''m'')) \<and> \<not> snd (self_update (fst (self_update (default_model ''m''))))"
proof -
  have "snd (self_update (default_model ''m''))" by code_simp
  then show ?thesis using self_update_settles [of "default_model ''m''"] by (simp add: default_model_def default_spec_def)
qed


subsection \<open>The configuration\<close>

lemma lookup_multiply: "gm_lookup (multiply_resources n rs) k = map_option (\<lambda>q. q * n) (gm_lookup rs k)"
  by (induction rs) (auto simp: multiply_resources_def)

lemma lookup_resource_profile_Done:
  "lookup_resource_profile r s = Done (p, n) \<longleftrightarrow> (\<exists>name factor. s = name @ CHR '':'' # factor \<and> CHR '':'' \<notin> set name
     \<and> CHR '':'' \<notin> set factor \<and> atoi factor = Some n \<and> gm_lookup (rc_ResourceProfiles r) name = Some p)"
proof -
  have "lookup_resource_profile r s = Done (p, n) \<longleftrightarrow> (\<exists>name factor. str_split (CHR '':'') s = [name, factor]
     \<and> atoi factor = Some n \<and> gm_lookup (rc_ResourceProfiles r) name = Some p)"
    by (auto simp: lookup_resource_profile_def split: list.splits option.splits)
  then show ?thesis by (auto simp: str_split_pair)
qed

text \<open>A resource profile is written as \<open>name:multiple\<close>. Writing a name without a colon and a
  multiple of 64 bits, and reading it back, finds that profile and that multiple.\<close>

theorem resource_profile_roundtrip:
  assumes "CHR '':'' \<notin> set name" "in_int64 n"
  shows "lookup_resource_profile r (name @ '':'' @ int_str n)
    = (case gm_lookup (rc_ResourceProfiles r) name of Some p \<Rightarrow> Done (p, n)
       | None \<Rightarrow> Error (''resource profile not found: '' @ quoted name))"
proof -
  have "c \<in> set (int_str n) \<Longrightarrow> is_digit c \<or> c = CHR ''-''" for c
    by (auto simp: int_str_def nat_str_digits split: if_splits)
  moreover have "\<not> is_digit (CHR '':'')" by (simp add: is_digit_def)
  ultimately have "CHR '':'' \<notin> set (int_str n)" by fastforce
  then have "str_split (CHR '':'') (name @ CHR '':'' # int_str n) = [name, int_str n]" using assms(1) by (simp add: str_split_pair)
  then show ?thesis using atoi_int_str [OF assms(2)] by (simp add: lookup_resource_profile_def split: option.split)
qed

theorem resource_profile_roundtrip_witness:
  "\<exists>p. lookup_resource_profile demo_reconciler (''cpu'' @ '':'' @ int_str 2) = Done (p, 2)"
  using resource_profile_roundtrip [of "''cpu''" 2 demo_reconciler] by (simp add: in_int64_def demo_reconciler_def)

text \<open>What the configuration of a Model holds when it exists: the requests and limits of its
  resource profile, each multiplied; the cache profile it names; the image it names, or the
  image of its engine for the profile, or the engine's default; and its own environment
  sources in place of those of the URL.\<close>

theorem getModelConfig_contents:
  assumes "getModelConfig r m = Done c"
  shows "\<exists>name factor n p. ms_ResourceProfile (md_spec m) = name @ CHR '':'' # factor \<and> atoi factor = Some n
    \<and> gm_lookup (rc_ResourceProfiles r) name = Some p
    \<and> (\<forall>k. gm_lookup (rp_Requests (cfg_ResourceProfile c)) k = map_option (\<lambda>q. q * n) (gm_lookup (rp_Requests p) k)
         \<and> gm_lookup (rp_Limits (cfg_ResourceProfile c)) k = map_option (\<lambda>q. q * n) (gm_lookup (rp_Limits p) k))
    \<and> rp_NodeSelector (cfg_ResourceProfile c) = rp_NodeSelector p
    \<and> (ms_CacheProfile (md_spec m) \<noteq> [] \<longrightarrow> gm_lookup (rc_CacheProfiles r) (ms_CacheProfile (md_spec m)) = Some (cfg_CacheProfile c))
    \<and> (if ms_Image (md_spec m) \<noteq> [] then cfg_Image c = ms_Image (md_spec m)
       else gm_lookup (server_images r (ms_Engine (md_spec m))) (if rp_ImageName p = [] then ''default'' else rp_ImageName p) = Some (cfg_Image c)
         \<or> gm_lookup (server_images r (ms_Engine (md_spec m))) ''default'' = Some (cfg_Image c))
    \<and> (\<forall>e. ms_EnvFrom (md_spec m) = Some e \<longrightarrow> pa_envFrom (src_additions (cfg_Source c)) = e)"
proof -
  obtain src cp p n img where cp: "lookup_cache_profile r (ms_CacheProfile (md_spec m)) = Done cp"
    and rp: "lookup_resource_profile r (ms_ResourceProfile (md_spec m)) = Done (p, n)"
    and img: "lookupServerImage r m p = Done img"
    and c: "c = \<lparr>cfg_CacheProfile = cp, cfg_ResourceProfile = p\<lparr>rp_Requests := multiply_resources n (rp_Requests p),
         rp_Limits := multiply_resources n (rp_Limits p)\<rparr>, cfg_Image = img,
         cfg_Source = (case ms_EnvFrom (md_spec m) of None \<Rightarrow> src | Some e \<Rightarrow> src\<lparr>src_additions := (src_additions src)\<lparr>pa_envFrom := e\<rparr>\<rparr>)\<rparr>"
    using assms unfolding getModelConfig_def outcome_bind_eq_Done Let_def by (auto simp: outcome_bind_eq_Done)
  obtain name factor where "ms_ResourceProfile (md_spec m) = name @ CHR '':'' # factor" "atoi factor = Some n"
    "gm_lookup (rc_ResourceProfiles r) name = Some p"
    using rp unfolding lookup_resource_profile_Done by blast
  moreover have "ms_CacheProfile (md_spec m) \<noteq> [] \<longrightarrow> gm_lookup (rc_CacheProfiles r) (ms_CacheProfile (md_spec m)) = Some (cfg_CacheProfile c)"
    using cp by (auto simp: c lookup_cache_profile_def split: option.splits if_splits)
  moreover have "(if ms_Image (md_spec m) \<noteq> [] then cfg_Image c = ms_Image (md_spec m)
       else gm_lookup (server_images r (ms_Engine (md_spec m))) (if rp_ImageName p = [] then ''default'' else rp_ImageName p) = Some (cfg_Image c)
         \<or> gm_lookup (server_images r (ms_Engine (md_spec m))) ''default'' = Some (cfg_Image c))"
    using img by (auto simp: c lookupServerImage_def Let_def split: option.splits if_splits)
  moreover have "rp_Requests (cfg_ResourceProfile c) = multiply_resources n (rp_Requests p)"
    "rp_Limits (cfg_ResourceProfile c) = multiply_resources n (rp_Limits p)" "rp_NodeSelector (cfg_ResourceProfile c) = rp_NodeSelector p"
    by (simp_all add: c)
  moreover have "pa_envFrom (src_additions (cfg_Source c)) = e" if "ms_EnvFrom (md_spec m) = Some e" for e
    using that by (simp add: c)
  ultimately show ?thesis
    by (intro exI [of _ name] exI [of _ factor] exI [of _ n] exI [of _ p]) (simp add: lookup_multiply)
qed

definition ready_model :: model where
  "ready_model = (default_model ''m'')\<lparr>md_meta := empty_meta\<lparr>om_name := ''m'', om_uid := ''abcdefgh''\<rparr>,
     md_spec := default_spec\<lparr>ms_URL := ''hf://org/model'', ms_ResourceProfile := ''cpu:2'', ms_Replicas := Some 1\<rparr>\<rparr>"

theorem getModelConfig_contents_witness:
  "\<exists>c. getModelConfig demo_reconciler ready_model = Done c \<and> gm_lookup (rp_Requests (cfg_ResourceProfile c)) ''cpu'' = Some 2"
proof -
  have "map_option (\<lambda>c. gm_lookup (rp_Requests (cfg_ResourceProfile c)) ''cpu'') (case getModelConfig demo_reconciler ready_model of Done c \<Rightarrow> Some c | _ \<Rightarrow> None)
     = Some (Some 2)" by code_simp
  then obtain c where c: "getModelConfig demo_reconciler ready_model = Done c"
    "gm_lookup (rp_Requests (cfg_ResourceProfile c)) ''cpu'' = Some 2" by (auto split: outcome.splits)
  have "\<exists>name factor n p. ms_ResourceProfile (md_spec ready_model) = name @ CHR '':'' # factor \<and> atoi factor = Some n
    \<and> gm_lookup (rc_ResourceProfiles demo_reconciler) name = Some p"
    using getModelConfig_contents [OF c(1)] by blast
  with c show ?thesis by blast
qed

end
