(* ===== verification/Reconcile_Properties.thy ===== *)
theory Reconcile_Properties
  imports Model_Controller_Properties
begin

section \<open>Properties of Reconcile\<close>

subsection \<open>The shape of a pass\<close>

lemma self_update_unchanged:
  assumes "\<not> snd (self_update m)"
  shows "fst (self_update m) = m"
proof -
  have l: "fst (applySelfLabels m) = m" if "\<not> snd (applySelfLabels m)"
  proof -
    let ?fs = "remdups (ms_Features (md_spec m))" and ?ls = "om_labels (md_meta m)"
    let ?kept = "filter (\<lambda>(k, v). \<not> stale_feature_label ?fs k) ?ls"
    have "\<not> length ?kept < length ?ls" "filter (\<lambda>f. \<not> gm_has ?kept (feature_label f)) ?fs = []"
      using that by (simp_all add: applySelfLabels_def Let_def)
    moreover from this(1) have "?kept = ?ls"
      by (metis (mono_tags, lifting) filter_id_conv length_filter_less)
    ultimately show ?thesis by (simp add: applySelfLabels_def Let_def)
  qed
  have n: "\<not> snd (applySelfLabels m)" using assms by (simp add: self_update_simps)
  show ?thesis
    using assms bounds_fst [of "fst (applySelfLabels m)"] by (auto simp: self_update_simps l [OF n])
qed

definition config_map_write :: "ctl_act \<Rightarrow> bool" where
  "config_map_write a \<longleftrightarrow> (\<exists>cm. a = ActCreateConfigMap cm) \<or> (\<exists>cm. a = ActUpdateConfigMap cm) \<or> (\<exists>n. a = ActDeleteConfigMap n)"

lemma ensureModelFilesConfigMap_wp:
  assumes "\<And>a. config_map_write a \<Longrightarrow> A a" "Q () m0"
  shows "wp (ensureModelFilesConfigMap env m) A Q m0"
  using assms by (auto simp: ensureModelFilesConfigMap_def Let_def config_map_write_def split: read.split)

text \<open>A pass writes the ConfigMap of the files, and then either updates the Model and stops, or
  deletes or serves the Model as it is.\<close>

lemma reconcile_body_wp:
  assumes "\<And>a. config_map_write a \<Longrightarrow> A a"
    and "snd (self_update m) \<Longrightarrow> A (ActUpdateModel (fst (self_update m)))"
    and "\<And>c. \<not> snd (self_update m) \<Longrightarrow> getModelConfig r m = Done c \<Longrightarrow> om_deleting (md_meta m) \<Longrightarrow> wp (delete_model env r c) A (\<lambda>_ _. True) m"
    and "\<And>c. \<not> snd (self_update m) \<Longrightarrow> getModelConfig r m = Done c \<Longrightarrow> \<not> om_deleting (md_meta m) \<Longrightarrow> wp (serve_model env r c) A (\<lambda>_ _. True) m"
  shows "wp (reconcile_body env r) A (\<lambda>_ _. True) m"
proof (cases "snd (self_update m)")
  case True
  then show ?thesis using assms(1,2)
    by (auto simp: reconcile_body_def update_model_def intro!: ensureModelFilesConfigMap_wp)
next
  case False
  then show ?thesis using assms(1,3,4)
    by (auto simp: reconcile_body_def self_update_unchanged intro!: ensureModelFilesConfigMap_wp)
qed

text \<open>The identity of the Model, which no pass changes.\<close>

definition identity :: "model \<Rightarrow> string \<times> string \<times> bool" where
  "identity m = (md_name m, md_uid m, om_deleting (md_meta m))"

lemma identity_simps [simp]:
  "identity (fst (self_update m)) = identity m" "identity (set_pod_counts ps m) = identity m"
  "identity (set_cache_loaded b m) = identity m" "identity (add_finalizer m) = identity m" "identity (remove_finalizer m) = identity m"
proof -
  show "identity (fst (self_update m)) = identity m"
    by (simp add: self_update_simps identity_def md_uid_def) (simp add: md_uid_def [symmetric])
qed (simp_all add: identity_def set_pod_counts_def set_cache_loaded_def add_finalizer_def remove_finalizer_def md_uid_def)

lemma stable_cases [stable_rules]:
  "(\<And>x. stable g (f x)) \<Longrightarrow> stable g n \<Longrightarrow> (\<And>e. stable g (h e)) \<Longrightarrow> stable g (case rd of Found x \<Rightarrow> f x | Missing \<Rightarrow> n | ReadErr e \<Rightarrow> h e)"
  "stable g n \<Longrightarrow> (\<And>x. stable g (f x)) \<Longrightarrow> stable g (case opt of None \<Rightarrow> n | Some x \<Rightarrow> f x)"
  "stable g c \<Longrightarrow> stable g d \<Longrightarrow> stable g (if b then c else d)"
  "(\<And>x y. stable g (k x y)) \<Longrightarrow> stable g (case p of (x, y) \<Rightarrow> k x y)"
  by (auto split: read.split option.split prod.split)

lemma stable_run_plan [stable_rules]: "stable g (run_plan env pp)"
  by (simp add: stable_def run_plan_def case_prod_beta Let_def)

lemma stable_run_adapters [stable_rules]: "stable g (run_adapters env ps as)"
  by (simp add: stable_def run_adapters_def case_prod_beta Let_def)

lemma stable_cache [stable_rules]:
  "stable identity (reconcileCache env r c)" "stable identity (finalizeCache env r c)"
  unfolding reconcileCache_def finalizeCache_def get_or_create_pvc_def update_model_def read_job_def load_cache_def create_job_def
    updatePVCModelAnnotation_def deleteAllCacheJobsAndPods_def delete_job_and_pods_def evict_cache_def drop_pvc_annotation_def
  by (intro stable_rules; simp)+

lemma stable_service [stable_rules]: "stable g (reconcileHeadlessService env r m)" "stable g (ensureModelFilesConfigMap env m)"
  unfolding reconcileHeadlessService_def ensureModelFilesConfigMap_def Let_def by (intro stable_rules)+

lemma stable_pods [stable_rules]: "stable identity (reconcile_pods env r c)"
  unfolding reconcile_pods_def
  by (intro stable_rules; simp split: outcome.split; intro allI conjI stable_rules impI)

lemma stable_body: "stable identity (reconcile_body env r)"
  unfolding reconcile_body_def delete_model_def serve_model_def update_model_def by (intro stable_rules; simp)

text \<open>A pass is the writes of its body and then, for a Model that is not being deleted, its status.\<close>

lemma Reconcile_run:
  assumes "Reconcile env r (Found m) = (as, res)"
  obtains bs m' r' where "reconcile_body env r m = (bs, m', r')" "identity m' = identity m"
    "as = bs @ (if om_deleting (md_meta m) then [] else [ActUpdateStatus m'])"
    "res = snd (update_status env m' (case r' of Error ReturnEarly \<Rightarrow> Done () | x \<Rightarrow> x))"
proof -
  obtain bs m' r' where b: "reconcile_body env r m = (bs, m', r')" by (rule prod_cases3)
  have i: "identity m' = identity m" by (rule stable_run [OF stable_body b])
  then have "om_deleting (md_meta m') = om_deleting (md_meta m)" by (simp add: identity_def)
  then show ?thesis using assms
    by (intro that [OF b i]) (auto simp: Reconcile_def b update_status_def Let_def split: prod.splits)
qed

lemma Reconcile_writes:
  assumes "Reconcile env r (Found m) = (as, res)" "wp (reconcile_body env r) A (\<lambda>_ _. True) m"
    and "\<And>m'. \<not> om_deleting (md_meta m) \<Longrightarrow> A (ActUpdateStatus m')"
  shows "\<forall>a \<in> set as. A a"
proof -
  obtain bs m' r' where b: "reconcile_body env r m = (bs, m', r')"
    "as = bs @ (if om_deleting (md_meta m) then [] else [ActUpdateStatus m'])"
    by (rule Reconcile_run [OF assms(1)])
  then show ?thesis using wp_run [OF assms(2) b(1)] assms(3) by auto
qed

subsection \<open>Deletion\<close>

fun teardown_write :: "model \<Rightarrow> ctl_act \<Rightarrow> bool" where
  "teardown_write m (ActCreatePod p) = False"
| "teardown_write m (ActDeletePod ns n) = False"
| "teardown_write m (ActCreatePVC p) = False"
| "teardown_write m (ActPutService s) = False"
| "teardown_write m (ActDeleteService n) = False"
| "teardown_write m (ActAdapter e) = False"
| "teardown_write m (ActUpdateStatus m') = False"
| "teardown_write m (ActCreateJob j) = (om_name (job_meta j) = evictCacheJobName m)"
| "teardown_write m _ = True"

lemma evict_write_teardown: "evict_write_ok env m c a \<Longrightarrow> teardown_write m a"
  by (cases a) simp_all

lemma config_map_teardown: "config_map_write a \<Longrightarrow> teardown_write m a"
  by (auto simp: config_map_write_def)

lemma delete_model_wp: "wp (delete_model env r c) (teardown_write m) (\<lambda>_ _. True) m"
proof -
  have "wp (finalizeCache env r c) (teardown_write m) (\<lambda>_ _. True) m"
    by (rule wp_mono [OF finalizeCache_wp]) (auto intro: evict_write_teardown)
  then show ?thesis by (simp add: delete_model_def)
qed

text \<open>C16: A Model that is being deleted gets nothing new: its passes create no Pod, no volume claim,
  no Service and no Job but the one that evicts its cache, load no adapter, and leave the status
  alone.\<close>

theorem deletion_creates_nothing:
  assumes "Reconcile env r (Found m) = (as, res)" "om_deleting (md_meta m)"
  shows "(\<forall>p. ActCreatePod p \<notin> set as) \<and> (\<forall>p. ActCreatePVC p \<notin> set as) \<and> (\<forall>s. ActPutService s \<notin> set as)
    \<and> (\<forall>e. ActAdapter e \<notin> set as) \<and> (\<forall>m'. ActUpdateStatus m' \<notin> set as)
    \<and> (\<forall>j. ActCreateJob j \<in> set as \<longrightarrow> om_name (job_meta j) = evictCacheJobName m)"
proof -
  have "wp (reconcile_body env r) (teardown_write m) (\<lambda>_ _. True) m"
    by (rule reconcile_body_wp) (use assms(2) in \<open>auto intro: config_map_teardown delete_model_wp\<close>)
  then have "\<forall>a \<in> set as. teardown_write m a" by (rule Reconcile_writes [OF assms(1)]) (use assms(2) in simp)
  then show ?thesis by auto
qed

definition deleting :: "model \<Rightarrow> model" where
  "deleting m = m\<lparr>md_meta := (md_meta m)\<lparr>om_deleting := True\<rparr>\<rparr>"

definition idle_env :: ctl_env where
  "idle_env = demo_ctl_env (\<lambda>n. Missing)"

theorem deletion_creates_nothing_witness:
  "\<exists>as. Reconcile idle_env demo_reconciler (Found (deleting ready_model)) = (as, Done ()) \<and> ActDeletePods ''model'' ''m'' \<in> set as
    \<and> (\<forall>p. ActCreatePod p \<notin> set as)"
proof -
  have "Reconcile idle_env demo_reconciler (Found (deleting ready_model))
    = ([ActCreateConfigMap \<lparr>cm_meta = empty_meta\<lparr>om_name := ''model-m-files''\<rparr>, cm_data = []\<rparr>, ActDeletePods ''model'' ''m''], Done ())"
    by code_simp
  moreover have "om_deleting (md_meta (deleting ready_model))" by (simp add: deleting_def)
  ultimately show ?thesis using deletion_creates_nothing by fastforce
qed

subsection \<open>Serving\<close>

definition pod_write :: "ctl_act \<Rightarrow> bool" where
  "pod_write a \<longleftrightarrow> (\<exists>p. a = ActCreatePod p) \<or> (\<exists>ns n. a = ActDeletePod ns n)"

lemma pod_write_simps [simp]:
  "pod_write (ActCreatePod p)" "pod_write (ActDeletePod ns n)" "\<not> pod_write (ActUpdateModel m)" "\<not> pod_write (ActUpdateStatus m)"
  "\<not> pod_write (ActDeletePods k v)" "\<not> pod_write (ActPutService s)" "\<not> pod_write (ActDeleteService n')"
  by (simp_all add: pod_write_def)

lemma not_pod_write:
  "config_map_write a \<Longrightarrow> \<not> pod_write a" "cache_write_ok env m c a \<Longrightarrow> \<not> pod_write a" "evict_write_ok env m c a \<Longrightarrow> \<not> pod_write a"
  by (cases a; simp add: config_map_write_def pod_write_def)+

lemma headless_wp:
  assumes "\<And>s. A (ActPutService s)" "\<And>n. A (ActDeleteService n)" "Q () m0"
  shows "wp (reconcileHeadlessService env r m) A Q m0"
  using assms by (auto simp: reconcileHeadlessService_def Let_def split: read.split)

text \<open>Where Pod writes can come from: a Model that needs no update, has a configuration, is not being
  deleted, and whose cache, if it has one, holds it.\<close>

definition may_serve :: "ctl_env \<Rightarrow> reconciler \<Rightarrow> model \<Rightarrow> model_config \<Rightarrow> bool" where
  "may_serve env r m c \<longleftrightarrow> \<not> snd (self_update m) \<and> getModelConfig r m = Done c \<and> \<not> om_deleting (md_meta m)
     \<and> (ms_CacheProfile (md_spec m) \<noteq> [] \<longrightarrow> claim_has_model env m c \<or> load_job_done env m)"

lemma serve_model_wp:
  assumes "md_uid m \<noteq> []" "\<And>a. \<not> pod_write a \<Longrightarrow> A a"
    and "\<And>m'. md_spec m' = md_spec m \<Longrightarrow> md_name m' = md_name m \<Longrightarrow>
      (ms_CacheProfile (md_spec m) \<noteq> [] \<longrightarrow> claim_has_model env m c \<or> load_job_done env m) \<Longrightarrow>
      wp (reconcile_pods env r c) A (\<lambda>_ _. True) m'"
  shows "wp (serve_model env r c) A (\<lambda>_ _. True) m"
proof -
  have svc: "wp (reconcileHeadlessService env r m) A Q m'" if "Q () m'" for Q m'
    by (rule headless_wp) (use assms(2) that in auto)
  have "wp (reconcileCache env r c) A (\<lambda>_ m'. (claim_has_model env m c \<or> load_job_done env m)
      \<and> md_spec m' = md_spec m \<and> md_name m' = md_name m) m"
    by (rule wp_mono [OF reconcileCache_wp [OF assms(1)]]) (auto intro: assms(2) dest: not_pod_write)
  then have "wp (reconcileCache env r c) A (\<lambda>_ m'. wp (reconcileHeadlessService env r m) A
      (\<lambda>_ m'. wp (reconcile_pods env r c) A (\<lambda>_ _. True) m') m') m"
    by (rule wp_mono) (auto intro!: svc assms(3))
  then show ?thesis by (auto simp: serve_model_def wp_eta intro!: svc assms(3))
qed

lemma pod_write_needs:
  assumes "md_uid m \<noteq> []" "Reconcile env r (Found m) = (as, res)" "a \<in> set as" "pod_write a"
  shows "\<exists>c. may_serve env r m c"
proof (rule ccontr)
  assume no: "\<nexists>c. may_serve env r m c"
  have del: "wp (delete_model env r c) (\<lambda>a. \<not> pod_write a) (\<lambda>_ _. True) m" for c
    by (rule wp_mono [OF delete_model_wp [of env r c m]], case_tac a) (auto simp: pod_write_def)
  have "wp (reconcile_body env r) (\<lambda>a. \<not> pod_write a) (\<lambda>_ _. True) m"
    by (rule reconcile_body_wp) (use no assms(1) in \<open>auto simp: may_serve_def intro: del dest: not_pod_write intro!: serve_model_wp\<close>)
  then have "\<forall>a \<in> set as. \<not> pod_write a" by (rule Reconcile_writes [OF assms(2)]) simp
  then show False using assms(3,4) by blast
qed

end
