(* ===== verification/Serving_Properties.thy ===== *)
theory Serving_Properties
  imports Reconcile_Properties Pod_Plan_Properties
begin

section \<open>Properties of the Pods a pass writes\<close>

subsection \<open>What a plan can contain\<close>

lemma scale_down_sets:
  "set (pv_toDelete (scale_down n ps v)) \<subseteq> set (pv_toDelete v) \<union> set ps" "pv_toCreate (scale_down n ps v) = pv_toCreate v"
  by (induction n ps v rule: scale_down.induct) (auto simp: appendToDelete_def)

lemma rollout_sets:
  "set (pv_toDelete (rollout x k s r ps v)) \<subseteq> set (pv_toDelete v) \<union> set ps"
  "set (pv_toCreate (rollout x k s r ps v)) \<subseteq> insert x (set (pv_toCreate v))"
proof -
  have d: "set (pv_toDelete (recreate x k s p v)) = insert p (set (pv_toDelete v))"
    "set (pv_toCreate (recreate x k s p v)) \<subseteq> insert x (set (pv_toCreate v))" for p v
    by (auto simp: recreate_effect)
  show "set (pv_toDelete (rollout x k s r ps v)) \<subseteq> set (pv_toDelete v) \<union> set ps"
    using rolled_subset [of r ps] by (auto simp: rollout_deletes)
  show "set (pv_toCreate (rollout x k s r ps v)) \<subseteq> insert x (set (pv_toCreate v))"
  proof (induction ps arbitrary: v)
    case (Cons p ps)
    show ?case
    proof (cases "PodIsReady p")
      case False
      let ?w = "v\<lparr>pv_details := pv_details v @ [''Out-of-date Pod '' @ quoted (om_name (pod_meta p)) @ '' is not ready, immediately recreating'']\<rparr>"
      have "set (pv_toCreate (rollout x k s r ps (recreate x k s p ?w))) \<subseteq> insert x (set (pv_toCreate v))"
        using Cons [of "recreate x k s p ?w"] d(2) [of p ?w] by auto
      with False show ?thesis by simp
    next
      case True
      then show ?thesis using Cons [of v] d(2) [of p "v\<lparr>pv_details := pv_details v @ [''All Pods ready, recreating out-of-date Pod '' @ quoted (om_name (pod_meta p))]\<rparr>"]
        by (cases r) simp_all
    qed
  qed auto
qed

lemma plan_sets:
  "set (pp_toCreate (calculatePodPlan x e n s ps)) \<subseteq> {x}"
  "p \<in> set (pp_toDelete (calculatePodPlan x e n s ps)) \<Longrightarrow> p \<in> set ps \<and> \<not> om_deleting (pod_meta p)"
proof -
  define live where "live = sortPodsByDeletionOrder e (filter (\<lambda>p. \<not> om_deleting (pod_meta p)) ps)"
  define old where "old = filter (\<lambda>p. pod_hash_label p \<noteq> e) live"
  have "\<exists>v r. (pp_toCreate (calculatePodPlan x e n s ps) = pv_toCreate (rollout x (int (length old)) s r old v)
      \<and> pp_toDelete (calculatePodPlan x e n s ps) = pv_toDelete (rollout x (int (length old)) s r old v))
      \<and> set (pv_toDelete v) \<subseteq> set live \<and> set (pv_toCreate v) \<subseteq> {x}"
    unfolding calculatePodPlan_def live_def [symmetric] Let_def old_def [symmetric] pod_plan.simps
    by (intro exI, rule conjI, rule conjI, rule refl, rule refl) (auto dest!: subsetD [OF scale_down_sets(1)] simp: scale_down_sets(2))
  then obtain v r where v: "set (pv_toDelete v) \<subseteq> set live" "set (pv_toCreate v) \<subseteq> {x}"
    and plan: "pp_toCreate (calculatePodPlan x e n s ps) = pv_toCreate (rollout x (int (length old)) s r old v)"
      "pp_toDelete (calculatePodPlan x e n s ps) = pv_toDelete (rollout x (int (length old)) s r old v)"
    by blast
  show "set (pp_toCreate (calculatePodPlan x e n s ps)) \<subseteq> {x}"
    using rollout_sets(2) [of x "int (length old)" s r old v] v(2) by (auto simp: plan)
  assume "p \<in> set (pp_toDelete (calculatePodPlan x e n s ps))"
  then have "p \<in> set live" using rollout_sets(1) [of x "int (length old)" s r old v] v(1) by (auto simp: plan old_def)
  then show "p \<in> set ps \<and> \<not> om_deleting (pod_meta p)" by (simp add: live_def)
qed

lemma exec_deletes_acts: "exec_deletes del ps c = (as, c', e) \<Longrightarrow> set as \<subseteq> delete_action ` set ps"
  using exec_deletes_split [of del ps c as c' e] set_take_subset by fastforce

lemma exec_creates_acts:
  "exec_creates own cre ps c = (as, c', e) \<Longrightarrow> CreatePod q \<in> set as \<Longrightarrow> \<exists>p \<in> set ps. own p = Done q"
proof (induction ps arbitrary: as c c' e)
  case (Cons p ps)
  obtain as1 c1 e1 where rec: "exec_creates own cre ps True = (as1, c1, e1)" by (rule prod_cases3)
  show ?case
  proof (cases "own p")
    case (Done x)
    then have "q = x \<or> CreatePod q \<in> set as1" using Cons.prems by (auto simp: rec Let_def split: if_splits)
    moreover have "CreatePod q \<in> set as1 \<Longrightarrow> \<exists>p \<in> set ps. own p = Done q"
      using Cons.IH [OF rec] by simp
    ultimately show ?thesis using Done by auto
  qed (use Cons.prems in auto)
qed simp

lemma run_plan_wp:
  assumes "\<And>p. p \<in> set (pp_toDelete pp) \<Longrightarrow> A (ActDeletePod (om_namespace (pod_meta p)) (om_name (pod_meta p)))"
    and "\<And>p. p \<in> set (pp_toCreate pp) \<Longrightarrow> A (ActCreatePod p)" "Q () m"
  shows "wp (run_plan env pp) A Q m"
proof -
  let ?own = "\<lambda>p. case ce_own env (pod_meta p) of None \<Rightarrow> Done p | Some e \<Rightarrow> Error e"
  let ?del = "\<lambda>p. ce_answer env (ActDeletePod (om_namespace (pod_meta p)) (om_name (pod_meta p)))"
  let ?cre = "\<lambda>p. ce_answer env (ActCreatePod p)"
  obtain as ch e where ex: "execute_plan ?own ?del ?cre pp = (as, ch, e)" by (rule prod_cases3)
  have del: "A (act_of_pod_action a)" if "exec_deletes ?del (pp_toDelete pp) False = (ds, c, ed)" "a \<in> set ds" for ds c ed a
    using exec_deletes_acts [OF that(1)] that(2) assms(1) by (auto simp: delete_action_def)
  have cre: "A (act_of_pod_action a)" if c: "exec_creates ?own ?cre (pp_toCreate pp) c = (cs, c', ec)" "a \<in> set cs" for cs c c' ec a
  proof -
    obtain q where q: "a = CreatePod q" using exec_creates_split [OF c(1)] c(2) by blast
    then obtain p where p: "p \<in> set (pp_toCreate pp)" "?own p = Done q" using exec_creates_acts [OF c(1)] c(2) by blast
    then have "p = q" by (auto split: option.splits)
    then show ?thesis using p(1) assms(2) q by simp
  qed
  have "\<forall>a \<in> set as. A (act_of_pod_action a)"
    using ex del cre by (auto simp: execute_plan_def Let_def split: prod.splits option.splits)
  then show ?thesis using assms(3) by (auto simp: wp_def run_plan_def ex list_all_iff)
qed

lemma run_adapters_wp: "(\<And>e. A (ActAdapter e)) \<Longrightarrow> Q () m \<Longrightarrow> wp (run_adapters env ps as) A Q m"
  by (auto simp: wp_def run_adapters_def list_all_iff case_prod_beta Let_def)

lemma reconcile_pods_wp:
  assumes "\<And>pods p h. ce_pods env PodModelLabel (md_name m) = Done pods \<Longrightarrow>
      hashedPodForModel (ce_patch env) (ce_pod_hash env) r m c = Done (p, h) \<Longrightarrow> A (ActCreatePod p)"
    and "\<And>pods p. ce_pods env PodModelLabel (md_name m) = Done pods \<Longrightarrow> p \<in> set pods \<Longrightarrow> \<not> om_deleting (pod_meta p) \<Longrightarrow>
      A (ActDeletePod (om_namespace (pod_meta p)) (om_name (pod_meta p)))"
    and "\<And>e. A (ActAdapter e)"
  shows "wp (reconcile_pods env r c) A (\<lambda>_ _. True) m"
proof -
  have plan: "wp (run_plan env pp) A Q m'"
    if pods: "ce_pods env PodModelLabel (md_name m) = Done pods" and pp: "planForModel (ce_patch env) (ce_pod_hash env) r pods m c = Done pp"
      and Q: "Q () m'" for pods pp Q m'
  proof -
    obtain p h where p: "hashedPodForModel (ce_patch env) (ce_pod_hash env) r m c = Done (p, h)"
      "pp = calculatePodPlan p h (ms_Replicas (md_spec m)) (rc_Surge r) pods"
      using pp by (auto simp: planForModel_def outcome_bind_eq_Done)
    show ?thesis
    proof (rule run_plan_wp)
      show "A (ActDeletePod (om_namespace (pod_meta q)) (om_name (pod_meta q)))" if "q \<in> set (pp_toDelete pp)" for q
        using plan_sets(2) [of q p h "ms_Replicas (md_spec m)" "rc_Surge r" pods] that assms(2) [OF pods] by (simp add: p(2))
      show "A (ActCreatePod q)" if "q \<in> set (pp_toCreate pp)" for q
        using plan_sets(1) [of p h "ms_Replicas (md_spec m)" "rc_Surge r" pods] that assms(1) [OF pods p(1)] by (auto simp: p(2))
    qed (rule Q)
  qed
  show ?thesis
    unfolding reconcile_pods_def
    by (auto split: outcome.split simp: wp_eta intro!: plan run_adapters_wp assms(3))
qed

text \<open>A condition on the Pod writes of a pass.\<close>

lemma pod_writes:
  assumes "md_uid m \<noteq> []" "Reconcile env r (Found m) = (as, res)"
    and "\<And>c m' pods p h. may_serve env r m c \<Longrightarrow> md_spec m' = md_spec m \<Longrightarrow> md_name m' = md_name m \<Longrightarrow>
      hashedPodForModel (ce_patch env) (ce_pod_hash env) r m' c = Done (p, h) \<Longrightarrow> A (ActCreatePod p)"
    and "\<And>c pods p. may_serve env r m c \<Longrightarrow> ce_pods env PodModelLabel (md_name m) = Done pods \<Longrightarrow> p \<in> set pods \<Longrightarrow>
      \<not> om_deleting (pod_meta p) \<Longrightarrow> A (ActDeletePod (om_namespace (pod_meta p)) (om_name (pod_meta p)))"
    and "\<And>a. \<not> pod_write a \<Longrightarrow> A a"
  shows "\<forall>a \<in> set as. A a"
proof (rule Reconcile_writes [OF assms(2)])
  have ad: "A (ActAdapter e)" for e by (rule assms(5)) (simp add: pod_write_def)
  have del: "wp (delete_model env r c) A (\<lambda>_ _. True) m" for c
    by (rule wp_mono [OF delete_model_wp [of env r c m]], rule assms(5), case_tac a) (auto simp: pod_write_def)
  have serve: "wp (serve_model env r c) A (\<lambda>_ _. True) m"
    if c: "\<not> snd (self_update m)" "getModelConfig r m = Done c" "\<not> om_deleting (md_meta m)" for c
  proof (rule serve_model_wp [OF assms(1,5)])
    fix m' assume m': "md_spec m' = md_spec m" "md_name m' = md_name m"
      "ms_CacheProfile (md_spec m) \<noteq> [] \<longrightarrow> claim_has_model env m c \<or> load_job_done env m"
    then have s: "may_serve env r m c" using c by (simp add: may_serve_def)
    show "wp (reconcile_pods env r c) A (\<lambda>_ _. True) m'"
      by (rule reconcile_pods_wp) (use assms(3) [OF s m'(1,2)] assms(4) [OF s] ad in \<open>auto simp: m'(2)\<close>)
  qed
  show "wp (reconcile_body env r) A (\<lambda>_ _. True) m"
    by (rule reconcile_body_wp) (auto intro: del serve assms(5) dest: not_pod_write)
  show "A (ActUpdateStatus m')" for m' by (rule assms(5)) simp
qed

subsection \<open>When Pods are written\<close>

text \<open>C12: Pods of a Model with a cache are created or deleted only once the cache holds the Model: the
  volume claim names this Model's UID, or the Job that loads it is complete.\<close>

theorem server_pods_wait_for_cache:
  assumes "md_uid m \<noteq> []" "ms_CacheProfile (md_spec m) \<noteq> []" "Reconcile env r (Found m) = (as, res)"
    and "ActCreatePod p \<in> set as \<or> ActDeletePod ns n \<in> set as"
  shows "\<exists>c. getModelConfig r m = Done c
    \<and> ((\<exists>name q ts. cachePVCName m c = Done name \<and> ce_pvc env name = Found q
          \<and> parsePVCModelAnnotation env q (md_name m) = Done (md_uid m, ts))
       \<or> (\<exists>j. ce_job env (loadCacheJobName m) = Found j \<and> IsJobCompleted j))"
proof -
  obtain a where "a \<in> set as" "pod_write a" using assms(4) pod_write_simps by blast
  then obtain c where "may_serve env r m c" using pod_write_needs [OF assms(1,3)] by blast
  then show ?thesis using assms(2) by (auto simp: may_serve_def claim_has_model_def load_job_done_def)
qed

definition served_model :: model where
  "served_model = (default_model ''m'')\<lparr>md_meta := empty_meta\<lparr>om_name := ''m'', om_uid := ''abcdefgh'',
     om_finalizers := [ModelCacheEvictionFinalizer]\<rparr>,
     md_spec := default_spec\<lparr>ms_URL := ''hf://org/model'', ms_ResourceProfile := ''cpu:2'', ms_Replicas := Some 1, ms_CacheProfile := ''fs''\<rparr>\<rparr>"

lemma served_run: "\<exists>as p. Reconcile done_env demo_reconciler (Found served_model) = (as, Done ()) \<and> ActCreatePod p \<in> set as"
proof -
  have "(case Reconcile done_env demo_reconciler (Found served_model) of
      (as, r) \<Rightarrow> (map (\<lambda>a. case a of ActCreatePod p \<Rightarrow> True | _ \<Rightarrow> False) as, r)) = ([False, False, False, False, True, False], Done ())"
    by code_simp
  then obtain as where r: "Reconcile done_env demo_reconciler (Found served_model) = (as, Done ())"
    and k: "map (\<lambda>a. case a of ActCreatePod p \<Rightarrow> True | _ \<Rightarrow> False) as = [False, False, False, False, True, False]"
    by (auto split: prod.splits)
  have "True \<in> set (map (\<lambda>a. case a of ActCreatePod p \<Rightarrow> True | _ \<Rightarrow> False) as)" unfolding k by simp
  then obtain a where a: "a \<in> set as" "case a of ActCreatePod p \<Rightarrow> True | _ \<Rightarrow> False" by auto
  from a(2) obtain p where "a = ActCreatePod p" by (auto split: ctl_act.splits)
  with a(1) r show ?thesis by blast
qed

theorem server_pods_wait_for_cache_witness:
  "(\<exists>as p. Reconcile done_env demo_reconciler (Found served_model) = (as, Done ()) \<and> ActCreatePod p \<in> set as)
   \<and> (\<exists>j. ce_job done_env (loadCacheJobName served_model) = Found j \<and> IsJobCompleted j)"
proof -
  obtain as p where r: "Reconcile done_env demo_reconciler (Found served_model) = (as, Done ())" "ActCreatePod p \<in> set as"
    using served_run by blast
  have u: "md_uid served_model \<noteq> []" "ms_CacheProfile (md_spec served_model) \<noteq> []" by (simp_all add: md_uid_def served_model_def)
  have "parsePVCModelAnnotation done_env q n = Done (md_uid served_model, ts) \<Longrightarrow> q \<noteq> empty_pvc" for q n ts
    by (auto simp: parsePVCModelAnnotation_def empty_pvc_def GetAnnotation_def gm_get_def empty_meta_def md_uid_def served_model_def)
  then show ?thesis using server_pods_wait_for_cache [OF u r(1) disjI1, OF r(2)] r by (auto simp: demo_ctl_env_def)
qed

text \<open>C14: With autoscaling on, Pods are created or deleted only while the replicas of the Model are set
  and within its bounds; a pass that finds them outside sets them and does nothing else.\<close>

theorem pods_within_bounds:
  assumes "md_uid m \<noteq> []" "Reconcile env r (Found m) = (as, res)" "\<not> ms_AutoscalingDisabled (md_spec m)"
    and "ActCreatePod p \<in> set as \<or> ActDeletePod ns n \<in> set as"
  shows "\<exists>k. ms_Replicas (md_spec m) = Some k \<and> ms_MinReplicas (md_spec m) \<le> k
    \<and> (\<forall>x. ms_MaxReplicas (md_spec m) = Some x \<longrightarrow> k \<le> x)"
proof -
  obtain a where "a \<in> set as" "pod_write a" using assms(4) pod_write_simps by blast
  then obtain c where "may_serve env r m c" using pod_write_needs [OF assms(1,2)] by blast
  then have u: "\<not> snd (self_update m)" by (simp add: may_serve_def)
  then have "\<not> snd (applyAutoscalingReplicaBounds (fst (applySelfLabels m)))" using assms(3) by (simp add: self_update_simps)
  then show ?thesis by (simp add: bounds_unchanged replicas_in_bounds_def)
qed

theorem pods_within_bounds_witness:
  "\<exists>as p. Reconcile done_env demo_reconciler (Found served_model) = (as, Done ()) \<and> ActCreatePod p \<in> set as
    \<and> (\<exists>k. ms_Replicas (md_spec served_model) = Some k \<and> ms_MinReplicas (md_spec served_model) \<le> k)"
proof -
  obtain as p where r: "Reconcile done_env demo_reconciler (Found served_model) = (as, Done ())" "ActCreatePod p \<in> set as"
    using served_run by blast
  have u: "md_uid served_model \<noteq> []" "\<not> ms_AutoscalingDisabled (md_spec served_model)"
    by (simp_all add: md_uid_def served_model_def default_spec_def)
  show ?thesis using pods_within_bounds [OF u(1) r(1) u(2) disjI1, OF r(2)] r by blast
qed

text \<open>C15: Whose Pods. A created Pod carries the label of the Model, under which the controller, the
  load balancer and the deletion find it, and the label of its specification's hash; a
  deleted Pod is one that the API server listed under the Model's label and that is not
  being deleted already. The administrator's JSON patches may change labels, so there are
  none here.\<close>

theorem pods_of_this_model:
  assumes "md_uid m \<noteq> []" "Reconcile env r (Found m) = (as, res)" "msp_JSONPatches (rc_ModelServerPods r) = []"
  shows "(\<forall>p. ActCreatePod p \<in> set as \<longrightarrow> GetLabel (pod_meta p) PodModelLabel = md_name m
        \<and> GetLabel (pod_meta p) PodHashLabel = ce_pod_hash env (pod_spec_of p))
    \<and> (\<forall>ns n. ActDeletePod ns n \<in> set as \<longrightarrow> (\<exists>pods p. ce_pods env PodModelLabel (md_name m) = Done pods \<and> p \<in> set pods
        \<and> om_namespace (pod_meta p) = ns \<and> om_name (pod_meta p) = n \<and> \<not> om_deleting (pod_meta p)))"
proof -
  define A where "A a \<longleftrightarrow> (\<forall>p. a = ActCreatePod p \<longrightarrow> GetLabel (pod_meta p) PodModelLabel = md_name m
        \<and> GetLabel (pod_meta p) PodHashLabel = ce_pod_hash env (pod_spec_of p))
    \<and> (\<forall>ns n. a = ActDeletePod ns n \<longrightarrow> (\<exists>pods p. ce_pods env PodModelLabel (md_name m) = Done pods \<and> p \<in> set pods
        \<and> om_namespace (pod_meta p) = ns \<and> om_name (pod_meta p) = n \<and> \<not> om_deleting (pod_meta p)))" for a
  have "A (ActCreatePod p)"
    if h: "hashedPodForModel (ce_patch env) (ce_pod_hash env) r m' c = Done (p, h)" and m': "md_name m' = md_name m" for p h m' c
  proof -
    obtain q where q: "podForModel r m' c = Done q"
      and p: "pod_meta p = SetLabel ((pod_meta q)\<lparr>om_generate_name := ''model-'' @ md_name m' @ ''-'' @ h @ ''-''\<rparr>) PodHashLabel h"
        "pod_spec_of p = pod_spec_of q" "h = ce_pod_hash env (pod_spec_of q)"
      using h by (auto simp: hashedPodForModel_def outcome_bind_eq_Done applyJSONPatchToPod_def assms(3) Let_def)
    obtain ct where "q = (server_pod r m' c ct)\<lparr>pod_spec_of := pod_spec_of q\<rparr>" by (rule podForModel_Done [OF q])
    then have "pod_meta q = pod_meta (server_pod r m' c ct)" by (metis pod.select_convs(1) pod.surjective pod.update_convs(2))
    then have "om_labels (pod_meta q) = labelsForModel m'" by (simp add: server_pod_def)
    moreover have "gm_lookup (labelsForModel m') PodModelLabel = Some (md_name m')"
      unfolding labelsForModel_def Let_def foldl_keep_first by (simp add: PodModelLabel_def)
    ultimately have "GetLabel (pod_meta q) PodModelLabel = md_name m" using m' by (simp add: GetLabel_def gm_get_def)
    then show ?thesis using p(2,3) by (simp add: A_def p(1) PodModelLabel_def PodHashLabel_def) (simp add: GetLabel_def)
  qed
  then have "\<forall>a \<in> set as. A a"
    by (intro pod_writes [OF assms(1,2)]) (auto simp: A_def pod_write_def)
  then show ?thesis by (auto simp: A_def)
qed

theorem pods_of_this_model_witness:
  "\<exists>as p. Reconcile done_env demo_reconciler (Found served_model) = (as, Done ()) \<and> ActCreatePod p \<in> set as
    \<and> GetLabel (pod_meta p) PodModelLabel = ''m''"
proof -
  obtain as p where r: "Reconcile done_env demo_reconciler (Found served_model) = (as, Done ())" "ActCreatePod p \<in> set as"
    using served_run by blast
  have u: "md_uid served_model \<noteq> []" "md_name served_model = ''m''" "msp_JSONPatches (rc_ModelServerPods demo_reconciler) = []"
    by (simp_all add: md_uid_def served_model_def demo_reconciler_def)
  show ?thesis using pods_of_this_model [OF u(1) r(1) u(3)] r u(2) by auto
qed

subsection \<open>The status\<close>

text \<open>\<open>tail c A P m\<close>: if some write of the run violates \<open>A\<close>, its final Model satisfies \<open>P\<close>, however it ends.\<close>

definition tail :: "'a ctl \<Rightarrow> (ctl_act \<Rightarrow> bool) \<Rightarrow> (model \<Rightarrow> bool) \<Rightarrow> model \<Rightarrow> bool" where
  "tail c A P m \<longleftrightarrow> (\<forall>as m' r. c m = (as, m', r) \<longrightarrow> (\<exists>a \<in> set as. \<not> A a) \<longrightarrow> P m')"

lemma tail_wp: "wp c A (\<lambda>_ _. True) m \<Longrightarrow> tail c A P m"
  using wp_run unfolding tail_def by blast

lemma tail_stable: "stable g c \<Longrightarrow> P (g m) \<Longrightarrow> tail c A (\<lambda>m'. P (g m')) m"
  unfolding tail_def using stable_run by fastforce

lemma tail_bind:
  assumes "wp c A (\<lambda>x m1. tail (f x) A P m1) m"
  shows "tail (ctl_bind c f) A P m"
  unfolding tail_def
proof (intro allI impI)
  fix as m' r assume run: "ctl_bind c f m = (as, m', r)" and bad: "\<exists>a \<in> set as. \<not> A a"
  from run show "P m'"
  proof (cases rule: ctl_bind_run)
    case (stopped r1)
    then show ?thesis using wp_run [OF assms stopped(1)] bad by blast
  next
    case (went_on as1 m1 x as2)
    note w = wp_run [OF assms went_on(1)]
    then have "\<exists>a \<in> set as2. \<not> A a" using bad went_on(3) by auto
    moreover have "tail (f x) A P m1" using w by blast
    ultimately show ?thesis using went_on(2) unfolding tail_def by blast
  qed
qed

definition reports_pods :: "ctl_env \<Rightarrow> string \<Rightarrow> model_status \<Rightarrow> bool" where
  "reports_pods env n st \<longleftrightarrow> (\<exists>pods. ce_pods env PodModelLabel n = Done pods \<and> mst_All st = wrap32 (int (length pods))
     \<and> mst_Ready st = wrap32 (int (length (filter PodIsReady pods))))"

lemma reconcile_pods_tail: "tail (reconcile_pods env r c) A (\<lambda>m'. reports_pods env (md_name m) (md_status m')) m"
  unfolding reconcile_pods_def
proof (rule tail_bind, simp, rule tail_bind, simp, intro allI impI, rule tail_bind, simp, rule tail_stable [where g = md_status], goal_cases)
  case (1 pods)
  show ?case by (simp split: outcome.split; intro allI conjI stable_rules impI)
next
  case (2 pods)
  then show ?case by (auto simp: reports_pods_def set_pod_counts_def)
qed

lemma serve_model_tail:
  assumes "md_uid m \<noteq> []"
  shows "tail (serve_model env r c) (\<lambda>a. \<not> pod_write a) (\<lambda>m'. reports_pods env (md_name m) (md_status m')) m"
proof -
  have svc: "wp (reconcileHeadlessService env r m) (\<lambda>a. \<not> pod_write a) (\<lambda>x m1. md_name m1 = md_name m) m'" if "md_name m' = md_name m" for m'
    by (rule headless_wp) (use that in auto)
  have cache: "wp (ctl_when (ms_CacheProfile (md_spec m) \<noteq> []) (ctl_within ''reconciling cache: '' (reconcileCache env r c)))
      (\<lambda>a. \<not> pod_write a) (\<lambda>_ m1. md_name m1 = md_name m) m"
    using wp_mono [OF reconcileCache_wp [OF assms], where A' = "\<lambda>a. \<not> pod_write a" and Q' = "\<lambda>_ m1. md_name m1 = md_name m"]
    by (auto dest: not_pod_write)
  have pods: "tail (reconcile_pods env r c) A (\<lambda>m'. reports_pods env (md_name m) (md_status m')) m1" if "md_name m1 = md_name m" for A m1
    using reconcile_pods_tail [of env r c A m1] that by simp
  show ?thesis
    unfolding serve_model_def
    by (rule tail_bind, simp only: wp_basic, rule tail_bind, rule wp_mono [OF cache], assumption,
        rule tail_bind, simp only: wp_within, rule wp_mono [OF svc], assumption, assumption, rule pods)
qed

lemma reconcile_body_tail:
  assumes "md_uid m \<noteq> []"
  shows "tail (reconcile_body env r) (\<lambda>a. \<not> pod_write a) (\<lambda>m'. reports_pods env (md_name m) (md_status m')) m"
proof -
  have cm: "wp (ensureModelFilesConfigMap env m) (\<lambda>a. \<not> pod_write a) Q m" if "Q () m" for Q
    by (rule ensureModelFilesConfigMap_wp) (use that not_pod_write in auto)
  have del: "tail (delete_model env r c) (\<lambda>a. \<not> pod_write a) P m" for c P
    by (rule tail_wp, rule wp_mono [OF delete_model_wp [of env r c m]], case_tac a) (auto simp: pod_write_def)
  have upd: "tail (update_model env ctx) (\<lambda>a. \<not> pod_write a) P m1" for ctx P m1
    by (rule tail_wp) (simp add: update_model_def)
  have rest: "tail (ctl_bind (ctl_lift ctx (getModelConfig r m)) (\<lambda>c. if om_deleting (md_meta m) then delete_model env r c else serve_model env r c))
      (\<lambda>a. \<not> pod_write a) (\<lambda>m'. reports_pods env (md_name m) (md_status m')) m" for ctx
    by (rule tail_bind) (simp add: del serve_model_tail [OF assms])
  show ?thesis
    unfolding reconcile_body_def
  proof (rule tail_bind, simp only: wp_basic, rule tail_bind, rule cm, rule tail_bind, simp only: wp_basic)
    show "tail (if snd (self_update m) then update_model env ''updating model: ''
        else ctl_bind (ctl_lift ''getting model profile: '' (getModelConfig r m)) (\<lambda>c. if om_deleting (md_meta m) then delete_model env r c else serve_model env r c))
      (\<lambda>a. \<not> pod_write a) (\<lambda>m'. reports_pods env (md_name m) (md_status m')) (fst (self_update m))"
      by (simp add: upd self_update_unchanged rest)
  qed
qed

text \<open>Every pass over a Model that is not being deleted ends by writing its status, whatever
  happened before; and whenever it touched Pods, the status counts the Pods that the pass
  saw.\<close>

theorem status_written_last:
  assumes "Reconcile env r (Found m) = (as, res)" "\<not> om_deleting (md_meta m)"
  shows "\<exists>m'. as \<noteq> [] \<and> last as = ActUpdateStatus m' \<and> md_name m' = md_name m
    \<and> (md_uid m \<noteq> [] \<longrightarrow> (\<exists>p. ActCreatePod p \<in> set as) \<or> (\<exists>ns n. ActDeletePod ns n \<in> set as) \<longrightarrow>
        (\<exists>pods. ce_pods env PodModelLabel (md_name m) = Done pods \<and> mst_All (md_status m') = wrap32 (int (length pods))
           \<and> mst_Ready (md_status m') = wrap32 (int (length (filter PodIsReady pods)))))"
proof -
  obtain bs m' r' where b: "reconcile_body env r m = (bs, m', r')" "identity m' = identity m"
    "as = bs @ (if om_deleting (md_meta m) then [] else [ActUpdateStatus m'])" by (rule Reconcile_run [OF assms(1)])
  have "reports_pods env (md_name m) (md_status m')"
    if "md_uid m \<noteq> []" "(\<exists>p. ActCreatePod p \<in> set as) \<or> (\<exists>ns n. ActDeletePod ns n \<in> set as)"
  proof -
    have "\<exists>a \<in> set bs. pod_write a" using that(2) b(3) assms(2) by (auto simp: pod_write_def)
    then show ?thesis using reconcile_body_tail [OF that(1), of env r] b(1) unfolding tail_def by blast
  qed
  then show ?thesis using b assms(2) by (intro exI [of _ m']) (simp add: identity_def reports_pods_def)
qed

theorem status_written_last_witness:
  "\<exists>as m'. Reconcile done_env demo_reconciler (Found served_model) = (as, Done ()) \<and> last as = ActUpdateStatus m' \<and> mst_All (md_status m') = 0"
proof -
  obtain as p where r: "Reconcile done_env demo_reconciler (Found served_model) = (as, Done ())" "ActCreatePod p \<in> set as"
    using served_run by blast
  have "md_uid served_model \<noteq> []" "\<not> om_deleting (md_meta served_model)" by (simp_all add: md_uid_def served_model_def empty_meta_def)
  moreover have "wrap32 0 = 0" by (simp add: wrap32_def)
  ultimately show ?thesis using status_written_last [OF r(1)] r by (auto simp: demo_ctl_env_def)
qed

end
