(* ===== verification/Cache_Lifecycle.thy ===== *)
theory Cache_Lifecycle
  imports Reconcile_Properties Pod_Plan_Properties Serving_Properties
begin

section \<open>The life of a cached Model\<close>

text \<open>
  Passes of the controller over one Model, its cache claim and its cache Jobs, each followed by
  the completion of the Jobs that exist. The claim and the Jobs are what the API server holds
  (\<open>cache_cluster\<close>): the writes of a pass change them, and the next pass reads them. The
  answers to writes of Pods and Services stay arbitrary. \<open>on_cluster\<close> is the weakest
  precondition of a run that carries the cluster along.
\<close>

subsection \<open>The cluster\<close>

record cache_cluster =
  cl_model :: "model option"
  cl_claim :: "pvc option"
  cl_jobs :: "(string, job) gomap"

text \<open>An object whose deletion was requested goes when its last finalizer is removed; an update
  leaves the status alone, and an update of the status the rest.\<close>

fun cluster_write :: "ctl_act \<Rightarrow> cache_cluster \<Rightarrow> cache_cluster" where
  "cluster_write (ActCreatePVC p) s = s\<lparr>cl_claim := Some p\<rparr>"
| "cluster_write (ActUpdatePVC p) s = s\<lparr>cl_claim := Some p\<rparr>"
| "cluster_write (ActCreateJob j) s = s\<lparr>cl_jobs := gm_put (om_name (job_meta j)) j (cl_jobs s)\<rparr>"
| "cluster_write (ActDeleteJob n) s = s\<lparr>cl_jobs := gm_del n (cl_jobs s)\<rparr>"
| "cluster_write (ActUpdateModel m) s = s\<lparr>cl_model :=
     (if om_deleting (md_meta m) \<and> om_finalizers (md_meta m) = [] then None
      else map_option (\<lambda>m'. m\<lparr>md_status := md_status m'\<rparr>) (cl_model s))\<rparr>"
| "cluster_write (ActUpdateStatus m) s = s\<lparr>cl_model := map_option (\<lambda>m'. m'\<lparr>md_status := md_status m\<rparr>) (cl_model s)\<rparr>"
| "cluster_write _ s = s"

definition cluster_answer :: "ctl_env \<Rightarrow> cache_cluster \<Rightarrow> ctl_act \<Rightarrow> api_write" where
  "cluster_answer env s a =
     (case a of
        ActCreateJob j \<Rightarrow> if gm_has (cl_jobs s) (om_name (job_meta j)) then WAlreadyExists else WOk
      | ActDeleteJob n \<Rightarrow> if gm_has (cl_jobs s) n then WOk else WNotFound
      | ActCreatePVC p \<Rightarrow> if cl_claim s = None then WOk else WAlreadyExists
      | ActPutService s \<Rightarrow> ce_answer env a | ActDeleteService n \<Rightarrow> ce_answer env a
      | ActCreatePod p \<Rightarrow> ce_answer env a | ActDeletePod ns n \<Rightarrow> ce_answer env a
      | _ \<Rightarrow> WOk)"

definition cluster_env :: "ctl_env \<Rightarrow> cache_cluster \<Rightarrow> ctl_env" where
  "cluster_env env s = env\<lparr>ce_answer := cluster_answer env s,
     ce_pvc := (\<lambda>n. case cl_claim s of Some p \<Rightarrow> Found p | None \<Rightarrow> Missing),
     ce_job := (\<lambda>n. case gm_lookup (cl_jobs s) n of Some j \<Rightarrow> Found j | None \<Rightarrow> Missing)\<rparr>"

definition cache_pass :: "ctl_env \<Rightarrow> reconciler \<Rightarrow> cache_cluster \<Rightarrow> cache_cluster" where
  "cache_pass env r s =
     fold cluster_write (fst (Reconcile (cluster_env env s) r (case cl_model s of Some m \<Rightarrow> Found m | None \<Rightarrow> Missing))) s"

definition complete_job :: "job \<Rightarrow> job" where
  "complete_job j = j\<lparr>job_conditions := (''Complete'', ''True'') # job_conditions j\<rparr>"

definition complete_jobs :: "cache_cluster \<Rightarrow> cache_cluster" where
  "complete_jobs s = s\<lparr>cl_jobs := map (\<lambda>(n, j). (n, complete_job j)) (cl_jobs s)\<rparr>"

definition cache_round :: "ctl_env \<Rightarrow> reconciler \<Rightarrow> cache_cluster \<Rightarrow> cache_cluster" where
  "cache_round env r s = complete_jobs (cache_pass env r s)"

lemma complete_jobs_simps [simp]:
  "cl_model (complete_jobs s) = cl_model s" "cl_claim (complete_jobs s) = cl_claim s"
  "gm_lookup (cl_jobs (complete_jobs s)) n = map_option complete_job (gm_lookup (cl_jobs s) n)"
  by (simp_all add: complete_jobs_def map_of_map)

lemma complete_job_completed [simp]: "IsJobCompleted (complete_job j)"
  by (simp add: IsJobCompleted_def complete_job_def)

lemma cluster_env_simps [simp]:
  "ce_pvc (cluster_env env s) n = (case cl_claim s of Some p \<Rightarrow> Found p | None \<Rightarrow> Missing)"
  "ce_job (cluster_env env s) n = (case gm_lookup (cl_jobs s) n of Some j \<Rightarrow> Found j | None \<Rightarrow> Missing)"
  "ce_answer (cluster_env env s) = cluster_answer env s" "ce_own (cluster_env env s) = ce_own env"
  "ce_config_map (cluster_env env s) = ce_config_map env" "ce_now (cluster_env env s) = ce_now env"
  "ce_time_lenient (cluster_env env s) = ce_time_lenient env" "ce_json_error (cluster_env env s) = ce_json_error env"
  "ce_quantity_ok (cluster_env env s) = ce_quantity_ok env"
  "parsePVCModelAnnotation (cluster_env env s) = parsePVCModelAnnotation env"
  by (simp_all add: cluster_env_def parsePVCModelAnnotation_def fun_eq_iff Let_def cong: option.case_cong)

lemma cluster_answer_simps [simp]:
  "cluster_answer env s (ActCreateJob j) = (if gm_has (cl_jobs s) (om_name (job_meta j)) then WAlreadyExists else WOk)"
  "cluster_answer env s (ActDeleteJob n) = (if gm_has (cl_jobs s) n then WOk else WNotFound)"
  "cluster_answer env s (ActCreatePVC p) = (if cl_claim s = None then WOk else WAlreadyExists)"
  "cluster_answer env s (ActUpdatePVC p) = WOk" "cluster_answer env s (ActUpdateModel m) = WOk"
  "cluster_answer env s (ActUpdateStatus m) = WOk" "cluster_answer env s (ActDeletePods k v) = WOk"
  "cluster_answer env s (ActCreateConfigMap cm) = WOk" "cluster_answer env s (ActUpdateConfigMap cm) = WOk"
  "cluster_answer env s (ActDeleteConfigMap n) = WOk"
  by (simp_all add: cluster_answer_def)

subsection \<open>Runs on the cluster\<close>

definition on_cluster :: "'a ctl \<Rightarrow> ((ctl_error, 'a) outcome \<Rightarrow> model \<Rightarrow> cache_cluster \<Rightarrow> bool) \<Rightarrow> model \<Rightarrow> cache_cluster \<Rightarrow> bool" where
  "on_cluster c Q m s \<longleftrightarrow> (case c m of (as, m', r) \<Rightarrow> Q r m' (fold cluster_write as s))"

lemma on_cluster_basic [simp]:
  "on_cluster (ctl_return x) Q m s \<longleftrightarrow> Q (Done x) m s"
  "on_cluster (ctl_fail e) Q' m s \<longleftrightarrow> Q' (Error e) m s"
  "on_cluster (ctl_panic p) Q' m s \<longleftrightarrow> Q' (Panic p) m s"
  "on_cluster ctl_get R m s \<longleftrightarrow> R (Done m) m s"
  "on_cluster (ctl_modify f) S m s \<longleftrightarrow> S (Done ()) (f m) s"
  by (simp_all add: on_cluster_def ctl_return_def ctl_fail_def ctl_panic_def ctl_get_def ctl_modify_def)

definition then_on :: "('a \<Rightarrow> 'b ctl) \<Rightarrow> ((ctl_error, 'b) outcome \<Rightarrow> model \<Rightarrow> cache_cluster \<Rightarrow> bool)
    \<Rightarrow> (ctl_error, 'a) outcome \<Rightarrow> model \<Rightarrow> cache_cluster \<Rightarrow> bool" where
  "then_on f Q r m s = (case r of Done x \<Rightarrow> on_cluster (f x) Q m s | Error e \<Rightarrow> Q (Error e) m s | Panic e \<Rightarrow> Q (Panic e) m s)"

lemma then_on_simps [simp]:
  "then_on f Q (Done x) m s = on_cluster (f x) Q m s" "then_on f Q (Error e) m s = Q (Error e) m s"
  "then_on f Q (Panic p) m s = Q (Panic p) m s"
  by (simp_all add: then_on_def)

lemma on_cluster_bind [simp]: "on_cluster (ctl_bind c f) Q m s \<longleftrightarrow> on_cluster c (then_on f Q) m s"
proof -
  obtain as1 m1 r1 where c: "c m = (as1, m1, r1)" by (rule prod_cases3)
  show ?thesis
  proof (cases r1)
    case (Done x)
    obtain as2 m2 r2 where f: "f x m1 = (as2, m2, r2)" by (rule prod_cases3)
    show ?thesis by (simp add: on_cluster_def ctl_bind_def c Done f)
  qed (simp_all add: on_cluster_def ctl_bind_def c)
qed

lemma on_cluster_write [simp]:
  "on_cluster (ctl_write env T ctx a) Q m s \<longleftrightarrow>
     Q (if ce_answer env a = WOk \<or> ce_answer env a \<in> T then Done () else Error (CtlError (ctx @ write_error (ce_answer env a)))) m (cluster_write a s)"
  by (simp add: on_cluster_def ctl_write_def Let_def)

lemma on_cluster_owned [simp]:
  "ce_own env meta = None \<Longrightarrow> on_cluster (ctl_owned env ctx meta) Q m s \<longleftrightarrow> Q (Done ()) m s"
  by (simp add: ctl_owned_def)

lemma on_cluster_when [simp]: "on_cluster (ctl_when b c) Q m s \<longleftrightarrow> (if b then on_cluster c Q m s else Q (Done ()) m s)"
  by (simp add: ctl_when_def)

lemma on_cluster_lift [simp]: "on_cluster (ctl_lift ctx (Done x)) Q m s \<longleftrightarrow> Q (Done x) m s"
  by (simp add: ctl_lift_def)

text \<open>\<open>fmt.Errorf\<close> keeps successes, panics and early returns.\<close>

definition within_result :: "string \<Rightarrow> (ctl_error, 'a) outcome \<Rightarrow> (ctl_error, 'a) outcome" where
  "within_result ctx r = (case r of Error (CtlError e) \<Rightarrow> Error (CtlError (ctx @ e)) | _ \<Rightarrow> r)"

lemma within_result_simps [simp]:
  "within_result ctx (Done x) = Done x" "within_result ctx (Error ReturnEarly) = Error ReturnEarly"
  by (simp_all add: within_result_def)

lemma on_cluster_within [simp]: "on_cluster (ctl_within ctx c) Q m s \<longleftrightarrow> on_cluster c (\<lambda>r. Q (within_result ctx r)) m s"
  by (simp add: on_cluster_def ctl_within_def within_result_def split: prod.splits)





subsection \<open>Loading\<close>

text \<open>The same object, whatever its status and finalizers.\<close>

definition same_object :: "model \<Rightarrow> model \<Rightarrow> bool" where
  "same_object m m' \<longleftrightarrow> md_spec m' = md_spec m \<and> (md_meta m')\<lparr>om_finalizers := []\<rparr> = (md_meta m)\<lparr>om_finalizers := []\<rparr>"


lemma same_object_simps [simp]:
  "same_object m m" "same_object m (set_cache_loaded b m') = same_object m m'" "same_object m (add_finalizer m') = same_object m m'"
  "same_object m (m'\<lparr>md_status := st\<rparr>) = same_object m m'" "same_object m (set_pod_counts ps m') = same_object m m'"
  by (simp_all add: same_object_def set_cache_loaded_def add_finalizer_def set_pod_counts_def)


text \<open>A Model that a pass serves from a shared cache, with an annotation that is read as it was
  written; and an API server that can be read and gets the owners it needs.\<close>

definition caches :: "ctl_env \<Rightarrow> reconciler \<Rightarrow> model \<Rightarrow> model_config \<Rightarrow> bool" where
  "caches env r m c \<longleftrightarrow> \<not> snd (self_update m) \<and> getModelConfig r m = Done c \<and> ms_CacheProfile (md_spec m) \<noteq> [] \<and> md_uid m \<noteq> []
     \<and> (case cp_SharedFilesystem (cfg_CacheProfile c) of Some fs \<Rightarrow> ce_quantity_ok env (csf_StorageSize fs) | None \<Rightarrow> False)
     \<and> (case loadCacheJobForModel r m c of Done j \<Rightarrow> True | _ \<Rightarrow> False)
     \<and> json_clean (md_uid m) = md_uid m \<and> time_ok (ce_now env)"

definition healthy :: "ctl_env \<Rightarrow> bool" where
  "healthy env \<longleftrightarrow> (\<forall>meta. ce_own env meta = None) \<and> (\<forall>n e. ce_config_map env n \<noteq> ReadErr e)"





definition claimed_by :: "ctl_env \<Rightarrow> model \<Rightarrow> string \<Rightarrow> cache_cluster \<Rightarrow> bool" where
  "claimed_by env m uid s \<longleftrightarrow> (\<exists>p ts. cl_claim s = Some p \<and> parsePVCModelAnnotation env p (md_name m) = Done (uid, ts))"

lemma claimed_by_frame [simp]:
  "claimed_by env m uid (s\<lparr>cl_jobs := js\<rparr>) = claimed_by env m uid s" "claimed_by env m uid (s\<lparr>cl_model := x\<rparr>) = claimed_by env m uid s"
  "claimed_by env m uid (s\<lparr>cl_claim := Some p\<rparr>) = (\<exists>ts. parsePVCModelAnnotation env p (md_name m) = Done (uid, ts))"
  by (simp_all add: claimed_by_def)



lemma on_cluster_read_job [simp]:
  "on_cluster (read_job (cluster_env env s) ctx n) Q m s' \<longleftrightarrow> Q (Done (gm_lookup (cl_jobs s) n)) m s'"
  by (simp add: read_job_def split: option.split)












lemma config_map_on [simp]:
  assumes "healthy env"
  shows "on_cluster (ensureModelFilesConfigMap (cluster_env env s) m) Q m s' \<longleftrightarrow> Q (Done ()) m s'"
  using assms by (auto simp: ensureModelFilesConfigMap_def Let_def healthy_def split: read.split)

lemma cache_pass_on:
  assumes "healthy env" "caches env r m c" "cl_model s = Some m"
    and "om_deleting (md_meta m) \<Longrightarrow> on_cluster (delete_model (cluster_env env s) r c) (\<lambda>_ m' s'. P s') m s"
    and "\<not> om_deleting (md_meta m) \<Longrightarrow> on_cluster (serve_model (cluster_env env s) r c) (\<lambda>_ m' s'. P (cluster_write (ActUpdateStatus m') s')) m s"
  shows "P (cache_pass env r s)"
proof -
  obtain as m' x where b: "reconcile_body (cluster_env env s) r m = (as, m', x)" by (rule prod_cases3)
  have d: "om_deleting (md_meta m') = om_deleting (md_meta m)"
    using stable_run [OF stable_body b] by (simp add: identity_def)
  have "on_cluster (reconcile_body (cluster_env env s) r) (\<lambda>_ m' s'. P (if om_deleting (md_meta m) then s' else cluster_write (ActUpdateStatus m') s')) m s"
    using assms by (simp add: reconcile_body_def caches_def self_update_unchanged)
  then have "P (if om_deleting (md_meta m) then fold cluster_write as s else cluster_write (ActUpdateStatus m') (fold cluster_write as s))"
    by (simp add: on_cluster_def b)
  then show ?thesis
    by (cases "om_deleting (md_meta m)") (simp_all add: cache_pass_def assms(3) Reconcile_def b update_status_def d Let_def)
qed





definition fs_model :: model where
  "fs_model = ready_model\<lparr>md_spec := (md_spec ready_model)\<lparr>ms_CacheProfile := ''fs''\<rparr>\<rparr>"

definition fs_cluster :: "model \<Rightarrow> cache_cluster" where
  "fs_cluster m = \<lparr>cl_model = Some m, cl_claim = None, cl_jobs = []\<rparr>"

lemma fs_caches:
  "\<exists>c. caches idle_env demo_reconciler fs_model c" "\<exists>c. caches idle_env demo_reconciler (add_finalizer (deleting fs_model)) c"
proof -
  have clean: "md_uid fs_model = ''abcdefgh''" "md_uid (add_finalizer (deleting fs_model)) = ''abcdefgh''" by code_simp+
  have ok: "json_clean ''abcdefgh'' = ''abcdefgh''" "time_ok (ce_now idle_env)"
    by (simp_all add: json_clean_ascii_id idle_env_def demo_ctl_env_def time_ok_def zero_time_def days_in_def)
  let ?set = "\<lambda>m c. \<not> snd (self_update m) \<and> getModelConfig demo_reconciler m = Done c \<and> ms_CacheProfile (md_spec m) \<noteq> []
     \<and> (case cp_SharedFilesystem (cfg_CacheProfile c) of Some fs \<Rightarrow> ce_quantity_ok idle_env (csf_StorageSize fs) | None \<Rightarrow> False)
     \<and> (case loadCacheJobForModel demo_reconciler m c of Done j \<Rightarrow> True | _ \<Rightarrow> False)"
  have "case getModelConfig demo_reconciler fs_model of Done c \<Rightarrow> ?set fs_model c | _ \<Rightarrow> False" by code_simp
  then show "\<exists>c. caches idle_env demo_reconciler fs_model c" by (auto simp: caches_def clean ok split: outcome.splits)
  have "case getModelConfig demo_reconciler (add_finalizer (deleting fs_model)) of
      Done c \<Rightarrow> ?set (add_finalizer (deleting fs_model)) c | _ \<Rightarrow> False" by code_simp
  then show "\<exists>c. caches idle_env demo_reconciler (add_finalizer (deleting fs_model)) c" by (auto simp: caches_def clean ok split: outcome.splits)
qed

lemma idle_healthy: "healthy idle_env"
  by (simp add: healthy_def idle_env_def demo_ctl_env_def)


subsection \<open>Eviction\<close>

definition evict_done :: "model \<Rightarrow> cache_cluster \<Rightarrow> bool" where
  "evict_done m s \<longleftrightarrow> (\<forall>p. cl_claim s = Some p \<longrightarrow> om_deleting (pvc_meta p))
     \<or> (\<exists>j. gm_lookup (cl_jobs s) (evictCacheJobName m) = Some j \<and> IsJobCompleted j)"

text \<open>The Model is gone, and with it its Jobs and its annotation on a claim that stays.\<close>

definition gone :: "model \<Rightarrow> cache_cluster \<Rightarrow> bool" where
  "gone m s \<longleftrightarrow> cl_model s = None \<and> gm_lookup (cl_jobs s) (loadCacheJobName m) = None \<and> gm_lookup (cl_jobs s) (evictCacheJobName m) = None
     \<and> (\<forall>p. cl_claim s = Some p \<longrightarrow> om_deleting (pvc_meta p) \<or> \<not> gm_has (om_annotations (pvc_meta p)) (PVCModelAnnotation (md_name m)))"

definition evict_effect :: "model \<Rightarrow> cache_cluster \<Rightarrow> cache_cluster \<Rightarrow> bool" where
  "evict_effect m s s' \<longleftrightarrow> (if evict_done m s then gone m s' else cl_model s' = Some m \<and> gm_lookup (cl_jobs s') (evictCacheJobName m) \<noteq> None)"

lemma job_names_differ [simp]: "loadCacheJobName m \<noteq> evictCacheJobName m'" "evictCacheJobName m' \<noteq> loadCacheJobName m"
  by (simp_all add: loadCacheJobName_def evictCacheJobName_def)

lemma delete_all_on [simp]:
  "on_cluster (deleteAllCacheJobsAndPods (cluster_env env s) m) Q m1 s' \<longleftrightarrow>
     Q (Done ()) m1 (s'\<lparr>cl_jobs := gm_del (evictCacheJobName m) (gm_del (loadCacheJobName m) (cl_jobs s'))\<rparr>)"
  by (simp add: deleteAllCacheJobsAndPods_def delete_job_and_pods_def)

lemma finalizeCache_on:
  assumes "healthy env" "cp_SharedFilesystem (cfg_CacheProfile c) \<noteq> None" "cl_model s = Some m"
    and "om_deleting (md_meta m)" "om_finalizers (md_meta m) = [ModelCacheEvictionFinalizer]"
  shows "on_cluster (finalizeCache (cluster_env env s) r c) (\<lambda>_ m' s'. evict_effect m s s') m s"
proof -
  obtain name where name: "cachePVCName m c = Done name" using assms(2) by (auto simp: cachePVCName_def)
  obtain j where j: "evictCacheJobForModel r m c = Done j" "om_name (job_meta j) = evictCacheJobName m"
    by (auto simp: evictCacheJobForModel_def name Let_def cache_job_def)
  have own: "ce_own env meta = None" for meta using assms(1) by (simp add: healthy_def)
  have fin: "has_finalizer m" "om_deleting (md_meta (remove_finalizer m)) \<and> om_finalizers (md_meta (remove_finalizer m)) = []"
    using assms(4,5) by (simp_all add: has_finalizer_def remove_finalizer_def)
  let ?evict = "gm_lookup (cl_jobs s) (evictCacheJobName m)"
  consider (no_claim) "cl_claim s = None" | (claim_goes) p where "cl_claim s = Some p" "om_deleting (pvc_meta p)"
    | (start) p where "cl_claim s = Some p" "\<not> om_deleting (pvc_meta p)" "?evict = None"
    | (wait) p k where "cl_claim s = Some p" "\<not> om_deleting (pvc_meta p)" "?evict = Some k" "\<not> IsJobCompleted k"
    | (finish) p k where "cl_claim s = Some p" "\<not> om_deleting (pvc_meta p)" "?evict = Some k" "IsJobCompleted k"
    by fastforce
  then show ?thesis
  proof cases
    case no_claim
    then show ?thesis by (simp add: finalizeCache_def name evict_effect_def evict_done_def gone_def fin update_model_def)
  next
    case claim_goes
    then show ?thesis by (simp add: finalizeCache_def name evict_effect_def evict_done_def gone_def fin update_model_def)
  next
    case start
    then show ?thesis
      by (simp add: finalizeCache_def name evict_effect_def evict_done_def fin evict_cache_def create_job_def j own gm_has_def assms(3))
  next
    case wait
    then show ?thesis by (simp add: finalizeCache_def name evict_effect_def evict_done_def fin evict_cache_def assms(3))
  next
    case finish
    then show ?thesis
      by (simp add: finalizeCache_def name evict_effect_def evict_done_def gone_def fin evict_cache_def drop_pvc_annotation_def update_model_def)
  qed
qed

lemma evict_round:
  assumes "healthy env" "caches env r m c" "om_deleting (md_meta m)" "om_finalizers (md_meta m) = [ModelCacheEvictionFinalizer]"
    and "cl_model s = Some m"
  shows "if evict_done m s then gone m (cache_round env r s)
    else cl_model (cache_round env r s) = Some m \<and> evict_done m (cache_round env r s)"
proof -
  have fs: "cp_SharedFilesystem (cfg_CacheProfile c) \<noteq> None" using assms(2) by (auto simp: caches_def split: option.splits)
  have "ms_CacheProfile (md_spec m) \<noteq> []" using assms(2) by (simp add: caches_def)
  then have "on_cluster (delete_model (cluster_env env s) r c) (\<lambda>_ m' s'. evict_effect m s s') m s"
    using finalizeCache_on [OF assms(1) fs assms(5,3,4), of r] by (simp add: delete_model_def)
  then have "evict_effect m s (cache_pass env r s)"
    by (rule cache_pass_on [OF assms(1,2,5), where P = "evict_effect m s"]) (use assms(3) in simp)
  then show ?thesis
    by (auto simp: evict_effect_def gone_def cache_round_def evict_done_def split: if_splits)
qed

lemma gone_round: "gone m s \<Longrightarrow> gone m (cache_round env r s)"
  by (simp add: gone_def cache_round_def cache_pass_def Reconcile_def)

text \<open>C18: A deleted Model goes. From any state of its claim and its Jobs, two passes, each followed by
  the completion of the Jobs, take the finalizer off after the eviction: the Model, its Jobs
  and its annotation on the claim are gone, and stay so.\<close>

theorem deleted_model_goes:
  assumes "healthy env" "caches env r m c" "om_deleting (md_meta m)" "om_finalizers (md_meta m) = [ModelCacheEvictionFinalizer]"
    and "cl_model s = Some m" "2 \<le> n"
  shows "cl_model ((cache_round env r ^^ n) s) = None
    \<and> gm_lookup (cl_jobs ((cache_round env r ^^ n) s)) (loadCacheJobName m) = None
    \<and> gm_lookup (cl_jobs ((cache_round env r ^^ n) s)) (evictCacheJobName m) = None
    \<and> (\<forall>p. cl_claim ((cache_round env r ^^ n) s) = Some p \<longrightarrow>
         om_deleting (pvc_meta p) \<or> \<not> gm_has (om_annotations (pvc_meta p)) (PVCModelAnnotation (md_name m)))"
proof -
  note round = evict_round [OF assms(1-4)]
  have "gone m ((cache_round env r ^^ n) s)"
    using assms(6)
  proof (induction n rule: nat_induct_at_least)
    case base
    have "gone m (cache_round env r (cache_round env r s))"
    proof (cases "evict_done m s")
      case True
      then show ?thesis using round [OF assms(5)] by (simp add: gone_round)
    next
      case False
      then have "cl_model (cache_round env r s) = Some m" "evict_done m (cache_round env r s)" using round [OF assms(5)] by simp_all
      then show ?thesis using round [of "cache_round env r s"] by simp
    qed
    then show ?case by (simp add: numeral_2_eq_2)
  next
    case (Suc n)
    then show ?case by (simp add: gone_round)
  qed
  then show ?thesis by (simp add: gone_def)
qed

theorem deleted_model_goes_witness:
  "cl_model ((cache_round idle_env demo_reconciler ^^ 2) (fs_cluster (add_finalizer (deleting fs_model)))) = None"
proof -
  let ?m = "add_finalizer (deleting fs_model)"
  obtain c where c: "caches idle_env demo_reconciler ?m c" using fs_caches(2) by (elim exE)
  have "om_deleting (md_meta ?m)" "om_finalizers (md_meta ?m) = [ModelCacheEvictionFinalizer]"
    by (simp_all add: fs_model_def ready_model_def empty_meta_def deleting_def add_finalizer_def)
  moreover have "cl_model (fs_cluster ?m) = Some ?m" by (simp add: fs_cluster_def)
  ultimately show ?thesis using deleted_model_goes [OF idle_healthy c, of "fs_cluster ?m" 2] by blast
qed

end
