(* ===== verification/Files_Properties.thy ===== *)
theory Files_Properties
  imports Reconcile_Properties
begin

section \<open>Properties of the files ConfigMap and of failed configurations\<close>

subsection \<open>Keys\<close>

lemma lookup_files_last:
  "gm_lookup (gm_fill (map (\<lambda>f. (key f, val f)) fs) m) (key f)
    = (case filter (\<lambda>g. key g = key f) fs of [] \<Rightarrow> gm_lookup m (key f) | gs \<Rightarrow> Some (val (last gs)))"
proof (induction fs arbitrary: m)
  case (Cons g fs)
  show ?case using Cons [of "gm_put (key g) (val g) m"] by (auto split: list.splits)
qed simp

text \<open>What a mounted file contains. The Pod mounts the ConfigMap key of the file's path, and under
  that key the ConfigMap holds the content of the last file whose path has the same key: the
  file's own content when no later path differs from it only in slashes and underscores.\<close>

theorem mounted_file_content:
  assumes "f \<in> set (ms_Files sp)"
  shows "gm_lookup (model_files_data sp) (fileConfigMapKey (mf_Path f))
      = Some (mf_Content (last (filter (\<lambda>g. fileConfigMapKey (mf_Path g) = fileConfigMapKey (mf_Path f)) (ms_Files sp))))
    \<and> CHR ''/'' \<notin> set (fileConfigMapKey (mf_Path f))
    \<and> ((\<forall>g \<in> set (ms_Files sp). fileConfigMapKey (mf_Path g) = fileConfigMapKey (mf_Path f) \<longrightarrow> g = f) \<longrightarrow>
        gm_lookup (model_files_data sp) (fileConfigMapKey (mf_Path f)) = Some (mf_Content f))"
proof -
  let ?gs = "filter (\<lambda>g. fileConfigMapKey (mf_Path g) = fileConfigMapKey (mf_Path f)) (ms_Files sp)"
  have ne: "?gs \<noteq> []" using assms by (auto simp: filter_empty_conv)
  then have l: "gm_lookup (model_files_data sp) (fileConfigMapKey (mf_Path f)) = Some (mf_Content (last ?gs))"
    unfolding model_files_data_def lookup_files_last [where key = "\<lambda>f. fileConfigMapKey (mf_Path f)"] by (simp split: list.split)
  have "last ?gs = f" if "\<forall>g \<in> set (ms_Files sp). fileConfigMapKey (mf_Path g) = fileConfigMapKey (mf_Path f) \<longrightarrow> g = f"
  proof -
    have "last ?gs \<in> set ?gs" using ne by (rule last_in_set)
    then show ?thesis using that by auto
  qed
  then show ?thesis using l by (auto simp: fileConfigMapKey_def intro!: str_replace_notin)
qed

theorem mounted_file_content_witness:
  "gm_lookup (model_files_data (default_spec\<lparr>ms_Files := [\<lparr>mf_Path = ''/etc/a'', mf_Content = ''x''\<rparr>]\<rparr>)) ''_etc_a'' = Some ''x''"
  using mounted_file_content [of "\<lparr>mf_Path = ''/etc/a'', mf_Content = ''x''\<rparr>" "default_spec\<lparr>ms_Files := [\<lparr>mf_Path = ''/etc/a'', mf_Content = ''x''\<rparr>]\<rparr>"]
  by (simp add: fileConfigMapKey_def str_replace_def)

text \<open>Two paths can share a key although they differ, as the validation of the resource demands:
  then the second file replaces the first, in both places.\<close>

theorem file_keys_collide:
  "fileConfigMapKey ''/a/b_c'' = fileConfigMapKey ''/a_b/c''
   \<and> model_files_data (sp\<lparr>ms_Files := [\<lparr>mf_Path = ''/a/b_c'', mf_Content = x\<rparr>, \<lparr>mf_Path = ''/a_b/c'', mf_Content = y\<rparr>]\<rparr>) = [(''_a_b_c'', y)]"
  by (simp add: fileConfigMapKey_def str_replace_def model_files_data_def gm_put_def)

subsection \<open>The ConfigMap of a pass\<close>

lemma reconcile_body_first:
  assumes "reconcile_body env r m = (as, m', res)" "ensureModelFilesConfigMap env m m = (bs, m1, r1)"
  obtains cs where "as = bs @ cs" "(\<forall>x. r1 \<noteq> Done x) \<longrightarrow> cs = []"
proof -
  obtain f where f: "reconcile_body env r m = ctl_bind (ensureModelFilesConfigMap env m) f m"
    by (simp add: reconcile_body_def ctl_bind_def [of ctl_get] ctl_get_def case_prod_beta)
  from assms(1) have "ctl_bind (ensureModelFilesConfigMap env m) f m = (as, m', res)" by (simp add: f)
  then show ?thesis by (cases rule: ctl_bind_run) (use assms(2) that in auto)
qed

lemma Reconcile_first:
  assumes "Reconcile env r (Found m) = (as, res)" "ensureModelFilesConfigMap env m m = (a # bs, m1, r1)"
  shows "as \<noteq> [] \<and> hd as = a"
proof -
  obtain bs' m' r' where b: "reconcile_body env r m = (bs', m', r')"
    and as: "as = bs' @ (if om_deleting (md_meta m) then [] else [ActUpdateStatus m'])" by (rule Reconcile_run [OF assms(1)])
  obtain cs where "bs' = (a # bs) @ cs" by (rule reconcile_body_first [OF b assms(2)])
  then show ?thesis by (simp add: as)
qed

text \<open>For a Model without files the ConfigMap never settles: a pass that finds none creates an empty
  one, and a pass that finds one deletes it.\<close>

theorem empty_files_never_settle:
  assumes "Reconcile env r (Found m) = (as, res)" "ms_Files (md_spec m) = []" "\<And>meta. ce_own env meta = None"
  shows "(ce_config_map env (getModelFilesConfigMapName m) = Missing \<longrightarrow> as \<noteq> [] \<and>
        hd as = ActCreateConfigMap \<lparr>cm_meta = empty_meta\<lparr>om_name := getModelFilesConfigMapName m, om_namespace := om_namespace (md_meta m)\<rparr>, cm_data = []\<rparr>)
    \<and> (\<forall>cm. ce_config_map env (getModelFilesConfigMapName m) = Found cm \<longrightarrow> as \<noteq> [] \<and> hd as = ActDeleteConfigMap (getModelFilesConfigMapName m))"
proof -
  have "\<exists>r1. ensureModelFilesConfigMap env m m = ([ActCreateConfigMap \<lparr>cm_meta = empty_meta\<lparr>om_name := getModelFilesConfigMapName m,
      om_namespace := om_namespace (md_meta m)\<rparr>, cm_data = []\<rparr>], m, r1)"
    if "ce_config_map env (getModelFilesConfigMapName m) = Missing"
    using that assms(2,3) by (simp add: ensureModelFilesConfigMap_def model_files_data_def ctl_bind_def ctl_owned_def ctl_return_def ctl_write_def Let_def)
  moreover have "\<exists>r1. ensureModelFilesConfigMap env m m = ([ActDeleteConfigMap (getModelFilesConfigMapName m)], m, r1)"
    if "ce_config_map env (getModelFilesConfigMapName m) = Found cm" for cm
    using that assms(2) by (simp add: ensureModelFilesConfigMap_def ctl_write_def Let_def)
  ultimately show ?thesis using Reconcile_first [OF assms(1)] by blast
qed

theorem empty_files_never_settle_witness:
  "\<exists>as res. Reconcile idle_env demo_reconciler (Found ready_model) = (as, res)
    \<and> hd as = ActCreateConfigMap \<lparr>cm_meta = empty_meta\<lparr>om_name := ''model-m-files''\<rparr>, cm_data = []\<rparr>"
proof -
  obtain as res where r: "Reconcile idle_env demo_reconciler (Found ready_model) = (as, res)" by (rule prod.exhaust)
  have "ms_Files (md_spec ready_model) = []" "\<And>meta. ce_own idle_env meta = None" "ce_config_map idle_env n = Missing"
    "getModelFilesConfigMapName ready_model = ''model-m-files''" "om_namespace (md_meta ready_model) = []" for n
    by (simp_all add: ready_model_def default_spec_def idle_env_def demo_ctl_env_def getModelFilesConfigMapName_def empty_meta_def)
  then show ?thesis using empty_files_never_settle [OF r] r by (simp add: empty_meta_def)
qed

subsection \<open>A Model without a configuration\<close>

lemma ensure_not_early: "ensureModelFilesConfigMap env m m0 \<noteq> (as, m', Error ReturnEarly)"
  by (auto simp: ensureModelFilesConfigMap_def Let_def ctl_bind_def ctl_owned_def ctl_return_def ctl_fail_def ctl_write_def ctl_when_def
      split: read.splits option.splits if_splits)

text \<open>A Model whose configuration cannot be worked out, say because the administrator removed its
  resource profile, cannot be deleted: the pass fails before it looks at the deletion, so
  its Pods stay and its finalizer stays, on every pass.\<close>

theorem bad_config_blocks_deletion:
  assumes "Reconcile env r (Found m) = (as, res)" "getModelConfig r m = Error e" "\<not> snd (self_update m)" "om_deleting (md_meta m)"
  shows "(\<forall>a \<in> set as. \<exists>cm n. a \<in> {ActCreateConfigMap cm, ActUpdateConfigMap cm, ActDeleteConfigMap n}) \<and> (\<exists>msg. res = Error (CtlError msg) \<or> res = Panic msg)"
proof -
  obtain bs m' r' where b: "reconcile_body env r m = (bs, m', r')"
    and as: "as = bs @ (if om_deleting (md_meta m) then [] else [ActUpdateStatus m'])" and i: "identity m' = identity m"
    and res: "res = snd (update_status env m' (case r' of Error ReturnEarly \<Rightarrow> Done () | x \<Rightarrow> x))" by (rule Reconcile_run [OF assms(1)])
  have w: "wp (reconcile_body env r) config_map_write (\<lambda>_ _. True) m"
    by (rule reconcile_body_wp) (use assms(2,3) in auto)
  have "\<forall>a \<in> set bs. config_map_write a" using wp_run [OF w b] by blast
  then have writes: "\<forall>a \<in> set as. \<exists>cm n. a \<in> {ActCreateConfigMap cm, ActUpdateConfigMap cm, ActDeleteConfigMap n}"
    using assms(4) by (auto simp: as config_map_write_def)
  let ?c = "ensureModelFilesConfigMap env m"
  obtain as1 m1 r1 where e: "?c m = (as1, m1, r1)" by (rule prod_cases3)
  have "r' = (case r1 of Done u \<Rightarrow> Error (CtlError (''getting model profile: '' @ e)) | Error x \<Rightarrow> Error x | Panic x \<Rightarrow> Panic x)"
    using b assms(2,3) by (cases r1) (auto simp: reconcile_body_def ctl_bind_def ctl_get_def ctl_modify_def ctl_lift_def ctl_fail_def e)
  moreover have "r1 \<noteq> Error ReturnEarly" using ensure_not_early e by metis
  moreover have "update_status env m' x = ([], x)" for x using i assms(4) by (simp add: update_status_def identity_def)
  ultimately have "\<exists>msg. res = Error (CtlError msg) \<or> res = Panic msg"
    by (cases r1) (auto simp: res split: ctl_error.splits)
  then show ?thesis using writes by blast
qed

theorem bad_config_blocks_deletion_witness:
  "\<exists>as res. Reconcile idle_env (demo_reconciler\<lparr>rc_ResourceProfiles := []\<rparr>) (Found (deleting ready_model)) = (as, res)
    \<and> ActDeletePods ''model'' ''m'' \<notin> set as \<and> res \<noteq> Done ()"
proof -
  let ?r = "demo_reconciler\<lparr>rc_ResourceProfiles := []\<rparr>" and ?m = "deleting ready_model"
  obtain as res where r: "Reconcile idle_env ?r (Found ?m) = (as, res)" by (rule prod.exhaust)
  have "getModelConfig ?r ?m = Error (''resource profile not found: '' @ quoted ''cpu'')" "\<not> snd (self_update ?m)" by code_simp+
  moreover have "om_deleting (md_meta ?m)" by (simp add: deleting_def)
  ultimately show ?thesis using bad_config_blocks_deletion [OF r] r by fastforce
qed

end
