(* ===== verification/Model_Client.thy ===== *)
theory Model_Client
  imports Load_Balancer
begin

section \<open>The Model client\<close>

text \<open>
  \<open>internal/modelclient\<close>: looking a Model up for a request, and writing its scale. The
  Kubernetes client and \<open>labels.Parse\<close> are parameters. An operation returns the writes it
  makes to the scale subresource in order, beside its outcome and the new counters.
\<close>

subsection \<open>Looking a Model up\<close>

type_synonym label_parser = "string \<Rightarrow> (string, (string, string) gomap \<Rightarrow> bool) outcome"

fun match_selectors :: "label_parser \<Rightarrow> (string, string) gomap \<Rightarrow> string list \<Rightarrow> (string, bool) outcome" where
  "match_selectors parse ls [] = Done True"
| "match_selectors parse ls (sel # sels) =
     (case parse sel of
        Done matches \<Rightarrow> if matches ls then match_selectors parse ls sels else Done False
      | Error e \<Rightarrow> Error (''parse label selector: '' @ e)
      | Panic p \<Rightarrow> Panic p)"

fun find_adapter :: "string \<Rightarrow> adapter list \<Rightarrow> bool" where
  "find_adapter a [] = False"
| "find_adapter a (x # xs) = (if ad_Name x = a then True else find_adapter a xs)"

definition LookupModel ::
  "label_parser \<Rightarrow> (string \<Rightarrow> model api) \<Rightarrow> string \<Rightarrow> string \<Rightarrow> string list \<Rightarrow> (string, model option) outcome" where
  "LookupModel parse get name adapter sels =
     (case get name of
        ApiNotFound \<Rightarrow> Done None
      | ApiErr e \<Rightarrow> Error e
      | ApiOk m \<Rightarrow>
          outcome_bind (match_selectors parse (om_labels (md_meta m)) sels) (\<lambda>ok.
            if \<not> ok then Done None
            else if adapter \<noteq> [] \<and> \<not> find_adapter adapter (adapters_of (md_spec m)) then Done None
            else Done (Some m)))"

definition ListAllModels :: "model list api \<Rightarrow> (string, model list) outcome" where
  "ListAllModels r =
     (case r of ApiOk ms \<Rightarrow> Done ms
      | ApiNotFound \<Rightarrow> Error ''list models: not found'' | ApiErr e \<Rightarrow> Error (''list models: '' @ e))"

lemma find_adapter_iff: "find_adapter a as \<longleftrightarrow> a \<in> ad_Name ` set as"
  by (induction as) auto

lemma match_selectors_True:
  "match_selectors parse ls sels = Done True \<longleftrightarrow> (\<forall>sel \<in> set sels. \<exists>f. parse sel = Done f \<and> f ls)"
  by (induction sels) (auto split: outcome.splits)

subsection \<open>Writing the scale\<close>

datatype scale_write = ScaleWrite string int

record mc_state =
  mc_scaleDowns :: "(string, int) gomap"

definition NewModelClient :: mc_state where
  "NewModelClient = \<lparr>mc_scaleDowns = []\<rparr>"

definition enforceReplicaBounds :: "int \<Rightarrow> model_spec \<Rightarrow> int" where
  "enforceReplicaBounds replicas sp =
     (case ms_MaxReplicas sp of
        Some mx \<Rightarrow> if mx < replicas then mx
                   else if replicas < ms_MinReplicas sp then ms_MinReplicas sp else replicas
      | None \<Rightarrow> if replicas < ms_MinReplicas sp then ms_MinReplicas sp else replicas)"

definition replicas_of :: "model_spec \<Rightarrow> int" where
  "replicas_of sp = (case ms_Replicas sp of None \<Rightarrow> 0 | Some r \<Rightarrow> r)"

text \<open>\<open>upd\<close> is the API server's answer to an update of the scale.\<close>

definition ScaleAtLeastOneReplica ::
  "(scale_write \<Rightarrow> string option) \<Rightarrow> (string \<Rightarrow> model api) \<Rightarrow> string \<Rightarrow> (string, unit) outcome \<times> scale_write list" where
  "ScaleAtLeastOneReplica upd get name =
     (case get name of
        ApiNotFound \<Rightarrow> (Error ''get scale: not found'', [])
      | ApiErr e \<Rightarrow> (Error (''get scale: '' @ e), [])
      | ApiOk m \<Rightarrow>
          (if ms_AutoscalingDisabled (md_spec m) then (Done (), [])
           else if replicas_of (md_spec m) = 0 \<and> \<not> ms_AutoscalingDisabled (md_spec m) then
             (let w = ScaleWrite (md_name m) 1
              in case upd w of
                   Some e \<Rightarrow> (Error (''update scale: '' @ e), [w])
                 | None \<Rightarrow> (Done (), [w]))
           else (Done (), [])))"

definition Scale ::
  "(scale_write \<Rightarrow> string option) \<Rightarrow> model \<Rightarrow> int \<Rightarrow> int \<Rightarrow> mc_state \<Rightarrow> (string, unit) outcome \<times> scale_write list \<times> mc_state" where
  "Scale upd m replicas required st =
     (let replicas = enforceReplicaBounds replicas (md_spec m);
          existing = replicas_of (md_spec m);
          consec = gm_get 0 (mc_scaleDowns st) (md_name m)
      in if replicas < existing \<and> consec < required then
           (Done (), [], st\<lparr>mc_scaleDowns := gm_put (md_name m) (wrap64 (consec + 1)) (mc_scaleDowns st)\<rparr>)
         else
           (let st' = (if replicas < existing then st
                       else st\<lparr>mc_scaleDowns := gm_put (md_name m) 0 (mc_scaleDowns st)\<rparr>)
            in if existing \<noteq> replicas then
                 (let w = ScaleWrite (md_name m) replicas
                  in case upd w of
                       Some e \<Rightarrow> (Error (''update scale: '' @ e), [w], st')
                     | None \<Rightarrow> (Done (), [w], st'))
               else (Done (), [], st')))"

subsection \<open>The replica bounds\<close>

definition bounds_ok :: "model_spec \<Rightarrow> bool" where
  "bounds_ok sp \<longleftrightarrow> (case ms_MaxReplicas sp of None \<Rightarrow> True | Some mx \<Rightarrow> ms_MinReplicas sp \<le> mx)"

definition within_bounds :: "int \<Rightarrow> model_spec \<Rightarrow> bool" where
  "within_bounds r sp \<longleftrightarrow> ms_MinReplicas sp \<le> r \<and> (case ms_MaxReplicas sp of None \<Rightarrow> True | Some mx \<Rightarrow> r \<le> mx)"

lemma enforce_within: "bounds_ok sp \<Longrightarrow> within_bounds (enforceReplicaBounds r sp) sp"
  by (auto simp: bounds_ok_def within_bounds_def enforceReplicaBounds_def split: option.splits)

lemma enforce_id: "within_bounds r sp \<Longrightarrow> enforceReplicaBounds r sp = r"
  by (auto simp: within_bounds_def enforceReplicaBounds_def split: option.splits)

text \<open>Whatever \<open>Scale\<close> writes, and when.\<close>

lemma Scale_writes:
  "fst (snd (Scale upd m r n st)) =
     (let r' = enforceReplicaBounds r (md_spec m); ex = replicas_of (md_spec m)
      in if ex = r' \<or> r' < ex \<and> gm_get 0 (mc_scaleDowns st) (md_name m) < n then [] else [ScaleWrite (md_name m) r'])"
  by (auto simp: Scale_def Let_def split: option.split)

lemma Scale_counter:
  "mc_scaleDowns (snd (snd (Scale upd m r n st))) =
     (let r' = enforceReplicaBounds r (md_spec m); ex = replicas_of (md_spec m); c = gm_get 0 (mc_scaleDowns st) (md_name m)
      in if r' < ex then (if c < n then gm_put (md_name m) (wrap64 (c + 1)) (mc_scaleDowns st) else mc_scaleDowns st)
         else gm_put (md_name m) 0 (mc_scaleDowns st))"
  by (auto simp: Scale_def Let_def split: option.split)

subsection \<open>The contract the autoscaler relies on\<close>

text \<open>
  What the callers of a scaler use: the replicas it writes are within the Model's bounds, it
  writes for that Model only, and it does not write what is already there.
\<close>

locale model_scaler =
  fixes scale :: "model \<Rightarrow> int \<Rightarrow> int \<Rightarrow> mc_state \<Rightarrow> scale_write list"
  assumes scale_bounded: "bounds_ok (md_spec m) \<Longrightarrow> ScaleWrite n r' \<in> set (scale m r k st) \<Longrightarrow> within_bounds r' (md_spec m)"
    and scale_own: "ScaleWrite n r' \<in> set (scale m r k st) \<Longrightarrow> n = md_name m"
    and scale_changes: "ScaleWrite n r' \<in> set (scale m r k st) \<Longrightarrow> r' \<noteq> replicas_of (md_spec m)"
begin

lemma scale_pinned:
  assumes "ms_MaxReplicas (md_spec m) = Some b" "ms_MinReplicas (md_spec m) = b" "replicas_of (md_spec m) = b"
  shows "scale m r k st = []"
proof (rule ccontr)
  assume "scale m r k st \<noteq> []"
  then obtain n r' where w: "ScaleWrite n r' \<in> set (scale m r k st)"
    by (metis list.set_intros(1) neq_Nil_conv scale_write.exhaust)
  have "bounds_ok (md_spec m)" using assms by (simp add: bounds_ok_def)
  then have "r' = b" using scale_bounded [OF _ w] assms by (simp add: within_bounds_def)
  then show False using scale_changes [OF w] assms by simp
qed

end

interpretation scaler: model_scaler "\<lambda>m r k st. fst (snd (Scale upd m r k st))" for upd
proof (unfold_locales, goal_cases)
  case (1 m n r' r k st)
  then show ?case using enforce_within by (auto simp: Scale_writes Let_def split: if_splits)
qed (auto simp: Scale_writes Let_def split: if_splits)

subsection \<open>Properties\<close>

text \<open>A lookup returns a Model exactly when the API has it, every label selector of the
  request parses and matches its labels, and the adapter asked for is one of its adapters.\<close>

theorem LookupModel_found:
  "LookupModel parse get name adapter sels = Done (Some m) \<longleftrightarrow>
     get name = ApiOk m
     \<and> (\<forall>sel \<in> set sels. \<exists>f. parse sel = Done f \<and> f (om_labels (md_meta m)))
     \<and> (adapter = [] \<or> adapter \<in> ad_Name ` set (adapters_of (md_spec m)))"
  by (auto simp: LookupModel_def outcome_bind_eq_Done find_adapter_iff match_selectors_True [symmetric]
      split: api.splits if_splits)

definition never_parse :: label_parser where
  "never_parse s = Error ''bad selector''"

theorem LookupModel_found_witness:
  "LookupModel never_parse (\<lambda>n. ApiOk (default_model n)) ''m'' [] [] = Done (Some (default_model ''m''))"
  using LookupModel_found [of never_parse "\<lambda>n. ApiOk (default_model n)" "''m''" "[]" "[]" "default_model ''m''"] by simp

text \<open>A request makes a Model with autoscaling run: after a successful call either the Model
  had replicas or disabled autoscaling, or exactly one write of one replica was made.\<close>

theorem ScaleAtLeastOneReplica_effect:
  assumes "ScaleAtLeastOneReplica upd get name = (Done (), ws)" "get name = ApiOk m"
  shows "ws = (if ms_AutoscalingDisabled (md_spec m) \<or> replicas_of (md_spec m) \<noteq> 0 then []
               else [ScaleWrite (md_name m) 1])"
  using assms by (auto simp: ScaleAtLeastOneReplica_def Let_def split: if_splits option.splits)

theorem ScaleAtLeastOneReplica_effect_witness:
  "snd (ScaleAtLeastOneReplica (\<lambda>_. None) (\<lambda>n. ApiOk (default_model n)) ''m'') = [ScaleWrite ''m'' 1]"
proof -
  have "ScaleAtLeastOneReplica (\<lambda>_. None) (\<lambda>n. ApiOk (default_model n)) ''m'' = (Done (), [ScaleWrite ''m'' 1])"
    by code_simp
  from ScaleAtLeastOneReplica_effect [OF this] show ?thesis
    using \<open>ScaleAtLeastOneReplica _ _ _ = _\<close> by simp
qed

text \<open>A run of calls for one Model whose replicas nobody else changes: the desired counts, the
  writes made.\<close>

fun scale_run :: "(scale_write \<Rightarrow> string option) \<Rightarrow> model \<Rightarrow> int \<Rightarrow> int list \<Rightarrow> mc_state \<Rightarrow> scale_write list \<times> mc_state" where
  "scale_run upd m n [] st = ([], st)"
| "scale_run upd m n (r # rs) st =
     (let (out, ws, st1) = Scale upd m r n st; (ws', st2) = scale_run upd m n rs st1 in (ws @ ws', st2))"

lemma scale_run_delay:
  assumes "\<forall>r \<in> set rs. enforceReplicaBounds r (md_spec m) < replicas_of (md_spec m)"
    and "0 \<le> gm_get 0 (mc_scaleDowns st) (md_name m)" "gm_get 0 (mc_scaleDowns st) (md_name m) + int (length rs) \<le> n" "in_int64 n"
  shows "fst (scale_run upd m n rs st) = []
    \<and> gm_get 0 (mc_scaleDowns (snd (scale_run upd m n rs st))) (md_name m)
        = gm_get 0 (mc_scaleDowns st) (md_name m) + int (length rs)"
  using assms
proof (induction rs arbitrary: st)
  case (Cons r rs)
  let ?c = "gm_get 0 (mc_scaleDowns st) (md_name m)"
  let ?st = "st\<lparr>mc_scaleDowns := gm_put (md_name m) (?c + 1) (mc_scaleDowns st)\<rparr>"
  have "wrap64 (?c + 1) = ?c + 1"
    using Cons.prems by (intro wrap64_id) (simp add: in_int64_def)
  then have "Scale upd m r n st = (Done (), [], ?st)"
    using Cons.prems by (simp add: Scale_def Let_def)
  moreover have "fst (scale_run upd m n rs ?st) = []
      \<and> gm_get 0 (mc_scaleDowns (snd (scale_run upd m n rs ?st))) (md_name m) = ?c + 1 + int (length rs)"
    using Cons.IH [of ?st] Cons.prems by simp
  ultimately show ?case by (simp add: case_prod_beta)
qed simp

text \<open>C35: Scale down is delayed. After a call that did not want fewer replicas, the next
  \<open>required\<close> calls in a row that want fewer write nothing, and one more writes the (bounded)
  number it wants.\<close>

theorem scale_down_delay:
  assumes "0 \<le> required" "in_int64 required" "int (length rs) = required"
    and "replicas_of (md_spec m) \<le> enforceReplicaBounds r0 (md_spec m)"
    and "\<forall>r \<in> set rs. enforceReplicaBounds r (md_spec m) < replicas_of (md_spec m)"
    and "enforceReplicaBounds r (md_spec m) < replicas_of (md_spec m)"
    and "st1 = snd (snd (Scale upd m r0 required st))"
  shows "fst (scale_run upd m required rs st1) = []
    \<and> fst (snd (Scale upd m r required (snd (scale_run upd m required rs st1))))
        = [ScaleWrite (md_name m) (enforceReplicaBounds r (md_spec m))]"
proof -
  have "gm_get 0 (mc_scaleDowns st1) (md_name m) = 0"
    using assms(4,7) by (simp add: Scale_counter Let_def)
  then show ?thesis
    using scale_run_delay [OF assms(5), of st1 required upd] assms by (simp add: Scale_writes Let_def)
qed

theorem scale_down_delay_witness:
  "let m = (default_model ''m'')\<lparr>md_spec := default_spec\<lparr>ms_Replicas := Some 3\<rparr>\<rparr>;
       st1 = snd (snd (Scale (\<lambda>_. None) m 3 2 NewModelClient))
   in fst (snd (Scale (\<lambda>_. None) m 1 2 (snd (scale_run (\<lambda>_. None) m 2 [1, 2] st1)))) = [ScaleWrite ''m'' 1]"
proof -
  let ?m = "(default_model ''m'')\<lparr>md_spec := default_spec\<lparr>ms_Replicas := Some 3\<rparr>\<rparr>"
  have "enforceReplicaBounds r (md_spec ?m) = (if r < 0 then 0 else r)" for r
    by (simp add: enforceReplicaBounds_def default_spec_def)
  moreover have "replicas_of (md_spec ?m) = 3" "md_name ?m = ''m''"
    by (simp_all add: replicas_of_def default_model_def empty_meta_def)
  ultimately show ?thesis
    using scale_down_delay [of 2 "[1, 2]" ?m 3 1 "snd (snd (Scale (\<lambda>_. None) ?m 3 2 NewModelClient))" "\<lambda>_. None" NewModelClient]
    by (simp add: in_int64_def)
qed

end
