(* ===== verification/Autoscaler_State.thy ===== *)
theory Autoscaler_State
  imports Json_Struct Model_Client
begin

section \<open>The saved state of the autoscaler\<close>

text \<open>
  \<open>internal/modelautoscaler/state.go\<close>: the averages of all Models and the time they were worked
  out, as JSON under a key of a ConfigMap, written by a patch that quotes the JSON with \<open>%q\<close>. The
  API server, the Unicode table of \<open>%q\<close>, the lenient time parser and the texts of JSON errors are
  parameters.
\<close>

record model_state =
  ast_AverageActiveRequests :: rat

record total_model_state =
  tms_Models :: "(string, model_state) gomap"
  tms_LastCalculationTime :: go_time

definition newTotalModelState :: "go_time \<Rightarrow> total_model_state" where
  "newTotalModelState now = \<lparr>tms_Models = [], tms_LastCalculationTime = now\<rparr>"

subsection \<open>Decoding\<close>

definition model_state_field :: "string \<Rightarrow> string \<Rightarrow> json_value \<Rightarrow> model_state \<Rightarrow> model_state option" where
  "model_state_field k raw v s =
     (if names_field ''averageActiveRequests'' k then
        map_option (\<lambda>x. s\<lparr>ast_AverageActiveRequests := x\<rparr>) (float_field v (ast_AverageActiveRequests s))
      else Some s)"

text \<open>Every entry of a map is decoded into a fresh element.\<close>

fun fill_models :: "(string \<times> json_value) list \<Rightarrow> (string, model_state) gomap \<Rightarrow> (string, model_state) gomap option" where
  "fill_models [] m = Some m"
| "fill_models ((k, v) # kvs) m =
     (case fill_struct model_state_field v \<lparr>ast_AverageActiveRequests = 0\<rparr> of
        None \<Rightarrow> None | Some s \<Rightarrow> fill_models kvs (gm_put k s m))"

definition total_state_field ::
  "(string \<Rightarrow> go_time option) \<Rightarrow> string \<Rightarrow> string \<Rightarrow> json_value \<Rightarrow> total_model_state \<Rightarrow> total_model_state option" where
  "total_state_field lenient k raw v s =
     (if names_field ''models'' k then
        (case v of
           JNull \<Rightarrow> Some (s\<lparr>tms_Models := []\<rparr>)
         | JObj kvs \<Rightarrow> map_option (\<lambda>m. s\<lparr>tms_Models := m\<rparr>) (fill_models kvs (tms_Models s))
         | _ \<Rightarrow> None)
      else if names_field ''lastCalculationTime'' k then
        map_option (\<lambda>t. s\<lparr>tms_LastCalculationTime := t\<rparr>) (time_field lenient raw (tms_LastCalculationTime s))
      else Some s)"

definition zero_total_state :: total_model_state where
  "zero_total_state = \<lparr>tms_Models = [], tms_LastCalculationTime = zero_time\<rparr>"

text \<open>The ConfigMap's data, if the Get succeeds.\<close>

definition loadLastTotalModelState ::
  "(string \<Rightarrow> go_time option) \<Rightarrow> (string \<Rightarrow> string) \<Rightarrow> (string, string) gomap api \<Rightarrow> (string, total_model_state) outcome" where
  "loadLastTotalModelState lenient jsonError cm =
     (case cm of
        ApiNotFound \<Rightarrow> Error ''get ConfigMap: not found''
      | ApiErr e \<Rightarrow> Error (''get ConfigMap: '' @ e)
      | ApiOk data \<Rightarrow>
          (case gm_lookup data ''models'' of
             None \<Rightarrow> Done zero_total_state
           | Some js \<Rightarrow>
               (case decode_struct (total_state_field lenient) zero_total_state js of
                  None \<Rightarrow> Error (''unmarshalling state: '' @ jsonError js)
                | Some tms \<Rightarrow> Done tms)))"

subsection \<open>Encoding\<close>

definition model_state_json :: "model_state \<Rightarrow> json_value" where
  "model_state_json s = JObj [(''averageActiveRequests'', JNum (f64_text (ast_AverageActiveRequests s)))]"

definition models_json :: "(string, model_state) gomap \<Rightarrow> json_value" where
  "models_json m = JObj (map (\<lambda>(k, s). (k, model_state_json s)) (map_fill m []))"

definition marshal_total_state :: "total_model_state \<Rightarrow> (string, string) outcome" where
  "marshal_total_state st =
     outcome_bind (marshal_time (tms_LastCalculationTime st)) (\<lambda>t.
       Done (json_text (JObj [(''models'', models_json (tms_Models st)), (''lastCalculationTime'', t)])))"

text \<open>The patch that is sent; \<open>patch\<close> is the API server's answer.\<close>

definition saveTotalModelState ::
  "(nat \<Rightarrow> bool) \<Rightarrow> (string \<Rightarrow> string option) \<Rightarrow> total_model_state \<Rightarrow> (string, string) outcome" where
  "saveTotalModelState pr patch st =
     (case marshal_total_state st of
        Done js \<Rightarrow> (let p = ''{\"data\":{\"models\":'' @ go_quote pr js @ ''}}''
                    in case patch p of None \<Rightarrow> Done p | Some e \<Rightarrow> Error (''patching ConfigMap: '' @ e))
      | Error e \<Rightarrow> Error (''marshalling state: '' @ e)
      | Panic e \<Rightarrow> Panic e)"

subsection \<open>The text is ASCII\<close>

abbreviation printable :: "string \<Rightarrow> bool" where
  "printable s \<equiv> list_all (\<lambda>c. 32 \<le> (of_char c :: nat) \<and> (of_char c :: nat) < 127) s"

lemma printable_ascii: "printable s \<Longrightarrow> ascii s"
  by (induction s) auto

lemma plain_printable: "list_all plain_char s \<Longrightarrow> printable s"
  by (induction s) (auto simp: plain_char_def)

lemma printable_hex: "n < 16 \<Longrightarrow> 32 \<le> (of_char (hex_char n) :: nat) \<and> (of_char (hex_char n) :: nat) < 127"
  by (auto simp: hex_char_def of_char_digit_char)

lemma printable_quote: "printable s \<Longrightarrow> printable (quote_body s)"
proof (induction s)
  case (Cons c s)
  have "printable (escape_byte c)" using Cons.prems printable_hex by (auto simp: escape_byte_def escape_u_def Let_def)
  then show ?case using Cons by simp
qed simp

fun printable_json :: "json_value \<Rightarrow> bool" where
  "printable_json (JNum t) = printable t"
| "printable_json (JStr s) = printable s"
| "printable_json (JArr vs) = list_all printable_json vs"
| "printable_json (JObj kvs) = list_all (\<lambda>(k, v). printable k \<and> printable_json v) kvs"
| "printable_json v = True"

lemma printable_text:
  "printable_json v \<Longrightarrow> printable (json_text v)"
  "list_all printable_json vs \<Longrightarrow> printable (json_elems vs)"
  "list_all (\<lambda>(k, v). printable k \<and> printable_json v) kvs \<Longrightarrow> printable (json_fields kvs)"
  by (induction v and vs and kvs rule: json_text_json_elems_json_fields.induct)
     (simp_all add: json_quote_def printable_quote)

subsection \<open>The state comes back\<close>

definition f64_finite :: "rat \<Rightarrow> bool" where
  "f64_finite x \<longleftrightarrow> rnd x = x \<and> \<bar>x\<bar> < p2 1024"

definition total_state_ok :: "total_model_state \<Rightarrow> bool" where
  "total_state_ok st \<longleftrightarrow> gm_wf (tms_Models st) \<and> time_ok (tms_LastCalculationTime st)
     \<and> (\<forall>(n, s) \<in> set (tms_Models st). printable n \<and> f64_finite (ast_AverageActiveRequests s))"

lemma state_keys [simp]:
  "\<not> names_field ''models'' ''lastCalculationTime''" "\<not> names_field ''lastCalculationTime'' ''models''"
  by (simp_all add: names_field_ascii)

lemma num_ok_printable: "num_ok t \<Longrightarrow> printable t"
  using num_ok_set [of t] by (force simp: list_all_iff is_digit_def)

lemma model_state_read:
  assumes "f64_finite (ast_AverageActiveRequests s)"
  shows "fill_struct model_state_field (model_state_json s) z = Some s" "json_fits d (model_state_json s) \<longleftrightarrow> 0 < d"
    "json_norm (model_state_json s) = model_state_json s" "printable_json (model_state_json s)"
proof -
  note r = f64_text_reads [of "ast_AverageActiveRequests s"]
  show "fill_struct model_state_field (model_state_json s) z = Some s"
    using r(1) assms by (simp add: model_state_json_def fill_struct_def model_state_field_def float_field_def f64_finite_def)
  show "json_fits d (model_state_json s) \<longleftrightarrow> 0 < d" using r(2) assms by (simp add: model_state_json_def f64_finite_def)
  show "json_norm (model_state_json s) = model_state_json s" by (simp add: model_state_json_def)
  show "printable_json (model_state_json s)" using num_ok_printable [OF r(2)] assms by (simp add: model_state_json_def f64_finite_def)
qed

lemma fill_models_read:
  "\<forall>(n, s) \<in> set m. f64_finite (ast_AverageActiveRequests s) \<Longrightarrow>
   fill_models (map (\<lambda>(k, s). (k, model_state_json s)) m) acc = Some (gm_fill m acc)"
  by (induction m arbitrary: acc) (auto simp: model_state_read(1))

lemma total_state_comes_back:
  assumes "total_state_ok st"
  obtains js where "marshal_total_state st = Done js" "printable js"
    "decode_struct (total_state_field lenient) zero_total_state js
       = Some \<lparr>tms_Models = gm_fill (map_fill (tms_Models st) []) [], tms_LastCalculationTime = tms_LastCalculationTime st\<rparr>"
proof
  define m where "m = map_fill (tms_Models st) []"
  define t where "t = tms_LastCalculationTime st"
  have m: "\<forall>(n, s) \<in> set m. printable n \<and> f64_finite (ast_AverageActiveRequests s)"
    using assms map_fill_set [of "tms_Models st" "[]"] unfolding m_def total_state_ok_def by auto
  have t: "time_ok t" using assms by (simp add: total_state_ok_def t_def)
  let ?kvs = "[(''models'', JObj (map (\<lambda>(k, s). (k, model_state_json s)) m)), (''lastCalculationTime'', JStr (time_text t))]"
  show "marshal_total_state st = Done (json_text (JObj ?kvs))"
    using marshal_time_ok [OF t] by (simp add: marshal_total_state_def models_json_def m_def t_def)
  have "printable_json (JObj ?kvs)"
    using m model_state_read(4) plain_printable [OF plain_time_text] by (auto simp: list_all_iff)
  then show "printable (json_text (JObj ?kvs))" by (rule printable_text(1))
  have fits: "json_fits json_depth (JObj ?kvs)"
    using m by (auto simp: list_all_iff model_state_read(2) json_depth_def)
  have "json_norm (JObj (map (\<lambda>(k, s). (k, model_state_json s)) m)) = JObj (map (\<lambda>(k, s). (k, model_state_json s)) m)"
    using m by (auto simp: model_state_read(3) json_clean_ascii_id [OF printable_ascii])
  moreover have "json_clean ''models'' = ''models''" "json_clean ''lastCalculationTime'' = ''lastCalculationTime''" by (simp_all add: json_clean_ascii_id)
  ultimately have "fields_norm ?kvs = [(''models'', json_text (snd (?kvs ! 0)), snd (?kvs ! 0)),
      (''lastCalculationTime'', CHR 0x22 # time_text t @ [CHR 0x22], JStr (time_text t))]"
    by (simp add: fields_norm_def json_quote_time json_clean_ascii_id [OF plain_ascii [OF plain_time_text]] del: json_clean_ascii)
  moreover have "fill_models (map (\<lambda>(k, s). (k, model_state_json s)) m) [] = Some (gm_fill m [])"
    using m by (intro fill_models_read) auto
  ultimately show "decode_struct (total_state_field lenient) zero_total_state (json_text (JObj ?kvs))
       = Some \<lparr>tms_Models = gm_fill (map_fill (tms_Models st) []) [], tms_LastCalculationTime = tms_LastCalculationTime st\<rparr>"
    using time_field_text [OF t] unfolding decode_struct_text [OF fits]
    by (simp add: total_state_field_def zero_total_state_def m_def [symmetric] t_def [symmetric])
qed

lemma saved_lookup: "gm_wf m \<Longrightarrow> gm_lookup (gm_fill (map_fill m []) []) = gm_lookup m"
proof -
  assume m: "gm_wf m"
  have "distinct (map fst (map_fill m []))" using map_fill_sorted [of "[]" m] by (intro keys_sorted_distinct) simp
  then have "gm_lookup (gm_fill (map_fill m []) []) = map_of (map_fill m [])" by (simp add: fun_eq_iff gm_lookup_fill map_of_rev)
  also have "\<dots> = gm_lookup m" using m by (intro map_fill_lookup) (simp add: gm_wf_def)
  finally show ?thesis .
qed

text \<open>One member of an object, whatever wrote its value.\<close>

lemma parse_one_member:
  assumes "parse_value n d (T @ CHR ''}'' # r) = Some (v, CHR ''}'' # r)" "T = c # u" "\<not> is_space c" "0 \<le> d"
  shows "parse_value (Suc (Suc n)) (d + 1) (CHR ''{'' # json_quote k @ CHR '':'' # T @ CHR ''}'' # r) = Some (JObj [(json_clean k, v)], r)"
  using assms json_string_quote [of k "CHR '':'' # T @ CHR ''}'' # r"]
  by (simp add: json_quote_def skip_ws_Cons Let_def)

text \<open>The patch is JSON that sets the key to the marshalled state, byte for byte.\<close>

lemma saved_patch_parses:
  assumes "total_state_ok st" "saveTotalModelState pr patch st = Done p"
  obtains js where "marshal_total_state st = Done js" "json_parse p = Some (JObj [(''data'', JObj [(''models'', JStr js)])])"
proof -
  obtain js where js: "marshal_total_state st = Done js" "printable js" using total_state_comes_back [OF assms(1)] by blast
  have q: "json_quote ''data'' = [CHR 0x22] @ ''data'' @ [CHR 0x22]" "json_quote ''models'' = [CHR 0x22] @ ''models'' @ [CHR 0x22]"
    by (simp_all add: json_quote_def quote_plain plain_char_def del: quote_body.simps)
  have p: "p = CHR ''{'' # json_quote ''data'' @ CHR '':'' # (CHR ''{'' # json_quote ''models'' @ CHR '':'' # go_quote pr js @ ''}'') @ ''}''"
    using assms(2) js(1) by (auto simp: saveTotalModelState_def q Let_def split: option.splits)
  obtain n where n: "2 * length p + 2 = Suc (Suc (Suc (Suc (Suc n))))" by (rule that [of "2 * length p - 3"]) (simp add: p)
  have a: "parse_value (Suc n) 9998 (go_quote pr js @ CHR ''}'' # ''}'') = Some (JStr js, CHR ''}'' # ''}'')"
    using go_quote_value [of n 9998 pr js "''}}''"] quotable_ascii [OF js(2)] by (simp only: if_True)
  have "parse_value (Suc (Suc (Suc n))) (9998 + 1) (CHR ''{'' # json_quote ''models'' @ CHR '':'' # go_quote pr js @ CHR ''}'' # ''}'')
      = Some (JObj [(json_clean ''models'', JStr js)], ''}'')"
    by (rule parse_one_member [OF a go_quote_def]) simp_all
  then have b: "parse_value (Suc (Suc (Suc n))) 9999 ((CHR ''{'' # json_quote ''models'' @ CHR '':'' # go_quote pr js @ ''}'') @ CHR ''}'' # [])
      = Some (JObj [(json_clean ''models'', JStr js)], CHR ''}'' # [])"
    by (simp del: parse_value.simps json_clean_ascii)
  have "parse_value (Suc (Suc (Suc (Suc (Suc n))))) (9999 + 1) p = Some (JObj [(json_clean ''data'', JObj [(json_clean ''models'', JStr js)])], [])"
    unfolding p by (rule parse_one_member [OF b refl]) simp_all
  moreover have "json_clean ''models'' = ''models''" "json_clean ''data'' = ''data''" by (simp_all add: json_clean_ascii_id)
  ultimately have "json_parse p = Some (JObj [(''data'', JObj [(''models'', JStr js)])])"
    unfolding json_parse_def n json_depth_def by (simp add: skip_ws_def)
  with js(1) show ?thesis by (rule that)
qed

end
