(* ===== verification/Moving_Average.thy ===== *)
theory Moving_Average
  imports Float64_Exact
begin

section \<open>The moving average\<close>

text \<open>
  \<open>internal/movingaverage/simple.go\<close>: a ring buffer of samples. Every method runs under the
  mutex, so a method is one step. Indexing an empty history panics.
\<close>

record sma =
  sma_history :: "rat list"
  sma_index :: nat

definition NewSimple :: "rat list \<Rightarrow> sma" where
  "NewSimple seed = \<lparr>sma_history = seed, sma_index = 0\<rparr>"

definition sma_Next :: "rat \<Rightarrow> sma \<Rightarrow> (unit, sma) outcome" where
  "sma_Next x a =
     (if sma_index a < length (sma_history a) then
        (let a = a\<lparr>sma_history := (sma_history a)[sma_index a := x]\<rparr>;
             a = a\<lparr>sma_index := sma_index a + 1\<rparr>
         in Done (if sma_index a = length (sma_history a) then a\<lparr>sma_index := 0\<rparr> else a))
      else Panic ''index out of range'')"

definition sma_History :: "sma \<Rightarrow> rat list" where
  "sma_History a = sma_history a"

definition sma_Calculate :: "sma \<Rightarrow> rat" where
  "sma_Calculate a = f64_div (foldl f64_add 0 (sma_history a)) (f64_of_int (int (length (sma_history a))))"

subsection \<open>The buffer as a sliding window\<close>

text \<open>The samples from the oldest to the newest.\<close>

definition sma_window :: "sma \<Rightarrow> rat list" where
  "sma_window a = drop (sma_index a) (sma_history a) @ take (sma_index a) (sma_history a)"

definition sma_ok :: "sma \<Rightarrow> bool" where
  "sma_ok a \<longleftrightarrow> sma_index a < length (sma_history a)"

fun sma_feed :: "rat list \<Rightarrow> sma \<Rightarrow> (unit, sma) outcome" where
  "sma_feed [] a = Done a"
| "sma_feed (x # xs) a = outcome_bind (sma_Next x a) (sma_feed xs)"

lemma sma_ok_new [simp]: "seed \<noteq> [] \<Longrightarrow> sma_ok (NewSimple seed)"
  by (simp add: sma_ok_def NewSimple_def)

lemma length_sma_window [simp]: "sma_ok a \<Longrightarrow> length (sma_window a) = length (sma_history a)"
  by (simp add: sma_window_def sma_ok_def)

lemma sma_Next_window:
  assumes "sma_ok a"
  shows "\<exists>a'. sma_Next x a = Done a' \<and> sma_ok a' \<and> sma_window a' = tl (sma_window a) @ [x]
    \<and> length (sma_history a') = length (sma_history a)"
proof -
  let ?i = "sma_index a" and ?h = "sma_history a"
  have i: "?i < length ?h" using assms by (simp add: sma_ok_def)
  have tl: "tl (sma_window a) = drop (Suc ?i) ?h @ take ?i ?h"
    using i by (simp add: sma_window_def drop_Suc tl_drop)
  have tk: "take (Suc ?i) (?h[?i := x]) = take ?i ?h @ [x]"
    using i by (simp add: take_Suc_conv_app_nth)
  show ?thesis
  proof (cases "Suc ?i = length ?h")
    case True
    then have "?h[?i := x] = take ?i ?h @ [x]" using tk by (metis length_list_update take_all_iff order_refl)
    with True i show ?thesis unfolding tl
      by (auto simp: sma_Next_def sma_ok_def sma_window_def)
  next
    case False
    with i tk show ?thesis unfolding tl
      by (simp add: sma_Next_def sma_ok_def sma_window_def)
  qed
qed

text \<open>Feeding samples to a non-empty buffer never panics, and the buffer then holds the
  latest ones, as many as its size, in a sliding window over seed and samples.\<close>

theorem sma_feed_window:
  assumes "sma_ok a"
  shows "\<exists>a'. sma_feed xs a = Done a' \<and> sma_ok a'
    \<and> sma_window a' = drop (length xs) (sma_window a @ xs)
    \<and> length (sma_History a') = length (sma_History a)"
  using assms
proof (induction xs arbitrary: a)
  case (Cons x xs)
  obtain b where b: "sma_Next x a = Done b" "sma_ok b" "sma_window b = tl (sma_window a) @ [x]"
    "length (sma_history b) = length (sma_history a)"
    using sma_Next_window [OF Cons.prems] by blast
  have "sma_window a \<noteq> []" using Cons.prems by (auto simp: sma_window_def sma_ok_def)
  then have "drop (length xs) (sma_window b @ xs) = drop (length (x # xs)) (sma_window a @ x # xs)"
    by (cases "sma_window a") (simp_all add: b(3))
  then show ?case using Cons.IH [OF b(2)] b by (auto simp: sma_History_def)
qed (simp add: sma_History_def)

theorem sma_feed_window_witness:
  "\<exists>a'. sma_feed [1, 2, 3] (NewSimple [0, 0]) = Done a' \<and> sma_window a' = [2, 3]"
  using sma_feed_window [of "NewSimple [0, 0]" "[1, 2, 3]"] by (auto simp: sma_window_def NewSimple_def sma_ok_def)

subsection \<open>The average of counts\<close>

lemma foldl_f64_add_int:
  assumes "\<And>n. n \<in> set ns \<Longrightarrow> 0 \<le> n" "0 \<le> s" "s + sum_list ns < 2 ^ 53"
  shows "foldl f64_add (of_int s) (map of_int ns) = of_int (s + sum_list ns)"
  using assms
proof (induction ns arbitrary: s)
  case (Cons n ns)
  have "0 \<le> sum_list ns" using Cons.prems(1) by (intro sum_list_nonneg) simp
  then have "f64_add (of_int s) (of_int n) = of_int (s + n)"
    using Cons.prems by (intro f64_add_int) auto
  then show ?case using Cons by (simp add: add.assoc del: of_int_add)
qed simp

text \<open>The average of request counts is their exact sum divided by the window size with one
  rounding; so it is zero exactly when no request was active in the window.\<close>

theorem sma_Calculate_counts:
  assumes "sma_history a = map of_int ns" "ns \<noteq> []" "\<forall>n \<in> set ns. 0 \<le> n" "sum_list ns < 2 ^ 53" "length ns < 2 ^ 53"
  shows "sma_Calculate a = f64_div (of_int (sum_list ns)) (of_int (int (length ns)))
    \<and> (sma_Calculate a = 0 \<longleftrightarrow> (\<forall>n \<in> set ns. n = 0))"
proof -
  have sum: "foldl f64_add 0 (sma_history a) = of_int (sum_list ns)"
    using foldl_f64_add_int [of ns 0] assms by simp
  have len: "f64_of_int (int (length ns)) = of_int (int (length ns))"
    using assms(5) by (intro f64_of_int_small) simp
  have eq: "sma_Calculate a = f64_div (of_int (sum_list ns)) (of_int (int (length ns)))"
    unfolding sma_Calculate_def sum using len assms(1) by simp
  have nn: "0 \<le> sum_list ns" using assms(3) by (intro sum_list_nonneg) simp
  have zero: "sum_list ns = 0 \<longleftrightarrow> (\<forall>n \<in> set ns. n = 0)"
    using assms(3) sum_list_nonneg_eq_0_iff [of ns] by auto
  have "0 < sma_Calculate a" if "0 < sum_list ns"
    using f64_div_gt_int [of "sum_list ns" "int (length ns)" 0] that assms(2,4,5) eq
    by (simp add: zero_less_divide_iff)
  moreover have "sma_Calculate a = 0" if "sum_list ns = 0" using eq that by (simp add: f64_div_def)
  ultimately have "sma_Calculate a = 0 \<longleftrightarrow> sum_list ns = 0" using nn by fastforce
  with eq zero show ?thesis by blast
qed

theorem sma_Calculate_counts_witness: "sma_Calculate (NewSimple (map of_int [3, 0, 4])) \<noteq> 0"
  using sma_Calculate_counts [of "NewSimple (map of_int [3, 0, 4])" "[3, 0, 4]"]
  by (simp add: NewSimple_def)

end
