(* ===== verification/Autoscaler.thy ===== *)
theory Autoscaler
  imports Autoscaler_State Moving_Average System_Config
begin

section \<open>The autoscaler\<close>

text \<open>
  \<open>internal/modelautoscaler\<close>: one tick of the loop of \<open>Start\<close>, the aggregation of the metrics
  of every replica of KubeAI, and the state saved in a ConfigMap. The metrics names are those
  of \<open>internal/metrics\<close>. What an HTTP scrape and the Prometheus parser return,
  the Kubernetes API and the leader election are parameters.
\<close>

subsection \<open>Metric names\<close>

definition OtelNameToPromName :: "string \<Rightarrow> string" where
  "OtelNameToPromName name = str_replace CHR ''.'' CHR ''_'' name"

definition OtelAttrToPromLabel :: "string \<Rightarrow> string" where
  "OtelAttrToPromLabel k = OtelNameToPromName k"

definition InferenceRequestsActiveMetricName :: string where
  "InferenceRequestsActiveMetricName = ''kubeai.inference.requests.active''"

definition AttrRequestModel :: string where "AttrRequestModel = ''request.model''"

subsection \<open>Scraping\<close>

datatype metric_type = MT_COUNTER | MT_GAUGE | MT_OTHER

record prom_metric =
  pm_Label :: "(string \<times> string) list"
  pm_Gauge :: "rat option"
  pm_Counter :: "rat option"

record metric_family =
  mfam_Type :: metric_type
  mfam_Metric :: "prom_metric list"

type_synonym aggregation = "(string, int list) gomap"

definition getMetricsValue :: "metric_family \<Rightarrow> prom_metric \<Rightarrow> int" where
  "getMetricsValue mf m =
     (case (mfam_Type mf, pm_Gauge m, pm_Counter m) of
        (MT_GAUGE, Some v, _) \<Rightarrow> f64_trunc v
      | (MT_COUNTER, _, Some v) \<Rightarrow> f64_trunc v
      | _ \<Rightarrow> 0)"

definition agg_add :: "string \<Rightarrow> int \<Rightarrow> aggregation \<Rightarrow> aggregation" where
  "agg_add model v agg = gm_put model (gm_get [] agg model @ [v]) agg"

definition aggregate_family :: "metric_family \<Rightarrow> aggregation \<Rightarrow> aggregation" where
  "aggregate_family fam agg =
     foldl (\<lambda>agg m. foldl (\<lambda>agg l. if fst l = OtelAttrToPromLabel AttrRequestModel
                                     then agg_add (snd l) (getMetricsValue fam m) agg else agg)
              agg (pm_Label m))
       agg (mfam_Metric fam)"

text \<open>\<open>scrape\<close> is the response of a URL, parsed, or what failed on the way.\<close>

type_synonym scraper = "string \<Rightarrow> (string, (string, metric_family) gomap) outcome"

definition scrapeAndAggregateMetrics :: "scraper \<Rightarrow> string \<Rightarrow> aggregation \<Rightarrow> aggregation \<times> string option" where
  "scrapeAndAggregateMetrics scrape url agg =
     (case scrape url of
        Error e \<Rightarrow> (agg, Some e)
      | Panic e \<Rightarrow> (agg, Some e)
      | Done fams \<Rightarrow>
          (case gm_lookup fams (OtelNameToPromName InferenceRequestsActiveMetricName) of
             None \<Rightarrow> (agg, None)
           | Some fam \<Rightarrow> (aggregate_family fam agg, None)))"

fun aggregateAllMetrics :: "scraper \<Rightarrow> string list \<Rightarrow> string \<Rightarrow> aggregation \<Rightarrow> aggregation \<times> string list" where
  "aggregateAllMetrics scrape [] path agg = (agg, [])"
| "aggregateAllMetrics scrape (addr # addrs) path agg =
     (let (agg1, e) = scrapeAndAggregateMetrics scrape (''http://'' @ addr @ path) agg;
          (agg2, es) = aggregateAllMetrics scrape addrs path agg1
      in (agg2, (case e of None \<Rightarrow> es | Some e \<Rightarrow> e # es)))"

subsection \<open>State\<close>

record autoscaler =
  as_movingAvgByModel :: "(string, sma) gomap"
  as_cfg :: model_autoscaling
  as_metricsPort :: int
  as_fixedSelfMetricAddrs :: "string list"

definition newPrefilledFloat64Slice :: "int \<Rightarrow> rat \<Rightarrow> rat list" where
  "newPrefilledFloat64Slice len v = replicate (nat len) v"

definition NewAutoscaler ::
  "model_autoscaling \<Rightarrow> int \<Rightarrow> string list \<Rightarrow> (string, total_model_state) outcome \<Rightarrow> (string, autoscaler) outcome" where
  "NewAutoscaler cfg port fixed loaded =
     (case loaded of
        Error e \<Rightarrow> Error (''loading last state of models: '' @ e)
      | Panic e \<Rightarrow> Panic e
      | Done tms \<Rightarrow>
          Done \<lparr>as_movingAvgByModel = gm_fill (map (\<lambda>(m, s). (m, NewSimple (newPrefilledFloat64Slice (AverageWindowCount cfg) (ast_AverageActiveRequests s)))) (tms_Models tms)) [],
                as_cfg = cfg, as_metricsPort = port, as_fixedSelfMetricAddrs = fixed\<rparr>)"

definition getMovingAvgActiveReqPerModel :: "string \<Rightarrow> autoscaler \<Rightarrow> sma \<times> autoscaler" where
  "getMovingAvgActiveReqPerModel model a =
     (case gm_lookup (as_movingAvgByModel a) model of
        Some avg \<Rightarrow> (avg, a)
      | None \<Rightarrow> (let avg = NewSimple (replicate (nat (AverageWindowCount (as_cfg a))) 0)
                 in (avg, a\<lparr>as_movingAvgByModel := gm_put model avg (as_movingAvgByModel a)\<rparr>)))"

subsection \<open>One tick\<close>

text \<open>The replicas wanted for an average: a nil \<open>TargetRequests\<close> is a nil dereference.\<close>

definition desired_replicas :: "rat \<Rightarrow> int \<Rightarrow> int" where
  "desired_replicas avg target = f64_trunc (of_int (f64_ceil (f64_div avg (f64_of_int target))))"

definition sum64 :: "int list \<Rightarrow> int" where
  "sum64 xs = foldl (\<lambda>s x. wrap64 (s + x)) 0 xs"

record tick_result =
  tr_autoscaler :: autoscaler
  tr_client :: mc_state
  tr_writes :: "scale_write list"
  tr_next :: total_model_state

definition next_average :: "string \<Rightarrow> rat \<Rightarrow> total_model_state \<Rightarrow> total_model_state" where
  "next_average model avg st = st\<lparr>tms_Models := gm_put model \<lparr>ast_AverageActiveRequests = avg\<rparr> (tms_Models st)\<rparr>"

text \<open>The body of the loop over the Models. An error of \<open>Scale\<close> is ignored.\<close>

definition autoscale_model ::
  "(scale_write \<Rightarrow> string option) \<Rightarrow> aggregation \<Rightarrow> model \<Rightarrow> tick_result \<Rightarrow> (unit, tick_result) outcome" where
  "autoscale_model upd agg m t =
     (if ms_AutoscalingDisabled (md_spec m) then Done t
      else (let active = sum64 (gm_get [] agg (md_name m));
                (avg, a) = getMovingAvgActiveReqPerModel (md_name m) (tr_autoscaler t)
            in outcome_bind (sma_Next (f64_of_int active) avg) (\<lambda>avg.
                 case (ms_TargetRequests (md_spec m), ms_ScaleDownDelaySeconds (md_spec m)) of
                   (Some target, Some delay) \<Rightarrow>
                     (let avgActive = sma_Calculate avg;
                          (out, ws, mc) = Scale upd m (desired_replicas avgActive target)
                             (RequiredConsecutiveScaleDowns (as_cfg a) delay) (tr_client t)
                      in Done (t\<lparr>tr_autoscaler := a\<lparr>as_movingAvgByModel := gm_put (md_name m) avg (as_movingAvgByModel a)\<rparr>,
                                 tr_client := mc, tr_writes := tr_writes t @ ws,
                                 tr_next := next_average (md_name m) avgActive (tr_next t)\<rparr>))
                 | _ \<Rightarrow> Panic ''nil pointer dereference'')))"

fun autoscale_models ::
  "(scale_write \<Rightarrow> string option) \<Rightarrow> aggregation \<Rightarrow> model list \<Rightarrow> tick_result \<Rightarrow> (unit, tick_result) outcome" where
  "autoscale_models upd agg [] t = Done t"
| "autoscale_models upd agg (m # ms) t = outcome_bind (autoscale_model upd agg m t) (autoscale_models upd agg ms)"

definition self_addrs :: "autoscaler \<Rightarrow> string list \<Rightarrow> string list" where
  "self_addrs a selfIPs =
     (if as_fixedSelfMetricAddrs a \<noteq> [] then as_fixedSelfMetricAddrs a
      else map (\<lambda>ip. ip @ '':'' @ int_str (as_metricsPort a)) selfIPs)"

text \<open>What a tick sees of the world.\<close>

record tick_env =
  te_isLeader :: bool
  te_now :: go_time
  te_models :: "model list api"
  te_selfIPs :: "string list"
  te_scrape :: scraper
  te_upd :: "scale_write \<Rightarrow> string option"

text \<open>The result is the new state, the scale writes and what is saved (\<open>None\<close>: the tick was
  skipped by a \<open>continue\<close>).\<close>

definition autoscaler_tick ::
  "tick_env \<Rightarrow> autoscaler \<Rightarrow> mc_state \<Rightarrow> (unit, autoscaler \<times> mc_state \<times> scale_write list \<times> total_model_state option) outcome" where
  "autoscaler_tick env a mc =
     (let skip = Done (a, mc, [], None)
      in if \<not> te_isLeader env then skip
         else (case ListAllModels (te_models env) of
             Error e \<Rightarrow> skip
           | Panic e \<Rightarrow> Panic e
           | Done models \<Rightarrow>
               (let addrs = self_addrs a (te_selfIPs env)
                in if addrs = [] then skip
                   else (let (agg, errs) = aggregateAllMetrics (te_scrape env) addrs ''/metrics'' []
                         in if errs \<noteq> [] then skip
                            else outcome_bind
                                   (autoscale_models (te_upd env) agg models
                                      \<lparr>tr_autoscaler = a, tr_client = mc, tr_writes = [], tr_next = newTotalModelState (te_now env)\<rparr>)
                                   (\<lambda>t. Done (tr_autoscaler t, tr_client t, tr_writes t, Some (tr_next t)))))))"

subsection \<open>The number of replicas wanted\<close>

lemma desired_replicas_eq: "desired_replicas avg target = f64_ceil (f64_div avg (f64_of_int target))"
  by (simp add: desired_replicas_def)

text \<open>The replicas wanted lie between the floor and the ceiling of the average divided by
  the target, so \<open>k\<close> replicas that can carry the average are never exceeded and \<open>k\<close> replicas
  that it fills are never missed; no load wants no replica.\<close>

theorem desired_replicas_bounds:
  assumes "0 < target" "target < 2 ^ 53" "\<bar>k\<bar> < 2 ^ 53"
  shows "(avg \<le> of_int (k * target) \<longrightarrow> desired_replicas avg target \<le> k)
    \<and> (of_int (k * target) \<le> avg \<longrightarrow> k \<le> desired_replicas avg target)
    \<and> desired_replicas 0 target = 0"
proof -
  have t: "f64_of_int target = of_int target" "0 < (of_int target :: rat)" using assms by simp_all
  have "avg / of_int target \<le> of_int k" if "avg \<le> of_int (k * target)"
    using that t(2) by (simp add: pos_divide_le_eq)
  then have "desired_replicas avg target \<le> k" if "avg \<le> of_int (k * target)"
    using that f64_div_le_int [OF assms(3)] by (simp add: desired_replicas_eq t(1) f64_ceil_def ceiling_le_iff)
  moreover have "of_int k \<le> avg / of_int target" if "of_int (k * target) \<le> avg"
    using that t(2) by (simp add: pos_le_divide_eq)
  then have "k \<le> desired_replicas avg target" if "of_int (k * target) \<le> avg"
    using that f64_div_ge_int [OF assms(3)] le_of_int_ceiling [of "f64_div avg (of_int target)"]
    by (simp add: desired_replicas_eq t(1) f64_ceil_def) (metis ceiling_mono ceiling_of_int)
  moreover have "desired_replicas 0 target = 0" by (simp add: desired_replicas_eq f64_div_def f64_ceil_def)
  ultimately show ?thesis by blast
qed

theorem desired_replicas_bounds_witness: "desired_replicas 250 100 \<le> 3"
  using desired_replicas_bounds [of 100 3 250] by simp

subsection \<open>What a tick changes\<close>

lemma autoscale_model_disabled: "ms_AutoscalingDisabled (md_spec m) \<Longrightarrow> autoscale_model upd agg m t = Done t"
  by (simp add: autoscale_model_def)

lemma autoscale_model_eq:
  assumes "\<not> ms_AutoscalingDisabled (md_spec m)"
    and "getMovingAvgActiveReqPerModel (md_name m) (tr_autoscaler t) = (s, a)"
    and "sma_Next (f64_of_int (sum64 (gm_get [] agg (md_name m)))) s = Done s'"
    and "ms_TargetRequests (md_spec m) = Some target" "ms_ScaleDownDelaySeconds (md_spec m) = Some delay"
    and "Scale upd m (desired_replicas (sma_Calculate s') target)
           (RequiredConsecutiveScaleDowns (as_cfg a) delay) (tr_client t) = (out, ws, mc)"
  shows "autoscale_model upd agg m t = Done (t\<lparr>
      tr_autoscaler := a\<lparr>as_movingAvgByModel := gm_put (md_name m) s' (as_movingAvgByModel a)\<rparr>,
      tr_client := mc, tr_writes := tr_writes t @ ws,
      tr_next := next_average (md_name m) (sma_Calculate s') (tr_next t)\<rparr>)"
  using assms by (simp add: autoscale_model_def Let_def)

text \<open>A successful run of the body, on a Model with autoscaling on.\<close>

lemma autoscale_model_Done:
  assumes "autoscale_model upd agg m t = Done t'" "\<not> ms_AutoscalingDisabled (md_spec m)"
  obtains s a s' target delay where
    "getMovingAvgActiveReqPerModel (md_name m) (tr_autoscaler t) = (s, a)"
    "sma_Next (f64_of_int (sum64 (gm_get [] agg (md_name m)))) s = Done s'"
    "ms_TargetRequests (md_spec m) = Some target" "ms_ScaleDownDelaySeconds (md_spec m) = Some delay"
proof -
  obtain s a where sa: "getMovingAvgActiveReqPerModel (md_name m) (tr_autoscaler t) = (s, a)" by force
  obtain s' where s': "sma_Next (f64_of_int (sum64 (gm_get [] agg (md_name m)))) s = Done s'"
    using assms sa by (auto simp: autoscale_model_def outcome_bind_eq_Done)
  have "ms_TargetRequests (md_spec m) \<noteq> None" "ms_ScaleDownDelaySeconds (md_spec m) \<noteq> None"
    using assms sa s' by (auto simp: autoscale_model_def split: option.splits)
  then show thesis using that [OF sa s'] by blast
qed

lemma autoscale_model_writes:
  assumes "autoscale_model upd agg m t = Done t'"
  shows "\<exists>ws. tr_writes t' = tr_writes t @ ws \<and>
     (\<forall>n r. ScaleWrite n r \<in> set ws \<longrightarrow> n = md_name m \<and> \<not> ms_AutoscalingDisabled (md_spec m)
        \<and> (bounds_ok (md_spec m) \<longrightarrow> within_bounds r (md_spec m)))"
proof (cases "ms_AutoscalingDisabled (md_spec m)")
  case True
  then show ?thesis using assms by (auto simp: autoscale_model_disabled)
next
  case False
  obtain s a s' target delay where o:
    "getMovingAvgActiveReqPerModel (md_name m) (tr_autoscaler t) = (s, a)"
    "sma_Next (f64_of_int (sum64 (gm_get [] agg (md_name m)))) s = Done s'"
    "ms_TargetRequests (md_spec m) = Some target" "ms_ScaleDownDelaySeconds (md_spec m) = Some delay"
    using autoscale_model_Done [OF assms False] .
  obtain out ws mc where w: "Scale upd m (desired_replicas (sma_Calculate s') target)
      (RequiredConsecutiveScaleDowns (as_cfg a) delay) (tr_client t) = (out, ws, mc)"
    by (rule prod_cases3)
  have "tr_writes t' = tr_writes t @ ws"
    using autoscale_model_eq [OF False o w] assms by auto
  moreover have "ws = fst (snd (Scale upd m (desired_replicas (sma_Calculate s') target)
      (RequiredConsecutiveScaleDowns (as_cfg a) delay) (tr_client t)))" by (simp add: w)
  ultimately show ?thesis using False scaler.scale_own scaler.scale_bounded by blast
qed

lemma autoscale_models_writes:
  assumes "autoscale_models upd agg ms t = Done t'" "ScaleWrite n r \<in> set (tr_writes t')"
  shows "ScaleWrite n r \<in> set (tr_writes t) \<or>
    (\<exists>m \<in> set ms. n = md_name m \<and> \<not> ms_AutoscalingDisabled (md_spec m) \<and> (bounds_ok (md_spec m) \<longrightarrow> within_bounds r (md_spec m)))"
  using assms
proof (induction ms arbitrary: t)
  case (Cons m ms)
  then obtain t1 where t1: "autoscale_model upd agg m t = Done t1" "autoscale_models upd agg ms t1 = Done t'"
    by (auto simp: outcome_bind_eq_Done)
  show ?case using autoscale_model_writes [OF t1(1)] Cons.IH [OF t1(2) Cons.prems(2)] by auto
qed simp

text \<open>When a tick does nothing, and what it does otherwise.\<close>

definition tick_start :: "go_time \<Rightarrow> autoscaler \<Rightarrow> mc_state \<Rightarrow> tick_result" where
  "tick_start now a mc = \<lparr>tr_autoscaler = a, tr_client = mc, tr_writes = [], tr_next = newTotalModelState now\<rparr>"

definition tick_idle :: "tick_env \<Rightarrow> autoscaler \<Rightarrow> bool" where
  "tick_idle env a \<longleftrightarrow> \<not> te_isLeader env \<or> (case te_models env of ApiOk ms \<Rightarrow> False | _ \<Rightarrow> True)
     \<or> self_addrs a (te_selfIPs env) = []
     \<or> snd (aggregateAllMetrics (te_scrape env) (self_addrs a (te_selfIPs env)) ''/metrics'' []) \<noteq> []"

lemma tick_idle_result: "tick_idle env a \<Longrightarrow> autoscaler_tick env a mc = Done (a, mc, [], None)"
  unfolding tick_idle_def autoscaler_tick_def ListAllModels_def Let_def
  by (cases "te_models env") (auto simp: case_prod_beta)

lemma tick_busy_result:
  assumes "\<not> tick_idle env a"
  obtains models agg where "te_models env = ApiOk models"
    "autoscaler_tick env a mc = outcome_bind (autoscale_models (te_upd env) agg models (tick_start (te_now env) a mc))
       (\<lambda>t. Done (tr_autoscaler t, tr_client t, tr_writes t, Some (tr_next t)))"
proof (cases "te_models env")
  case (ApiOk models)
  let ?agg = "fst (aggregateAllMetrics (te_scrape env) (self_addrs a (te_selfIPs env)) ''/metrics'' [])"
  have "autoscaler_tick env a mc = outcome_bind (autoscale_models (te_upd env) ?agg models (tick_start (te_now env) a mc))
       (\<lambda>t. Done (tr_autoscaler t, tr_client t, tr_writes t, Some (tr_next t)))"
    using assms ApiOk unfolding tick_idle_def autoscaler_tick_def ListAllModels_def Let_def tick_start_def
    by (simp add: case_prod_beta)
  with ApiOk show thesis by (rule that)
qed (use assms in \<open>simp_all add: tick_idle_def\<close>)

text \<open>Every scale a tick writes is for a listed Model with autoscaling on, and within that
  Model's replica bounds.\<close>

theorem tick_writes_bounded:
  assumes "autoscaler_tick env a mc = Done (a', mc', ws, saved)" "ScaleWrite n r \<in> set ws"
  shows "\<exists>models m. te_models env = ApiOk models \<and> m \<in> set models \<and> n = md_name m
    \<and> \<not> ms_AutoscalingDisabled (md_spec m) \<and> (bounds_ok (md_spec m) \<longrightarrow> within_bounds r (md_spec m))"
proof (cases "tick_idle env a")
  case True
  then show ?thesis using assms by (simp add: tick_idle_result)
next
  case False
  obtain models agg where m: "te_models env = ApiOk models"
    "autoscaler_tick env a mc = outcome_bind (autoscale_models (te_upd env) agg models (tick_start (te_now env) a mc))
       (\<lambda>t. Done (tr_autoscaler t, tr_client t, tr_writes t, Some (tr_next t)))"
    using tick_busy_result [OF False] .
  then obtain t where t: "autoscale_models (te_upd env) agg models (tick_start (te_now env) a mc) = Done t" "tr_writes t = ws"
    using assms(1) unfolding m(2) by (auto simp: outcome_bind_eq_Done)
  then show ?thesis using autoscale_models_writes [OF t(1), of n r] assms(2) m(1) by (auto simp: tick_start_def)
qed

definition demo_scrape :: scraper where
  "demo_scrape url = Done [(''kubeai_inference_requests_active'', \<lparr>mfam_Type = MT_GAUGE,
     mfam_Metric = [\<lparr>pm_Label = [(''request_model'', ''m'')], pm_Gauge = Some 250, pm_Counter = None\<rparr>]\<rparr>)]"

definition demo_two :: model where
  "demo_two = (default_model ''m'')\<lparr>md_spec := default_spec\<lparr>ms_MinReplicas := 2, ms_MaxReplicas := Some 2\<rparr>\<rparr>"

definition demo_env :: tick_env where
  "demo_env = \<lparr>te_isLeader = True, te_now = zero_time, te_models = ApiOk [demo_two], te_selfIPs = [''10.0.0.1''],
     te_scrape = demo_scrape, te_upd = (\<lambda>_. None)\<rparr>"

definition demo_autoscaler :: autoscaler where
  "demo_autoscaler = \<lparr>as_movingAvgByModel = [(''m'', NewSimple [0, 250])],
     as_cfg = \<lparr>ma_Interval = 1, ma_TimeWindow = 2, ma_StateConfigMapName = []\<rparr>,
     as_metricsPort = 8080, as_fixedSelfMetricAddrs = []\<rparr>"

lemma demo_tick:
  "\<exists>a' mc' saved. autoscaler_tick demo_env demo_autoscaler NewModelClient = Done (a', mc', [ScaleWrite ''m'' 2], saved)"
proof -
  have busy: "\<not> tick_idle demo_env demo_autoscaler"
    by (simp add: tick_idle_def demo_env_def self_addrs_def demo_autoscaler_def scrapeAndAggregateMetrics_def
        demo_scrape_def case_prod_beta split: option.split)
  obtain models agg where m: "te_models demo_env = ApiOk models"
    "autoscaler_tick demo_env demo_autoscaler NewModelClient
      = outcome_bind (autoscale_models (te_upd demo_env) agg models (tick_start (te_now demo_env) demo_autoscaler NewModelClient))
       (\<lambda>t. Done (tr_autoscaler t, tr_client t, tr_writes t, Some (tr_next t)))"
    using tick_busy_result [OF busy] .
  have models: "models = [demo_two]" using m(1) by (simp add: demo_env_def)
  let ?t = "tick_start (te_now demo_env) demo_autoscaler NewModelClient" and ?s = "NewSimple [0, 250]"
  have get: "getMovingAvgActiveReqPerModel (md_name demo_two) (tr_autoscaler ?t) = (?s, demo_autoscaler)"
    by (simp add: getMovingAvgActiveReqPerModel_def tick_start_def demo_autoscaler_def demo_two_def default_model_def empty_meta_def)
  obtain s' where s': "sma_Next (f64_of_int (sum64 (gm_get [] agg (md_name demo_two)))) ?s = Done s'"
    using sma_Next_window [of ?s] by auto
  have spec: "\<not> ms_AutoscalingDisabled (md_spec demo_two)" "ms_TargetRequests (md_spec demo_two) = Some 100"
    "ms_ScaleDownDelaySeconds (md_spec demo_two) = Some 30" "md_name demo_two = ''m''"
    by (simp_all add: demo_two_def default_spec_def default_model_def empty_meta_def)
  obtain out ws mc where w: "Scale (te_upd demo_env) demo_two (desired_replicas (sma_Calculate s') 100)
      (RequiredConsecutiveScaleDowns (as_cfg demo_autoscaler) 30) (tr_client ?t) = (out, ws, mc)"
    by (rule prod_cases3)
  have "enforceReplicaBounds r (md_spec demo_two) = 2" for r
    by (simp add: enforceReplicaBounds_def demo_two_def)
  then have "ws = [ScaleWrite ''m'' 2]"
    using Scale_writes [of "te_upd demo_env" demo_two "desired_replicas (sma_Calculate s') 100"
        "RequiredConsecutiveScaleDowns (as_cfg demo_autoscaler) 30" "tr_client ?t"] w spec(4)
    by (simp add: replicas_of_def demo_two_def default_spec_def)
  with autoscale_model_eq [OF spec(1) get s' spec(2,3) w] show ?thesis
    unfolding m(2) models by (simp add: tick_start_def)
qed

theorem tick_writes_bounded_witness:
  "\<exists>models m. te_models demo_env = ApiOk models \<and> m \<in> set models \<and> ''m'' = md_name m
     \<and> \<not> ms_AutoscalingDisabled (md_spec m) \<and> (bounds_ok (md_spec m) \<longrightarrow> within_bounds 2 (md_spec m))"
proof -
  obtain a' mc' saved where "autoscaler_tick demo_env demo_autoscaler NewModelClient = Done (a', mc', [ScaleWrite ''m'' 2], saved)"
    using demo_tick by blast
  from tick_writes_bounded [OF this] show ?thesis by simp
qed

text \<open>A replica that does not lead, cannot list the Models, knows no address of KubeAI, or
  fails to scrape one of them changes nothing: no scale, no sample, no saved state.\<close>

theorem tick_skipped:
  assumes "\<not> te_isLeader env \<or> (\<forall>models. te_models env \<noteq> ApiOk models) \<or> self_addrs a (te_selfIPs env) = []
    \<or> snd (aggregateAllMetrics (te_scrape env) (self_addrs a (te_selfIPs env)) ''/metrics'' []) \<noteq> []"
  shows "autoscaler_tick env a mc = Done (a, mc, [], None)"
  using assms by (intro tick_idle_result) (auto simp: tick_idle_def split: api.split)

theorem tick_skipped_witness:
  "autoscaler_tick (demo_env\<lparr>te_isLeader := False\<rparr>) demo_autoscaler NewModelClient = Done (demo_autoscaler, NewModelClient, [], None)"
  by (rule tick_skipped) simp

subsection \<open>The tick does not panic\<close>

definition averages_ok :: "autoscaler \<Rightarrow> bool" where
  "averages_ok a \<longleftrightarrow> 1 \<le> AverageWindowCount (as_cfg a)
     \<and> (\<forall>n s. gm_lookup (as_movingAvgByModel a) n = Some s \<longrightarrow> sma_ok s)"

definition targets_set :: "model \<Rightarrow> bool" where
  "targets_set m \<longleftrightarrow> ms_TargetRequests (md_spec m) \<noteq> None \<and> ms_ScaleDownDelaySeconds (md_spec m) \<noteq> None"

lemma sma_ok_prefilled: "1 \<le> n \<Longrightarrow> sma_ok (NewSimple (newPrefilledFloat64Slice n v))"
  by (simp add: sma_ok_def NewSimple_def newPrefilledFloat64Slice_def)

lemma autoscale_model_ok:
  assumes "averages_ok (tr_autoscaler t)" "targets_set m"
  shows "\<exists>t'. autoscale_model upd agg m t = Done t' \<and> averages_ok (tr_autoscaler t')"
proof (cases "ms_AutoscalingDisabled (md_spec m)")
  case True
  then show ?thesis using assms by (simp add: autoscale_model_def)
next
  case False
  obtain s a where s: "getMovingAvgActiveReqPerModel (md_name m) (tr_autoscaler t) = (s, a)" by force
  have ok: "sma_ok s" "averages_ok a"
    using s assms(1) by (auto simp: getMovingAvgActiveReqPerModel_def averages_ok_def Let_def NewSimple_def sma_ok_def
        split: option.splits if_splits)
  obtain s' where s': "sma_Next (f64_of_int (sum64 (gm_get [] agg (md_name m)))) s = Done s'" "sma_ok s'"
    using sma_Next_window [OF ok(1)] by blast
  obtain target delay where td: "ms_TargetRequests (md_spec m) = Some target" "ms_ScaleDownDelaySeconds (md_spec m) = Some delay"
    using assms(2) by (auto simp: targets_set_def)
  obtain out ws mc where w: "Scale upd m (desired_replicas (sma_Calculate s') target)
      (RequiredConsecutiveScaleDowns (as_cfg a) delay) (tr_client t) = (out, ws, mc)"
    by (rule prod_cases3)
  show ?thesis
    unfolding autoscale_model_eq [OF False s s'(1) td w] using ok(2) s'(2) by (simp add: averages_ok_def)
qed

lemma autoscale_models_ok:
  "averages_ok (tr_autoscaler t) \<Longrightarrow> \<forall>m \<in> set ms. targets_set m \<Longrightarrow>
   \<exists>t'. autoscale_models upd agg ms t = Done t' \<and> averages_ok (tr_autoscaler t')"
proof (induction ms arbitrary: t)
  case (Cons m ms)
  then show ?case using autoscale_model_ok [OF Cons.prems(1), of m upd agg] by auto
qed simp

text \<open>With a window of at least one sample, and Models that carry the defaults of the CRD,
  a tick returns, and the state it leaves can be used by the next one.\<close>

theorem tick_returns:
  assumes "averages_ok a" "\<forall>models. te_models env = ApiOk models \<longrightarrow> (\<forall>m \<in> set models. targets_set m)"
  shows "\<exists>a' mc' ws saved. autoscaler_tick env a mc = Done (a', mc', ws, saved) \<and> averages_ok a'"
proof (cases "tick_idle env a")
  case True
  then show ?thesis using assms(1) by (simp add: tick_idle_result)
next
  case False
  obtain models agg where m: "te_models env = ApiOk models"
    "autoscaler_tick env a mc = outcome_bind (autoscale_models (te_upd env) agg models (tick_start (te_now env) a mc))
       (\<lambda>t. Done (tr_autoscaler t, tr_client t, tr_writes t, Some (tr_next t)))"
    using tick_busy_result [OF False] .
  obtain t where "autoscale_models (te_upd env) agg models (tick_start (te_now env) a mc) = Done t" "averages_ok (tr_autoscaler t)"
    using autoscale_models_ok [of "tick_start (te_now env) a mc" models "te_upd env" agg] assms m(1) by (auto simp: tick_start_def)
  with m(2) show ?thesis by simp
qed

theorem tick_returns_witness:
  "\<exists>a' mc' ws saved. autoscaler_tick demo_env demo_autoscaler NewModelClient = Done (a', mc', ws, saved) \<and> averages_ok a'"
proof (rule tick_returns)
  have "AverageWindowCount (as_cfg demo_autoscaler) = 2"
    using f64_div_ceil_exact [of 2 1] by (simp add: AverageWindowCount_def demo_autoscaler_def)
  then show "averages_ok demo_autoscaler"
    by (simp add: averages_ok_def demo_autoscaler_def sma_ok_def NewSimple_def)
  show "\<forall>models. te_models demo_env = ApiOk models \<longrightarrow> (\<forall>m \<in> set models. targets_set m)"
    by (simp add: demo_env_def targets_set_def demo_two_def default_spec_def)
qed

text \<open>The autoscaler starts with usable averages, whatever state it loads.\<close>

lemma NewAutoscaler_ok:
  assumes "NewAutoscaler cfg port fixed loaded = Done a" "1 \<le> AverageWindowCount cfg"
  shows "averages_ok a"
proof -
  obtain tms where tms: "loaded = Done tms" using assms(1) by (cases loaded) (auto simp: NewAutoscaler_def)
  have a: "a = \<lparr>as_movingAvgByModel = gm_fill (map (\<lambda>(m, s). (m, NewSimple (newPrefilledFloat64Slice (AverageWindowCount cfg) (ast_AverageActiveRequests s)))) (tms_Models tms)) [],
      as_cfg = cfg, as_metricsPort = port, as_fixedSelfMetricAddrs = fixed\<rparr>"
    using assms(1) by (simp add: NewAutoscaler_def tms)
  have "sma_ok s" if "gm_lookup (as_movingAvgByModel a) n = Some s" for n s
  proof -
    let ?kvs = "map (\<lambda>(m, s). (m, NewSimple (newPrefilledFloat64Slice (AverageWindowCount cfg) (ast_AverageActiveRequests s)))) (tms_Models tms)"
    have "map_of (rev ?kvs) n = Some s" using that by (simp add: a gm_lookup_fill)
    then have "(n, s) \<in> set ?kvs" by (metis map_of_SomeD set_rev)
    then show ?thesis using assms(2) sma_ok_prefilled by auto
  qed
  then show ?thesis using assms(2) by (simp add: averages_ok_def a)
qed

subsection \<open>Restarts\<close>

text \<open>C37: What a leader saves is what the next process starts from. The patch it sends sets the key to
  a text, and a process that finds that text in the ConfigMap has, for exactly the Models of the
  saved state, a window filled with the saved average, to the bit.\<close>

theorem saved_averages_restored:
  assumes "total_state_ok st" "saveTotalModelState pr patch st = Done p"
  shows "\<exists>js. json_parse p = Some (JObj [(''data'', JObj [(''models'', JStr js)])])
    \<and> (\<forall>data lenient jsonError cfg port fixed. gm_lookup data ''models'' = Some js \<longrightarrow>
        (\<exists>a. NewAutoscaler cfg port fixed (loadLastTotalModelState lenient jsonError (ApiOk data)) = Done a
          \<and> (\<forall>n. gm_lookup (as_movingAvgByModel a) n
               = map_option (\<lambda>s. NewSimple (newPrefilledFloat64Slice (AverageWindowCount cfg) (ast_AverageActiveRequests s)))
                   (gm_lookup (tms_Models st) n))))"
proof -
  obtain js where js: "marshal_total_state st = Done js" "json_parse p = Some (JObj [(''data'', JObj [(''models'', JStr js)])])"
    using saved_patch_parses [OF assms] .
  have "\<exists>a. NewAutoscaler cfg port fixed (loadLastTotalModelState lenient jsonError (ApiOk data)) = Done a
      \<and> (\<forall>n. gm_lookup (as_movingAvgByModel a) n
           = map_option (\<lambda>s. NewSimple (newPrefilledFloat64Slice (AverageWindowCount cfg) (ast_AverageActiveRequests s))) (gm_lookup (tms_Models st) n))"
    if d: "gm_lookup data ''models'' = Some js" for data lenient jsonError cfg port fixed
  proof -
    let ?m = "map_fill (tms_Models st) []" and ?new = "\<lambda>s. NewSimple (newPrefilledFloat64Slice (AverageWindowCount cfg) (ast_AverageActiveRequests s))"
    have "decode_struct (total_state_field lenient) zero_total_state js
       = Some \<lparr>tms_Models = gm_fill ?m [], tms_LastCalculationTime = tms_LastCalculationTime st\<rparr>"
      using total_state_comes_back [OF assms(1), of lenient] js(1) by auto
    moreover have "gm_lookup (gm_fill (map (\<lambda>(k, s). (k, ?new s)) (gm_fill ?m [])) []) n = map_option ?new (gm_lookup (tms_Models st) n)" for n
    proof -
      have wf: "gm_wf (tms_Models st)" using assms(1) by (simp add: total_state_ok_def)
      have "gm_wf (gm_fill ?m [])" by (rule gm_wf_fill) (simp add: gm_wf_def)
      then have "distinct (map fst (map (\<lambda>(k, s). (k, ?new s)) (gm_fill ?m [])))" by (simp add: gm_wf_def comp_def case_prod_beta)
      then have "gm_lookup (gm_fill (map (\<lambda>(k, s). (k, ?new s)) (gm_fill ?m [])) []) n = map_of (map (\<lambda>(k, s). (k, ?new s)) (gm_fill ?m [])) n"
        by (simp add: gm_lookup_fill map_of_rev)
      also have "\<dots> = map_option ?new (gm_lookup (gm_fill ?m []) n)" by (rule map_of_map [THEN fun_cong, unfolded comp_def])
      finally show ?thesis using saved_lookup [OF wf] by simp
    qed
    ultimately show ?thesis using d by (simp add: loadLastTotalModelState_def NewAutoscaler_def)
  qed
  with js(2) show ?thesis by blast
qed

definition demo_saved_state :: total_model_state where
  "demo_saved_state = \<lparr>tms_Models = [(''m<1>'', \<lparr>ast_AverageActiveRequests = 1 / 2\<rparr>)], tms_LastCalculationTime = zero_time\<rparr>"

theorem saved_averages_restored_witness:
  "\<exists>p js. saveTotalModelState (\<lambda>r. True) (\<lambda>q. None) demo_saved_state = Done p
    \<and> json_parse p = Some (JObj [(''data'', JObj [(''models'', JStr js)])])"
proof -
  have half: "rnd (1 / 2) = 1 / 2" by code_simp
  have "total_state_ok demo_saved_state"
    by (simp add: total_state_ok_def demo_saved_state_def gm_wf_def time_ok_def zero_time_def days_in_def f64_finite_def half)
  moreover have "\<exists>p. saveTotalModelState (\<lambda>r. True) (\<lambda>q. None) demo_saved_state = Done p"
    by (simp add: saveTotalModelState_def marshal_total_state_def marshal_time_def demo_saved_state_def zero_time_def)
  ultimately show ?thesis using saved_averages_restored by blast
qed

text \<open>A process that is not the leader does not look at the saved state again: however long it stands
  by, it takes over with the averages it loaded when it started.\<close>

fun autoscaler_ticks :: "tick_env list \<Rightarrow> autoscaler \<Rightarrow> mc_state \<Rightarrow> (unit, autoscaler \<times> mc_state) outcome" where
  "autoscaler_ticks [] a mc = Done (a, mc)"
| "autoscaler_ticks (env # envs) a mc = outcome_bind (autoscaler_tick env a mc) (\<lambda>(a', mc', ws, saved). autoscaler_ticks envs a' mc')"

theorem standby_keeps_loaded_averages:
  assumes "\<forall>env \<in> set envs. \<not> te_isLeader env"
  shows "autoscaler_ticks envs a mc = Done (a, mc)"
  using assms by (induction envs) (simp_all add: autoscaler_tick_def)

theorem standby_keeps_loaded_averages_witness:
  "autoscaler_ticks (replicate 100 (demo_env\<lparr>te_isLeader := False\<rparr>)) demo_autoscaler NewModelClient = Done (demo_autoscaler, NewModelClient)"
  by (rule standby_keeps_loaded_averages) simp

end
