(* ===== verification/Openai_Types.thy ===== *)
theory Openai_Types
  imports Complex_Main Json K8s_Types
begin

section \<open>The OpenAI request types\<close>

text \<open>
  The requests of \<open>api/openai/v1\<close> with their accessors \<open>GetModel\<close>, \<open>SetModel\<close> and
  \<open>Prefix\<close>. \<open>None\<close> is a nil pointer, slice or interface, and the collected unknown members are
  an opaque token. The JSON package is third-party.
\<close>

subsection \<open>Message contents\<close>

record image_url =
  iu_URL :: string
  iu_Detail :: string

record content_part =
  cpt_Type :: string
  cpt_Text :: string
  cpt_ImageURL :: "image_url option"

record chat_message_content =
  cmc_String :: string
  cmc_Array :: "content_part list option"

definition ChatMessageRoleUser :: string where "ChatMessageRoleUser = ''user''"
definition ChatMessagePartTypeText :: string where "ChatMessagePartTypeText = ''text''"

text \<open>\<open>UnmarshalJSON\<close> and \<open>MarshalJSON\<close> of a content, over the JSON package's functions for
  strings and for arrays of parts.\<close>

definition unmarshal_content ::
  "(string \<Rightarrow> string option) \<Rightarrow> (string \<Rightarrow> content_part list option) \<Rightarrow> string \<Rightarrow> (string, chat_message_content) outcome" where
  "unmarshal_content unm_str unm_arr data =
     (case unm_str data of
        Some s \<Rightarrow> Done \<lparr>cmc_String = s, cmc_Array = None\<rparr>
      | None \<Rightarrow> (case unm_arr data of
            Some arr \<Rightarrow> Done \<lparr>cmc_String = [], cmc_Array = Some arr\<rparr>
          | None \<Rightarrow> Error ''content must be either a string or an array of content parts''))"

definition marshal_content ::
  "(string \<Rightarrow> string) \<Rightarrow> (content_part list \<Rightarrow> string) \<Rightarrow> chat_message_content \<Rightarrow> (string, string) outcome" where
  "marshal_content mar_str mar_arr c =
     (if cmc_String c \<noteq> [] \<and> cmc_Array c \<noteq> None then
        Error ''ChatMessageContent: String and Array cannot be specified at the same time''
      else (case cmc_Array c of Some arr \<Rightarrow> Done (mar_arr arr) | None \<Rightarrow> Done (mar_str (cmc_String c))))"

subsection \<open>Requests\<close>

text \<open>A \<open>json_value\<close> is any JSON value, where the Go type is an interface.\<close>

record function_call =
  fc_Name :: string
  fc_Arguments :: string

record tool_call =
  tc_Index :: "int option"
  tc_ID :: string
  tc_Type :: string
  tc_Function :: function_call

record audio_response =
  ar_ID :: string
  ar_ExpiresAt :: int
  ar_Data :: string
  ar_Transcript :: string

record chat_message =
  cm_Role :: string
  cm_Content :: "chat_message_content option"
  cm_Refusal :: string
  cm_Name :: string
  cm_FunctionCall :: "function_call option"
  cm_ToolCalls :: "tool_call list option"
  cm_ToolCallID :: string
  cm_Audio :: "audio_response option"

record response_format_schema =
  rfs_Name :: string
  rfs_Description :: string
  rfs_Schema :: json_value
  rfs_Strict :: bool

record response_format =
  rf_Type :: string
  rf_JSONSchema :: "response_format_schema option"

record function_definition =
  fd_Name :: string
  fd_Description :: string
  fd_Strict :: bool
  fd_Parameters :: json_value

record tool =
  tl_Type :: string
  tl_Function :: "function_definition option"

record prediction_content =
  pc_Type :: string
  pc_Content :: json_value

record audio_config =
  ac_Voice :: string
  ac_Format :: string

text \<open>\<open>float32\<close> values are rationals; \<open>StreamOptions\<close> is its one field \<open>IncludeUsage\<close>.\<close>

record chat_completion_request =
  cc_Model :: string
  cc_Messages :: "chat_message list"
  cc_MaxTokens :: int
  cc_MaxCompletionTokens :: int
  cc_Temperature :: "rat option"
  cc_TopP :: "rat option"
  cc_N :: "int option"
  cc_Stream :: bool
  cc_Stop :: "string list"
  cc_PresencePenalty :: "rat option"
  cc_ResponseFormat :: "response_format option"
  cc_Seed :: "int option"
  cc_FrequencyPenalty :: "rat option"
  cc_LogitBias :: "(string, int) gomap"
  cc_LogProbs :: bool
  cc_TopLogProbs :: "int option"
  cc_User :: string
  cc_Functions :: "function_definition list"
  cc_FunctionCall :: "json_value option"
  cc_Tools :: "tool list"
  cc_ToolChoice :: "json_value option"
  cc_StreamOptions :: "bool option"
  cc_ParallelToolCalls :: "bool option"
  cc_Store :: bool
  cc_ReasoningEffort :: string
  cc_Metadata :: "(string, string) gomap"
  cc_ServiceTier :: string
  cc_Modalities :: "string list"
  cc_Prediction :: "prediction_content option"
  cc_Audio :: "audio_config option"
  cc_Unknown :: opaque

text \<open>A prompt is any JSON value, or a slice of strings that a program built.\<close>

datatype prompt = PromptJSON json_value | PromptStrings "string list"

record completion_request =
  cr_Model :: string
  cr_Prompt :: prompt
  cr_BestOf :: "int option"
  cr_Echo :: bool
  cr_FrequencyPenalty :: "rat option"
  cr_LogitBias :: "(string, int) gomap"
  cr_Store :: bool
  cr_Metadata :: "(string, string) gomap"
  cr_LogProbs :: "int option"
  cr_MaxTokens :: int
  cr_N :: "int option"
  cr_PresencePenalty :: "rat option"
  cr_Seed :: "int option"
  cr_Stop :: "string list"
  cr_Stream :: bool
  cr_Suffix :: string
  cr_Temperature :: "rat option"
  cr_TopP :: "rat option"
  cr_User :: string
  cr_Unknown :: opaque

record embedding_request =
  em_Input :: json_value
  em_Model :: string
  em_User :: string
  em_EncodingFormat :: string
  em_Dimensions :: int
  em_Unknown :: opaque

record rerank_request =
  rr_Query :: string
  rr_Documents :: "string list"
  rr_Model :: string
  rr_TopN :: int
  rr_Unknown :: opaque

record responses_input_item =
  ri_Type :: string
  ri_Role :: string
  ri_Content :: "chat_message_content option"
  ri_Unknown :: opaque

record responses_input =
  rsi_String :: string
  rsi_Array :: "responses_input_item list option"

definition unmarshal_input ::
  "(string \<Rightarrow> string option) \<Rightarrow> (string \<Rightarrow> responses_input_item list option) \<Rightarrow> string \<Rightarrow> responses_input
     \<Rightarrow> (string, responses_input) outcome" where
  "unmarshal_input unm_str unm_arr data r =
     (case unm_str data of
        Some s \<Rightarrow> Done (r\<lparr>rsi_String := s\<rparr>)
      | None \<Rightarrow> (case unm_arr data of
            Some arr \<Rightarrow> Done (r\<lparr>rsi_Array := Some arr\<rparr>)
          | None \<Rightarrow> Error ''input must be a string or an array of input items''))"

definition marshal_input ::
  "(string \<Rightarrow> string) \<Rightarrow> (responses_input_item list \<Rightarrow> string) \<Rightarrow> responses_input \<Rightarrow> string" where
  "marshal_input mar_str mar_arr r =
     (case rsi_Array r of Some arr \<Rightarrow> mar_arr arr | None \<Rightarrow> mar_str (rsi_String r))"

record responses_request =
  rs_Model :: string
  rs_Input :: responses_input
  rs_Instructions :: string
  rs_PreviousResponseID :: string
  rs_MaxOutputTokens :: "int option"
  rs_Stream :: bool
  rs_Temperature :: "rat option"
  rs_TopP :: "rat option"
  rs_User :: string
  rs_Metadata :: "(string, string) gomap"
  rs_Store :: bool
  rs_Unknown :: opaque

text \<open>The interface \<open>modelRequest\<close> of \<open>internal/apiutils\<close> and its implementations.\<close>

datatype model_request =
    ReqCompletion completion_request
  | ReqChat chat_completion_request
  | ReqEmbedding embedding_request
  | ReqRerank rerank_request
  | ReqResponses responses_request

fun GetModel :: "model_request \<Rightarrow> string" where
  "GetModel (ReqCompletion r) = cr_Model r"
| "GetModel (ReqChat r) = cc_Model r"
| "GetModel (ReqEmbedding r) = em_Model r"
| "GetModel (ReqRerank r) = rr_Model r"
| "GetModel (ReqResponses r) = rs_Model r"

fun SetModel :: "string \<Rightarrow> model_request \<Rightarrow> model_request" where
  "SetModel m (ReqCompletion r) = ReqCompletion (r\<lparr>cr_Model := m\<rparr>)"
| "SetModel m (ReqChat r) = ReqChat (r\<lparr>cc_Model := m\<rparr>)"
| "SetModel m (ReqEmbedding r) = ReqEmbedding (r\<lparr>em_Model := m\<rparr>)"
| "SetModel m (ReqRerank r) = ReqRerank (r\<lparr>rr_Model := m\<rparr>)"
| "SetModel m (ReqResponses r) = ReqResponses (r\<lparr>rs_Model := m\<rparr>)"

subsection \<open>Prefixes\<close>

text \<open>\<open>ChatCompletionRequest.Prefix\<close>: the first user message. Its content may be a nil pointer.\<close>

fun chat_prefix_text :: "chat_message list \<Rightarrow> (unit, string option) outcome" where
  "chat_prefix_text [] = Done None"
| "chat_prefix_text (m # ms) =
     (if cm_Role m = ChatMessageRoleUser then
        (case cm_Content m of
           None \<Rightarrow> Panic ''nil pointer dereference''
         | Some c \<Rightarrow>
             (case cmc_Array c of
                Some (p # ps) \<Rightarrow> Done (Some (concat (map cpt_Text (p # ps))))
              | _ \<Rightarrow> Done (Some (cmc_String c))))
      else chat_prefix_text ms)"

definition chat_Prefix :: "chat_completion_request \<Rightarrow> int \<Rightarrow> (unit, string) outcome" where
  "chat_Prefix r n =
     outcome_bind (chat_prefix_text (cc_Messages r)) (\<lambda>t.
       case t of None \<Rightarrow> Done [] | Some s \<Rightarrow> firstNChars s n)"

definition prompt0 :: "completion_request \<Rightarrow> string" where
  "prompt0 r =
     (case cr_Prompt r of
        PromptJSON (JStr p) \<Rightarrow> p
      | PromptStrings [] \<Rightarrow> []
      | PromptStrings (p # ps) \<Rightarrow> p
      | PromptJSON (JArr (JStr p # vs)) \<Rightarrow> p
      | _ \<Rightarrow> [])"

definition completion_Prefix :: "completion_request \<Rightarrow> int \<Rightarrow> (unit, string) outcome" where
  "completion_Prefix r n = firstNChars (prompt0 r) n"

text \<open>The first text part of a list of parts.\<close>

fun first_text_part :: "content_part list \<Rightarrow> string option" where
  "first_text_part [] = None"
| "first_text_part (p # ps) = (if cpt_Type p = ChatMessagePartTypeText then Some (cpt_Text p) else first_text_part ps)"

fun responses_item_text :: "responses_input_item list \<Rightarrow> string option" where
  "responses_item_text [] = None"
| "responses_item_text (it # its) =
     (case ri_Content it of
        None \<Rightarrow> responses_item_text its
      | Some c \<Rightarrow>
          (if ri_Role it = ''user'' then
             (if cmc_String c \<noteq> [] then Some (cmc_String c)
              else (case first_text_part (case cmc_Array c of None \<Rightarrow> [] | Some ps \<Rightarrow> ps) of
                      Some t \<Rightarrow> Some t
                    | None \<Rightarrow> responses_item_text its))
           else responses_item_text its))"

definition responses_Prefix :: "responses_request \<Rightarrow> int \<Rightarrow> (unit, string) outcome" where
  "responses_Prefix r n =
     (if rsi_String (rs_Input r) \<noteq> [] then firstNChars (rsi_String (rs_Input r)) n
      else (case responses_item_text (case rsi_Array (rs_Input r) of None \<Rightarrow> [] | Some its \<Rightarrow> its) of
              Some t \<Rightarrow> firstNChars t n
            | None \<Rightarrow> Done []))"

text \<open>\<open>Prefix\<close> where the request implements \<open>inferenceRequest\<close>; \<open>None\<close> where it does not.\<close>

fun request_Prefix :: "model_request \<Rightarrow> (int \<Rightarrow> (unit, string) outcome) option" where
  "request_Prefix (ReqCompletion r) = Some (completion_Prefix r)"
| "request_Prefix (ReqChat r) = Some (chat_Prefix r)"
| "request_Prefix (ReqResponses r) = Some (responses_Prefix r)"
| "request_Prefix _ = None"

subsection \<open>Facts about accessors and prefixes\<close>

lemma GetModel_SetModel [simp]: "GetModel (SetModel m r) = m"
  by (cases r) simp_all

lemma SetModel_GetModel [simp]: "SetModel (GetModel r) r = r"
  by (cases r) simp_all

lemma SetModel_SetModel [simp]: "SetModel m (SetModel m' r) = SetModel m r"
  by (cases r) simp_all

text \<open>Changing the model does not change the prefix.\<close>

lemma request_Prefix_SetModel [simp]: "request_Prefix (SetModel m r) = request_Prefix r"
  by (cases r) (simp_all add: fun_eq_iff completion_Prefix_def prompt0_def chat_Prefix_def responses_Prefix_def)

lemma str_runes_Nil [simp]: "str_runes [] = []"
  by (simp add: str_runes_def)

lemma chat_prefix_text_cases: "(\<exists>t. chat_prefix_text ms = Done t) \<or> chat_prefix_text ms = Panic ''nil pointer dereference''"
  by (induction ms) (auto split: option.splits list.splits)

lemma prefix_length:
  assumes "request_Prefix r = Some f" "0 \<le> n" "f n = Done p"
  shows "length (str_runes p) \<le> nat n"
proof -
  have first: "length (str_runes q) \<le> nat n" if "firstNChars s n = Done q" for s q
    using firstNChars_runes [OF assms(2), of s] that by auto
  consider r' where "r = ReqCompletion r'" | r' where "r = ReqChat r'" | r' where "r = ReqResponses r'"
    using assms(1) by (cases r) auto
  then show ?thesis
    using assms(1,3) first
    by cases (auto simp: completion_Prefix_def chat_Prefix_def responses_Prefix_def outcome_bind_eq_Done
        split: option.splits if_splits)
qed

end
