(* ===== verification/Api_Request.thy ===== *)
theory Api_Request
  imports Openai_Types Model_Client Go_Values
begin

section \<open>Parsing API requests\<close>

text \<open>
  \<open>internal/apiutils\<close>: model and adapter names, and \<open>ParseRequest\<close>, which reads a request
  body, finds the Model it asks for and prepares the body that is sent to the backend. What
  the HTTP server delivers (headers, the bytes of the body, the parts of a multipart form) is
  an input; the decoders and encoders of the request types, the multipart writer,
  \<open>mime.ParseMediaType\<close> and the table of \<open>strconv.IsPrint\<close> are parameters.
\<close>

subsection \<open>Model and adapter names\<close>

definition adapterSeparator :: char where "adapterSeparator = CHR ''_''"

definition SplitModelAdapter :: "string \<Rightarrow> string \<times> string" where
  "SplitModelAdapter s =
     (case str_split_n2 adapterSeparator s of
        [a] \<Rightarrow> (a, [])
      | a # b # _ \<Rightarrow> (a, b)
      | [] \<Rightarrow> ([], []))"

definition MergeModelAdapter :: "string \<Rightarrow> string \<Rightarrow> string" where
  "MergeModelAdapter m a = (if a = [] then m else m @ [adapterSeparator] @ a)"

lemma Split_cut: "SplitModelAdapter s = (case str_cut adapterSeparator s of (a, b, found) \<Rightarrow> if found then (a, b) else (a, []))"
  by (simp add: SplitModelAdapter_def str_split_n2_def case_prod_beta)

subsection \<open>Requests\<close>

datatype api_error = ErrBadRequest string | ErrModelNotFound string | ErrOther string

record api_request =
  rq_Body :: "string option"
  rq_modelRequest :: "model_request option"
  rq_Selectors :: "string list"
  rq_ID :: string
  rq_RequestedModel :: string
  rq_Model :: string
  rq_AdapterName :: string
  rq_LB :: load_balancing
  rq_PrefixText :: string
  rq_ContentLength :: int

definition no_lb :: load_balancing where
  "no_lb = \<lparr>lb_Strategy = [], lb_PrefixHash = \<lparr>ph_MeanLoadPercentage = 0, ph_Replication = 0, ph_PrefixCharLength = 0\<rparr>\<rparr>"

definition new_request :: "string \<Rightarrow> string list \<Rightarrow> api_request" where
  "new_request uuid sels = \<lparr>rq_Body = None, rq_modelRequest = None, rq_Selectors = sels, rq_ID = uuid,
     rq_RequestedModel = [], rq_Model = [], rq_AdapterName = [], rq_LB = no_lb, rq_PrefixText = [], rq_ContentLength = 0\<rparr>"

text \<open>The libraries: one decoder and one encoder per request type, chosen by the path.\<close>

record codec =
  cd_unmarshal :: "string \<Rightarrow> string \<Rightarrow> (string, model_request) outcome"  \<comment> \<open>path, bytes\<close>
  cd_marshal :: "model_request \<Rightarrow> (string, string) outcome"
  cd_media_type :: "string \<Rightarrow> (string, string \<times> (string, string) gomap) outcome"
  cd_write_form :: "string \<Rightarrow> (string \<times> string) list \<Rightarrow> (string, string) outcome"  \<comment> \<open>boundary, parts\<close>
  cd_print :: "nat \<Rightarrow> bool"

text \<open>The parts of a form as the reader delivers them: form name and content, then the end of
  the body or an error; a part may fail while its content is read.\<close>

datatype form_item = FormPart string "(string, string) outcome" | FormError string

record http_input =
  hi_path :: string
  hi_headers :: "(string, string list) gomap"
  hi_body :: "(string, string) outcome"
  hi_form :: "form_item list"

definition header_Values :: "(string, string list) gomap \<Rightarrow> string \<Rightarrow> string list" where
  "header_Values h k = gm_get [] h k"

definition header_Get :: "(string, string list) gomap \<Rightarrow> string \<Rightarrow> string" where
  "header_Get h k = (case gm_get [] h k of [] \<Rightarrow> [] | v # _ \<Rightarrow> v)"

subsection \<open>Reading the body\<close>

definition known_paths :: "string list" where
  "known_paths = [''/v1/completions'', ''/v1/chat/completions'', ''/v1/embeddings'', ''/v1/rerank'', ''/v1/responses'']"

definition set_body :: "string \<Rightarrow> api_request \<Rightarrow> api_request" where
  "set_body b r = r\<lparr>rq_Body := Some b, rq_ContentLength := int (length b)\<rparr>"

definition readJSONBody :: "codec \<Rightarrow> http_input \<Rightarrow> api_request \<Rightarrow> (string, api_request) outcome" where
  "readJSONBody cd inp r =
     (if hi_path inp \<notin> set known_paths then Error (''unknown path: '' @ go_quote (cd_print cd) (hi_path inp))
      else (case hi_body inp of
          Error e \<Rightarrow> Error (''reading: '' @ e)
        | Panic e \<Rightarrow> Panic e
        | Done raw \<Rightarrow>
            (case cd_unmarshal cd (hi_path inp) raw of
               Error e \<Rightarrow> Error (''decoding: '' @ e)
             | Panic e \<Rightarrow> Panic e
             | Done mr \<Rightarrow>
                 (if GetModel mr = [] then Error ''missing 'model' field''
                  else (let (m, a) = SplitModelAdapter (GetModel mr);
                            r = r\<lparr>rq_RequestedModel := GetModel mr, rq_Model := m, rq_AdapterName := a\<rparr>
                        in if a \<noteq> [] then
                             (case cd_marshal cd (SetModel a mr) of
                                Error e \<Rightarrow> Error (''remarshalling: '' @ e)
                              | Panic e \<Rightarrow> Panic e
                              | Done b \<Rightarrow> Done (set_body b (r\<lparr>rq_modelRequest := Some (SetModel a mr)\<rparr>)))
                           else Done (set_body raw (r\<lparr>rq_modelRequest := Some mr\<rparr>)))))))"

text \<open>The loop over the parts: a part named \<open>model\<close> is consumed, any other is copied.\<close>

fun read_parts :: "form_item list \<Rightarrow> api_request \<Rightarrow> (string \<times> string) list \<Rightarrow> (string, api_request \<times> (string \<times> string) list) outcome" where
  "read_parts [] r out = Done (r, out)"
| "read_parts (FormError e # ps) r out = Error (''interating over multipart form: '' @ e)"
| "read_parts (FormPart name v # ps) r out =
     (if name = ''model'' then
        (case v of
           Done value \<Rightarrow>
             (let (m, a) = SplitModelAdapter value
              in read_parts ps (r\<lparr>rq_Model := m, rq_AdapterName := a, rq_RequestedModel := value\<rparr>) out)
         | Error e \<Rightarrow> Error (''reading multipart form value: '' @ e)
         | Panic e \<Rightarrow> Panic e)
      else (case v of
           Done value \<Rightarrow> read_parts ps r (out @ [(name, value)])
         | Error e \<Rightarrow> Error (''copying part: '' @ e)
         | Panic e \<Rightarrow> Panic e))"

definition readyMultiPartBody :: "codec \<Rightarrow> http_input \<Rightarrow> (string, string) gomap \<Rightarrow> api_request \<Rightarrow> (string, api_request) outcome" where
  "readyMultiPartBody cd inp params r =
     (let boundary = gm_get [] params ''boundary''
      in if boundary = [] then Error ''no boundary specified in multipart form data''
         else outcome_bind (read_parts (hi_form inp) r []) (\<lambda>(r, out).
           case cd_write_form cd boundary out of
             Error e \<Rightarrow> Error (''closing multipart writer: '' @ e)
           | Panic e \<Rightarrow> Panic e
           | Done b \<Rightarrow> Done (set_body b r)))"

subsection \<open>Looking the Model up and parsing a request\<close>

type_synonym lookup_fn = "string \<Rightarrow> string \<Rightarrow> string list \<Rightarrow> (string, model option) outcome"

definition lookupModel :: "(nat \<Rightarrow> bool) \<Rightarrow> lookup_fn \<Rightarrow> api_request \<Rightarrow> (api_error, api_request) outcome" where
  "lookupModel pr lookup r =
     (case lookup (rq_Model r) (rq_AdapterName r) (rq_Selectors r) of
        Error e \<Rightarrow> Error (ErrOther (''lookup model: '' @ e))
      | Panic e \<Rightarrow> Panic e
      | Done None \<Rightarrow> Error (ErrModelNotFound (go_quote pr (rq_RequestedModel r)))
      | Done (Some m) \<Rightarrow>
          (let lb = ms_LoadBalancing (md_spec m); r = r\<lparr>rq_LB := lb\<rparr>
           in case Option.bind (rq_modelRequest r) request_Prefix of
                None \<Rightarrow> Done r
              | Some f \<Rightarrow>
                  (if lb_Strategy lb = PrefixHashStrategy then
                     (case f (ph_PrefixCharLength (lb_PrefixHash lb)) of
                        Done p \<Rightarrow> Done (r\<lparr>rq_PrefixText := p\<rparr>)
                      | Error e \<Rightarrow> Panic []
                      | Panic e \<Rightarrow> Panic e)
                   else Done r)))"

fun bad_request :: "string \<Rightarrow> (string, 'a) outcome \<Rightarrow> (api_error, 'a) outcome" where
  "bad_request what (Done x) = Done x"
| "bad_request what (Error e) = Error (ErrBadRequest (what @ e))"
| "bad_request what (Panic e) = Panic e"

definition ParseRequest :: "codec \<Rightarrow> lookup_fn \<Rightarrow> string \<Rightarrow> http_input \<Rightarrow> (api_error, api_request) outcome" where
  "ParseRequest cd lookup uuid inp =
     (let r = new_request uuid (header_Values (hi_headers inp) ''X-Label-Selector'');
          ct = header_Get (hi_headers inp) ''Content-Type''
      in outcome_bind
           (if ct = [] then Done (''application/json'', []) else bad_request ''parse media type: '' (cd_media_type cd ct))
           (\<lambda>(mediaType, mediaParams).
              outcome_bind
                (if mediaType = ''multipart/form-data''
                 then bad_request ''reading multipart form data: '' (readyMultiPartBody cd inp mediaParams r)
                 else bad_request ''reading model from body: '' (readJSONBody cd inp r))
                (lookupModel (cd_print cd) lookup)))"

subsection \<open>The interface of the lookup\<close>

text \<open>
  What \<open>ParseRequest\<close> and the proxy rely on when \<open>ModelClient.LookupModel\<close> returns a Model: it
  is the Model of that name and it has the adapter.
\<close>

locale model_lookup =
  fixes lookup :: lookup_fn
  assumes lookup_name: "lookup name a sels = Done (Some m) \<Longrightarrow> md_name m = name"
    and lookup_adapter: "lookup name a sels = Done (Some m) \<Longrightarrow> a \<noteq> [] \<Longrightarrow> a \<in> ad_Name ` set (adapters_of (md_spec m))"
begin

lemma lookupModel_model:
  assumes "lookupModel pr lookup r = Done r'"
  shows "\<exists>m. md_name m = rq_Model r' \<and> rq_LB r' = ms_LoadBalancing (md_spec m)
    \<and> (rq_AdapterName r' = [] \<or> rq_AdapterName r' \<in> ad_Name ` set (adapters_of (md_spec m)))"
proof -
  obtain m where m: "lookup (rq_Model r) (rq_AdapterName r) (rq_Selectors r) = Done (Some m)"
    using assms by (auto simp: lookupModel_def split: outcome.splits option.splits)
  then have "rq_Model r' = rq_Model r \<and> rq_AdapterName r' = rq_AdapterName r \<and> rq_LB r' = ms_LoadBalancing (md_spec m)"
    using assms by (auto simp: lookupModel_def Let_def split: outcome.splits option.splits if_splits)
  with lookup_name [OF m] lookup_adapter [OF m] show ?thesis by auto
qed

end

text \<open>The API server's Get by name on the Models of the namespace.\<close>

definition api_get :: "model list \<Rightarrow> string \<Rightarrow> model api" where
  "api_get ms name = (case List.find (\<lambda>m. md_name m = name) ms of None \<Rightarrow> ApiNotFound | Some m \<Rightarrow> ApiOk m)"

lemma api_get_name: "api_get ms name = ApiOk m \<Longrightarrow> m \<in> set ms \<and> md_name m = name"
  by (auto simp: api_get_def dest: find_SomeD split: option.splits)

lemma LookupModel_found_parts:
  assumes "LookupModel parse get name adapter sels = Done (Some m)"
  shows "get name = ApiOk m" "adapter \<noteq> [] \<Longrightarrow> adapter \<in> ad_Name ` set (adapters_of (md_spec m))"
  using assms by (auto simp: LookupModel_def outcome_bind_eq_Done find_adapter_iff split: api.splits if_splits)

interpretation client_lookup: model_lookup "LookupModel parse (api_get ms)" for parse ms
  using LookupModel_found_parts api_get_name by unfold_locales blast+

subsection \<open>What parsing does\<close>

lemma bad_request_eq_Done: "bad_request w r = Done x \<longleftrightarrow> r = Done x"
  by (cases r) simp_all

lemma ParseRequest_Done:
  assumes "ParseRequest cd lookup uuid inp = Done r"
  obtains r0 params where "lookupModel (cd_print cd) lookup r0 = Done r"
    "readyMultiPartBody cd inp params (new_request uuid (header_Values (hi_headers inp) ''X-Label-Selector'')) = Done r0
     \<or> readJSONBody cd inp (new_request uuid (header_Values (hi_headers inp) ''X-Label-Selector'')) = Done r0"
proof -
  let ?r = "new_request uuid (header_Values (hi_headers inp) ''X-Label-Selector'')"
  obtain mt mp where "outcome_bind
      (if mt = ''multipart/form-data''
       then bad_request ''reading multipart form data: '' (readyMultiPartBody cd inp mp ?r)
       else bad_request ''reading model from body: '' (readJSONBody cd inp ?r)) (lookupModel (cd_print cd) lookup) = Done r"
    using assms unfolding ParseRequest_def Let_def outcome_bind_eq_Done by (auto simp: outcome_bind_eq_Done)
  then obtain r0 where "(if mt = ''multipart/form-data''
       then bad_request ''reading multipart form data: '' (readyMultiPartBody cd inp mp ?r)
       else bad_request ''reading model from body: '' (readJSONBody cd inp ?r)) = Done r0" "lookupModel (cd_print cd) lookup r0 = Done r"
    unfolding outcome_bind_eq_Done by blast
  then show thesis by (intro that [of r0 mp]) (auto simp: bad_request_eq_Done split: if_splits)
qed



lemma readyMultiPartBody_Done:
  assumes "readyMultiPartBody cd inp params r = Done r'"
  shows "\<exists>b. rq_Body r' = Some b \<and> rq_ContentLength r' = int (length b)"
proof -
  obtain ro out where "(case cd_write_form cd (gm_get [] params ''boundary'') out of
      Error e \<Rightarrow> Error (''closing multipart writer: '' @ e) | Panic e \<Rightarrow> Panic e | Done b \<Rightarrow> Done (set_body b ro)) = Done r'"
    using assms by (auto simp: readyMultiPartBody_def outcome_bind_eq_Done Let_def split: if_splits)
  then show ?thesis by (auto simp: set_body_def split: outcome.splits)
qed

text \<open>The parts that are not the model, in order, with the model of the last part that is.\<close>

fun copied_parts :: "form_item list \<Rightarrow> (string \<times> string) list" where
  "copied_parts [] = []"
| "copied_parts (FormPart n (Done v) # ps) = (if n = ''model'' then copied_parts ps else (n, v) # copied_parts ps)"
| "copied_parts (_ # ps) = copied_parts ps"

lemma read_parts_out: "read_parts ps r out = Done (r', out') \<Longrightarrow> out' = out @ copied_parts ps"
proof (induction ps arbitrary: r out)
  case (Cons p ps)
  show ?case
  proof (cases p)
    case (FormPart name v)
    with Cons.prems show ?thesis by (cases v) (auto simp: case_prod_beta dest!: Cons.IH split: if_splits)
  qed (use Cons.prems in simp)
qed simp

subsection \<open>Properties\<close>

text \<open>A model name without the separator and an adapter name survive being merged and split.\<close>

theorem Split_Merge:
  assumes "adapterSeparator \<notin> set m"
  shows "SplitModelAdapter (MergeModelAdapter m a) = (m, a)"
  using assms by (auto simp: Split_cut MergeModelAdapter_def str_cut_append str_cut_none)

theorem Split_Merge_witness: "SplitModelAdapter (MergeModelAdapter ''llama-3'' ''my_lora'') = (''llama-3'', ''my_lora'')"
  by (rule Split_Merge) (simp add: adapterSeparator_def)


definition demo_codec :: codec where
  "demo_codec = \<lparr>cd_unmarshal = (\<lambda>p b. Done (ReqRerank \<lparr>rr_Query = [], rr_Documents = [], rr_Model = b, rr_TopN = 0, rr_Unknown = []\<rparr>)),
     cd_marshal = (\<lambda>r. Done (GetModel r)), cd_media_type = (\<lambda>t. Done (t, [])), cd_write_form = (\<lambda>b ps. Done []), cd_print = (\<lambda>r. False)\<rparr>"

definition demo_model_x :: model where
  "demo_model_x = (default_model ''m'')\<lparr>md_spec := default_spec\<lparr>ms_Adapters := Some [\<lparr>ad_Name = ''x'', ad_URL = []\<rparr>]\<rparr>\<rparr>"

definition demo_input :: http_input where
  "demo_input = \<lparr>hi_path = ''/v1/rerank'', hi_headers = [], hi_body = Done ''m_x'', hi_form = []\<rparr>"

lemma demo_parse:
  "\<exists>r. ParseRequest demo_codec (LookupModel never_parse (api_get [demo_model_x])) [] demo_input = Done r
     \<and> rq_AdapterName r = ''x'' \<and> rq_Model r = ''m'' \<and> rq_Body r = Some ''x''"
proof -
  have "(case ParseRequest demo_codec (LookupModel never_parse (api_get [demo_model_x])) [] demo_input of
      Done r \<Rightarrow> rq_AdapterName r = ''x'' \<and> rq_Model r = ''m'' \<and> rq_Body r = Some ''x'' | _ \<Rightarrow> False)"
    by code_simp
  then show ?thesis by (auto split: outcome.splits)
qed


text \<open>What a parsed request refers to. The Model is one of the API server's, with the adapter
  asked for, and the request takes its load-balancing settings.\<close>

theorem ParseRequest_model:
  assumes "ParseRequest cd (LookupModel parse (api_get ms)) uuid inp = Done r"
  shows "\<exists>m. md_name m = rq_Model r \<and> rq_LB r = ms_LoadBalancing (md_spec m)
    \<and> (rq_AdapterName r = [] \<or> rq_AdapterName r \<in> ad_Name ` set (adapters_of (md_spec m)))"
  using ParseRequest_Done [OF assms] client_lookup.lookupModel_model by metis

theorem ParseRequest_model_witness:
  "\<exists>m. md_name m = ''m'' \<and> ''x'' \<in> ad_Name ` set (adapters_of (md_spec m))"
proof -
  obtain r where r: "ParseRequest demo_codec (LookupModel never_parse (api_get [demo_model_x])) [] demo_input = Done r"
    "rq_AdapterName r = ''x''" "rq_Model r = ''m''" using demo_parse by blast
  from ParseRequest_model [OF r(1)] r(2,3) show ?thesis by auto
qed

text \<open>Parsing panics only in the prefix of an inference request: a Model that uses prefix
  hashing, and a first user message without content or a negative prefix length.\<close>

theorem ParseRequest_chat_panics:
  assumes "cd_unmarshal cd ''/v1/chat/completions'' raw = Done (ReqChat c)" "hi_path inp = ''/v1/chat/completions''"
    and "header_Get (hi_headers inp) ''Content-Type'' = []" "hi_body inp = Done raw"
    and "cc_Model c = name" "name \<noteq> []" "adapterSeparator \<notin> set name"
    and "lookup name [] (header_Values (hi_headers inp) ''X-Label-Selector'') = Done (Some m)"
    and "lb_Strategy (ms_LoadBalancing (md_spec m)) = PrefixHashStrategy"
    and "cc_Messages c = msg # msgs" "cm_Role msg = ChatMessageRoleUser" "cm_Content msg = None"
  shows "is_panic (ParseRequest cd lookup uuid inp)"
  using assms
  by (simp add: ParseRequest_def readJSONBody_def known_paths_def Split_cut str_cut_none set_body_def lookupModel_def
      new_request_def chat_Prefix_def)

definition null_content_chat :: chat_completion_request where
  "null_content_chat = \<lparr>cc_Model = ''m'', cc_Messages = [\<lparr>cm_Role = ''user'', cm_Content = None, cm_Refusal = [], cm_Name = [],
       cm_FunctionCall = None, cm_ToolCalls = None, cm_ToolCallID = [], cm_Audio = None\<rparr>],
     cc_MaxTokens = 0, cc_MaxCompletionTokens = 0, cc_Temperature = None, cc_TopP = None, cc_N = None, cc_Stream = False,
     cc_Stop = [], cc_PresencePenalty = None, cc_ResponseFormat = None, cc_Seed = None, cc_FrequencyPenalty = None,
     cc_LogitBias = [], cc_LogProbs = False, cc_TopLogProbs = None, cc_User = [], cc_Functions = [], cc_FunctionCall = None,
     cc_Tools = [], cc_ToolChoice = None, cc_StreamOptions = None, cc_ParallelToolCalls = None, cc_Store = False,
     cc_ReasoningEffort = [], cc_Metadata = [], cc_ServiceTier = [], cc_Modalities = [], cc_Prediction = None, cc_Audio = None, cc_Unknown = []\<rparr>"

definition prefix_model :: model where
  "prefix_model = (default_model ''m'')\<lparr>md_spec := default_spec\<lparr>ms_LoadBalancing := default_lb\<lparr>lb_Strategy := PrefixHashStrategy\<rparr>\<rparr>\<rparr>"

theorem ParseRequest_chat_panics_witness:
  "is_panic (ParseRequest (demo_codec\<lparr>cd_unmarshal := \<lambda>p b. Done (ReqChat null_content_chat)\<rparr>)
     (LookupModel never_parse (api_get [prefix_model])) []
     (demo_input\<lparr>hi_path := ''/v1/chat/completions''\<rparr>))"
proof (rule ParseRequest_chat_panics [where c = null_content_chat and m = prefix_model and raw = "''m_x''" and name = "''m''"
      and msgs = "[]" and msg = "hd (cc_Messages null_content_chat)"])
  show "LookupModel never_parse (api_get [prefix_model]) ''m'' []
      (header_Values (hi_headers (demo_input\<lparr>hi_path := ''/v1/chat/completions''\<rparr>)) ''X-Label-Selector'') = Done (Some prefix_model)"
    by (simp add: demo_input_def header_Values_def gm_get_def LookupModel_def api_get_def prefix_model_def default_model_def empty_meta_def)
qed (simp_all add: demo_input_def header_Get_def gm_get_def null_content_chat_def adapterSeparator_def prefix_model_def
    ChatMessageRoleUser_def)

text \<open>The prefix used for hashing has at most the configured number of characters, counted in
  runes, and is cut at a rune boundary.\<close>

theorem firstNChars_prefix:
  assumes "0 \<le> n"
  shows "\<exists>p. firstNChars s n = Done p \<and> str_runes p = take (nat n) (str_runes s)"
  using firstNChars_runes [OF assms] .

theorem firstNChars_prefix_witness: "\<exists>p. firstNChars ''hello'' 3 = Done p \<and> length (str_runes p) = 3"
proof -
  have "length (str_runes ''hello'') = 5" by code_simp
  then show ?thesis using firstNChars_prefix [of 3 "''hello''"] by auto
qed

end
