(* ===== verification/Model_Proxy.thy ===== *)
theory Model_Proxy
  imports Api_Request
begin

section \<open>The HTTP proxy\<close>

text \<open>
  \<open>internal/modelproxy\<close>: a request is parsed, its Model is scaled to at least one replica, an
  endpoint is awaited and the request is sent there, with retries. What the world answers to
  the \<open>k\<close>-th attempt (the endpoint found, the backend's answer, whether the client's context
  has ended when the error handler runs) is a parameter of the run; the result is the list of
  observable events in order. \<open>httputil.ReverseProxy\<close> calls \<open>ModifyResponse\<close> on a response
  and \<open>ErrorHandler\<close> on a failed connection or an error of \<open>ModifyResponse\<close>, and copies the
  response otherwise.
\<close>

subsection \<open>Events and attempts\<close>

datatype proxy_event =
    EvMetric int string        \<comment> \<open>add to the active-requests counter of a label value\<close>
  | EvAcquire string           \<comment> \<open>an address was returned by the load balancer\<close>
  | EvSend string string       \<comment> \<open>address, body\<close>
  | EvRelease string           \<comment> \<open>the address's \<open>decrementInflight\<close>\<close>
  | EvError int string         \<comment> \<open>an error response\<close>
  | EvCopy int                 \<comment> \<open>the backend's response is copied to the client\<close>
  | EvWrite string             \<comment> \<open>a scale write\<close>

datatype await_result = AwAddr string | AwCanceled | AwDeadline | AwFail string

datatype backend_result = BkResponse int | BkFail string

record attempt_env =
  at_await :: await_result
  at_backend :: backend_result
  at_ctxDone :: bool

record handler =
  h_maxRetries :: int
  h_retryCodes :: "int list option"

definition defaultRetryCodes :: "int list" where
  "defaultRetryCodes = [500, 502, 503, 504]"

definition isRetryCode :: "handler \<Rightarrow> int \<Rightarrow> bool" where
  "isRetryCode h status =
     (case h_retryCodes h of Some codes \<Rightarrow> status \<in> set codes | None \<Rightarrow> status \<in> set defaultRetryCodes)"

text \<open>\<open>sendErrorResponse\<close>: the message of a 5xx answer is replaced by the status text (\<open>http.StatusText\<close>).\<close>

definition StatusText :: "int \<Rightarrow> string" where
  "StatusText s = (if s = 500 then ''Internal Server Error'' else if s = 502 then ''Bad Gateway''
     else if s = 504 then ''Gateway Timeout'' else [])"

definition sendErrorResponse :: "int \<Rightarrow> string \<Rightarrow> proxy_event" where
  "sendErrorResponse status msg = EvError status (if 500 \<le> status then StatusText status else msg)"

text \<open>The mutable part of \<open>proxyRequest\<close>.\<close>

record proxy_state =
  pr_attempt :: int
  pr_status :: int

subsection \<open>proxyHTTP\<close>

definition exceeded_msg :: "int \<Rightarrow> int \<Rightarrow> string" where
  "exceeded_msg attempt m = ''proxy: exceeded retries: '' @ int_str attempt @ ''/'' @ int_str m"

text \<open>The number of retries left bounds the recursion.\<close>

function proxyHTTP :: "handler \<Rightarrow> (int \<Rightarrow> attempt_env) \<Rightarrow> string \<Rightarrow> proxy_state \<Rightarrow> proxy_event list \<times> proxy_state" where
  "proxyHTTP h env body pr =
     (let e = env (pr_attempt pr);
          handle_error = (\<lambda>is_retry st.
            if \<not> at_ctxDone e \<and> pr_attempt pr < h_maxRetries h then
              proxyHTTP h env body \<lparr>pr_attempt = pr_attempt pr + 1, pr_status = st\<rparr>
            else if \<not> is_retry then ([sendErrorResponse 502 (exceeded_msg (pr_attempt pr) (h_maxRetries h))], pr\<lparr>pr_status := 502\<rparr>)
            else ([], pr\<lparr>pr_status := st\<rparr>))
      in case at_await e of
           AwCanceled \<Rightarrow> ([sendErrorResponse 500 ''request cancelled while finding host''], pr\<lparr>pr_status := 500\<rparr>)
         | AwDeadline \<Rightarrow> ([sendErrorResponse 504 ''request timeout while finding host''], pr\<lparr>pr_status := 504\<rparr>)
         | AwFail m \<Rightarrow> ([sendErrorResponse 504 (''unable to find host: '' @ m)], pr\<lparr>pr_status := 504\<rparr>)
         | AwAddr addr \<Rightarrow>
             (let (evs, pr') =
                (case at_backend e of
                   BkResponse code \<Rightarrow>
                     (if isRetryCode h code \<and> pr_attempt pr < h_maxRetries h then handle_error True code
                      else ([EvCopy code], pr\<lparr>pr_status := code\<rparr>))
                 | BkFail m \<Rightarrow> handle_error False (pr_status pr))
              in ([EvAcquire addr, EvSend addr body] @ evs @ [EvRelease addr], pr')))"
  by pat_completeness auto
termination
  by (relation "measure (\<lambda>(h, env, body, pr). nat (h_maxRetries h - pr_attempt pr))") auto

declare proxyHTTP.simps [simp del]

subsection \<open>ServeHTTP\<close>

text \<open>\<open>scale\<close> is \<open>ModelClient.ScaleAtLeastOneReplica\<close>.\<close>

definition ServeHTTP ::
  "handler \<Rightarrow> (api_error, api_request) outcome \<Rightarrow> (string \<Rightarrow> (string, unit) outcome \<times> scale_write list)
     \<Rightarrow> (int \<Rightarrow> attempt_env) \<Rightarrow> proxy_event list" where
  "ServeHTTP h parsed scale env =
     (case parsed of
        Error (ErrBadRequest e) \<Rightarrow> [sendErrorResponse 400 (''bad request: '' @ e)]
      | Error (ErrModelNotFound e) \<Rightarrow> [sendErrorResponse 404 (''model not found: '' @ e)]
      | Error (ErrOther e) \<Rightarrow> [sendErrorResponse 500 (''parsing request: '' @ e)]
      | Panic e \<Rightarrow> []
      | Done r \<Rightarrow>
          (let (out, ws) = scale (rq_Model r);
               writes = map (\<lambda>w. case w of ScaleWrite n k \<Rightarrow> EvWrite n) ws
           in [EvMetric 1 (rq_RequestedModel r)] @ writes @
              (case out of
                 Done u \<Rightarrow> fst (proxyHTTP h env (case rq_Body r of None \<Rightarrow> [] | Some b \<Rightarrow> b) \<lparr>pr_attempt = 0, pr_status = 200\<rparr>)
               | Error e \<Rightarrow> [sendErrorResponse 500 (''unable to scale model: '' @ e)]
               | Panic e \<Rightarrow> []) @
              [EvMetric (- 1) (rq_RequestedModel r)]))"

subsection \<open>One attempt at a time\<close>

definition answer :: "proxy_event \<Rightarrow> bool" where
  "answer e = (case e of EvError _ _ \<Rightarrow> True | EvCopy _ \<Rightarrow> True | _ \<Rightarrow> False)"

text \<open>The attempt is tried again.\<close>

definition retried :: "handler \<Rightarrow> attempt_env \<Rightarrow> int \<Rightarrow> bool" where
  "retried h e k \<longleftrightarrow> k < h_maxRetries h \<and> \<not> at_ctxDone e \<and>
     (case at_backend e of BkResponse c \<Rightarrow> isRetryCode h c | BkFail m \<Rightarrow> True)"

definition next_attempt :: "attempt_env \<Rightarrow> proxy_state \<Rightarrow> proxy_state" where
  "next_attempt e pr = \<lparr>pr_attempt = pr_attempt pr + 1,
     pr_status = (case at_backend e of BkResponse c \<Rightarrow> c | BkFail m \<Rightarrow> pr_status pr)\<rparr>"

lemma pr_attempt_next [simp]: "pr_attempt (next_attempt e pr) = pr_attempt pr + 1"
  by (simp add: next_attempt_def)

text \<open>What an attempt that is not tried again answers.\<close>

definition last_answer :: "handler \<Rightarrow> attempt_env \<Rightarrow> int \<Rightarrow> proxy_event list" where
  "last_answer h e k =
     (case at_backend e of
        BkFail m \<Rightarrow> [sendErrorResponse 502 (exceeded_msg k (h_maxRetries h))]
      | BkResponse c \<Rightarrow> if isRetryCode h c \<and> k < h_maxRetries h then [] else [EvCopy c])"

lemma proxyHTTP_retry:
  assumes "at_await (env (pr_attempt pr)) = AwAddr addr" "retried h (env (pr_attempt pr)) (pr_attempt pr)"
  shows "proxyHTTP h env body pr =
    (let (evs, pr') = proxyHTTP h env body (next_attempt (env (pr_attempt pr)) pr)
     in ([EvAcquire addr, EvSend addr body] @ evs @ [EvRelease addr], pr'))"
  using assms by (subst proxyHTTP.simps)
    (cases "at_backend (env (pr_attempt pr))"; simp add: retried_def next_attempt_def Let_def)

lemma proxyHTTP_last:
  assumes "at_await (env (pr_attempt pr)) = AwAddr addr" "\<not> retried h (env (pr_attempt pr)) (pr_attempt pr)"
  shows "fst (proxyHTTP h env body pr) =
    [EvAcquire addr, EvSend addr body] @ last_answer h (env (pr_attempt pr)) (pr_attempt pr) @ [EvRelease addr]"
  using assms by (subst proxyHTTP.simps)
    (cases "at_backend (env (pr_attempt pr))"; auto simp: retried_def last_answer_def Let_def)

lemma proxyHTTP_no_host:
  assumes "\<And>addr. at_await (env (pr_attempt pr)) \<noteq> AwAddr addr"
  shows "\<exists>st m. fst (proxyHTTP h env body pr) = [sendErrorResponse st m] \<and> 500 \<le> st"
  using assms by (subst proxyHTTP.simps) (cases "at_await (env (pr_attempt pr))"; auto)

text \<open>The three ways an attempt goes, as an induction over the attempts.\<close>

lemma proxyHTTP_induct [case_names no_host last retry]:
  assumes no_host: "\<And>pr. (\<And>addr. at_await (env (pr_attempt pr)) \<noteq> AwAddr addr) \<Longrightarrow> P pr"
    and last: "\<And>pr addr. at_await (env (pr_attempt pr)) = AwAddr addr \<Longrightarrow> \<not> retried h (env (pr_attempt pr)) (pr_attempt pr) \<Longrightarrow> P pr"
    and retry: "\<And>pr addr. at_await (env (pr_attempt pr)) = AwAddr addr \<Longrightarrow> retried h (env (pr_attempt pr)) (pr_attempt pr) \<Longrightarrow>
      P (next_attempt (env (pr_attempt pr)) pr) \<Longrightarrow> P pr"
  shows "P pr"
proof (induction "nat (h_maxRetries h - pr_attempt pr)" arbitrary: pr rule: less_induct)
  case less
  show ?case
  proof (cases "at_await (env (pr_attempt pr))")
    case (AwAddr addr)
    show ?thesis
    proof (cases "retried h (env (pr_attempt pr)) (pr_attempt pr)")
      case True
      show ?thesis
        by (rule retry [OF AwAddr True less]) (use True in \<open>simp add: retried_def\<close>)
    qed (rule last [OF AwAddr])
  qed (auto intro: no_host)
qed

lemma answer_simps [simp]:
  "\<not> answer (EvAcquire a)" "\<not> answer (EvSend a b)" "\<not> answer (EvRelease a)" "answer (EvError s m)" "answer (EvCopy s)"
  "\<not> answer (EvMetric k l)" "\<not> answer (EvWrite n)" "answer (sendErrorResponse st msg)"
  by (simp_all add: answer_def sendErrorResponse_def)

subsection \<open>Properties\<close>

abbreviation sends :: "proxy_event list \<Rightarrow> int" where
  "sends evs \<equiv> count_if (\<lambda>e. case e of EvSend _ _ \<Rightarrow> True | _ \<Rightarrow> False) evs"

lemma last_answer_sends [simp]: "sends (last_answer h e k) = 0"
  by (simp add: last_answer_def sendErrorResponse_def split: backend_result.split)

lemma proxy_sends:
  "sends (fst (proxyHTTP h env body pr)) \<le> max 0 (h_maxRetries h - pr_attempt pr) + 1"
proof (induction pr rule: proxyHTTP_induct [where env = env and h = h])
  case (no_host pr)
  then obtain st m where "fst (proxyHTTP h env body pr) = [sendErrorResponse st m]"
    using proxyHTTP_no_host [of env pr h body] by blast
  then show ?case by (simp add: sendErrorResponse_def)
next
  case (last pr addr)
  then show ?case by (simp add: proxyHTTP_last)
next
  case (retry pr addr)
  then show ?case by (simp add: proxyHTTP_retry case_prod_beta retried_def)
qed

text \<open>A request is sent to backends at most once more than the configured number of retries.\<close>

theorem proxy_sends_bounded:
  assumes "0 \<le> h_maxRetries h"
  shows "sends (fst (proxyHTTP h env body \<lparr>pr_attempt = 0, pr_status = 200\<rparr>)) \<le> h_maxRetries h + 1"
  using proxy_sends [of h env body "\<lparr>pr_attempt = 0, pr_status = 200\<rparr>"] assms by simp

definition demo_handler :: handler where
  "demo_handler = \<lparr>h_maxRetries = 2, h_retryCodes = None\<rparr>"

definition demo_attempts :: "int \<Rightarrow> attempt_env" where
  "demo_attempts k = \<lparr>at_await = AwAddr (''host'' @ int_str k),
     at_backend = (if k = 0 then BkResponse 503 else if k = 1 then BkFail ''refused'' else BkResponse 200), at_ctxDone = False\<rparr>"

theorem proxy_sends_bounded_witness:
  "sends (fst (proxyHTTP demo_handler demo_attempts ''body'' \<lparr>pr_attempt = 0, pr_status = 200\<rparr>)) \<le> 3"
  using proxy_sends_bounded [of demo_handler demo_attempts "''body''"] by (simp add: demo_handler_def)

text \<open>Acquired addresses are released in the opposite order, like brackets.\<close>

fun balanced :: "string list \<Rightarrow> proxy_event list \<Rightarrow> bool" where
  "balanced held [] = (held = [])"
| "balanced held (EvAcquire a # evs) = balanced (a # held) evs"
| "balanced held (EvRelease a # evs) = (case held of [] \<Rightarrow> False | b # bs \<Rightarrow> a = b \<and> balanced bs evs)"
| "balanced held (e # evs) = balanced held evs"

definition neutral :: "proxy_event \<Rightarrow> bool" where
  "neutral e = (case e of EvAcquire _ \<Rightarrow> False | EvRelease _ \<Rightarrow> False | _ \<Rightarrow> True)"

lemma balanced_neutral: "list_all neutral evs \<Longrightarrow> balanced st (evs @ rest) = balanced st rest"
proof (induction evs)
  case (Cons e evs)
  then show ?case by (cases e) (simp_all add: neutral_def)
qed simp

lemma neutral_last_answer: "list_all neutral (last_answer h e k)"
  by (simp add: last_answer_def sendErrorResponse_def neutral_def split: backend_result.split)

lemma proxy_balanced: "balanced st (fst (proxyHTTP h env body pr) @ rest) = balanced st rest"
proof (induction pr arbitrary: st rest rule: proxyHTTP_induct [where env = env and h = h])
  case (no_host pr)
  then obtain s m where "fst (proxyHTTP h env body pr) = [sendErrorResponse s m]"
    using proxyHTTP_no_host [of env pr h body] by blast
  then show ?case by (simp add: sendErrorResponse_def)
next
  case (last pr addr)
  then show ?case by (simp add: proxyHTTP_last balanced_neutral [OF neutral_last_answer])
next
  case (retry pr addr)
  then show ?case by (simp add: proxyHTTP_retry case_prod_beta)
qed

text \<open>C30: Every address the load balancer hands out for a request is released exactly once by the
  time the request is answered, whatever the backends do and however often it is retried.\<close>

theorem proxy_releases:
  "balanced [] (ServeHTTP h parsed scale env)"
proof (cases parsed)
  case (Done r)
  obtain out ws where s: "scale (rq_Model r) = (out, ws)" by force
  have w: "list_all neutral (EvMetric 1 l # map (\<lambda>w. case w of ScaleWrite n k \<Rightarrow> EvWrite n) ws)" for l
    by (simp add: neutral_def list_all_iff split: scale_write.split)
  show ?thesis
    using Done s balanced_neutral [OF w, of "[]"]
    by (cases out) (simp_all add: ServeHTTP_def proxy_balanced sendErrorResponse_def)
next
  case (Error e)
  then show ?thesis by (cases e) (simp_all add: ServeHTTP_def sendErrorResponse_def)
qed (simp add: ServeHTTP_def)

lemma proxy_answers:
  assumes "\<And>k. \<not> at_ctxDone (env k)"
  shows "count_if answer (fst (proxyHTTP h env body pr)) = 1"
proof (induction pr rule: proxyHTTP_induct [where env = env and h = h])
  case (no_host pr)
  then obtain st m where "fst (proxyHTTP h env body pr) = [sendErrorResponse st m]"
    using proxyHTTP_no_host [of env pr h body] by blast
  then show ?case by simp
next
  case (last pr addr)
  then have "count_if answer (last_answer h (env (pr_attempt pr)) (pr_attempt pr)) = 1"
    using assms [of "pr_attempt pr"] by (auto simp: last_answer_def retried_def split: backend_result.splits)
  with last show ?case by (simp add: proxyHTTP_last)
next
  case (retry pr addr)
  then show ?case by (simp add: proxyHTTP_retry case_prod_beta)
qed

text \<open>As long as its client is there, a request gets exactly one answer: an error response or
  the copy of one backend response.\<close>

theorem ServeHTTP_one_answer:
  assumes "\<And>k. \<not> at_ctxDone (env k)" "\<not> is_panic parsed" "\<And>r. \<not> is_panic (fst (scale r))"
  shows "count_if answer (ServeHTTP h parsed scale env) = 1"
proof (cases parsed)
  case (Done r)
  obtain out ws where s: "scale (rq_Model r) = (out, ws)" by force
  have w: "count_if answer (map (\<lambda>w. case w of ScaleWrite n k \<Rightarrow> EvWrite n) ws) = 0"
    by (induction ws) (simp_all split: scale_write.split)
  show ?thesis
    using Done s w proxy_answers [OF assms(1)] assms(3) [of "rq_Model r"]
    by (cases out) (simp_all add: ServeHTTP_def)
next
  case (Error e)
  then show ?thesis by (cases e) (simp_all add: ServeHTTP_def)
qed (use assms(2) in simp)

theorem ServeHTTP_one_answer_witness:
  "count_if answer (ServeHTTP demo_handler (Error (ErrBadRequest ''x'')) (\<lambda>_. (Done (), [])) demo_attempts) = 1"
  by (rule ServeHTTP_one_answer) (simp_all add: demo_attempts_def)



text \<open>The statuses of requests that are not proxied: 400 for a body that cannot be read, 404
  for a Model that does not exist, 500 otherwise, and no detail of a server error is shown.\<close>

theorem ServeHTTP_rejects:
  "ServeHTTP h (Error (ErrBadRequest e)) scale env = [EvError 400 (''bad request: '' @ e)]
   \<and> ServeHTTP h (Error (ErrModelNotFound e)) scale env = [EvError 404 (''model not found: '' @ e)]
   \<and> ServeHTTP h (Error (ErrOther e)) scale env = [EvError 500 ''Internal Server Error'']"
  by (simp add: ServeHTTP_def sendErrorResponse_def StatusText_def)

text \<open>A request whose client has gone when a retryable response arrives is answered by nothing
  at all: neither an error nor the backend's response is written.\<close>

theorem proxy_cancelled_silent:
  assumes "at_await (env 0) = AwAddr addr" "at_backend (env 0) = BkResponse c" "isRetryCode h c"
    and "at_ctxDone (env 0)" "0 < h_maxRetries h"
  shows "fst (proxyHTTP h env body \<lparr>pr_attempt = 0, pr_status = 200\<rparr>) = [EvAcquire addr, EvSend addr body, EvRelease addr]"
  using assms by (subst proxyHTTP_last) (simp_all add: retried_def last_answer_def)

theorem proxy_cancelled_silent_witness:
  "fst (proxyHTTP demo_handler (\<lambda>k. \<lparr>at_await = AwAddr ''a'', at_backend = BkResponse 503, at_ctxDone = True\<rparr>) ''b''
     \<lparr>pr_attempt = 0, pr_status = 200\<rparr>) = [EvAcquire ''a'', EvSend ''a'' ''b'', EvRelease ''a'']"
  by (rule proxy_cancelled_silent [where c = 503]) (simp_all add: demo_handler_def isRetryCode_def defaultRetryCodes_def)

end
