(* ===== verification/OpenAI_Server.thy ===== *)
theory OpenAI_Server
  imports Model_Proxy
begin

section \<open>The OpenAI server\<close>

text \<open>
  \<open>internal/openaiserver\<close>: the routes of the public server and the list of Models. The list
  of the API server for one feature label and the selectors of the request, and
  \<open>labels.Parse\<close>, are parameters.
\<close>

subsection \<open>Routes\<close>

datatype route = RouteProxy string | RouteModels | RouteNotFound

definition proxied_routes :: "string list" where
  "proxied_routes = [''/openai/v1/chat/completions'', ''/openai/v1/completions'', ''/openai/v1/embeddings'',
     ''/openai/v1/rerank'', ''/openai/v1/audio/transcriptions'', ''/openai/v1/responses'']"

text \<open>The patterns have no trailing slash, so the multiplexer matches whole paths. A proxied request
  goes on with the path that \<open>http.StripPrefix\<close> leaves.\<close>

definition NewHandler_route :: "string \<Rightarrow> route" where
  "NewHandler_route path =
     (if path \<in> set proxied_routes then RouteProxy (trim_prefix path ''/openai'')
      else if path = ''/openai/v1/models'' then RouteModels else RouteNotFound)"

definition server_error :: "int \<Rightarrow> string \<Rightarrow> int \<times> string" where
  "server_error status msg = (status, if 500 \<le> status then StatusText status else msg)"

subsection \<open>Listing\<close>

record openai_model =
  oai_ID :: string
  oai_Created :: int
  oai_Object :: string
  oai_OwnedBy :: string
  oai_Features :: "string list"

definition constructOpenAIModel :: "model \<Rightarrow> string \<Rightarrow> openai_model" where
  "constructOpenAIModel m adapter = \<lparr>oai_ID = MergeModelAdapter (md_name m) adapter, oai_Created = om_created (md_meta m),
     oai_Object = ''model'', oai_OwnedBy = ms_Owner (md_spec m), oai_Features = ms_Features (md_spec m)\<rparr>"

definition k8sModelToOpenAIModels :: "model \<Rightarrow> openai_model list" where
  "k8sModelToOpenAIModels m =
     constructOpenAIModel m [] # map (\<lambda>a. constructOpenAIModel m (ad_Name a)) (adapters_of (md_spec m))"

fun parse_label_selectors :: "(string \<Rightarrow> (string, 'sel) outcome) \<Rightarrow> string list \<Rightarrow> (string, 'sel list) outcome" where
  "parse_label_selectors parse [] = Done []"
| "parse_label_selectors parse (s # ss) =
     outcome_bind (parse s) (\<lambda>x. outcome_bind (parse_label_selectors parse ss) (\<lambda>xs. Done (x # xs)))"

text \<open>The first occurrence of each name is kept.\<close>

definition add_model :: "model list \<Rightarrow> model \<Rightarrow> model list" where
  "add_model ms m = (if md_name m \<in> md_name ` set ms then ms else ms @ [m])"

fun list_by_feature :: "(string \<Rightarrow> (string, model list) outcome) \<Rightarrow> string list \<Rightarrow> model list \<Rightarrow> (string, model list) outcome" where
  "list_by_feature list [] ms = Done ms"
| "list_by_feature list (f # fs) ms =
     outcome_bind (list (ModelFeatureLabelDomain @ ''/'' @ f)) (\<lambda>items. list_by_feature list fs (foldl add_model ms items))"

datatype listing = Listing "openai_model list" | ListingFailed int string

definition getModels ::
  "(string \<Rightarrow> (string, 'sel) outcome) \<Rightarrow> ('sel list \<Rightarrow> string \<Rightarrow> (string, model list) outcome) \<Rightarrow> string list \<Rightarrow> string list \<Rightarrow> (unit, listing) outcome" where
  "getModels parse list features selectors =
     (let features = (if features = [] then [ModelFeatureTextGeneration] else features);
          failed = (\<lambda>status msg. Done (case_prod ListingFailed (server_error status msg)))
      in case parse_label_selectors parse selectors of
           Error e \<Rightarrow> failed 400 (''failed to parse label selector: '' @ e)
         | Panic e \<Rightarrow> Panic e
         | Done sels \<Rightarrow>
             (case list_by_feature (list sels) features [] of
                Error e \<Rightarrow> failed 500 (''failed to list models: '' @ e)
              | Panic e \<Rightarrow> Panic e
              | Done ms \<Rightarrow> Done (Listing (concat (map k8sModelToOpenAIModels ms)))))"

subsection \<open>Properties\<close>

text \<open>Only the six OpenAI endpoints are forwarded to the model servers, without the prefix; no
  administrative endpoint, like the one that loads adapters, can be reached from outside.\<close>

theorem only_public_routes:
  "NewHandler_route path = RouteProxy p \<longleftrightarrow> path = ''/openai'' @ p
     \<and> p \<in> {''/v1/chat/completions'', ''/v1/completions'', ''/v1/embeddings'', ''/v1/rerank'', ''/v1/audio/transcriptions'', ''/v1/responses''}"
proof -
  have r: "set proxied_routes = (@) ''/openai'' ` {''/v1/chat/completions'', ''/v1/completions'', ''/v1/embeddings'', ''/v1/rerank'',
      ''/v1/audio/transcriptions'', ''/v1/responses''}" (is "_ = _ ` ?P") by (simp add: proxied_routes_def)
  have t: "trim_prefix (''/openai'' @ q) ''/openai'' = q" for q by (rule trim_prefix_append)
  show ?thesis
  proof
    assume "NewHandler_route path = RouteProxy p"
    then have m: "path \<in> set proxied_routes" and p: "p = trim_prefix path ''/openai''"
      by (auto simp: NewHandler_route_def split: if_splits)
    from m obtain q where q: "path = ''/openai'' @ q" "q \<in> ?P" unfolding r by (rule imageE)
    then have "p = q" unfolding p q(1) by (intro t)
    with q show "path = ''/openai'' @ p \<and> p \<in> ?P" by (simp only: simp_thms)
  next
    assume "path = ''/openai'' @ p \<and> p \<in> ?P"
    then have q: "path = ''/openai'' @ p" "p \<in> ?P" by (rule conjunct1, rule conjunct2)
    have "path \<in> set proxied_routes" unfolding r q(1) by (rule imageI) (rule q(2))
    moreover have "trim_prefix path ''/openai'' = p" unfolding q(1) by (rule t)
    ultimately show "NewHandler_route path = RouteProxy p" by (simp add: NewHandler_route_def)
  qed
qed

lemma add_models_names:
  "md_name ` set (foldl add_model ms items) = md_name ` set ms \<union> md_name ` set items"
  "set (foldl add_model ms items) \<subseteq> set ms \<union> set items"
  "distinct (map md_name ms) \<Longrightarrow> distinct (map md_name (foldl add_model ms items))"
proof (induction items arbitrary: ms)
  case (Cons m items)
  { case 1 show ?case using Cons(1) [of "add_model ms m"] by (auto simp: add_model_def split: if_splits) }
  { case 2 show ?case using Cons(2) [of "add_model ms m"] by (auto simp: add_model_def split: if_splits) }
  { case 3 then show ?case using Cons(3) [of "add_model ms m"] by (auto simp: add_model_def) }
qed simp_all

lemma list_by_feature_Done:
  assumes "list_by_feature list fs ms = Done out" "distinct (map md_name ms)"
  shows "distinct (map md_name out)
    \<and> (\<forall>m \<in> set out. m \<in> set ms \<or> (\<exists>f items. f \<in> set fs \<and> list (ModelFeatureLabelDomain @ ''/'' @ f) = Done items \<and> m \<in> set items))
    \<and> (\<forall>f items. f \<in> set fs \<longrightarrow> list (ModelFeatureLabelDomain @ ''/'' @ f) = Done items \<longrightarrow> md_name ` set items \<subseteq> md_name ` set out)
    \<and> md_name ` set ms \<subseteq> md_name ` set out"
  using assms
proof (induction fs arbitrary: ms)
  case (Cons f fs)
  obtain items where i: "list (ModelFeatureLabelDomain @ ''/'' @ f) = Done items"
    and o: "list_by_feature list fs (foldl add_model ms items) = Done out"
    using Cons.prems(1) by (auto simp: outcome_bind_eq_Done)
  note ih = Cons.IH [OF o add_models_names(3) [OF Cons.prems(2)]]
  have n: "md_name ` set ms \<union> md_name ` set items \<subseteq> md_name ` set out"
    using ih add_models_names(1) [of ms items] by simp
  have "m \<in> set ms \<or> (\<exists>g its. g \<in> set (f # fs) \<and> list (ModelFeatureLabelDomain @ ''/'' @ g) = Done its \<and> m \<in> set its)"
    if "m \<in> set out" for m
  proof -
    from ih that consider "m \<in> set (foldl add_model ms items)"
      | g its where "g \<in> set fs" "list (ModelFeatureLabelDomain @ ''/'' @ g) = Done its" "m \<in> set its" by blast
    then show ?thesis
    proof cases
      case 1
      then have "m \<in> set ms \<or> m \<in> set items" using add_models_names(2) [of ms items] by blast
      then show ?thesis using i by (meson list.set_intros(1))
    next
      case 2
      then show ?thesis by (meson list.set_intros(2))
    qed
  qed
  moreover have "md_name ` set its \<subseteq> md_name ` set out"
    if "g \<in> set (f # fs)" "list (ModelFeatureLabelDomain @ ''/'' @ g) = Done its" for g its
  proof (cases "g = f")
    case True
    then show ?thesis using that(2) i n by simp
  next
    case False
    then show ?thesis using that ih by simp
  qed
  ultimately show ?case using ih n by (intro conjI) simp_all
qed auto

text \<open>The list. A successful listing is the listing of some Models, each once, that the API server
  returned for one of the features; no returned Model is missing; each appears with its
  adapters; and without a feature parameter the Models for text generation are listed.\<close>

theorem getModels_lists:
  assumes "getModels parse list features selectors = Done (Listing out)"
  shows "\<exists>sels ms. parse_label_selectors parse selectors = Done sels \<and> out = concat (map k8sModelToOpenAIModels ms) \<and> distinct (map md_name ms)
    \<and> (\<forall>m \<in> set ms. \<exists>f items. f \<in> set (if features = [] then [''TextGeneration''] else features)
          \<and> list sels (ModelFeatureLabelDomain @ ''/'' @ f) = Done items \<and> m \<in> set items)
    \<and> (\<forall>f items. f \<in> set (if features = [] then [''TextGeneration''] else features) \<longrightarrow>
          list sels (ModelFeatureLabelDomain @ ''/'' @ f) = Done items \<longrightarrow> md_name ` set items \<subseteq> md_name ` set ms)"
proof -
  let ?fs = "if features = [] then [''TextGeneration''] else features"
  obtain sels ms where s: "parse_label_selectors parse selectors = Done sels" and l: "list_by_feature (list sels) ?fs [] = Done ms"
    and out: "out = concat (map k8sModelToOpenAIModels ms)"
    using assms [unfolded getModels_def ModelFeatureTextGeneration_def Let_def] by (auto simp: server_error_def split: outcome.splits)
  have "distinct (map md_name [])" by simp
  note all = list_by_feature_Done [OF l this]
  have from_list: "\<forall>m \<in> set ms. \<exists>f items. f \<in> set ?fs \<and> list sels (ModelFeatureLabelDomain @ ''/'' @ f) = Done items \<and> m \<in> set items"
    using conjunct1 [OF conjunct2 [OF all]] by (simp only: list.set empty_iff simp_thms)
  show ?thesis
    by (rule exI [of _ sels], rule exI [of _ ms], intro conjI)
      (rule s, rule out, rule conjunct1 [OF all], rule from_list, rule conjunct1 [OF conjunct2 [OF conjunct2 [OF all]]])
qed

definition listed_model :: model where
  "listed_model = (default_model ''llama'')\<lparr>md_spec := default_spec\<lparr>ms_Adapters := Some [\<lparr>ad_Name = ''lora'', ad_URL = ''hf://x''\<rparr>]\<rparr>\<rparr>"

definition demo_list :: "string list \<Rightarrow> string \<Rightarrow> (string, model list) outcome" where
  "demo_list sels label = Done [listed_model]"

theorem getModels_lists_witness:
  "\<exists>out. getModels Done demo_list [''TextGeneration'', ''TextEmbedding''] [] = Done (Listing out) \<and> map oai_ID out = [''llama'', ''llama_lora'']
    \<and> (\<exists>ms. out = concat (map k8sModelToOpenAIModels ms) \<and> distinct (map md_name ms))"
proof -
  have "(case getModels Done demo_list [''TextGeneration'', ''TextEmbedding''] [] of Done (Listing out) \<Rightarrow> Some (map oai_ID out) | _ \<Rightarrow> None)
    = Some [''llama'', ''llama_lora'']" by code_simp
  then obtain out where o: "getModels Done demo_list [''TextGeneration'', ''TextEmbedding''] [] = Done (Listing out)"
    "map oai_ID out = [''llama'', ''llama_lora'']" by (auto split: outcome.splits listing.splits)
  obtain sels ms where "out = concat (map k8sModelToOpenAIModels ms)" "distinct (map md_name ms)"
    using getModels_lists [OF o(1)] by (elim exE conjE)
  with o show ?thesis by (intro exI [of _ out] exI [of _ ms] conjI)
qed

text \<open>C28: Every ID in the list can be requested: split at the first underscore it names a Model that
  exists and an adapter that this Model has, so that the lookup of a request for it, without
  selectors, finds the Model. Names of Kubernetes objects have no underscore.\<close>

theorem listed_ids_resolve:
  assumes "m \<in> set ms" "e \<in> set (k8sModelToOpenAIModels m)" "CHR ''_'' \<notin> set (md_name m)" "distinct (map md_name ms)"
  shows "\<exists>adapter. SplitModelAdapter (oai_ID e) = (md_name m, adapter) \<and> LookupModel parse (api_get ms) (md_name m) adapter [] = Done (Some m)"
proof -
  obtain a where e: "e = constructOpenAIModel m a" and a: "a = [] \<or> a \<in> ad_Name ` set (adapters_of (md_spec m))"
    using assms(2) by (auto simp: k8sModelToOpenAIModels_def)
  have "SplitModelAdapter (oai_ID e) = (md_name m, a)"
    using assms(3) by (cases "a = []") (simp_all add: e constructOpenAIModel_def Split_cut MergeModelAdapter_def adapterSeparator_def str_cut_append str_cut_none)
  moreover have "api_get ms (md_name m) = ApiOk m"
  proof -
    obtain m' where f: "List.find (\<lambda>x. md_name x = md_name m) ms = Some m'"
      using find_SomeI [OF assms(1), of "\<lambda>x. md_name x = md_name m"] by blast
    note n = conjunct2 [OF find_SomeD [OF f]] conjunct1 [OF find_SomeD [OF f]]
    have "inj_on md_name (set ms)" using assms(4) by (simp add: distinct_map)
    then have "m' = m" by (rule inj_onD [OF _ n assms(1)])
    then show ?thesis using f by (simp add: api_get_def)
  qed
  ultimately show ?thesis using a by (auto simp: LookupModel_def find_adapter_iff)
qed

theorem listed_ids_resolve_witness:
  "\<exists>adapter. SplitModelAdapter ''llama_lora'' = (''llama'', adapter)
    \<and> LookupModel never_parse (api_get [listed_model]) ''llama'' adapter [] = Done (Some listed_model)"
proof -
  have n: "md_name listed_model = ''llama''" by (simp add: listed_model_def default_model_def)
  have "constructOpenAIModel listed_model ''lora'' \<in> set (k8sModelToOpenAIModels listed_model)"
    by (simp add: k8sModelToOpenAIModels_def listed_model_def adapters_of_def)
  then show ?thesis using listed_ids_resolve [of listed_model "[listed_model]" "constructOpenAIModel listed_model ''lora''" never_parse]
    by (simp add: n constructOpenAIModel_def MergeModelAdapter_def adapterSeparator_def)
qed

end
