(* ===== verification/Manager.thy ===== *)
theory Manager
  imports Cache_Properties Model_Controller Autoscaler OpenAI_Server
begin

section \<open>The manager\<close>

text \<open>
  \<open>internal/manager/run.go\<close>: how the system is put together from its configuration, and what it
  starts; and \<open>internal/leader\<close>. The constructors of third-party components (manager,
  clients, message streams, telemetry) are one parameter, the error of each by its name;
  the goroutines are the list of started components.
\<close>

subsection \<open>Leader election\<close>

datatype lead_event = StartedLeading | StoppedLeading | NewLeader string

fun lead_step :: "lead_event \<Rightarrow> bool \<Rightarrow> bool" where
  "lead_step StartedLeading isLeader = True"
| "lead_step StoppedLeading isLeader = False"
| "lead_step (NewLeader identity) isLeader = isLeader"

text \<open>\<open>Election.Start\<close>: each round is one \<open>RunOrDie\<close> with its callbacks, and whether the context has
  ended when the delay is awaited. The result is the flag and whether the loop returned.\<close>

fun election_Start :: "(lead_event list \<times> bool) list \<Rightarrow> bool \<Rightarrow> bool \<times> bool" where
  "election_Start [] isLeader = (isLeader, False)"
| "election_Start ((evs, ctxDone) # rounds) isLeader =
     (let isLeader = foldl (\<lambda>b e. lead_step e b) isLeader evs
      in if ctxDone then (isLeader, True) else election_Start rounds isLeader)"

subsection \<open>Ports\<close>

definition last_colon :: "string \<Rightarrow> (string \<times> string) option" where
  "last_colon s = (if CHR '':'' \<in> set s then
     Some (rev (drop 1 (dropWhile (\<lambda>c. c \<noteq> CHR '':'') (rev s))), rev (takeWhile (\<lambda>c. c \<noteq> CHR '':'') (rev s))) else None)"

text \<open>\<open>net.SplitHostPort\<close>.\<close>

definition SplitHostPort :: "string \<Rightarrow> (string, string \<times> string) outcome" where
  "SplitHostPort s =
     (case last_colon s of
        None \<Rightarrow> Error ''missing port in address''
      | Some (before, port) \<Rightarrow>
          (if hd s = CHR ''['' then
             (if CHR '']'' \<notin> set s then Error ''missing ']' in address''
              else (let host = takeWhile (\<lambda>c. c \<noteq> CHR '']'') (tl s); rest = drop 1 (dropWhile (\<lambda>c. c \<noteq> CHR '']'') (tl s))
                    in if rest = [] then Error ''missing port in address''
                       else if length before \<noteq> length host + 2 then
                         Error (if hd rest = CHR '':'' then ''too many colons in address'' else ''missing port in address'')
                       else if CHR ''['' \<in> set (tl s) then Error ''unexpected '[' in address''
                       else if CHR '']'' \<in> set rest then Error ''unexpected ']' in address''
                       else Done (host, port)))
           else if CHR '':'' \<in> set before then Error ''too many colons in address''
           else if CHR ''['' \<in> set s then Error ''unexpected '[' in address''
           else if CHR '']'' \<in> set s then Error ''unexpected ']' in address''
           else Done (before, port)))"

definition parsePortFromAddr :: "string \<Rightarrow> (string, int) outcome" where
  "parsePortFromAddr addr =
     (if addr = [] then Error ''empty address''
      else (case SplitHostPort addr of
              Error e \<Rightarrow> Error (''unable to parse port from address: '' @ e)
            | Panic e \<Rightarrow> Panic e
            | Done (host, port) \<Rightarrow>
                (case atoi port of None \<Rightarrow> Error (atoi_error port) | Some n \<Rightarrow> Done n)))"

subsection \<open>Putting the system together\<close>

text \<open>The \<open>ModelReconciler\<close> literal.\<close>

definition reconciler_of :: "system \<Rightarrow> reconciler" where
  "reconciler_of cfg = \<lparr>rc_ProxyMode = sys_ProxyMode cfg, rc_AllowPodAddressOverride = sys_AllowPodAddressOverride cfg,
     rc_SecretNames = sys_SecretNames cfg, rc_ResourceProfiles = sys_ResourceProfiles cfg, rc_CacheProfiles = sys_CacheProfiles cfg,
     rc_ModelServers = sys_ModelServers cfg, rc_ModelServerPods = sys_ModelServerPods cfg,
     rc_ModelLoadersImage = sys_ModelLoadingImage cfg, rc_Surge = sys_Surge cfg\<rparr>"

datatype run_component =
    RunAutoscaler autoscaler | RunAPIServer handler | RunMetricsServer string | RunLeaderElection
  | RunMessenger message_stream | RunControllerManager reconciler

record run_env =
  re_validate :: "system \<Rightarrow> string option"
  re_namespace :: "string option"
  re_setup :: "string \<Rightarrow> string option"
  re_messenger :: "message_stream \<Rightarrow> string option"
  re_state :: "(string, total_model_state) outcome"

definition setup_step :: "run_env \<Rightarrow> string \<Rightarrow> string \<Rightarrow> (string, unit) outcome" where
  "setup_step env name ctx = (case re_setup env name of None \<Rightarrow> Done () | Some e \<Rightarrow> Error (ctx @ e))"

fun setup_steps :: "run_env \<Rightarrow> (string \<times> string) list \<Rightarrow> (string, unit) outcome" where
  "setup_steps env [] = Done ()"
| "setup_steps env ((name, ctx) # steps) = outcome_bind (setup_step env name ctx) (\<lambda>_. setup_steps env steps)"

fun new_messengers :: "run_env \<Rightarrow> nat \<Rightarrow> message_stream list \<Rightarrow> (string, run_component list) outcome" where
  "new_messengers env i [] = Done []"
| "new_messengers env i (s # ss) =
     (case re_messenger env s of
        Some e \<Rightarrow> Error (''unable to create messenger['' @ nat_str i @ '']: '' @ e)
      | None \<Rightarrow> outcome_bind (new_messengers env (Suc i) ss) (\<lambda>ms. Done (RunMessenger s # ms)))"

definition api_handler :: handler where
  "api_handler = \<lparr>h_maxRetries = 3, h_retryCodes = None\<rparr>"

text \<open>Everything that can fail before the components are built, in order.\<close>

definition run_prepare :: "run_env \<Rightarrow> system \<Rightarrow> (string, system) outcome" where
  "run_prepare env cfg =
     outcome_bind (wrap_error ''invalid config: '' (DefaultAndValidate (re_validate env) cfg)) (\<lambda>cfg.
     outcome_bind (setup_step env ''otel'' []) (\<lambda>_.
     outcome_bind (case re_namespace env of None \<Rightarrow> Error ''POD_NAMESPACE not set'' | Some n \<Rightarrow> Done n) (\<lambda>namespace.
     outcome_bind (setup_steps env ([(''yaml'', ''unable to marshal config: ''), (''manager'', ''unable to start manager: ''),
            (''clientset'', ''unable to create clientset: ''), (''podRESTClient'', ''unable to create pod REST client: ''),
            (''client'', ''unable to create client: ''), (''hostname'', ''unable to get hostname: '')]
          @ (if sys_ProxyMode cfg \<noteq> ProxyModeExternal then [(''loadbalancer'', ''unable to setup model resolver: '')] else [])
          @ [(''controller'', ''unable to create Model controller: ''), (''healthz'', ''unable to set up health check: ''),
             (''readyz'', ''unable to set up ready check: '')])) (\<lambda>_.
     Done cfg))))"

text \<open>The autoscaler, the public server and the messengers, which external mode goes without.\<close>

definition run_internal :: "run_env \<Rightarrow> system \<Rightarrow> int \<Rightarrow> (string, run_component list \<times> run_component list) outcome" where
  "run_internal env cfg metricsPort =
     (if sys_ProxyMode cfg \<noteq> ProxyModeExternal then
        outcome_bind (wrap_error ''unable to create model autoscaler: ''
            (NewAutoscaler (sys_ModelAutoscaling cfg) metricsPort (sys_FixedSelfMetricAddrs cfg) (re_state env))) (\<lambda>a.
        outcome_bind (new_messengers env 0 (msg_Streams (sys_Messaging cfg))) (\<lambda>ms.
        Done ([RunAutoscaler a, RunAPIServer api_handler], ms)))
      else Done ([], []))"

text \<open>The goroutines, in the order they are started.\<close>

definition run_started :: "system \<Rightarrow> run_component list \<times> run_component list \<Rightarrow> run_component list" where
  "run_started cfg parts =
     fst parts @ [RunMetricsServer (sys_MetricsAddr cfg), RunLeaderElection] @ snd parts @ [RunControllerManager (reconciler_of cfg)]"

definition Run :: "run_env \<Rightarrow> system \<Rightarrow> (string, run_component list) outcome" where
  "Run env cfg =
     outcome_bind (run_prepare env cfg) (\<lambda>cfg.
     outcome_bind (wrap_error ''unable to parse metrics port: '' (parsePortFromAddr (sys_MetricsAddr cfg))) (\<lambda>metricsPort.
     outcome_bind (run_internal env cfg metricsPort) (\<lambda>parts.
     Done (run_started cfg parts))))"

subsection \<open>Properties\<close>

lemma last_colon_append: "CHR '':'' \<notin> set port \<Longrightarrow> last_colon (host @ CHR '':'' # port) = Some (host, port)"
proof -
  assume "CHR '':'' \<notin> set port"
  then have n: "\<And>c. c \<in> set (rev port) \<Longrightarrow> c \<noteq> CHR '':''" by auto
  note t = takeWhile_append2 [of "rev port" "\<lambda>c. c \<noteq> CHR '':''" "CHR '':'' # rev host", OF n]
  note d = dropWhile_append2 [of "rev port" "\<lambda>c. c \<noteq> CHR '':''" "CHR '':'' # rev host", OF n]
  have r: "rev (host @ CHR '':'' # port) = rev port @ CHR '':'' # rev host" by simp
  show ?thesis unfolding last_colon_def r by (simp only: t d) simp
qed

lemma int_str_chars: "c \<in> set (int_str n) \<Longrightarrow> is_digit c \<or> c = CHR ''-''"
  by (auto simp: int_str_def nat_str_digits split: if_splits)

text \<open>A listening address written from a host without brackets and colons and a port is read back as
  that port; the default address \<open>:8080\<close> is one of them.\<close>

theorem parsePortFromAddr_roundtrip:
  assumes "set host \<inter> {CHR '':'', CHR ''['', CHR '']''} = {}" "in_int64 n"
  shows "parsePortFromAddr (host @ '':'' @ int_str n) = Done n"
proof -
  have d: "\<not> is_digit (CHR '':'')" "\<not> is_digit (CHR ''['')" "\<not> is_digit (CHR '']'')" by (simp_all add: is_digit_def)
  then have p: "CHR '':'' \<notin> set (int_str n)" "CHR ''['' \<notin> set (int_str n)" "CHR '']'' \<notin> set (int_str n)"
    using int_str_chars [of _ n] by fastforce+
  have h: "hd (host @ CHR '':'' # int_str n) \<noteq> CHR ''[''" using assms(1) by (cases host) auto
  have "SplitHostPort (host @ CHR '':'' # int_str n) = Done (host, int_str n)"
    using assms(1) p h by (simp add: SplitHostPort_def last_colon_append)
  then show ?thesis using atoi_int_str [OF assms(2)] by (simp add: parsePortFromAddr_def)
qed

theorem parsePortFromAddr_roundtrip_witness: "parsePortFromAddr ([] @ '':'' @ int_str 8080) = Done 8080"
  by (rule parsePortFromAddr_roundtrip) (simp_all add: in_int64_def)

lemma new_messengers_Done: "new_messengers env i ss = Done ms \<Longrightarrow> ms = map RunMessenger ss"
  by (induction ss arbitrary: i ms) (auto simp: outcome_bind_eq_Done split: option.splits)

lemma Run_Done:
  assumes "Run env cfg = Done cs"
  obtains cfg' port a where "DefaultAndValidate (re_validate env) cfg = Done cfg'" "cfg' = default_system cfg"
    "parsePortFromAddr (sys_MetricsAddr cfg') = Done port"
    "sys_ProxyMode cfg' = ProxyModeExternal \<and> cs = [RunMetricsServer (sys_MetricsAddr cfg'), RunLeaderElection, RunControllerManager (reconciler_of cfg')]
     \<or> sys_ProxyMode cfg' \<noteq> ProxyModeExternal
       \<and> NewAutoscaler (sys_ModelAutoscaling cfg') port (sys_FixedSelfMetricAddrs cfg') (re_state env) = Done a
       \<and> cs = [RunAutoscaler a, RunAPIServer api_handler, RunMetricsServer (sys_MetricsAddr cfg'), RunLeaderElection]
              @ map RunMessenger (msg_Streams (sys_Messaging cfg')) @ [RunControllerManager (reconciler_of cfg')]"
proof -
  obtain cfg' port parts where p: "run_prepare env cfg = Done cfg'" "parsePortFromAddr (sys_MetricsAddr cfg') = Done port"
    and i: "run_internal env cfg' port = Done parts" "cs = run_started cfg' parts"
    using assms by (auto simp: Run_def outcome_bind_eq_Done)
  then have c: "DefaultAndValidate (re_validate env) cfg = Done cfg'"
    by (auto simp: run_prepare_def outcome_bind_eq_Done)
  then have d: "cfg' = default_system cfg" by (auto simp: DefaultAndValidate_def split: option.splits)
  show ?thesis
  proof (cases "sys_ProxyMode cfg' = ProxyModeExternal")
    case True
    then show ?thesis using i by (intro that [OF c d p(2)]) (auto simp: run_internal_def run_started_def)
  next
    case False
    then obtain a ms where "NewAutoscaler (sys_ModelAutoscaling cfg') port (sys_FixedSelfMetricAddrs cfg') (re_state env) = Done a"
      "new_messengers env 0 (msg_Streams (sys_Messaging cfg')) = Done ms" "parts = ([RunAutoscaler a, RunAPIServer api_handler], ms)"
      using i(1) by (auto simp: run_internal_def outcome_bind_eq_Done)
    then show ?thesis using False i(2)
      by (intro that [OF c d p(2)]) (auto simp: run_started_def dest: new_messengers_Done)
  qed
qed

text \<open>What a started system consists of. In external mode there is no public server, no autoscaler and
  no messenger, but always the controller. Otherwise there is one autoscaler, one server and
  one messenger for each configured stream, each with at least one handler to spend.\<close>

theorem Run_components:
  assumes "Run env cfg = Done cs"
  shows "(sys_ProxyMode cfg = ProxyModeExternal \<longrightarrow> (\<forall>c \<in> set cs. (\<nexists>a. c = RunAutoscaler a) \<and> (\<nexists>h. c = RunAPIServer h) \<and> (\<nexists>s. c = RunMessenger s)))
    \<and> (sys_ProxyMode cfg \<noteq> ProxyModeExternal \<longrightarrow> filter (\<lambda>c. \<exists>s. c = RunMessenger s) cs = map RunMessenger (map default_stream (msg_Streams (sys_Messaging cfg)))
          \<and> RunAPIServer api_handler \<in> set cs)
    \<and> (\<forall>s. RunMessenger s \<in> set cs \<longrightarrow> mstr_MaxHandlers s \<noteq> 0)
    \<and> RunControllerManager (reconciler_of (default_system cfg)) \<in> set cs \<and> RunLeaderElection \<in> set cs"
proof -
  have mode: "sys_ProxyMode (default_system cfg) = ProxyModeExternal \<longleftrightarrow> sys_ProxyMode cfg = ProxyModeExternal"
    by (simp add: default_system_fields ProxyModeInternal_def ProxyModeExternal_def)
  have list: "filter (\<lambda>c. \<exists>s. c = RunMessenger s) (map RunMessenger ss) = map RunMessenger ss" for ss by (induction ss) simp_all
  have handlers: "mstr_MaxHandlers s \<noteq> 0" if "s \<in> set (msg_Streams (sys_Messaging (default_system cfg)))" for s
    using that by (auto simp: default_system_fields default_stream_def)
  have len: "msg_Streams (sys_Messaging (default_system cfg)) = map default_stream (msg_Streams (sys_Messaging cfg))"
    by (simp add: default_system_fields)
  show ?thesis
    by (rule Run_Done [OF assms]) (use handlers in \<open>auto simp: mode list len simp del: map_map\<close>)
qed

definition demo_run_env :: run_env where
  "demo_run_env = \<lparr>re_validate = (\<lambda>c. None), re_namespace = Some ''ns'', re_setup = (\<lambda>s. None), re_messenger = (\<lambda>s. None), re_state = Done zero_total_state\<rparr>"

lemma demo_run: "\<exists>cs. Run demo_run_env demo_system = Done cs \<and> RunControllerManager (reconciler_of (default_system demo_system)) \<in> set cs"
proof -
  let ?cfg = "default_system demo_system"
  have c: "DefaultAndValidate (re_validate demo_run_env) demo_system = Done ?cfg" by (simp add: DefaultAndValidate_def demo_run_env_def)
  have a: "sys_MetricsAddr ?cfg = '':8080''" by code_simp
  have p: "parsePortFromAddr '':8080'' = Done 8080" by code_simp
  have ms: "\<exists>ms. new_messengers demo_run_env 0 ss = Done ms" for ss
  proof -
    have "\<exists>ms. new_messengers demo_run_env i ss = Done ms" for i by (induction ss arbitrary: i) (simp_all add: demo_run_env_def outcome_bind_eq_Done)
    then show ?thesis by blast
  qed
  have "setup_steps demo_run_env ss = Done ()" for ss
    by (induction ss) (auto simp: setup_step_def demo_run_env_def)
  then have "run_prepare demo_run_env demo_system = Done ?cfg"
    by (simp add: run_prepare_def c wrap_error_def) (simp add: setup_step_def demo_run_env_def)
  moreover have "re_state demo_run_env = Done zero_total_state" by (simp add: demo_run_env_def)
  then have "\<exists>parts. run_internal demo_run_env ?cfg 8080 = Done parts"
    using ms [of "msg_Streams (sys_Messaging ?cfg)"] by (auto simp: run_internal_def NewAutoscaler_def wrap_error_def outcome_bind_eq_Done)
  then obtain parts where "run_internal demo_run_env ?cfg 8080 = Done parts" by (elim exE)
  ultimately show ?thesis by (simp add: Run_def a p run_started_def wrap_error_def)
qed

theorem Run_components_witness:
  "\<exists>cs. Run demo_run_env demo_system = Done cs \<and> RunAPIServer api_handler \<in> set cs"
proof -
  obtain cs where r: "Run demo_run_env demo_system = Done cs" using demo_run by (elim exE conjE)
  have "sys_ProxyMode demo_system \<noteq> ProxyModeExternal" by (simp add: demo_system_def ProxyModeExternal_def)
  then show ?thesis using Run_components [OF r] r by blast
qed

text \<open>From the configuration to the claim: the controller of a started system can build the claim of
  every Model with a shared cache. The size it asks for is never empty, so that, if the
  configured sizes parse, the claim is built and no pass panics on it.\<close>

theorem started_controller_builds_claims:
  assumes "Run env cfg = Done cs" "RunControllerManager r \<in> set cs" "getModelConfig r m = Done c"
    and "cp_SharedFilesystem (cfg_CacheProfile c) = Some fs" "ms_CacheProfile (md_spec m) \<noteq> []" "\<And>q. q \<noteq> [] \<Longrightarrow> ce_quantity_ok cenv q"
  shows "\<exists>p. cachePVCForModel cenv m c = Done p \<and> pvc_request p = csf_StorageSize fs \<and> pvc_request p \<noteq> []"
proof -
  have r: "r = reconciler_of (default_system cfg)"
    by (rule Run_Done [OF assms(1)]) (use assms(2) in auto)
  have "gm_lookup (rc_CacheProfiles r) (ms_CacheProfile (md_spec m)) = Some (cfg_CacheProfile c)"
  proof -
    obtain cp where "lookup_cache_profile r (ms_CacheProfile (md_spec m)) = Done cp" "cfg_CacheProfile c = cp"
      using assms(3) by (auto simp: getModelConfig_def outcome_bind_eq_Done Let_def)
    then show ?thesis using assms(5) by (auto simp: lookup_cache_profile_def split: option.splits)
  qed
  then have "(ms_CacheProfile (md_spec m), cfg_CacheProfile c) \<in> set (sys_CacheProfiles (default_system cfg))"
    using map_of_SomeD by (fastforce simp: r reconciler_of_def)
  then obtain p0 where "cfg_CacheProfile c = default_cache_profile p0" by (auto simp: default_system_fields)
  then have size: "csf_StorageSize fs \<noteq> []" using assms(4) by (auto simp: default_cache_profile_def split: option.splits if_splits)
  then have "ce_quantity_ok cenv (csf_StorageSize fs)" by (rule assms(6))
  then show ?thesis using assms(4) size by (simp add: cachePVCForModel_def cachePVCName_def)
qed

definition efs_model :: model where
  "efs_model = (default_model ''m'')\<lparr>md_spec := default_spec\<lparr>ms_URL := ''hf://org/model'', ms_ResourceProfile := ''cpu:1'', ms_CacheProfile := ''efs''\<rparr>\<rparr>"

theorem started_controller_builds_claims_witness:
  "\<exists>c p. getModelConfig (reconciler_of (default_system demo_system)) efs_model = Done c
    \<and> cachePVCForModel (demo_ctl_env (\<lambda>n. Missing)) efs_model c = Done p \<and> pvc_request p \<noteq> []"
proof -
  let ?r = "reconciler_of (default_system demo_system)"
  have "(case getModelConfig ?r efs_model of Done c \<Rightarrow> map_option csf_StorageSize (cp_SharedFilesystem (cfg_CacheProfile c)) | _ \<Rightarrow> None) = Some ''10Gi''"
    by code_simp
  then obtain c fs where c: "getModelConfig ?r efs_model = Done c" "cp_SharedFilesystem (cfg_CacheProfile c) = Some fs"
    by (auto split: outcome.splits)
  have "ms_CacheProfile (md_spec efs_model) \<noteq> []" by (simp add: efs_model_def)
  moreover have "ce_quantity_ok (demo_ctl_env (\<lambda>n. Missing)) x" for x by (simp add: demo_ctl_env_def)
  ultimately show ?thesis
    using demo_run started_controller_builds_claims [OF _ _ c, of demo_run_env demo_system _ "demo_ctl_env (\<lambda>n. Missing)"] c by blast
qed

end
