(* ===== verification/Messages.thy ===== *)
theory Messages
  imports Go_Values Json_Struct
begin

section \<open>The messages of the queue front end\<close>

text \<open>
  The texts of \<open>internal/messenger/messenger.go\<close>: the payload of a request, which
  \<open>parseMsgRequest\<close> unmarshals, the response that \<open>sendResponse\<close> marshals and the body that
  \<open>jsonError\<close> formats. The metadata is a Go map of values of type \<open>interface\<close>, \<open>None\<close> when nil.
  The metadata of a request comes back in the response (\<open>reply_reads\<close>); the body of an error
  is JSON exactly when the verb \<open>%q\<close> writes a JSON string (\<open>error_body_parses\<close>).
\<close>

type_synonym metadata = "(string \<times> any_value) list option"

record msg_payload =
  pl_Metadata :: metadata
  pl_Path :: string
  pl_Body :: string

definition metadata_field :: "json_value \<Rightarrow> metadata \<Rightarrow> metadata option" where
  "metadata_field v old =
     (case v of
        JNull \<Rightarrow> Some None
      | JObj kvs \<Rightarrow> map_option (\<lambda>as. Some (map_fill (zip (map fst kvs) as) (case old of None \<Rightarrow> [] | Some m \<Rightarrow> m)))
          (all_some (map (\<lambda>(k, v). any_of_json v) kvs))
      | _ \<Rightarrow> None)"

text \<open>\<open>json.RawMessage\<close> keeps the bytes of the value, \<open>null\<close> included.\<close>

definition payload_field :: "string \<Rightarrow> string \<Rightarrow> json_value \<Rightarrow> msg_payload \<Rightarrow> msg_payload option" where
  "payload_field k raw v p =
     (if names_field ''metadata'' k then map_option (\<lambda>m. p\<lparr>pl_Metadata := m\<rparr>) (metadata_field v (pl_Metadata p))
      else if names_field ''path'' k then map_option (\<lambda>s. p\<lparr>pl_Path := s\<rparr>) (string_field v (pl_Path p))
      else if names_field ''body'' k then Some (p\<lparr>pl_Body := raw\<rparr>)
      else Some p)"

definition unmarshal_payload :: "string \<Rightarrow> msg_payload option" where
  "unmarshal_payload b = decode_struct payload_field \<lparr>pl_Metadata = None, pl_Path = [], pl_Body = []\<rparr> b"

definition metadata_json :: "metadata \<Rightarrow> json_value" where
  "metadata_json md = (case md of None \<Rightarrow> JNull | Some m \<Rightarrow> json_of_any (AMap m))"

definition marshal_response :: "metadata \<Rightarrow> int \<Rightarrow> string \<Rightarrow> string option" where
  "marshal_response md statusCode body =
     map_option (\<lambda>b. CHR ''{'' # json_quote ''metadata'' @ CHR '':'' # json_text (metadata_json md)
       @ CHR '','' # json_quote ''status_code'' @ CHR '':'' # int_str statusCode
       @ CHR '','' # json_quote ''body'' @ CHR '':'' # b @ ''}'') (raw_message body)"

definition error_body :: "(nat \<Rightarrow> bool) \<Rightarrow> string \<Rightarrow> string" where
  "error_body pr message =
     CHR ''{'' # [CHR 0x0A, CHR 0x09] @ CHR 0x22 # ''error'' @ CHR 0x22 # CHR '':'' # CHR '' '' # CHR ''{'' # [CHR 0x0A, CHR 0x09, CHR 0x09]
       @ CHR 0x22 # ''message'' @ CHR 0x22 # CHR '':'' # CHR '' '' # go_quote pr message
       @ [CHR 0x0A, CHR 0x09] @ CHR ''}'' # [CHR 0x0A] @ ''}''"

subsection \<open>Metadata\<close>

definition metadata_good :: "metadata \<Rightarrow> bool" where
  "metadata_good md \<longleftrightarrow> (case md of None \<Rightarrow> True | Some m \<Rightarrow> any_good (json_depth - 1) (AMap m))"

lemma metadata_field_good:
  assumes "metadata_field v old = Some md" "json_good (json_depth - 1) v" "metadata_good old"
  shows "metadata_good md"
proof (cases v)
  case (JObj kvs)
  let ?old = "case old of None \<Rightarrow> [] | Some m \<Rightarrow> m"
  obtain as where as: "all_some (map (\<lambda>(k, v). any_of_json v) kvs) = Some as" "md = Some (map_fill (zip (map fst kvs) as) ?old)"
    using assms(1) by (auto simp: metadata_field_def JObj)
  have "any_of_json v = Some (AMap (map_fill (zip (map fst kvs) as) []))" by (simp add: JObj as(1))
  then have new: "any_good (json_depth - 1) (AMap (map_fill (zip (map fst kvs) as) []))" by (rule any_of_json_good [OF assms(2)])
  have old: "any_good (json_depth - 1) (AMap ?old)" using assms(3) by (cases old) (simp_all add: metadata_good_def)
  have fine: "json_clean k = k \<and> any_good (json_depth - 1 - 1) x" if "(k, x) \<in> set (zip (map fst kvs) as) \<union> set ?old" for k x
  proof (cases "(k, x) \<in> set ?old")
    case True
    then show ?thesis using old by (auto simp: list_all_iff)
  next
    case False
    then have z: "(k, x) \<in> set (zip (map fst kvs) as)" using that by blast
    have "map (\<lambda>(k, v). any_of_json v) kvs = map Some as" using as(1) by (rule all_someD)
    moreover obtain i where i: "i < length kvs" "i < length as" "k = fst (kvs ! i)" "x = as ! i" using z by (auto simp: set_zip)
    ultimately have "any_of_json (snd (kvs ! i)) = Some x" by (metis (no_types, lifting) case_prod_beta nth_map)
    moreover have "(fst (kvs ! i), snd (kvs ! i)) \<in> set kvs" using i(1) by simp
    then have "json_clean (fst (kvs ! i)) = fst (kvs ! i)" "json_good (json_depth - 1 - 1) (snd (kvs ! i))"
      using assms(2) by (auto simp: JObj list_all_iff)
    ultimately show ?thesis using any_of_json_good i(3) by blast
  qed
  have "list_all (\<lambda>(k, v). json_clean k = k \<and> any_good (json_depth - 1 - 1) v) (map_fill (zip (map fst kvs) as) ?old)"
    using map_fill_set [of "zip (map fst kvs) as" ?old] fine by (auto simp: list_all_iff)
  then show ?thesis using old map_fill_sorted [of ?old] by (simp add: metadata_good_def as(2))
qed (use assms in \<open>auto simp: metadata_field_def metadata_good_def\<close>)

lemma metadata_comes_back:
  assumes "metadata_good md"
  shows "metadata_field (json_norm (metadata_json md)) None = Some md"
proof (cases md)
  case (Some m)
  have "any_of_json (json_norm (json_of_any (AMap m))) = Some (AMap m)"
    by (rule any_comes_back [where d = "json_depth - 1"]) (use assms in \<open>simp add: metadata_good_def Some\<close>)
  then show ?thesis by (auto simp: metadata_field_def metadata_json_def Some split: option.splits)
qed (simp add: metadata_field_def metadata_json_def)

lemma set_payload_good:
  "set_fields payload_field ms p = Some p' \<Longrightarrow> metadata_good (pl_Metadata p) \<Longrightarrow>
   list_all (\<lambda>(k, raw, v). json_good (json_depth - 1) v) ms \<Longrightarrow> metadata_good (pl_Metadata p')"
proof (induction ms arbitrary: p)
  case (Cons m ms)
  obtain k raw v where m: "m = (k, raw, v)" by (cases m)
  obtain p1 where p1: "payload_field k raw v p = Some p1" "set_fields payload_field ms p1 = Some p'"
    using Cons.prems(1) by (auto simp: m split: option.splits)
  have "metadata_good (pl_Metadata p1)"
    using p1(1) Cons.prems(2,3) metadata_field_good by (auto simp: payload_field_def m split: if_splits)
  then show ?case using Cons.IH [OF p1(2)] Cons.prems(3) by (simp add: m)
qed simp

lemma payload_good:
  assumes "unmarshal_payload b = Some p"
  shows "metadata_good (pl_Metadata p)"
proof -
  obtain ms where ms: "struct_members b = Some ms" "set_fields payload_field ms \<lparr>pl_Metadata = None, pl_Path = [], pl_Body = []\<rparr> = Some p"
    using assms by (auto simp: unmarshal_payload_def decode_struct_def split: option.splits)
  have "ms = [] \<or> json_members b = Some ms"
    using ms(1) by (auto simp: struct_members_def split: option.splits json_value.splits)
  then have "list_all (\<lambda>(k, raw, v). json_good (json_depth - 1) v) ms"
  proof
    assume "json_members b = Some ms"
    then obtain cs r where "ms = [] \<or> parse_members (2 * length cs + 2) (json_depth - 1) cs = Some (ms, r)"
      by (auto simp: json_members_def simp del: parse_members.simps split: list.splits if_splits)
    then show ?thesis using parse_good(3) [of "2 * length cs + 2" "json_depth - 1" cs ms r] by (auto simp: list_all_iff)
  qed simp
  then show ?thesis using set_payload_good [OF ms(2)] by (simp add: metadata_good_def)
qed

subsection \<open>Objects whose values others wrote\<close>

lemma parse_member_last:
  assumes "parse_value n d (T @ CHR ''}'' # r) = Some (v, CHR ''}'' # r)" "T = c # u" "\<not> is_space c"
  shows "parse_members (Suc n) d (json_quote k @ CHR '':'' # T @ CHR ''}'' # r) = Some ([(json_clean k, T, v)], r)"
  using assms json_string_quote [of k "CHR '':'' # T @ CHR ''}'' # r"]
  by (simp add: json_quote_def skip_ws_Cons Let_def)

lemma parse_member_more:
  assumes "parse_value n d (T @ CHR '','' # s) = Some (v, CHR '','' # s)" "T = c # u" "\<not> is_space c" "parse_members n d s = Some (ms, r)"
  shows "parse_members (Suc n) d (json_quote k @ CHR '':'' # T @ CHR '','' # s) = Some ((json_clean k, T, v) # ms, r)"
  using assms json_string_quote [of k "CHR '':'' # T @ CHR '','' # s"]
  by (simp add: json_quote_def skip_ws_Cons Let_def)

lemma parse_object:
  assumes "parse_members n d s = Some (ms, r)" "0 \<le> d" "s = c # u" "\<not> is_space c" "c \<noteq> CHR ''}''"
  shows "parse_value (Suc n) (d + 1) (CHR ''{'' # s) = Some (JObj (map (\<lambda>(k, raw, v). (k, v)) ms), r)"
  using assms by (simp add: skip_ws_Cons)

lemma json_quote_start: "json_quote k @ s = CHR 0x22 # (quote_body k @ CHR 0x22 # s)"
  by (simp add: json_quote_def)

lemma reads_before: "json_fits d v \<Longrightarrow> 2 * length (json_text v) + 1 \<le> n \<Longrightarrow>
    parse_value n d (json_text v @ CHR '','' # s) = Some (json_norm v, CHR '','' # s)"
  using json_reads [of v] unfolding reads_def by (elim allE [of _ n] allE [of _ d] allE [of _ "CHR '','' # s"]) (simp add: stops_def is_digit_def)

text \<open>The response is an object of its three members: the metadata, the status and the body.\<close>

theorem reply_reads:
  assumes "metadata_good md" "marshal_response md statusCode body = Some js" "json_parse body = Some v" "json_fits (json_depth - 1) v"
  shows "json_parse js = Some (JObj [(''metadata'', json_norm (metadata_json md)), (''status_code'', JNum (int_str statusCode)), (''body'', v)])"
proof -
  let ?d = "json_depth - 1" and ?b = "Json.compact False body" and ?i = "int_str statusCode" and ?m = "json_text (metadata_json md)"
  define s3 where "s3 = json_quote ''body'' @ CHR '':'' # ?b @ ''}''"
  define s2 where "s2 = json_quote ''status_code'' @ CHR '':'' # ?i @ CHR '','' # s3"
  define s1 where "s1 = json_quote ''metadata'' @ CHR '':'' # ?m @ CHR '','' # s2"
  have js: "js = CHR ''{'' # s1"
    using assms(2,3) by (auto simp: marshal_response_def raw_message_def s1_def s2_def s3_def)
  define n where "n = 2 * length js - 3"
  have l1: "length js = length s1 + 1" "length s1 = 12 + length ?m + length s2"
    and l2: "length s2 = 15 + length ?i + length s3" "length s3 = 8 + length ?b"
    by (simp_all add: js s1_def s2_def s3_def json_quote_def quote_plain plain_char_def del: quote_body.simps)
  have n: "2 * length js + 2 = Suc (Suc (Suc (Suc (Suc n))))" using l1 l2 by (simp add: n_def)
  note body = compact_reads [OF assms(3,4)]
  obtain c u where cu: "?b = c # u" "\<not> is_space c" using body(1,2) by (cases ?b) auto
  have last: "parse_members (Suc n') ?d s3 = Some ([(json_clean ''body'', ?b, v)], [])" if "2 * length ?b + 1 \<le> n'" for n'
    unfolding s3_def by (rule parse_member_last [OF body(3) [OF _ that] cu]) (simp add: stops_def is_digit_def)
  have num: "parse_value n' ?d (?i @ CHR '','' # s3) = Some (JNum ?i, CHR '','' # s3)" if "2 * length ?i + 1 \<le> n'" for n'
    using reads_before [of ?d "JNum ?i"] that num_ok_int_str by simp
  have "json_fits ?d (JNum ?i)" by (simp add: num_ok_int_str)
  then obtain ic iu where "json_text (JNum ?i) = ic # iu" "\<not> is_space ic" using json_text_start by blast
  then have i: "?i = ic # iu" "\<not> is_space ic" by simp_all
  have fits: "json_fits ?d (metadata_json md)"
    using assms(1) any_good_fits [of ?d "AMap (the md)"] by (cases md) (simp_all add: metadata_good_def metadata_json_def)
  have meta: "parse_value n' ?d (?m @ CHR '','' # s2) = Some (json_norm (metadata_json md), CHR '','' # s2)" if "2 * length ?m + 1 \<le> n'" for n'
    by (rule reads_before [OF fits that])
  obtain mc mu where m: "?m = mc # mu" "\<not> is_space mc" using json_text_start [OF fits] by blast
  have "parse_members (Suc (Suc n)) ?d s3 = Some ([(json_clean ''body'', ?b, v)], [])" by (rule last) (use l1 l2 in \<open>simp add: n_def\<close>)
  then have "parse_members (Suc (Suc (Suc n))) ?d s2 = Some ([(json_clean ''status_code'', ?i, JNum ?i), (json_clean ''body'', ?b, v)], [])"
    unfolding s2_def by (intro parse_member_more [OF num i]) (use l1 l2 in \<open>simp_all add: n_def\<close>)
  then have "parse_members (Suc (Suc (Suc (Suc n)))) ?d s1 = Some ([(json_clean ''metadata'', ?m, json_norm (metadata_json md)),
      (json_clean ''status_code'', ?i, JNum ?i), (json_clean ''body'', ?b, v)], [])"
    unfolding s1_def by (intro parse_member_more [OF meta m]) (use l1 l2 in \<open>simp_all add: n_def\<close>)
  then have "parse_value (Suc (Suc (Suc (Suc (Suc n))))) (?d + 1) js = Some (JObj (map (\<lambda>(k, raw, v). (k, v)) [(json_clean ''metadata'', ?m, json_norm (metadata_json md)),
      (json_clean ''status_code'', ?i, JNum ?i), (json_clean ''body'', ?b, v)]), [])"
    unfolding js by (rule parse_object [where c = "CHR 0x22"]) (simp_all add: s1_def json_quote_start)
  moreover have "json_clean ''metadata'' = ''metadata''" "json_clean ''status_code'' = ''status_code''" "json_clean ''body'' = ''body''"
    by (simp_all add: json_clean_ascii_id)
  ultimately show ?thesis unfolding json_parse_def n by (simp add: skip_ws_def del: parse_value.simps)
qed

subsection \<open>Error bodies\<close>

lemma skip_layout: "skip_ws (CHR 0x0A # s) = skip_ws s" "skip_ws (CHR 0x09 # s) = skip_ws s" "skip_ws (CHR '' '' # s) = skip_ws s"
  by (simp_all add: skip_ws_def is_space_def)

lemmas skip_tok = not_space [THEN skip_ws_Cons]

lemma json_string_key: "list_all plain_char k \<Longrightarrow> json_string (k @ CHR 0x22 # s) = Some (k, s)"
  using json_string_quote [of k s] json_clean_ascii_id [OF plain_ascii] by (simp add: json_quote_def quote_plain)

lemma skip_quote: "skip_ws (go_quote pr m @ s) = go_quote pr m @ s"
  by (simp add: go_quote_def skip_ws_Cons)

lemma skip_plain: "\<not> is_space c \<Longrightarrow> skip_ws (c # s) = c # s"
  by (rule skip_ws_Cons)

lemma parse_value_object:
  assumes "skip_ws s = c # u" "c \<noteq> CHR ''}''" "0 < d"
  shows "parse_value (Suc n) d (CHR ''{'' # s) = map_option (apfst (\<lambda>ms. JObj (map (\<lambda>(k, raw, v). (k, v)) ms))) (parse_members n (d - 1) s)"
  using assms by (simp add: skip_plain del: parse_members.simps)

lemma members_object: "map_option (apfst (\<lambda>ms. JObj (f ms))) x = map_option (apfst JObj) (map_option (apfst f) x)"
  by (cases x) auto

lemma parse_members_one:
  assumes "skip_ws s = CHR 0x22 # k @ CHR 0x22 # CHR '':'' # s2" "list_all plain_char k" "skip_ws s3 = CHR ''}'' # r"
    and "parse_value n d (skip_ws s2) = None \<or> (\<exists>v. parse_value n d (skip_ws s2) = Some (v, s3))"
  shows "map_option (apfst (map (\<lambda>(k, raw, v). (k, v)))) (parse_members (Suc n) d s)
    = map_option (\<lambda>(v, s). ([(k, v)], r)) (parse_value n d (skip_ws s2))"
  using assms(4)
  by (elim disjE exE) (simp_all add: assms(1,3) json_string_key [OF assms(2)] skip_plain Let_def del: parse_value.simps)

theorem error_body_parses:
  "json_parse (error_body pr message) = (if json_quotable pr message then Some (JObj [(''error'', JObj [(''message'', JStr message)])]) else None)"
proof -
  let ?q = "go_quote pr message" and ?sp = "\<lambda>s. CHR '' '' # s"
  let ?t = "CHR 0x0A # CHR 0x09 # CHR ''}'' # CHR 0x0A # ''}''"
  let ?inner = "CHR 0x0A # CHR 0x09 # CHR 0x09 # CHR 0x22 # ''message'' @ CHR 0x22 # CHR '':'' # ?sp (?q @ ?t)"
  let ?outer = "CHR 0x0A # CHR 0x09 # CHR 0x22 # ''error'' @ CHR 0x22 # CHR '':'' # ?sp (CHR ''{'' # ?inner)"
  have body: "error_body pr message = CHR ''{'' # ?outer" by (simp add: error_body_def)
  obtain n where n: "2 * length (error_body pr message) + 2 = Suc (Suc (Suc (Suc (Suc n))))"
    by (rule that [of "2 * length (error_body pr message) - 3"]) (simp add: error_body_def)
  have plain: "list_all plain_char ''message''" "list_all plain_char ''error''" by (simp_all add: plain_char_def)
  have q: "parse_value (Suc n) 9998 (skip_ws (?sp (?q @ ?t))) = (if json_quotable pr message then Some (JStr message, ?t) else None)"
    using go_quote_value [of n 9998 pr message ?t] by (simp only: skip_layout skip_quote)
  have opt: "x = None \<or> (\<exists>v. x = Some (v, t))" if "x = (if Q then Some (w, t) else None)" for x and Q and w :: json_value and t :: string
    using that by auto
  have "map_option (apfst (map (\<lambda>(k, raw, v). (k, v)))) (parse_members (Suc (Suc n)) 9998 ?inner)
      = map_option (\<lambda>(v, s). ([(''message'', v)], CHR 0x0A # ''}'')) (parse_value (Suc n) 9998 (skip_ws (?sp (?q @ ?t))))"
    by (rule parse_members_one [OF _ plain(1) _ opt [OF q]]) (simp_all only: skip_layout skip_tok append_Cons append_Nil)
  then have inner: "map_option (apfst (map (\<lambda>(k, raw, v). (k, v)))) (parse_members (Suc (Suc n)) 9998 ?inner)
      = (if json_quotable pr message then Some ([(''message'', JStr message)], CHR 0x0A # ''}'') else None)"
    by (simp only: q) simp
  have "parse_value (Suc (Suc (Suc n))) 9999 (CHR ''{'' # ?inner)
      = map_option (apfst (\<lambda>ms. JObj (map (\<lambda>(k, raw, v). (k, v)) ms))) (parse_members (Suc (Suc n)) (9999 - 1) ?inner)"
    by (rule parse_value_object [where c = "CHR 0x22"]) (simp_all add: skip_layout skip_ws_Cons)
  also have "\<dots> = map_option (apfst JObj) (map_option (apfst (map (\<lambda>(k, raw, v). (k, v)))) (parse_members (Suc (Suc n)) 9998 ?inner))"
    by (simp only: members_object [symmetric]) (simp del: parse_members.simps)
  finally have obj: "parse_value (Suc (Suc (Suc n))) 9999 (CHR ''{'' # ?inner)
      = (if json_quotable pr message then Some (JObj [(''message'', JStr message)], CHR 0x0A # ''}'') else None)"
    by (simp only: inner) simp
  have sp: "skip_ws (?sp (CHR ''{'' # ?inner)) = CHR ''{'' # ?inner" by (simp only: skip_layout skip_tok)
  note obj_sp = trans [OF arg_cong [OF sp, of "parse_value (Suc (Suc (Suc n))) 9999"] obj]
  have "map_option (apfst (map (\<lambda>(k, raw, v). (k, v)))) (parse_members (Suc (Suc (Suc (Suc n)))) 9999 ?outer)
      = map_option (\<lambda>(v, s). ([(''error'', v)], [])) (parse_value (Suc (Suc (Suc n))) 9999 (skip_ws (?sp (CHR ''{'' # ?inner))))"
    by (rule parse_members_one [OF _ plain(2) _ opt [OF obj_sp]]) (simp_all only: skip_layout skip_tok append_Cons append_Nil)
  then have outer: "map_option (apfst (map (\<lambda>(k, raw, v). (k, v)))) (parse_members (Suc (Suc (Suc (Suc n)))) 9999 ?outer)
      = (if json_quotable pr message then Some ([(''error'', JObj [(''message'', JStr message)])], []) else None)"
    by (simp only: sp obj) simp
  have "parse_value (Suc (Suc (Suc (Suc (Suc n))))) 10000 (CHR ''{'' # ?outer)
      = map_option (apfst (\<lambda>ms. JObj (map (\<lambda>(k, raw, v). (k, v)) ms))) (parse_members (Suc (Suc (Suc (Suc n)))) (10000 - 1) ?outer)"
    by (rule parse_value_object [where c = "CHR 0x22"]) (simp_all add: skip_layout skip_ws_Cons)
  also have "\<dots> = map_option (apfst JObj) (map_option (apfst (map (\<lambda>(k, raw, v). (k, v)))) (parse_members (Suc (Suc (Suc (Suc n)))) 9999 ?outer))"
    by (simp only: members_object [symmetric]) (simp del: parse_members.simps)
  finally have "parse_value (Suc (Suc (Suc (Suc (Suc n))))) 10000 (error_body pr message)
      = (if json_quotable pr message then Some (JObj [(''error'', JObj [(''message'', JStr message)])], []) else None)"
    by (simp only: outer body) simp
  then show ?thesis unfolding json_parse_def n json_depth_def by (simp add: skip_ws_def del: parse_value.simps)
qed

subsection \<open>Quotations inside an error\<close>

text \<open>What \<open>%q\<close> writes can be quoted by \<open>%q\<close> again.\<close>

lemma quotable_plain: "32 \<le> (of_char c :: nat) \<Longrightarrow> (of_char c :: nat) < 127 \<Longrightarrow> json_quotable pr (c # s) = json_quotable pr s"
  by (simp add: str_step_ascii json_rune_def go_print_def)

lemma quotable_plains: "list_all (\<lambda>c. 32 \<le> (of_char c :: nat) \<and> (of_char c :: nat) < 127) s \<Longrightarrow> json_quotable pr (s @ t) = json_quotable pr t"
  by (induction s) (simp_all add: quotable_plain del: json_quotable.simps)

lemma hex_char_plain:
  assumes "n < 16"
  shows "32 \<le> (of_char (hex_char n) :: nat)" "(of_char (hex_char n) :: nat) < 127"
  using assms of_char_digit_char [of n] by (auto simp: hex_char_def)

lemma quotable_quote_rune:
  assumes "str_step c cs = (r, k)" "\<not> (128 \<le> (of_char c :: nat) \<and> k = 0)"
  shows "json_quotable pr (quote_rune pr r @ s) = json_quotable pr s"
proof -
  note b = str_step_bytes [OF assms]
  show ?thesis
  proof (cases "go_print pr r \<and> r \<noteq> 34 \<and> r \<noteq> 92")
    case True
    then have "quote_rune pr r @ s = c # take k cs @ s" "json_rune pr r" using b(1) by (simp_all add: quote_rune_def json_rune_def)
    moreover have "drop k (take k cs @ s) = s" using b(3) by simp
    ultimately show ?thesis using assms(2) b(2) [of s] by simp
  next
    case False
    then have "list_all (\<lambda>c. 32 \<le> (of_char c :: nat) \<and> (of_char c :: nat) < 127) (quote_rune pr r)"
      by (auto simp: quote_rune_def escape_u_def hex_char_plain)
    then show ?thesis by (rule quotable_plains)
  qed
qed

lemma go_quote_quotable: "json_quotable pr (go_quote pr s @ t) = json_quotable pr t"
proof -
  have "json_quotable pr (go_quote_body pr s @ u) = json_quotable pr u" for u
  proof (induction pr s rule: go_quote_body.induct)
    case (2 pr c cs)
    obtain r k where rk: "str_step c cs = (r, k)" by force
    have ih: "json_quotable pr (go_quote_body pr (drop k cs) @ u) = json_quotable pr u" by (rule "2.IH" [OF rk [symmetric] refl])
    show ?case
    proof (cases "128 \<le> (of_char c :: nat) \<and> k = 0")
      case True
      have esc: "list_all (\<lambda>c. 32 \<le> (of_char c :: nat) \<and> (of_char c :: nat) < 127) [CHR 0x5C, CHR ''x'', hex_char (of_char c div 16), hex_char (of_char c mod 16)]"
        using nat_of_char_less_256 [of c] by (simp add: hex_char_plain del: nat_of_char_less_256)
      from True have "go_quote_body pr (c # cs) = [CHR 0x5C, CHR ''x'', hex_char (of_char c div 16), hex_char (of_char c mod 16)] @ go_quote_body pr (drop k cs)"
        by (simp add: rk)
      then show ?thesis using ih by (simp only: append_assoc quotable_plains [OF esc])
    next
      case False
      then have "go_quote_body pr (c # cs) = quote_rune pr r @ go_quote_body pr (drop k cs)" by (auto simp: rk)
      then show ?thesis using quotable_quote_rune [OF rk False] ih by simp
    qed
  qed simp
  then show ?thesis by (simp add: go_quote_def quotable_plain del: json_quotable.simps)
qed

subsection \<open>Large numbers in the metadata\<close>

lemma ilog2_eq: "p2 k \<le> x \<Longrightarrow> x < p2 (k + 1) \<Longrightarrow> ilog2 x = k"
proof -
  assume x: "p2 k \<le> x" "x < p2 (k + 1)"
  then have "0 < x" using p2_pos [of k] by linarith
  then have "p2 k < p2 (ilog2 x + 1)" "ilog2 x < k + 1" using x ilog2_bounds(2) [of x] ilog2_less [of x "k + 1"] by simp_all
  then show ?thesis using p2_less [of k "ilog2 x + 1"] by simp
qed

lemma parse_f64_text: "digits_val t = n \<Longrightarrow> list_all is_digit t \<Longrightarrow> t \<noteq> [] \<Longrightarrow> hd t \<noteq> CHR ''-'' \<Longrightarrow>
    parse_f64 t = (let v = rnd (of_nat n) in if \<bar>v\<bar> < p2 1024 then Some v else None)"
  by (simp add: parse_f64_def literal_val_def takeWhile_all dropWhile_eq_Nil_conv list_all_iff)

lemma large_number: "parse_f64 ''9007199254740993'' = parse_f64 ''9007199254740992''"
proof -
  have p: "p2 53 = 9007199254740992" "p2 54 = 18014398509481984" "p2 1 = 2" by simp_all
  have u: "ulp_exp 9007199254740992 = 1" "ulp_exp 9007199254740993 = 1"
    using ilog2_eq [of 53 9007199254740992] ilog2_eq [of 53 9007199254740993] p by (simp_all add: ulp_exp_def)
  have fl: "\<lfloor>9007199254740993 / (2 :: rat)\<rfloor> = 4503599627370496" by (simp add: floor_eq_iff)
  have "round_even (9007199254740993 / 2) = 4503599627370496" unfolding round_even_def Let_def fl by simp
  moreover have "round_even (9007199254740992 / 2) = 4503599627370496"
    using round_even_int [of 4503599627370496] by simp
  ultimately have "rnd_pos 9007199254740993 = rnd_pos 9007199254740992" unfolding rnd_pos_def u p(3) by simp
  then have r: "rnd 9007199254740993 = rnd 9007199254740992" by (simp add: rnd_def)
  have d: "digits_val ''9007199254740993'' = 9007199254740993" "digits_val ''9007199254740992'' = 9007199254740992"
    by (simp_all add: digits_val_def digit_val_def)
  have "parse_f64 ''9007199254740993'' = (let v = rnd (of_nat 9007199254740993) in if \<bar>v\<bar> < p2 1024 then Some v else None)"
    by (rule parse_f64_text [OF d(1)]) (simp_all add: is_digit_def)
  moreover have "parse_f64 ''9007199254740992'' = (let v = rnd (of_nat 9007199254740992) in if \<bar>v\<bar> < p2 1024 then Some v else None)"
    by (rule parse_f64_text [OF d(2)]) (simp_all add: is_digit_def)
  ultimately show ?thesis by (simp only: of_nat_numeral r)
qed

definition id_message :: "string \<Rightarrow> string" where
  "id_message n = json_text (JObj [(''metadata'', JObj [(''id'', JNum n)]), (''body'', JObj [])])"

text \<open>Identifiers above \<open>2\<^sup>5\<^sup>3\<close> in the metadata collide: a number is read as a \<open>float64\<close>, so the
  requests numbered 9007199254740993 and 9007199254740992 are answered with the same metadata.\<close>

theorem metadata_ids_collide:
  "unmarshal_payload (id_message ''9007199254740993'') = unmarshal_payload (id_message ''9007199254740992'')"
proof -
  have ok: "num_ok ''9007199254740993''" "num_ok ''9007199254740992''" by code_simp+
  have names: "names_field ''metadata'' ''body'' = False" "names_field ''path'' ''body'' = False" by code_simp+
  have "unmarshal_payload (id_message n) = map_option (\<lambda>a. \<lparr>pl_Metadata = Some [(''id'', a)], pl_Path = [], pl_Body = ''{}''\<rparr>) (any_number n)"
    if "num_ok n" for n
    using that decode_struct_text [of "[(''metadata'', JObj [(''id'', JNum n)]), (''body'', JObj [])]" payload_field]
    by (cases "any_number n")
       (simp_all add: unmarshal_payload_def id_message_def fields_norm_def json_depth_def json_clean_ascii_id payload_field_def names metadata_field_def map_fill_def)
  then show ?thesis using ok by (simp add: any_number_def large_number)
qed

end
