(* ===== verification/Messenger.thy ===== *)
theory Messenger
  imports Model_Proxy System_Config Messages
begin

section \<open>The message-queue front end\<close>

text \<open>
  \<open>internal/messenger/messenger.go\<close>: requests arrive as messages, are handled like HTTP
  requests and answered by a message, whose texts are those of \<open>Messages\<close>. The pub/sub package
  and the HTTP client are parameters: what \<open>Receive\<close>, \<open>Send\<close> and \<open>Do\<close> return; so is the text of an
  error of the JSON package.
  \<open>handleRequest\<close> yields its observable events in order; \<open>Start\<close> is a machine whose
  handlers run concurrently with its loop.
\<close>

subsection \<open>Messages\<close>

record msg =
  mg_id :: string
  mg_body :: string
  mg_nackable :: bool

record msg_request =
  mr_Request :: "api_request option"
  mr_msg :: msg
  mr_metadata :: metadata
  mr_path :: string

datatype msg_event =
    MeMetric int string
  | MeScale string
  | MeAcquire string
  | MeBackend string string  \<comment> \<open>URL, body\<close>
  | MeRelease string
  | MeSend string            \<comment> \<open>the response message was handed to the topic\<close>
  | MeAck
  | MeNack

text \<open>The world of one message.\<close>

record msg_env =
  me_json_error :: "string \<Rightarrow> string"
  me_codec :: codec
  me_lookup :: lookup_fn
  me_uuid :: string
  me_await :: await_result
  me_backend :: "string \<Rightarrow> string \<Rightarrow> (string, string \<times> int) outcome"
  me_send :: "string \<Rightarrow> string option"

subsection \<open>Handling a message\<close>

definition msg_path :: "string \<Rightarrow> string" where
  "msg_path p = (if p = [] then ''/v1/completions'' else if \<not> has_prefix p ''/'' then ''/'' @ p else p)"

definition parseMsgRequest :: "msg_env \<Rightarrow> msg \<Rightarrow> msg_request \<times> (api_error, unit) outcome" where
  "parseMsgRequest env m =
     (let req = \<lparr>mr_Request = None, mr_msg = m, mr_metadata = None, mr_path = []\<rparr>
      in case unmarshal_payload (mg_body m) of
           None \<Rightarrow> (req, Error (ErrOther (''unmarshalling message as json: '' @ me_json_error env (mg_body m))))
         | Some pl \<Rightarrow>
             (let path = msg_path (pl_Path pl); req = req\<lparr>mr_metadata := pl_Metadata pl, mr_path := path\<rparr>
              in case ParseRequest (me_codec env) (me_lookup env) (me_uuid env)
                     \<lparr>hi_path = path, hi_headers = [], hi_body = Done (pl_Body pl), hi_form = []\<rparr> of
                   Error e \<Rightarrow> (req, Error e)
                 | Panic e \<Rightarrow> (req, Panic e)
                 | Done r \<Rightarrow> (req\<lparr>mr_Request := Some r\<rparr>, Done ())))"

text \<open>The number of consecutive errors is state shared by the handlers; each access is atomic.\<close>

definition jsonError :: "msg_env \<Rightarrow> string \<Rightarrow> int \<Rightarrow> string \<times> int" where
  "jsonError env message errs = (error_body (cd_print (me_codec env)) message, errs + 1)"

definition sendResponse :: "msg_env \<Rightarrow> msg_request \<Rightarrow> string \<Rightarrow> int \<Rightarrow> int \<Rightarrow> msg_event list \<times> int" where
  "sendResponse env req body statusCode errs =
     (let (json, errs) = (case marshal_response (mr_metadata req) statusCode body of
                            Some js \<Rightarrow> (js, errs) | None \<Rightarrow> ([], errs + 1))
      in case me_send env json of
           Some e \<Rightarrow> (MeSend json # (if mg_nackable (mr_msg req) then [MeNack] else []), errs + 1)
         | None \<Rightarrow> ([MeSend json, MeAck], if statusCode < 300 then 0 else errs))"

definition respond_error :: "msg_env \<Rightarrow> msg_request \<Rightarrow> string \<Rightarrow> int \<Rightarrow> int \<Rightarrow> msg_event list \<times> int" where
  "respond_error env req message statusCode errs =
     (let (body, errs) = jsonError env message errs in sendResponse env req body statusCode errs)"

fun error_status :: "api_error \<Rightarrow> int \<times> string" where
  "error_status (ErrBadRequest e) = (400, ''bad request: '' @ e)"
| "error_status (ErrModelNotFound e) = (404, ''model not found: '' @ e)"
| "error_status (ErrOther e) = (500, ''parsing request: '' @ e)"

fun await_error :: "await_result \<Rightarrow> string" where
  "await_error (AwAddr a) = []"
| "await_error AwCanceled = ''context canceled''"
| "await_error AwDeadline = ''context deadline exceeded''"
| "await_error (AwFail e) = e"

definition serve_message :: "msg_env \<Rightarrow> msg_request \<Rightarrow> api_request \<Rightarrow> int \<Rightarrow> msg_event list \<times> int" where
  "serve_message env req r errs =
     (case me_await env of
        AwAddr host \<Rightarrow>
          (let url = ''http://'' @ host @ mr_path req;
               body = (case rq_Body r of None \<Rightarrow> [] | Some b \<Rightarrow> b);
               (evs, errs) = (case me_backend env url body of
                  Done (payload, code) \<Rightarrow> sendResponse env req payload code errs
                | Error e \<Rightarrow> respond_error env req (''error sending request to backend: '' @ e) 502 errs
                | Panic e \<Rightarrow> ([], errs))
           in ([MeAcquire host, MeBackend url body] @ evs @ [MeRelease host], errs))
      | a \<Rightarrow> respond_error env req (''error awaiting host for backend: '' @ await_error a) 502 errs)"

definition handleRequest :: "msg_env \<Rightarrow> msg \<Rightarrow> int \<Rightarrow> (unit, msg_event list \<times> int) outcome" where
  "handleRequest env m errs =
     (let (req, parsed) = parseMsgRequest env m
      in case parsed of
           Error e \<Rightarrow> (let (status, message) = error_status e in Done (respond_error env req message status errs))
         | Panic e \<Rightarrow> Panic e
         | Done u \<Rightarrow>
             (case mr_Request req of
                None \<Rightarrow> Panic ''nil pointer dereference''
              | Some r \<Rightarrow>
                  (let (evs, errs) = serve_message env req r errs
                   in Done ([MeMetric 1 (rq_Model r), MeScale (rq_Model r)] @ evs @ [MeMetric (- 1) (rq_Model r)], errs))))"

definition consecutiveErrBackoff :: "int \<Rightarrow> int \<Rightarrow> int" where
  "consecutiveErrBackoff n mx = (let d = wrap64 (n * second_ns) in if mx < d then mx else d)"

subsection \<open>The receive loop\<close>

text \<open>
  \<open>MWait\<close>: a message was received, waiting for the semaphore or the end of the context.
  \<open>MBackoff\<close>: sleeping. \<open>MDrain n\<close>: taking the semaphore for the \<open>n\<close>-th time after the loop.
\<close>

datatype loop_pc = MReceive | MWait msg | MBackoff | MDrain nat | MReturned "string option"

record messenger =
  mm_pc :: loop_pc
  mm_sem :: nat            \<comment> \<open>tokens in the channel\<close>
  mm_active :: nat         \<comment> \<open>handler goroutines\<close>
  mm_restart :: int
  mm_errors :: int

datatype recv_error = RecvCanceled | RecvFailed string

datatype loop_event =
    LReceive msg
  | LReceiveError recv_error "string option"  \<comment> \<open>and whether reopening the subscription failed\<close>
  | LSpawn
  | LContextDone
  | LHandlerDone int                          \<comment> \<open>a handler ends, leaving this error count\<close>
  | LWake
  | LDrain

definition maxRestartAttempts :: int where "maxRestartAttempts = 20"

definition messenger_init :: messenger where
  "messenger_init = \<lparr>mm_pc = MReceive, mm_sem = 0, mm_active = 0, mm_restart = 0, mm_errors = 0\<rparr>"

fun mstep :: "nat \<Rightarrow> loop_event \<Rightarrow> messenger \<Rightarrow> messenger option" where
  "mstep n (LReceive m) s =
     (if mm_pc s = MReceive then Some (s\<lparr>mm_restart := 0, mm_pc := MWait m\<rparr>) else None)"
| "mstep n (LReceiveError e reopen) s =
     (if mm_pc s \<noteq> MReceive then None
      else (case e of
          RecvCanceled \<Rightarrow> Some (s\<lparr>mm_pc := MReturned (Some ''context canceled'')\<rparr>)
        | RecvFailed err \<Rightarrow>
            (if maxRestartAttempts < mm_restart s then Some (s\<lparr>mm_pc := MReturned (Some err)\<rparr>)
             else (case reopen of
                Some e' \<Rightarrow> Some (s\<lparr>mm_pc := MReturned (Some e')\<rparr>)
              | None \<Rightarrow> Some (s\<lparr>mm_restart := mm_restart s + 1\<rparr>)))))"
| "mstep n LSpawn s =
     (case mm_pc s of
        MWait m \<Rightarrow> if mm_sem s < n then
            Some (s\<lparr>mm_sem := mm_sem s + 1, mm_active := mm_active s + 1,
                    mm_pc := (if 0 < mm_errors s then MBackoff else MReceive)\<rparr>) else None
      | _ \<Rightarrow> None)"
| "mstep n LContextDone s = (case mm_pc s of MWait m \<Rightarrow> Some (s\<lparr>mm_pc := MDrain 0\<rparr>) | _ \<Rightarrow> None)"
| "mstep n (LHandlerDone errs) s =
     (if 0 < mm_active s then Some (s\<lparr>mm_active := mm_active s - 1, mm_sem := mm_sem s - 1, mm_errors := errs\<rparr>) else None)"
| "mstep n LWake s = (if mm_pc s = MBackoff then Some (s\<lparr>mm_pc := MReceive\<rparr>) else None)"
| "mstep n LDrain s =
     (case mm_pc s of
        MDrain k \<Rightarrow> if k = n then Some (s\<lparr>mm_pc := MReturned None\<rparr>)
                    else if mm_sem s < n then Some (s\<lparr>mm_sem := mm_sem s + 1, mm_pc := MDrain (Suc k)\<rparr>) else None
      | _ \<Rightarrow> None)"

inductive mreach :: "nat \<Rightarrow> messenger \<Rightarrow> bool" for n where
  mreach_init: "mreach n messenger_init"
| mreach_step: "mreach n s \<Longrightarrow> mstep n e s = Some s' \<Longrightarrow> mreach n s'"

inductive_cases mreachE: "mreach n s"

fun mrun :: "nat \<Rightarrow> loop_event list \<Rightarrow> messenger \<Rightarrow> messenger option" where
  "mrun n [] s = Some s"
| "mrun n (e # es) s = (case mstep n e s of None \<Rightarrow> None | Some s' \<Rightarrow> mrun n es s')"

subsection \<open>Handlers\<close>

lemma sendResponse_last:
  "\<exists>js. fst (sendResponse env req body st errs) =
     MeSend js # (if me_send env js = None then [MeAck] else if mg_nackable (mr_msg req) then [MeNack] else [])"
  by (auto simp: sendResponse_def case_prod_beta split: outcome.splits option.splits)

lemma respond_error_eq: "respond_error env req message st errs
    = sendResponse env req (fst (jsonError env message errs)) st (errs + 1)"
  by (simp add: respond_error_def jsonError_def)

lemma parse_msg [simp]: "mr_msg (fst (parseMsgRequest env m)) = m"
  by (auto simp: parseMsgRequest_def Let_def split: outcome.split option.split)

abbreviation settles :: "msg_event list \<Rightarrow> int" where
  "settles evs \<equiv> count_if (\<lambda>e. e = MeAck \<or> e = MeNack) evs"

text \<open>The part of a handler between parsing and the metrics ends with one response.\<close>

definition one_response :: "msg_env \<Rightarrow> msg \<Rightarrow> msg_event list \<Rightarrow> bool" where
  "one_response env m evs \<longleftrightarrow> (\<exists>js. filter (\<lambda>e. case e of MeSend _ \<Rightarrow> True | MeAck \<Rightarrow> True | MeNack \<Rightarrow> True | _ \<Rightarrow> False) evs
     = MeSend js # (if me_send env js = None then [MeAck] else if mg_nackable m then [MeNack] else []))"

lemma one_response_send: "mr_msg req = m \<Longrightarrow> one_response env m (fst (sendResponse env req body st errs))"
  using sendResponse_last [of env req body st errs] by (auto simp: one_response_def)

lemma one_response_serve:
  assumes "mr_msg req = m" "\<And>url b. \<not> is_panic (me_backend env url b)"
  shows "one_response env m (fst (serve_message env req r errs))"
proof (cases "me_await env")
  case (AwAddr host)
  let ?url = "''http://'' @ host @ mr_path req" and ?b = "case rq_Body r of None \<Rightarrow> [] | Some b \<Rightarrow> b"
  have wrap: "one_response env m evs \<Longrightarrow> one_response env m (MeAcquire host # MeBackend ?url ?b # evs @ [MeRelease host])" for evs
    by (simp add: one_response_def)
  show ?thesis
    using AwAddr assms(2) [of ?url ?b] wrap one_response_send [OF assms(1)]
    by (cases "me_backend env ?url ?b") (auto simp: serve_message_def respond_error_eq case_prod_beta)
qed (use one_response_send [OF assms(1)] in \<open>simp_all add: serve_message_def respond_error_eq\<close>)

text \<open>C31: A handled message is answered exactly once: one response is sent, then the message is
  acknowledged if that worked and rejected for redelivery if it did not and the queue allows.
  It is never acknowledged before a response was sent.\<close>

theorem handleRequest_settles:
  assumes "handleRequest env m errs = Done (evs, errs')" "\<And>url b. \<not> is_panic (me_backend env url b)"
  shows "one_response env m evs"
proof -
  obtain req parsed where p: "parseMsgRequest env m = (req, parsed)" by force
  then have req: "mr_msg req = m" using parse_msg [of env m] by simp
  show ?thesis
  proof (cases parsed)
    case (Done u)
    then obtain r where r: "mr_Request req = Some r"
      "evs = [MeMetric 1 (rq_Model r), MeScale (rq_Model r)] @ fst (serve_message env req r errs) @ [MeMetric (- 1) (rq_Model r)]"
      using assms(1) p by (auto simp: handleRequest_def case_prod_beta split: option.splits)
    then show ?thesis using one_response_serve [OF req assms(2), where r = r and errs = errs] by (simp add: one_response_def)
  next
    case (Error e)
    then have "evs = fst (respond_error env req (snd (error_status e)) (fst (error_status e)) errs)"
      using assms(1) p by (auto simp: handleRequest_def case_prod_beta dest: arg_cong [where f = fst])
    then show ?thesis using one_response_send [OF req] by (simp add: respond_error_eq)
  qed (use assms(1) p in \<open>simp add: handleRequest_def\<close>)
qed

definition demo_msg_env :: "string option \<Rightarrow> msg_env" where
  "demo_msg_env fail = \<lparr>me_json_error = (\<lambda>b. ''invalid character''), me_codec = demo_codec, me_lookup = (\<lambda>name a sels. Done None),
     me_uuid = ''u'', me_await = AwAddr ''h'', me_backend = (\<lambda>u b. Done (''[1]'', 200)), me_send = (\<lambda>b. fail)\<rparr>"

definition demo_msg :: msg where
  "demo_msg = \<lparr>mg_id = ''1'', mg_body = ''garbage'', mg_nackable = True\<rparr>"

lemma demo_msg_bad: "unmarshal_payload (mg_body demo_msg) = None"
  by code_simp

theorem handleRequest_settles_witness:
  "\<exists>evs errs. handleRequest (demo_msg_env (Some ''down'')) demo_msg 0 = Done (evs, errs) \<and> one_response (demo_msg_env (Some ''down'')) demo_msg evs"
proof -
  obtain p where p: "handleRequest (demo_msg_env (Some ''down'')) demo_msg 0 = Done p"
    by (simp add: handleRequest_def parseMsgRequest_def demo_msg_bad)
  obtain evs errs where h: "handleRequest (demo_msg_env (Some ''down'')) demo_msg 0 = Done (evs, errs)"
    by (cases p) (use p in simp)
  have "one_response (demo_msg_env (Some ''down'')) demo_msg evs"
    by (rule handleRequest_settles [OF h]) (simp add: demo_msg_env_def)
  with h show ?thesis by blast
qed

text \<open>A message whose body is not JSON is the sender's mistake, and is answered with status 500
  all the same: the unmarshalling error is not a bad request.\<close>

theorem malformed_message_is_500:
  assumes "unmarshal_payload (mg_body m) = None"
  shows "\<exists>body. handleRequest env m errs
    = Done (sendResponse env \<lparr>mr_Request = None, mr_msg = m, mr_metadata = None, mr_path = []\<rparr> body 500 (errs + 1))"
  using assms by (simp add: handleRequest_def parseMsgRequest_def respond_error_eq) blast

theorem malformed_message_is_500_witness:
  "\<exists>body. handleRequest (demo_msg_env None) demo_msg 0
    = Done (sendResponse (demo_msg_env None) \<lparr>mr_Request = None, mr_msg = demo_msg, mr_metadata = None, mr_path = []\<rparr> body 500 1)"
  using malformed_message_is_500 [OF demo_msg_bad, of "demo_msg_env None" 0] by simp

text \<open>When the response cannot be encoded, which happens when the backend's body is not JSON,
  an empty message is sent and the request is acknowledged: its answer is lost.\<close>

theorem unencodable_response_acked:
  assumes "json_parse body = None" "me_send env [] = None"
  shows "fst (sendResponse env req body st errs) = [MeSend [], MeAck]"
  using assms by (simp add: sendResponse_def marshal_response_def raw_message_def)

theorem unencodable_response_acked_witness:
  "fst (sendResponse (demo_msg_env None) \<lparr>mr_Request = None, mr_msg = demo_msg, mr_metadata = None, mr_path = []\<rparr> ''<html>'' 502 0) = [MeSend [], MeAck]"
proof -
  have "json_parse ''<html>'' = None" by code_simp
  then show ?thesis by (rule unencodable_response_acked) (simp add: demo_msg_env_def)
qed

subsection \<open>What the answer says\<close>





















subsection \<open>The loop\<close>

text \<open>The pause after errors grows by a second per error up to the configured maximum.\<close>

theorem backoff_bounds:
  assumes "0 \<le> n" "n * second_ns \<le> 9223372036854775807" "0 \<le> mx"
  shows "consecutiveErrBackoff n mx = min (n * second_ns) mx \<and> 0 \<le> consecutiveErrBackoff n mx"
proof -
  have "wrap64 (n * second_ns) = n * second_ns"
    using assms by (intro wrap64_id) (simp add: in_int64_def second_ns_def)
  then show ?thesis using assms by (auto simp: consecutiveErrBackoff_def Let_def min_def second_ns_def)
qed

theorem backoff_bounds_witness: "consecutiveErrBackoff 3 (2 * second_ns) = 2 * second_ns"
  using backoff_bounds [of 3 "2 * second_ns"] by (simp add: second_ns_def)

text \<open>The semaphore holds a token per handler, and one per round of the final drain.\<close>

definition drained :: "loop_pc \<Rightarrow> nat" where
  "drained p = (case p of MDrain k \<Rightarrow> k | _ \<Rightarrow> 0)"






text \<open>A subscription that keeps failing is recreated 21 times, one more than the constant
  \<open>maxRestartAttempts\<close> says, and the 22nd failure in a row ends the loop.\<close>

lemma restart_run:
  "mm_pc s = MReceive \<Longrightarrow> mm_restart s + int k \<le> 21 \<Longrightarrow>
   mrun n (replicate k (LReceiveError (RecvFailed e) None)) s = Some (s\<lparr>mm_restart := mm_restart s + int k\<rparr>)"
proof (induction k arbitrary: s)
  case (Suc k)
  then have "mstep n (LReceiveError (RecvFailed e) None) s = Some (s\<lparr>mm_restart := mm_restart s + 1\<rparr>)"
    by (simp add: maxRestartAttempts_def)
  with Suc show ?case by (simp add: add.assoc)
qed simp

theorem restart_limit:
  "mrun n (replicate 21 (LReceiveError (RecvFailed e) None)) messenger_init = Some (messenger_init\<lparr>mm_restart := 21\<rparr>)
   \<and> mstep n (LReceiveError (RecvFailed e) None) (messenger_init\<lparr>mm_restart := 21\<rparr>)
      = Some (messenger_init\<lparr>mm_restart := 21, mm_pc := MReturned (Some e)\<rparr>)"
  using restart_run [of messenger_init 21 n e]
  by (simp add: messenger_init_def maxRestartAttempts_def del: mrun.simps replicate.simps)

text \<open>The loop waits for its handlers only when the context ends while it waits for a free slot. When
  it ends while the loop waits for a message, as it mostly does, \<open>Start\<close> returns at once and leaves
  the handlers behind, up to \<open>MaxHandlers\<close> of them.\<close>

lemma fill_handlers:
  "mm_pc s = MReceive \<Longrightarrow> mm_errors s = 0 \<Longrightarrow> mm_restart s = 0 \<Longrightarrow> mm_sem s + k \<le> n \<Longrightarrow>
    mrun n (concat (replicate k [LReceive m, LSpawn]) @ es) s = mrun n es (s\<lparr>mm_sem := mm_sem s + k, mm_active := mm_active s + k\<rparr>)"
proof (induction k arbitrary: s)
  case (Suc k)
  let ?t = "s\<lparr>mm_restart := 0, mm_sem := mm_sem s + 1, mm_active := mm_active s + 1, mm_pc := MReceive\<rparr>"
  have "mrun n (LReceive m # LSpawn # es') s = mrun n es' ?t" for es' using Suc.prems by simp
  moreover have "mrun n (concat (replicate k [LReceive m, LSpawn]) @ es) ?t
    = mrun n es (?t\<lparr>mm_sem := mm_sem ?t + k, mm_active := mm_active ?t + k\<rparr>)"
    using Suc.prems by (intro Suc.IH) simp_all
  moreover have "?t\<lparr>mm_sem := mm_sem ?t + k, mm_active := mm_active ?t + k\<rparr> = s\<lparr>mm_sem := mm_sem s + Suc k, mm_active := mm_active s + Suc k\<rparr>"
    using Suc.prems by simp
  ultimately show ?case by simp
qed simp

theorem cancel_abandons_handlers:
  "\<exists>s. mrun n (concat (replicate n [LReceive m, LSpawn]) @ [LReceiveError RecvCanceled reopen]) messenger_init = Some s
    \<and> mm_pc s = MReturned (Some ''context canceled'') \<and> mm_active s = n"
  using fill_handlers [of messenger_init n n m "[LReceiveError RecvCanceled reopen]"] by (simp add: messenger_init_def)

end
