(* ===== verification/System_Properties.thy ===== *)
theory System_Properties
  imports Serving_Properties Files_Properties Group_Properties Manager Messenger
begin

section \<open>Properties that span components\<close>

subsection \<open>From the controller to the load balancer\<close>

lemma built_pod_meta:
  assumes "hashedPodForModel patch h r m c = Done (p, e)" "msp_JSONPatches (rc_ModelServerPods r) = []"
  shows "om_annotations (pod_meta p) = with_default_port (annotationsForModel r m)"
    "k \<noteq> PodHashLabel \<Longrightarrow> gm_lookup (om_labels (pod_meta p)) k = gm_lookup (labelsForModel m) k"
proof -
  obtain q where q: "podForModel r m c = Done q"
    and p: "pod_meta p = SetLabel ((pod_meta q)\<lparr>om_generate_name := ''model-'' @ md_name m @ ''-'' @ e @ ''-''\<rparr>) PodHashLabel e"
    using assms by (auto simp: hashedPodForModel_def outcome_bind_eq_Done applyJSONPatchToPod_def Let_def)
  obtain ct where "q = (server_pod r m c ct)\<lparr>pod_spec_of := pod_spec_of q\<rparr>" by (rule podForModel_Done [OF q])
  then have m: "pod_meta q = pod_meta (server_pod r m c ct)" by (metis pod.select_convs(1) pod.surjective pod.update_convs(2))
  show "om_annotations (pod_meta p) = with_default_port (annotationsForModel r m)"
    by (simp add: p m SetLabel_def server_pod_def)
  show "k \<noteq> PodHashLabel \<Longrightarrow> gm_lookup (om_labels (pod_meta p)) k = gm_lookup (labelsForModel m) k"
    by (simp add: p m SetLabel_def server_pod_def)
qed

lemma labels_base:
  "gm_lookup (labelsForModel m) PodModelLabel = Some (md_name m)"
  "gm_lookup (labelsForModel m) appKubernetesIOName = Some (str_lower (ms_Engine (md_spec m)))"
  unfolding labelsForModel_def Let_def foldl_keep_first by (simp_all add: PodModelLabel_def appKubernetesIOName_def)

lemma annotations_off:
  assumes "\<not> rc_AllowPodAddressOverride r"
  shows "with_default_port (annotationsForModel r m) = [(ModelPodPortAnnotation, ''8000'')]"
  using assms by (simp add: with_default_port_def annotationsForModel_def gm_put_def)

text \<open>The Pods that the controller builds are the endpoints that the load balancer serves. Once a Pod
  with the built labels and annotations is ready and has an IP, the load balancer sees it as a
  Pod of this Model, not as one of its own replicas, and takes the IP and port 8000 as its
  address, which is also where the controller loads adapters.\<close>

theorem built_pods_become_endpoints:
  assumes "hashedPodForModel patch h r m c = Done (p, e)" "msp_JSONPatches (rc_ModelServerPods r) = []" "\<not> rc_AllowPodAddressOverride r"
    and "ms_Engine (md_spec m) \<in> {OLlamaEngine, VLLMEngine, FasterWhisperEngine, InfinityEngine}"
    and "om_labels (pod_meta q) = om_labels (pod_meta p)" "om_annotations (pod_meta q) = om_annotations (pod_meta p)"
    and "PodIsReady q" "pst_pod_ip (pod_status_of q) \<noteq> []" "om_name (pod_meta q) \<notin> set exclude"
  shows "gm_lookup (om_labels (pod_meta q)) PodModelLabel = Some (md_name m)
    \<and> gm_get [] (om_labels (pod_meta q)) selfLabelKey \<noteq> selfLabelVal
    \<and> observe_pod exclude ob q = gm_put (pod_endpoint_key q)
        \<lparr>ob_address = pst_pod_ip (pod_status_of q) @ '':8000'', ob_adapters = getEndpointAdapters q\<rparr> ob
    \<and> getPodModelServerAddr q = ''http://'' @ pst_pod_ip (pod_status_of q) @ '':8000''"
proof -
  note labels = built_pod_meta(2) [OF assms(1,2)] and ann = built_pod_meta(1) [OF assms(1,2), unfolded annotations_off [OF assms(3)]]
  have ne: "PodModelLabel \<noteq> PodHashLabel" "appKubernetesIOName \<noteq> PodHashLabel"
    by (simp_all add: PodModelLabel_def PodHashLabel_def appKubernetesIOName_def)
  have l: "gm_lookup (om_labels (pod_meta q)) PodModelLabel = Some (md_name m)"
    unfolding assms(5) using labels [of PodModelLabel] ne by (simp add: labels_base)
  have s: "selfLabelKey = appKubernetesIOName" by (simp add: selfLabelKey_def appKubernetesIOName_def)
  have "gm_get [] (om_labels (pod_meta q)) selfLabelKey = str_lower (ms_Engine (md_spec m))"
    unfolding assms(5) gm_get_def s using labels [of appKubernetesIOName] ne by (simp add: labels_base)
  moreover have "str_lower ` {OLlamaEngine, VLLMEngine, FasterWhisperEngine, InfinityEngine} = {''ollama'', ''vllm'', ''fasterwhisper'', ''infinity''}"
    by code_simp
  then have "str_lower (ms_Engine (md_spec m)) \<in> {''ollama'', ''vllm'', ''fasterwhisper'', ''infinity''}"
    using assms(4) by (metis imageI)
  then have "str_lower (ms_Engine (md_spec m)) \<noteq> selfLabelVal" by (auto simp: selfLabelVal_def)
  moreover have "ModelPodPortAnnotation \<noteq> ModelPodIPAnnotation" by (simp add: ModelPodPortAnnotation_def ModelPodIPAnnotation_def)
  ultimately show ?thesis
    using l assms(6-9) ann
    by (simp add: observe_pod_def getPodAnnotation_def pod_ip_def gm_get_def getPodModelServerAddr_def Let_def)
qed

lemma demo_hashed: "\<exists>p e. hashedPodForModel (\<lambda>ps p. Done p) (\<lambda>s. ''h'') demo_reconciler lora_model demo_config = Done (p, e)"
proof -
  obtain p where "podForModel demo_reconciler lora_model demo_config = Done p" using demo_pod_built by (auto split: outcome.splits)
  moreover have "msp_JSONPatches (rc_ModelServerPods demo_reconciler) = []" by (simp add: demo_reconciler_def)
  ultimately show ?thesis by (simp add: hashedPodForModel_def applyJSONPatchToPod_def Let_def)
qed

theorem built_pods_become_endpoints_witness:
  "\<exists>q. observe_pod [] [] q = [(pod_endpoint_key q, \<lparr>ob_address = ''10.0.0.1:8000'', ob_adapters = getEndpointAdapters q\<rparr>)]"
proof -
  obtain p e where h: "hashedPodForModel (\<lambda>ps p. Done p) (\<lambda>s. ''h'') demo_reconciler lora_model demo_config = Done (p, e)"
    using demo_hashed by (elim exE)
  let ?q = "p\<lparr>pod_status_of := \<lparr>pst_conditions = [(''Ready'', ''True'')], pst_pod_ip = ''10.0.0.1'', pst_container_ready = []\<rparr>\<rparr>"
  have "msp_JSONPatches (rc_ModelServerPods demo_reconciler) = []" "\<not> rc_AllowPodAddressOverride demo_reconciler"
    "ms_Engine (md_spec lora_model) \<in> {OLlamaEngine, VLLMEngine, FasterWhisperEngine, InfinityEngine}" "PodIsReady ?q"
    by (simp_all add: demo_reconciler_def lora_model_def default_spec_def PodIsReady_def)
  then have "observe_pod [] [] ?q = gm_put (pod_endpoint_key ?q) \<lparr>ob_address = ''10.0.0.1'' @ '':8000'', ob_adapters = getEndpointAdapters ?q\<rparr> []"
    using built_pods_become_endpoints [OF h, of ?q "[]" "[]"] by simp
  then show ?thesis by (intro exI [of _ ?q]) (simp add: gm_put_def)
qed

subsection \<open>From zero\<close>










subsection \<open>From the proxy to the autoscaler\<close>











end
