(* ===== verification/Private_Chat.thy ===== *)
theory Private_Chat
  imports OpenAI_Server
begin

section \<open>The multi-tenant example in front of KubeAI\<close>

text \<open>
  \<open>examples/private-deep-chat/main.go\<close>: a web server that authenticates its users with basic
  authentication and forwards their inference requests to KubeAI with the label selector of
  their tenancy. What the standard library does on the way is written out: \<open>Request.BasicAuth\<close>
  with its base64 decoding, \<open>Header.Set\<close>, and the removal of hop-by-hop headers by
  \<open>httputil.ReverseProxy\<close>, which happens after the handler has set the selector. Headers that the
  proxy adds afterwards (\<open>X-Forwarded-For\<close>, \<open>Te\<close>, \<open>Upgrade\<close>) are not read by KubeAI and left out.
\<close>

subsection \<open>Basic authentication\<close>

definition b64_val :: "char \<Rightarrow> nat option" where
  "b64_val c =
     (let n = of_char c :: nat
      in if 65 \<le> n \<and> n \<le> 90 then Some (n - 65)
         else if 97 \<le> n \<and> n \<le> 122 then Some (n - 71)
         else if 48 \<le> n \<and> n \<le> 57 then Some (n + 4)
         else if n = 43 then Some 62 else if n = 47 then Some 63 else None)"

text \<open>Groups of four, the last one padded.\<close>

fun b64_groups :: "string \<Rightarrow> string option" where
  "b64_groups [] = Some []"
| "b64_groups (a # b # c # d # s) =
     (case (b64_val a, b64_val b) of
        (Some x, Some y) \<Rightarrow>
          (if c = CHR ''='' \<and> d = CHR ''='' then (if s = [] then Some [char_of (4 * x + y div 16)] else None)
           else (case b64_val c of
               None \<Rightarrow> None
             | Some z \<Rightarrow>
                 (if d = CHR ''='' then (if s = [] then Some [char_of (4 * x + y div 16), char_of (16 * (y mod 16) + z div 4)] else None)
                  else (case b64_val d of
                      None \<Rightarrow> None
                    | Some w \<Rightarrow> map_option ((@) [char_of (4 * x + y div 16), char_of (16 * (y mod 16) + z div 4), char_of (64 * (z mod 4) + w)])
                        (b64_groups s)))))
      | _ \<Rightarrow> None)"
| "b64_groups s = None"

definition b64_decode :: "string \<Rightarrow> string option" where
  "b64_decode s = b64_groups (filter (\<lambda>c. c \<noteq> CHR 0x0A \<and> c \<noteq> CHR 0x0D) s)"

definition parseBasicAuth :: "string \<Rightarrow> (string \<times> string) option" where
  "parseBasicAuth auth =
     (if length auth < 6 \<or> str_lower (take 6 auth) \<noteq> ''basic '' then None
      else (case b64_decode (drop 6 auth) of
          None \<Rightarrow> None
        | Some cs \<Rightarrow> (case str_cut (CHR '':'') cs of (user, pass, found) \<Rightarrow> if found then Some (user, pass) else None)))"

definition BasicAuth :: "(string, string list) gomap \<Rightarrow> (string \<times> string) option" where
  "BasicAuth hs = (let auth = header_Get hs ''Authorization'' in if auth = [] then None else parseBasicAuth auth)"

definition authenticate :: "string \<Rightarrow> string \<Rightarrow> string list \<times> bool" where
  "authenticate user pass =
     (case map_of [(''nick'', ''nickspass'', [''group-a'']), (''sam'', ''samspass'', [''group-b'']),
                   (''joe'', ''joespass'', [''group-a'', ''group-b''])] user of
        None \<Rightarrow> ([], False)
      | Some (password, tenancy) \<Rightarrow> if password \<noteq> pass then ([], False) else (tenancy, True))"

subsection \<open>The handlers\<close>

record chat_request =
  ch_Path :: string
  ch_Headers :: "(string, string list) gomap"

datatype chat_response =
    Unauthorized
  | Redirect string
  | ServeStatic
  | ProxyTo string "(string, string list) gomap"  \<comment> \<open>path and headers of the request that KubeAI gets\<close>

text \<open>\<open>textproto.CanonicalMIMEHeaderKey\<close>.\<close>

definition token_char :: "char \<Rightarrow> bool" where
  "token_char c \<longleftrightarrow> (let n = of_char c :: nat in 48 \<le> n \<and> n \<le> 57 \<or> 65 \<le> n \<and> n \<le> 90 \<or> 97 \<le> n \<and> n \<le> 122
     \<or> c \<in> {CHR ''!'', CHR ''#'', CHR ''$'', CHR ''%'', CHR ''&'', CHR 0x27, CHR ''*'', CHR ''+'', CHR ''-'', CHR ''.'', CHR ''^'', CHR ''_'', CHR 0x60, CHR ''|'', CHR ''~''})"

fun canon :: "bool \<Rightarrow> string \<Rightarrow> string" where
  "canon up [] = []"
| "canon up (c # cs) =
     (let n = of_char c :: nat;
          c' = (if up \<and> 97 \<le> n \<and> n \<le> 122 then char_of (n - 32) else if \<not> up \<and> 65 \<le> n \<and> n \<le> 90 then char_of (n + 32) else c)
      in c' # canon (c = CHR ''-'') cs)"

definition CanonicalHeaderKey :: "string \<Rightarrow> string" where
  "CanonicalHeaderKey k = (if list_all token_char k then canon True k else k)"

text \<open>\<open>ReverseProxy.ServeHTTP\<close> with a \<open>Director\<close>: first the headers named by \<open>Connection\<close> go, then the
  known hop-by-hop headers.\<close>

definition hopHeaders :: "string list" where
  "hopHeaders = [''Connection'', ''Proxy-Connection'', ''Keep-Alive'', ''Proxy-Authenticate'', ''Proxy-Authorization'',
     ''Te'', ''Trailer'', ''Transfer-Encoding'', ''Upgrade'']"

definition trim_blank :: "string \<Rightarrow> string" where
  "trim_blank s = (let blank = (\<lambda>c. c = CHR '' '' \<or> c = CHR 0x09) in rev (dropWhile blank (rev (dropWhile blank s))))"

definition connection_keys :: "(string, string list) gomap \<Rightarrow> string list" where
  "connection_keys hs = map CanonicalHeaderKey (filter (\<lambda>k. k \<noteq> [])
     (map trim_blank (concat (map (str_split (CHR '','')) (header_Values hs ''Connection'')))))"

definition removeHopByHopHeaders :: "(string, string list) gomap \<Rightarrow> (string, string list) gomap" where
  "removeHopByHopHeaders hs = fold gm_del hopHeaders (fold gm_del (connection_keys hs) hs)"

definition proxyHandler :: "chat_request \<Rightarrow> chat_response" where
  "proxyHandler r = ProxyTo (ch_Path r) (removeHopByHopHeaders (ch_Headers r))"

definition authUser :: "chat_request \<Rightarrow> chat_response" where
  "authUser r =
     (case BasicAuth (ch_Headers r) of
        None \<Rightarrow> Unauthorized
      | Some (user, pass) \<Rightarrow> if snd (authenticate user pass) then ServeStatic else Unauthorized)"

definition tenancy_selector :: "string list \<Rightarrow> string" where
  "tenancy_selector tenancy = ''tenancy in ('' @ str_join '','' tenancy @ '')''"

definition authUserToKubeAI :: "chat_request \<Rightarrow> chat_response" where
  "authUserToKubeAI r =
     (case BasicAuth (ch_Headers r) of
        None \<Rightarrow> Unauthorized
      | Some (user, pass) \<Rightarrow>
          (case authenticate user pass of (tenancy, authenticated) \<Rightarrow>
             if \<not> authenticated \<or> tenancy = [] then Unauthorized
             else proxyHandler (r\<lparr>ch_Headers := gm_put ''X-Label-Selector'' [tenancy_selector tenancy] (ch_Headers r)\<rparr>)))"

text \<open>The multiplexer, for paths that it does not have to clean.\<close>

definition chat_mux :: "chat_request \<Rightarrow> chat_response" where
  "chat_mux r =
     (if has_prefix (ch_Path r) ''/openai/'' then authUserToKubeAI r
      else if ch_Path r = ''/openai'' then Redirect ''/openai/''
      else authUser r)"

subsection \<open>Who gets through\<close>

lemma lookup_fold_del: "gm_lookup (fold gm_del ks m) k = (if k \<in> set ks then None else gm_lookup m k)"
  by (induction ks arbitrary: m) auto

lemma authenticate_tenancy: "authenticate user pass = (ts, True) \<Longrightarrow> ts \<noteq> [] \<and> set ts \<subseteq> {''group-a'', ''group-b''}"
  by (auto simp: authenticate_def split: if_splits)

lemma proxied:
  assumes "chat_mux r = ProxyTo path hs"
  obtains user pass ts where "BasicAuth (ch_Headers r) = Some (user, pass)" "authenticate user pass = (ts, True)"
    "path = ch_Path r" "hs = removeHopByHopHeaders (gm_put ''X-Label-Selector'' [tenancy_selector ts] (ch_Headers r))"
proof -
  have a: "authUserToKubeAI r = ProxyTo path hs"
    using assms by (auto simp: chat_mux_def authUser_def split: if_splits option.splits)
  then obtain user pass ts where b: "BasicAuth (ch_Headers r) = Some (user, pass)" "authenticate user pass = (ts, True)"
    by (auto simp: authUserToKubeAI_def split: option.splits prod.splits if_splits)
  then show ?thesis using a by (intro that [OF b]) (auto simp: authUserToKubeAI_def proxyHandler_def split: if_splits)
qed

lemma connection_keys_put: "connection_keys (gm_put ''X-Label-Selector'' v hs) = connection_keys hs"
  by (simp add: connection_keys_def header_Values_def gm_get_def)

lemma selector_forwarded:
  assumes "chat_mux r = ProxyTo path hs"
  obtains user pass ts where "BasicAuth (ch_Headers r) = Some (user, pass)" "authenticate user pass = (ts, True)"
    "header_Values hs ''X-Label-Selector'' = (if ''X-Label-Selector'' \<in> set (connection_keys (ch_Headers r)) then [] else [tenancy_selector ts])"
proof (rule proxied [OF assms])
  fix user pass ts
  assume b: "BasicAuth (ch_Headers r) = Some (user, pass)" "authenticate user pass = (ts, True)"
    "hs = removeHopByHopHeaders (gm_put ''X-Label-Selector'' [tenancy_selector ts] (ch_Headers r))"
  have "''X-Label-Selector'' \<notin> set hopHeaders" by (simp add: hopHeaders_def)
  then show thesis
    by (intro that [OF b(1,2)]) (simp add: b(3) removeHopByHopHeaders_def header_Values_def gm_get_def lookup_fold_del connection_keys_put)
qed




definition nick_request :: "(string \<times> string list) list \<Rightarrow> chat_request" where
  "nick_request extra = \<lparr>ch_Path = ''/openai/v1/rerank'', ch_Headers = [(''Authorization'', [''Basic bmljazpuaWNrc3Bhc3M=''])] @ extra\<rparr>"

definition tenancy_parser :: label_parser where
  "tenancy_parser sel = (if sel = ''tenancy in (group-a)'' then Done (\<lambda>ls. gm_get [] ls ''tenancy'' = ''group-a'') else Error ''bad selector'')"

definition tenant_model :: "string \<Rightarrow> string \<Rightarrow> model" where
  "tenant_model name g = (default_model name)\<lparr>md_meta := empty_meta\<lparr>om_name := name, om_labels := [(''tenancy'', g)]\<rparr>\<rparr>"


lemma nick_auth: "BasicAuth (ch_Headers (nick_request extra)) = Some (''nick'', ''nickspass'')"
proof -
  have "parseBasicAuth ''Basic bmljazpuaWNrc3Bhc3M='' = Some (''nick'', ''nickspass'')" by code_simp
  then show ?thesis by (simp add: BasicAuth_def nick_request_def header_Get_def gm_get_def)
qed



text \<open>The condition on \<open>Connection\<close> cannot be dropped. When the client lists the selector as a
  connection header, the proxy removes it after the handler set it, KubeAI gets no selector, and
  an authenticated user of any group reaches every Model.\<close>

theorem tenant_bypass:
  assumes "has_prefix (ch_Path r) ''/openai/''" "BasicAuth (ch_Headers r) = Some (user, pass)" "authenticate user pass = (ts, True)"
    and "''X-Label-Selector'' \<in> set (connection_keys (ch_Headers r))" "api_get ms name = ApiOk m"
  shows "\<exists>hs. chat_mux r = ProxyTo (ch_Path r) hs
    \<and> LookupModel parse (api_get ms) name [] (header_Values hs ''X-Label-Selector'') = Done (Some m)"
proof -
  obtain hs where hs: "chat_mux r = ProxyTo (ch_Path r) hs"
    using assms(1-3) authenticate_tenancy [OF assms(3)] by (simp add: chat_mux_def authUserToKubeAI_def proxyHandler_def)
  then have "header_Values hs ''X-Label-Selector'' = []" using selector_forwarded [OF hs] assms(4) by metis
  then show ?thesis using hs assms(5) by (simp add: LookupModel_def)
qed

theorem tenant_bypass_witness:
  "\<exists>hs. chat_mux (nick_request [(''Connection'', [''close, x-label-selector''])]) = ProxyTo ''/openai/v1/rerank'' hs
    \<and> LookupModel tenancy_parser (api_get [tenant_model ''secret'' ''group-b'']) ''secret'' [] (header_Values hs ''X-Label-Selector'')
      = Done (Some (tenant_model ''secret'' ''group-b''))"
proof -
  let ?r = "nick_request [(''Connection'', [''close, x-label-selector''])]"
  have p: "has_prefix (ch_Path ?r) ''/openai/''" "ch_Path ?r = ''/openai/v1/rerank''" by code_simp+
  have a: "authenticate ''nick'' ''nickspass'' = ([''group-a''], True)" by code_simp
  have k: "''X-Label-Selector'' \<in> set (connection_keys (ch_Headers ?r))" by code_simp
  have "api_get [tenant_model ''secret'' ''group-b''] ''secret'' = ApiOk (tenant_model ''secret'' ''group-b'')"
    by (simp add: api_get_def tenant_model_def)
  then show ?thesis using tenant_bypass [OF p(1) nick_auth a k] p(2) by simp
qed

text \<open>Nothing is served without credentials, neither the static files nor KubeAI.\<close>

theorem chat_needs_login:
  assumes "\<And>user pass. BasicAuth (ch_Headers r) = Some (user, pass) \<Longrightarrow> \<not> snd (authenticate user pass)" "ch_Path r \<noteq> ''/openai''"
  shows "chat_mux r = Unauthorized"
  using assms by (auto simp: chat_mux_def authUserToKubeAI_def authUser_def split: option.splits prod.splits)

theorem chat_needs_login_witness: "chat_mux \<lparr>ch_Path = ''/openai/v1/models'', ch_Headers = []\<rparr> = Unauthorized"
  by (rule chat_needs_login) (simp_all add: BasicAuth_def header_Get_def gm_get_def)

end
