(* ===== verification/Benchmark_Runner.thy ===== *)
theory Benchmark_Runner
  imports System_Config "HOL-Library.Multiset" "HOL-Library.Signed_Division"
begin

section \<open>The multi-turn chat benchmark\<close>

text \<open>
  \<open>benchmarks/multi-turn-chat-go\<close>: \<open>benchmark/runner.go\<close>, which plays conversations against an
  OpenAI endpoint, several at a time, and summarises the answers; and \<open>main.go\<close>, which prepares
  the configuration and the data set. The OpenAI client and its message type are third-party: the
  type is a parameter, the client a function from the number of the request in its conversation and
  the request to an error or a stream of chunks. A \<open>float64\<close> that is not finite is \<open>None\<close>.
\<close>

subsection \<open>Types\<close>

record bench_config =
  bc_MaxConcurrentThreads :: int
  bc_MaxCompletionTokens :: int
  bc_Temperature :: rat
  bc_RequestModel :: string
  bc_Verbose :: bool

record 'm input_thread =
  it_ID :: string
  it_Messages :: "'m list"

record request_result =
  rr_duration :: int
  rr_ttChunks :: "int list"
  rr_promptTokens :: int
  rr_cachedPromptTokens :: int
  rr_completionTokens :: int
  rr_totalTokens :: int

record 'm bench_thread =
  th_id :: string
  th_inputMsgs :: "'m list"
  th_currentMsgs :: "'m list"
  th_requests :: int
  th_results :: "request_result list"
  th_err :: "string option"

record bench_result =
  rs_InputThreadCount :: int
  rs_InputMessagesPerThread :: "rat option"
  rs_Duration :: int
  rs_RequestCount :: int
  rs_RequestDuration :: int
  rs_ChunksPerRequest :: "rat option"
  rs_FailedThreads :: int
  rs_RunOutputThroughput :: "rat option"
  rs_RunTotalThroughput :: "rat option"
  rs_TTFT :: int
  rs_ITL :: int
  rs_PromptTokens :: int
  rs_CachedPromptTokens :: int
  rs_CompletionTokens :: int
  rs_TotalTokens :: int

text \<open>What the code reads of the client library: a chunk has its choices (finish reason, content and
  role of the delta) and maybe the usage, and comes some time after the one before it.\<close>

record stream_usage =
  su_PromptTokens :: int
  su_CompletionTokens :: int
  su_TotalTokens :: int
  su_CachedTokens :: "int option"

record stream_chunk =
  ck_Choices :: "(string \<times> string \<times> string) list"
  ck_Usage :: "stream_usage option"
  ck_since :: int

record 'm stream_request =
  sr_Model :: string
  sr_MaxTokens :: int
  sr_Stream :: bool
  sr_Messages :: "'m list"
  sr_Temperature :: rat
  sr_IncludeUsage :: bool

record 'm chat_library =
  cl_UserRole :: string
  cl_FinishNull :: string
  cl_Role :: "'m \<Rightarrow> string"
  cl_message :: "string \<Rightarrow> string \<Rightarrow> 'm"

text \<open>The chunks, the error that ends the stream if it is not \<open>io.EOF\<close>, and the time it all took.\<close>

type_synonym chat_stream = "stream_chunk list \<times> string option \<times> int"
type_synonym 'm chat_service = "nat \<Rightarrow> 'm stream_request \<Rightarrow> string + chat_stream"

subsection \<open>Configuration\<close>

definition bench_Validate :: "bench_config \<Rightarrow> string option" where
  "bench_Validate c =
     (if bc_MaxConcurrentThreads c \<le> 0 then
        Some ''max_concurrent_threads (--max-concurrent-threads) must be greater than 0''
      else if bc_MaxCompletionTokens c \<le> 0 then
        Some ''max_completion_tokens (--max-completion-tokens) must be greater than 0''
      else if bc_RequestModel c = [] then Some ''request_model (--request-model) must be specified''
      else None)"

definition bench_New :: "'m input_thread list \<Rightarrow> 'm bench_thread list" where
  "bench_New inputThreads =
     map (\<lambda>it. \<lparr>th_id = it_ID it, th_inputMsgs = it_Messages it, th_currentMsgs = [], th_requests = 0,
        th_results = [], th_err = None\<rparr>) inputThreads"

subsection \<open>One conversation\<close>

definition no_result :: request_result where
  "no_result = \<lparr>rr_duration = 0, rr_ttChunks = [], rr_promptTokens = 0, rr_cachedPromptTokens = 0,
     rr_completionTokens = 0, rr_totalTokens = 0\<rparr>"

definition record_usage :: "stream_usage option \<Rightarrow> request_result \<Rightarrow> request_result" where
  "record_usage u r =
     (case u of
        None \<Rightarrow> r
      | Some u \<Rightarrow>
          (let r = r\<lparr>rr_promptTokens := su_PromptTokens u, rr_completionTokens := su_CompletionTokens u,
                rr_totalTokens := su_TotalTokens u\<rparr>
           in case su_CachedTokens u of None \<Rightarrow> r | Some n \<Rightarrow> r\<lparr>rr_cachedPromptTokens := n\<rparr>))"

definition recv_chunk ::
  "'m chat_library \<Rightarrow> stream_chunk \<Rightarrow> request_result \<times> string \<times> string \<Rightarrow> request_result \<times> string \<times> string" where
  "recv_chunk l ck acc =
     (let (r, text, role) = acc;
          (r, text, role) =
            (case ck_Choices ck of
               [] \<Rightarrow> (r, text, role)
             | (finish, content, r') # _ \<Rightarrow>
                 (if finish = cl_FinishNull l \<or> finish = [] then
                    (r\<lparr>rr_ttChunks := rr_ttChunks r @ [ck_since ck]\<rparr>, text @ content, if role = [] then r' else role)
                  else (r, text, role)))
      in (record_usage (ck_Usage ck) r, text, role))"

definition bench_request :: "bench_config \<Rightarrow> 'm list \<Rightarrow> 'm stream_request" where
  "bench_request cfg msgs =
     \<lparr>sr_Model = bc_RequestModel cfg, sr_MaxTokens = bc_MaxCompletionTokens cfg, sr_Stream = True,
      sr_Messages = msgs, sr_Temperature = bc_Temperature cfg, sr_IncludeUsage = True\<rparr>"

text \<open>One turn: the message is appended and sent with all that came before, and the answer is
  appended when its stream has ended.\<close>

definition chat_turn ::
  "'m chat_library \<Rightarrow> 'm chat_service \<Rightarrow> bench_config \<Rightarrow> 'm \<Rightarrow> 'm bench_thread \<Rightarrow> 'm bench_thread \<times> string option" where
  "chat_turn l service cfg msg t =
     (let n = nat (th_requests t);
          t = t\<lparr>th_currentMsgs := th_currentMsgs t @ [msg], th_requests := th_requests t + 1\<rparr>
      in case service n (bench_request cfg (th_currentMsgs t)) of
           Inl e \<Rightarrow> (t, Some (''request: '' @ e))
         | Inr (chunks, Some e, elapsed) \<Rightarrow> (t, Some (''stream: '' @ e))
         | Inr (chunks, None, elapsed) \<Rightarrow>
             (let (r, text, role) = fold (recv_chunk l) chunks (no_result, [], [])
              in (t\<lparr>th_currentMsgs := th_currentMsgs t @ [cl_message l role text],
                    th_results := th_results t @ [r\<lparr>rr_duration := elapsed\<rparr>]\<rparr>, None)))"

fun chat_turns ::
  "'m chat_library \<Rightarrow> 'm chat_service \<Rightarrow> bench_config \<Rightarrow> 'm list \<Rightarrow> 'm bench_thread \<Rightarrow> 'm bench_thread \<times> string option" where
  "chat_turns l service cfg [] t = (t, None)"
| "chat_turns l service cfg (m # ms) t =
     (case chat_turn l service cfg m t of
        (t, Some e) \<Rightarrow> (t, Some e)
      | (t, None) \<Rightarrow> chat_turns l service cfg ms t)"

definition RunThread ::
  "'m chat_library \<Rightarrow> 'm chat_service \<Rightarrow> bench_config \<Rightarrow> 'm bench_thread \<Rightarrow> 'm bench_thread \<times> string option" where
  "RunThread l service cfg t =
     chat_turns l service cfg (th_inputMsgs t)
       (t\<lparr>th_currentMsgs := th_currentMsgs t @ takeWhile (\<lambda>m. cl_Role l m \<noteq> cl_UserRole l) (th_inputMsgs t)\<rparr>)"

subsection \<open>The run\<close>

text \<open>The main goroutine starts the conversations in order, waiting for one of the
  \<open>MaxConcurrentThreads\<close> slots before each; a goroutine ends at any time, writes its conversation and
  frees its slot. \<open>Run\<close> returns when all are started and none is left.\<close>

record 'm bench_run =
  br_next :: nat
  br_running :: "nat list"
  br_threads :: "'m bench_thread list"

definition run_init :: "'m bench_thread list \<Rightarrow> 'm bench_run" where
  "run_init ts = \<lparr>br_next = 0, br_running = [], br_threads = ts\<rparr>"

definition start_thread :: "bench_config \<Rightarrow> 'm bench_run \<Rightarrow> 'm bench_run option" where
  "start_thread cfg s =
     (if br_next s < length (br_threads s) \<and> int (length (br_running s)) < bc_MaxConcurrentThreads cfg
      then Some (s\<lparr>br_next := br_next s + 1, br_running := br_running s @ [br_next s]\<rparr>) else None)"

definition ran_thread :: "'m chat_library \<Rightarrow> 'm chat_service \<Rightarrow> bench_config \<Rightarrow> 'm bench_thread \<Rightarrow> 'm bench_thread" where
  "ran_thread l service cfg t =
     (case RunThread l service cfg t of (t, None) \<Rightarrow> t | (t, Some e) \<Rightarrow> t\<lparr>th_err := Some e\<rparr>)"

definition finish_thread ::
  "'m chat_library \<Rightarrow> (nat \<Rightarrow> 'm chat_service) \<Rightarrow> bench_config \<Rightarrow> nat \<Rightarrow> 'm bench_run \<Rightarrow> 'm bench_run option" where
  "finish_thread l services cfg i s =
     (if i \<in> set (br_running s)
      then Some (s\<lparr>br_running := remove1 i (br_running s),
                   br_threads := (br_threads s)[i := ran_thread l (services i) cfg (br_threads s ! i)]\<rparr>)
      else None)"

definition run_returned :: "'m bench_run \<Rightarrow> bool" where
  "run_returned s \<longleftrightarrow> br_next s = length (br_threads s) \<and> br_running s = []"

inductive bench_step :: "'m chat_library \<Rightarrow> (nat \<Rightarrow> 'm chat_service) \<Rightarrow> bench_config \<Rightarrow> 'm bench_run \<Rightarrow> 'm bench_run \<Rightarrow> bool"
  for l services cfg where
  step_start: "start_thread cfg s = Some s' \<Longrightarrow> bench_step l services cfg s s'"
| step_finish: "finish_thread l services cfg i s = Some s' \<Longrightarrow> bench_step l services cfg s s'"

inductive_cases bench_stepE: "bench_step l services cfg s s'"

inductive bench_reach ::
  "'m chat_library \<Rightarrow> (nat \<Rightarrow> 'm chat_service) \<Rightarrow> bench_config \<Rightarrow> 'm bench_thread list \<Rightarrow> nat \<Rightarrow> 'm bench_run \<Rightarrow> bool"
  for l services cfg ts where
  reach_init: "bench_reach l services cfg ts 0 (run_init ts)"
| reach_step: "bench_reach l services cfg ts n s \<Longrightarrow> bench_step l services cfg s s' \<Longrightarrow> bench_reach l services cfg ts (Suc n) s'"

subsection \<open>The summary\<close>

definition f64_quot :: "rat \<Rightarrow> rat \<Rightarrow> rat option" where
  "f64_quot x y = (if y = 0 then None else Some (f64_div x y))"

definition mean :: "int list \<Rightarrow> int" where
  "mean durs = (if durs = [] then 0 else foldl (\<lambda>sum d. wrap64 (sum + d)) 0 durs sdiv int (length durs))"

text \<open>\<open>time.Duration.Seconds\<close>.\<close>

definition duration_Seconds :: "int \<Rightarrow> rat" where
  "duration_Seconds d = f64_add (f64_of_int (d sdiv second_ns)) (f64_div (f64_of_int (d smod second_ns)) (10 ^ 9))"

text \<open>The variables of the summarising loops.\<close>

record bench_totals =
  bt_result :: bench_result
  bt_ttfts :: "int list"
  bt_reqDurations :: "int list"
  bt_totalChunks :: int
  bt_totalITLTime :: int
  bt_totalITLCompletionTokens :: rat
  bt_totalInputMessageCount :: int

definition count_chunk :: "nat \<times> int \<Rightarrow> bench_totals \<times> int \<Rightarrow> bench_totals \<times> int" where
  "count_chunk ic acc =
     (let (chunkIdx, ttChunk) = ic; (b, itlChunkCount) = acc; b = b\<lparr>bt_totalChunks := wrap64 (bt_totalChunks b + 1)\<rparr>
      in if chunkIdx = 0 then (b\<lparr>bt_ttfts := bt_ttfts b @ [ttChunk]\<rparr>, itlChunkCount)
         else (b\<lparr>bt_totalITLTime := wrap64 (bt_totalITLTime b + ttChunk)\<rparr>, wrap64 (itlChunkCount + 1)))"

definition count_result :: "request_result \<Rightarrow> bench_totals \<Rightarrow> bench_totals" where
  "count_result q b =
     (let (b, itlChunkCount) = fold count_chunk (enumerate 0 (rr_ttChunks q)) (b, 0);
          r = bt_result b;
          itlFactor = f64_div (f64_of_int itlChunkCount) (f64_of_int (wrap64 (itlChunkCount + 1)))
      in b\<lparr>bt_result := r\<lparr>rs_PromptTokens := wrap64 (rs_PromptTokens r + rr_promptTokens q),
              rs_CachedPromptTokens := wrap64 (rs_CachedPromptTokens r + rr_cachedPromptTokens q),
              rs_CompletionTokens := wrap64 (rs_CompletionTokens r + rr_completionTokens q),
              rs_TotalTokens := wrap64 (rs_TotalTokens r + rr_totalTokens q)\<rparr>,
            bt_reqDurations := bt_reqDurations b @ [rr_duration q],
            bt_totalITLCompletionTokens :=
              f64_add (bt_totalITLCompletionTokens b) (f64_mul itlFactor (f64_of_int (rr_completionTokens q)))\<rparr>)"

definition count_thread :: "'m bench_thread \<Rightarrow> bench_totals \<Rightarrow> bench_totals" where
  "count_thread t b =
     (let r = bt_result b;
          b = b\<lparr>bt_result := r\<lparr>rs_RequestCount := wrap64 (rs_RequestCount r + th_requests t)\<rparr>,
                bt_totalInputMessageCount := wrap64 (bt_totalInputMessageCount b + int (length (th_inputMsgs t)))\<rparr>;
          r = bt_result b
      in if th_err t \<noteq> None then b\<lparr>bt_result := r\<lparr>rs_FailedThreads := wrap64 (rs_FailedThreads r + 1)\<rparr>\<rparr>
         else fold count_result (th_results t) b)"

definition new_totals :: "int \<Rightarrow> bench_totals" where
  "new_totals duration =
     \<lparr>bt_result = \<lparr>rs_InputThreadCount = 0, rs_InputMessagesPerThread = Some 0, rs_Duration = duration,
        rs_RequestCount = 0, rs_RequestDuration = 0, rs_ChunksPerRequest = Some 0, rs_FailedThreads = 0,
        rs_RunOutputThroughput = Some 0, rs_RunTotalThroughput = Some 0, rs_TTFT = 0, rs_ITL = 0,
        rs_PromptTokens = 0, rs_CachedPromptTokens = 0, rs_CompletionTokens = 0, rs_TotalTokens = 0\<rparr>,
      bt_ttfts = [], bt_reqDurations = [], bt_totalChunks = 0, bt_totalITLTime = 0,
      bt_totalITLCompletionTokens = 0, bt_totalInputMessageCount = 0\<rparr>"

text \<open>Converting a \<open>float64\<close> that is no \<open>int64\<close> is left to the implementation: a parameter.\<close>

definition to_duration :: "(rat option \<Rightarrow> int) \<Rightarrow> rat option \<Rightarrow> int" where
  "to_duration convert x =
     (case x of Some r \<Rightarrow> if in_int64 (f64_trunc r) then f64_trunc r else convert x | None \<Rightarrow> convert x)"

definition summarizeResults :: "(rat option \<Rightarrow> int) \<Rightarrow> 'm bench_thread list \<Rightarrow> int \<Rightarrow> bench_result" where
  "summarizeResults convert ts duration =
     (let b = fold count_thread ts (new_totals duration); r = bt_result b; threads = int (length ts)
      in r\<lparr>rs_TTFT := mean (bt_ttfts b),
           rs_ITL := to_duration convert (f64_quot (f64_of_int (bt_totalITLTime b)) (bt_totalITLCompletionTokens b)),
           rs_RequestDuration := mean (bt_reqDurations b),
           rs_ChunksPerRequest := f64_quot (f64_of_int (bt_totalChunks b)) (f64_of_int (rs_RequestCount r)),
           rs_InputThreadCount := threads,
           rs_InputMessagesPerThread := f64_quot (f64_of_int (bt_totalInputMessageCount b)) (f64_of_int threads),
           rs_RunOutputThroughput := f64_quot (f64_of_int (rs_CompletionTokens r)) (duration_Seconds (rs_Duration r)),
           rs_RunTotalThroughput := f64_quot (f64_of_int (rs_TotalTokens r)) (duration_Seconds (rs_Duration r))\<rparr>)"

subsection \<open>Results as JSON\<close>

text \<open>\<open>Duration\<close> of the benchmark reads strings only; \<open>null\<close> leaves the string empty.\<close>

definition bench_UnmarshalJSON :: "(string \<Rightarrow> string) \<Rightarrow> (string \<Rightarrow> string) \<Rightarrow> string \<Rightarrow> (string, int) outcome" where
  "bench_UnmarshalJSON jsonError timeError b =
     (let parse = (\<lambda>t. case ParseDuration t of None \<Rightarrow> Error (timeError t) | Some d \<Rightarrow> Done d)
      in case json_parse b of
           Some (JStr t) \<Rightarrow> parse t
         | Some JNull \<Rightarrow> parse []
         | _ \<Rightarrow> Error (jsonError b))"

definition bench_MarshalJSON :: "int \<Rightarrow> json_value" where
  "bench_MarshalJSON d = JStr (duration_text d)"

text \<open>A value that is not finite cannot be encoded.\<close>

definition float_json :: "rat option \<Rightarrow> json_value option" where
  "float_json x = map_option (\<lambda>r. json_of_any (AFloat (r < 0) \<bar>r\<bar>)) x"

definition mean_json :: "json_value \<Rightarrow> json_value" where
  "mean_json v = JObj [(''mean'', v)]"

definition int_json :: "int \<Rightarrow> json_value" where
  "int_json n = JNum (int_str n)"

definition result_json :: "bench_result \<Rightarrow> json_value option" where
  "result_json r =
     (case (float_json (rs_InputMessagesPerThread r), float_json (rs_ChunksPerRequest r),
            float_json (rs_RunOutputThroughput r), float_json (rs_RunTotalThroughput r)) of
        (Some messages, Some chunks, Some output, Some all_tokens) \<Rightarrow>
          Some (JObj
            [(''input_thread_count'', int_json (rs_InputThreadCount r)),
             (''input_messages_per_thread'', mean_json messages),
             (''duration'', bench_MarshalJSON (rs_Duration r)),
             (''request_count'', int_json (rs_RequestCount r)),
             (''request_duration'', mean_json (bench_MarshalJSON (rs_RequestDuration r))),
             (''chunks_per_request'', mean_json chunks),
             (''failed_threads'', int_json (rs_FailedThreads r)),
             (''run_output_throughput'', output),
             (''run_total_throughput'', all_tokens),
             (''ttft'', mean_json (bench_MarshalJSON (rs_TTFT r))),
             (''itl'', mean_json (bench_MarshalJSON (rs_ITL r))),
             (''prompt_tokens'', int_json (rs_PromptTokens r)),
             (''cached_prompt_tokens'', int_json (rs_CachedPromptTokens r)),
             (''completion_tokens'', int_json (rs_CompletionTokens r)),
             (''total_tokens'', int_json (rs_TotalTokens r))])
      | _ \<Rightarrow> None)"

lemma bench_duration_comes_back:
  "in_int64 d \<Longrightarrow> bench_UnmarshalJSON jsonError timeError (json_text (bench_MarshalJSON d)) = Done d"
  using json_parse_text [of "JStr (duration_text d)"]
  by (simp add: bench_UnmarshalJSON_def bench_MarshalJSON_def duration_text_json ParseDuration_text)

subsection \<open>The command\<close>

record bench_flags =
  bf_Config :: bench_config
  bf_RequestTimeout :: int
  bf_ThreadCount :: int
  bf_NoShuffle :: bool
  bf_Seed :: int

definition flags_Validate :: "bench_flags \<Rightarrow> string option" where
  "flags_Validate c =
     (if bf_RequestTimeout c \<le> 0 then Some ''request_timeout (--request-timeout) must be greater than 0''
      else if bf_ThreadCount c \<le> 0 then
        Some ''thread_count (--thread-count) is required and must be a positive value''
      else bench_Validate (bf_Config c))"

text \<open>The shuffling loop: \<open>intn i\<close> is what the generator gives in iteration \<open>i\<close>, a number of
  \<open>{0..i}\<close>.\<close>

definition swap_elems :: "nat \<Rightarrow> nat \<Rightarrow> 'a list \<Rightarrow> 'a list" where
  "swap_elems i j xs = xs[i := xs ! j, j := xs ! i]"

definition shuffle_threads :: "(nat \<Rightarrow> nat) \<Rightarrow> 'a list \<Rightarrow> 'a list" where
  "shuffle_threads intn xs = fold (\<lambda>i. swap_elems i (intn i)) [0..<length xs] xs"

record 'm bench_host =
  bh_readConfig :: "string \<Rightarrow> bench_flags \<Rightarrow> string + bench_flags"
  bh_readThreads :: "string \<Rightarrow> string + 'm input_thread list"
  bh_baseURL :: string
  bh_intn :: "int \<Rightarrow> nat \<Rightarrow> nat"

text \<open>\<open>run\<close> up to the start of the benchmark: the threads to play and the configuration.\<close>

definition bench_prepare ::
  "(nat \<Rightarrow> bool) \<Rightarrow> 'm bench_host \<Rightarrow> string \<Rightarrow> string \<Rightarrow> string \<Rightarrow> bench_flags \<Rightarrow>
    string + bench_flags \<times> 'm input_thread list" where
  "bench_prepare pr h threads format config cfg =
     (if threads = [] then Inl ''missing required flag: --threads''
      else if format \<notin> {''text'', ''json''} then
        Inl (''invalid format: '' @ go_quote pr format @ '', must be '' @ go_quote pr ''text'' @ '' or '' @ go_quote pr ''json'')
      else case (if config = [] then Inr cfg else bh_readConfig h config cfg) of
        Inl e \<Rightarrow> Inl (''reading config: '' @ e)
      | Inr cfg \<Rightarrow>
          (case flags_Validate cfg of
             Some e \<Rightarrow> Inl (''invalid config: '' @ e)
           | None \<Rightarrow>
               if bh_baseURL h = [] then Inl ''missing required environment variable: OPENAI_BASE_URL''
               else case bh_readThreads h threads of
                   Inl e \<Rightarrow> Inl (''reading input threads: '' @ e)
                 | Inr its \<Rightarrow>
                     (let its = (if bf_NoShuffle cfg then its else shuffle_threads (bh_intn h (bf_Seed cfg)) its)
                      in if int (length its) < bf_ThreadCount cfg then
                           Inl (''specified thread count ('' @ int_str (bf_ThreadCount cfg) @
                             '') exceeds total number of threads in the dataset ('' @ int_str (int (length its)) @ '')'')
                         else Inr (cfg, take (nat (bf_ThreadCount cfg)) its))))"

subsection \<open>Properties of the run\<close>

definition run_inv ::
  "'m chat_library \<Rightarrow> (nat \<Rightarrow> 'm chat_service) \<Rightarrow> bench_config \<Rightarrow> 'm bench_thread list \<Rightarrow> nat \<Rightarrow> 'm bench_run \<Rightarrow> bool" where
  "run_inv l services cfg ts n s \<longleftrightarrow>
     length (br_threads s) = length ts \<and> br_next s \<le> length ts \<and> distinct (br_running s) \<and>
     (\<forall>i \<in> set (br_running s). i < br_next s) \<and> int (length (br_running s)) \<le> max 0 (bc_MaxConcurrentThreads cfg) \<and>
     n + length (br_running s) = 2 * br_next s \<and>
     (\<forall>i < length ts. br_threads s ! i =
        (if i < br_next s \<and> i \<notin> set (br_running s) then ran_thread l (services i) cfg (ts ! i) else ts ! i))"

lemma run_inv_init: "run_inv l services cfg ts 0 (run_init ts)"
  by (simp add: run_inv_def run_init_def)

lemma run_inv_start: "run_inv l services cfg ts n s \<Longrightarrow> start_thread cfg s = Some s' \<Longrightarrow> run_inv l services cfg ts (Suc n) s'"
  by (auto simp: run_inv_def start_thread_def less_Suc_eq split: if_splits)

lemma run_inv_finish:
  assumes "run_inv l services cfg ts n s" "finish_thread l services cfg i s = Some s'"
  shows "run_inv l services cfg ts (Suc n) s'"
proof -
  have i: "i \<in> set (br_running s)" and
    s': "s' = s\<lparr>br_running := remove1 i (br_running s), br_threads := (br_threads s)[i := ran_thread l (services i) cfg (br_threads s ! i)]\<rparr>"
    using assms(2) by (simp_all add: finish_thread_def split: if_splits)
  have "length (remove1 i (br_running s)) + 1 = length (br_running s)"
    using i length_pos_if_in_set [OF i] by (simp add: length_remove1)
  then show ?thesis using assms(1) i unfolding run_inv_def s'
    by (auto simp: nth_list_update set_remove1_eq distinct_remove1)
qed

lemma run_inv_reach: "bench_reach l services cfg ts n s \<Longrightarrow> run_inv l services cfg ts n s"
proof (induction rule: bench_reach.induct)
  case (reach_step n s s')
  from reach_step.hyps(2) reach_step.IH show ?case
    by (cases rule: bench_step.cases) (auto intro: run_inv_start run_inv_finish)
qed (rule run_inv_init)

lemma run_progress:
  assumes "run_inv l services cfg ts n s" "0 < bc_MaxConcurrentThreads cfg" "\<not> run_returned s"
  shows "\<exists>s'. bench_step l services cfg s s'"
proof (cases "br_running s")
  case Nil
  then have "br_next s < length (br_threads s)" using assms(1,3) by (auto simp: run_inv_def run_returned_def)
  then show ?thesis using Nil assms(2) by (auto simp: start_thread_def intro!: exI step_start)
next
  case (Cons i js)
  then have "\<exists>s'. finish_thread l services cfg i s = Some s'" by (simp add: finish_thread_def)
  then show ?thesis by (auto intro: step_finish)
qed

text \<open>C40: The benchmark plays every conversation once, whatever the order in which the conversations
  end: at any time at most \<open>MaxConcurrentThreads\<close> are running; as long as it has not returned some
  step is possible; no schedule is longer than two steps a conversation; and when it returns each
  thread is what \<open>RunThread\<close> makes of it.\<close>

theorem benchmark_plays_all:
  assumes "0 < bc_MaxConcurrentThreads cfg" "bench_reach l services cfg ts n s"
  shows "int (length (br_running s)) \<le> bc_MaxConcurrentThreads cfg \<and>
    n \<le> 2 * length ts \<and>
    (\<not> run_returned s \<longrightarrow> (\<exists>s'. bench_step l services cfg s s')) \<and>
    (run_returned s \<longrightarrow> n = 2 * length ts \<and>
       br_threads s = map (\<lambda>i. ran_thread l (services i) cfg (ts ! i)) [0..<length ts])"
proof -
  have i: "run_inv l services cfg ts n s" by (rule run_inv_reach [OF assms(2)])
  have "br_threads s = map (\<lambda>i. ran_thread l (services i) cfg (ts ! i)) [0..<length ts]" if "run_returned s"
    using i that by (intro nth_equalityI) (auto simp: run_inv_def run_returned_def)
  then show ?thesis using i run_progress [OF i assms(1)] assms(1) by (auto simp: run_inv_def run_returned_def)
qed

definition sample_library :: "string chat_library" where
  "sample_library = \<lparr>cl_UserRole = ''user'', cl_FinishNull = ''null'', cl_Role = (\<lambda>_. ''user''), cl_message = (\<lambda>role text. text)\<rparr>"

definition sample_service :: "string chat_service" where
  "sample_service n req = (if n = 0 then
     Inr ([\<lparr>ck_Choices = [([], ''hello'', ''assistant'')], ck_Usage = None, ck_since = 5\<rparr>], None, 7) else Inl ''down'')"

definition sample_bench :: bench_config where
  "sample_bench = \<lparr>bc_MaxConcurrentThreads = 1, bc_MaxCompletionTokens = 8, bc_Temperature = 0,
     bc_RequestModel = ''m'', bc_Verbose = False\<rparr>"

definition sample_threads :: "string bench_thread list" where
  "sample_threads = bench_New [\<lparr>it_ID = ''a'', it_Messages = [''hi'', ''bye'']\<rparr>]"

definition sample_end :: "string bench_run" where
  "sample_end = \<lparr>br_next = 1, br_running = [], br_threads =
     [\<lparr>th_id = ''a'', th_inputMsgs = [''hi'', ''bye''], th_currentMsgs = [''hi'', ''hello'', ''bye''], th_requests = 2,
       th_results = [\<lparr>rr_duration = 7, rr_ttChunks = [5], rr_promptTokens = 0, rr_cachedPromptTokens = 0,
         rr_completionTokens = 0, rr_totalTokens = 0\<rparr>], th_err = Some ''request: down''\<rparr>]\<rparr>"

lemmas sample_defs = sample_library_def sample_service_def sample_bench_def sample_threads_def sample_end_def bench_New_def

lemma sample_ran: "ran_thread sample_library sample_service sample_bench (hd sample_threads) = hd (br_threads sample_end)"
  by code_simp

lemma sample_reach: "bench_reach sample_library (\<lambda>_. sample_service) sample_bench sample_threads 2 sample_end"
proof -
  let ?s1 = "\<lparr>br_next = 1, br_running = [0], br_threads = sample_threads\<rparr>"
  have "start_thread sample_bench (run_init sample_threads) = Some ?s1" by code_simp
  then have "bench_reach sample_library (\<lambda>_. sample_service) sample_bench sample_threads 1 ?s1"
    using reach_step [OF reach_init step_start] by fastforce
  moreover have "finish_thread sample_library (\<lambda>_. sample_service) sample_bench 0 ?s1 = Some sample_end"
    using sample_ran by (simp add: finish_thread_def sample_threads_def bench_New_def sample_end_def)
  ultimately show ?thesis using reach_step step_finish by (metis Suc_1 One_nat_def)
qed

theorem benchmark_plays_all_witness:
  "br_threads sample_end = [ran_thread sample_library sample_service sample_bench (sample_threads ! 0)]"
proof -
  have "0 < bc_MaxConcurrentThreads sample_bench" "run_returned sample_end" "length sample_threads = 1"
    by (simp_all add: sample_defs run_returned_def)
  then show ?thesis using benchmark_plays_all [OF _ sample_reach] by simp
qed

subsection \<open>Properties of a conversation\<close>

definition turns :: "'m list \<Rightarrow> 'm list \<Rightarrow> 'm list" where
  "turns ms rs = concat (map2 (\<lambda>m r. [m, r]) ms rs)"

lemma turns_simps [simp]: "turns [] rs = []" "turns (m # ms) (r # rs) = m # r # turns ms rs"
  by (simp_all add: turns_def)

lemma chat_turn_cases:
  obtains (reply) t' r where "chat_turn l service cfg m t = (t', None)"
      "th_currentMsgs t' = th_currentMsgs t @ [m, r]" "th_requests t' = th_requests t + 1"
      "length (th_results t') = length (th_results t) + 1" "th_err t' = th_err t" "th_inputMsgs t' = th_inputMsgs t"
  | (failed) t' e where "chat_turn l service cfg m t = (t', Some e)"
      "th_currentMsgs t' = th_currentMsgs t @ [m]" "th_requests t' = th_requests t + 1"
      "th_results t' = th_results t" "th_err t' = th_err t" "th_inputMsgs t' = th_inputMsgs t"
proof -
  let ?ans = "service (nat (th_requests t)) (bench_request cfg (th_currentMsgs t @ [m]))"
  consider (1) e where "?ans = Inl e" | (2) chunks e elapsed where "?ans = Inr (chunks, Some e, elapsed)"
    | (3) chunks elapsed where "?ans = Inr (chunks, None, elapsed)"
    by (metis not_None_eq old.sum.exhaust prod_cases3)
  then show thesis
  proof cases
    case (1 e)
    then show thesis
      by (intro failed [of "t\<lparr>th_currentMsgs := th_currentMsgs t @ [m], th_requests := th_requests t + 1\<rparr>" "''request: '' @ e"])
        (simp_all add: chat_turn_def Let_def)
  next
    case (2 chunks e elapsed)
    then show thesis
      by (intro failed [of "t\<lparr>th_currentMsgs := th_currentMsgs t @ [m], th_requests := th_requests t + 1\<rparr>" "''stream: '' @ e"])
        (simp_all add: chat_turn_def Let_def)
  next
    case (3 chunks elapsed)
    obtain r body role where "fold (recv_chunk l) chunks (no_result, [], []) = (r, body, role)" by (metis prod_cases3)
    then show thesis using 3
      by (intro reply [of "t\<lparr>th_currentMsgs := th_currentMsgs t @ [m, cl_message l role body], th_requests := th_requests t + 1,
          th_results := th_results t @ [r\<lparr>rr_duration := elapsed\<rparr>]\<rparr>" "cl_message l role body"]) (simp_all add: chat_turn_def Let_def)
  qed
qed

lemma chat_turns_replies:
  "chat_turns l service cfg ms t = (t', None) \<Longrightarrow>
    (\<exists>rs. length rs = length ms \<and> th_currentMsgs t' = th_currentMsgs t @ turns ms rs) \<and>
    th_requests t' = th_requests t + int (length ms) \<and> length (th_results t') = length (th_results t) + length ms \<and>
    th_err t' = th_err t \<and> th_inputMsgs t' = th_inputMsgs t"
proof (induction ms arbitrary: t)
  case (Cons m ms)
  show ?case
  proof (cases rule: chat_turn_cases [of l service cfg m t])
    case (reply t1 r)
    then have "chat_turns l service cfg ms t1 = (t', None)" using Cons.prems by simp
    note ih = Cons.IH [OF this]
    then obtain rs where "length rs = length ms" "th_currentMsgs t' = th_currentMsgs t1 @ turns ms rs" by blast
    then have "length (r # rs) = length (m # ms) \<and> th_currentMsgs t' = th_currentMsgs t @ turns (m # ms) (r # rs)"
      using reply by simp
    then show ?thesis using ih reply by (intro conjI exI [of _ "r # rs"]) simp_all
  next
    case (failed t1 e)
    then show ?thesis using Cons.prems by simp
  qed
qed simp

lemma chat_turns_failed:
  "chat_turns l service cfg ms t = (t', Some e) \<Longrightarrow>
    (\<exists>k < length ms. \<exists>rs. length rs = k \<and> th_currentMsgs t' = th_currentMsgs t @ turns (take k ms) rs @ [ms ! k] \<and>
      th_requests t' = th_requests t + int k + 1 \<and> length (th_results t') = length (th_results t) + k)"
proof (induction ms arbitrary: t)
  case (Cons m ms)
  show ?case
  proof (cases rule: chat_turn_cases [of l service cfg m t])
    case (reply t1 r)
    then have "chat_turns l service cfg ms t1 = (t', Some e)" using Cons.prems by simp
    then obtain k rs where k: "k < length ms" "length rs = k" "th_currentMsgs t' = th_currentMsgs t1 @ turns (take k ms) rs @ [ms ! k]"
      "th_requests t' = th_requests t1 + int k + 1" "length (th_results t') = length (th_results t1) + k"
      using Cons.IH by blast
    then show ?thesis using reply by (intro exI [of _ "Suc k"] exI [of _ "r # rs"] conjI) simp_all
  next
    case (failed t1 e')
    then show ?thesis using Cons.prems by (intro exI [of _ 0] exI [of _ "[]"] conjI) simp_all
  qed
qed simp

text \<open>A conversation that does not fail holds every input message with its answer after it, behind
  the messages before the first user message, and there is one request and one result per input
  message. One that fails stops at the request that failed, with the results of those before it.\<close>

theorem conversation_played:
  assumes "RunThread l service cfg t = (t', err)" "th_currentMsgs t = []" "th_requests t = 0" "th_results t = []"
  shows "\<exists>k rs. length rs = k \<and> k \<le> length (th_inputMsgs t) \<and> length (th_results t') = k \<and>
    (let first = takeWhile (\<lambda>m. cl_Role l m \<noteq> cl_UserRole l) (th_inputMsgs t) @ turns (take k (th_inputMsgs t)) rs
     in case err of
          None \<Rightarrow> k = length (th_inputMsgs t) \<and> th_requests t' = int k \<and> th_currentMsgs t' = first
        | Some e \<Rightarrow> k < length (th_inputMsgs t) \<and> th_requests t' = int k + 1 \<and>
            th_currentMsgs t' = first @ [th_inputMsgs t ! k])"
proof (cases err)
  case None
  then show ?thesis using chat_turns_replies [of l service cfg "th_inputMsgs t" _ t'] assms
    unfolding RunThread_def by (fastforce simp: Let_def)
next
  case (Some e)
  from chat_turns_failed [OF assms(1) [unfolded RunThread_def Some]]
  obtain k rs where "k < length (th_inputMsgs t)" "length rs = k"
    "th_currentMsgs t' = takeWhile (\<lambda>m. cl_Role l m \<noteq> cl_UserRole l) (th_inputMsgs t) @ turns (take k (th_inputMsgs t)) rs @ [th_inputMsgs t ! k]"
    "th_requests t' = int k + 1" "length (th_results t') = k"
    using assms by auto
  then show ?thesis using Some by (intro exI [of _ k] exI [of _ rs] conjI) (simp_all add: Let_def)
qed

text \<open>So the messages before the first user message are sent twice, against the comments of
  \<open>RunThread\<close>: a system message and a user message make two requests, the first with the system
  message doubled and nothing of the user.\<close>

theorem system_message_doubled:
  assumes "cl_Role l sys \<noteq> cl_UserRole l" "cl_Role l usr = cl_UserRole l"
    "RunThread l service cfg \<lparr>th_id = i, th_inputMsgs = [sys, usr], th_currentMsgs = [], th_requests = 0,
       th_results = [], th_err = None\<rparr> = (t', None)"
  shows "th_requests t' = 2 \<and> (\<exists>r1 r2. th_currentMsgs t' = [sys, sys, r1, usr, r2])"
proof -
  obtain rs where "length rs = 2" "th_requests t' = 2" "th_currentMsgs t' = sys # turns [sys, usr] rs"
    using conversation_played [OF assms(3)] assms(1,2) by (auto simp: Let_def numeral_2_eq_2)
  then show ?thesis by (auto simp: numeral_2_eq_2 length_Suc_conv)
qed

subsection \<open>Properties of the summary\<close>

lemma wrap64_step: "wrap64 (wrap64 a + b) = wrap64 (a + b)"
  using signed_take_bit_add [of 63 "wrap64 a" b] signed_take_bit_add [of 63 a b] by (simp add: wrap64_def)

lemma wrap64_sum: "foldl (\<lambda>sum d. wrap64 (sum + d)) (wrap64 a) ds = wrap64 (a + sum_list ds)"
  by (induction ds arbitrary: a) (simp_all add: wrap64_step add.assoc)

lemma sum_list_between:
  fixes ds :: "int list"
  shows "\<forall>d \<in> set ds. lo \<le> d \<and> d \<le> hi \<Longrightarrow> lo * int (length ds) \<le> sum_list ds \<and> sum_list ds \<le> hi * int (length ds)"
  by (induction ds) (auto simp: algebra_simps)

text \<open>As long as their sum fits in an \<open>int64\<close>, the mean of durations that are not negative lies
  between the least and the greatest.\<close>

theorem mean_between:
  assumes "ds \<noteq> []" "\<forall>d \<in> set ds. lo \<le> d \<and> d \<le> hi" "0 \<le> lo" "in_int64 (sum_list ds)"
  shows "mean ds = sum_list ds div int (length ds) \<and> lo \<le> mean ds \<and> mean ds \<le> hi"
proof -
  have n: "0 < int (length ds)" using assms(1) by simp
  have b: "lo * int (length ds) \<le> sum_list ds" "sum_list ds \<le> hi * int (length ds)" using sum_list_between [OF assms(2)] by simp_all
  then have nonneg: "0 \<le> sum_list ds" using assms(3) n by (meson mult_nonneg_nonneg order_less_imp_le order_trans)
  have "foldl (\<lambda>sum d. wrap64 (sum + d)) 0 ds = sum_list ds"
    using wrap64_sum [of 0 ds] wrap64_id [OF assms(4)] by (simp add: wrap64_id in_int64_def)
  then have m: "mean ds = sum_list ds div int (length ds)"
    using assms(1) nonneg n by (simp add: mean_def signed_divide_int_def sgn_if)
  moreover have "lo \<le> sum_list ds div int (length ds)" using zdiv_mono1 [OF b(1) n] n by simp
  moreover have "sum_list ds div int (length ds) \<le> hi" using zdiv_mono1 [OF b(2) n] n by simp
  ultimately show ?thesis by simp
qed

theorem mean_between_witness: "mean [1, 2, 6] = 3 \<and> (1 :: int) \<le> mean [1, 2, 6] \<and> mean [1, 2, 6] \<le> 6"
  using mean_between [of "[1, 2, 6]" 1 6] by (simp add: in_int64_def)

lemma count_chunks_result:
  "fold count_chunk ics (b, n) = (b', n') \<Longrightarrow>
    bt_result b' = bt_result b \<and> bt_totalInputMessageCount b' = bt_totalInputMessageCount b \<and>
    bt_reqDurations b' = bt_reqDurations b \<and> bt_totalITLCompletionTokens b' = bt_totalITLCompletionTokens b"
proof (induction ics arbitrary: b n)
  case (Cons ic ics)
  obtain b1 n1 where c: "count_chunk ic (b, n) = (b1, n1)" by force
  then have "bt_result b1 = bt_result b \<and> bt_totalInputMessageCount b1 = bt_totalInputMessageCount b \<and>
    bt_reqDurations b1 = bt_reqDurations b \<and> bt_totalITLCompletionTokens b1 = bt_totalITLCompletionTokens b"
    by (auto simp: count_chunk_def Let_def split: prod.splits if_splits)
  moreover have "fold count_chunk ics (b1, n1) = (b', n')" using Cons.prems c by simp
  ultimately show ?case using Cons.IH by metis
qed simp

lemma count_result_effect:
  "bt_result (count_result q b) = (bt_result b)
     \<lparr>rs_PromptTokens := wrap64 (rs_PromptTokens (bt_result b) + rr_promptTokens q),
      rs_CachedPromptTokens := wrap64 (rs_CachedPromptTokens (bt_result b) + rr_cachedPromptTokens q),
      rs_CompletionTokens := wrap64 (rs_CompletionTokens (bt_result b) + rr_completionTokens q),
      rs_TotalTokens := wrap64 (rs_TotalTokens (bt_result b) + rr_totalTokens q)\<rparr> \<and>
   bt_totalInputMessageCount (count_result q b) = bt_totalInputMessageCount b"
proof -
  obtain b' n' where c: "fold count_chunk (enumerate 0 (rr_ttChunks q)) (b, 0) = (b', n')" by force
  show ?thesis using count_chunks_result [OF c] by (simp add: count_result_def c Let_def)
qed

definition ok_results :: "'m bench_thread list \<Rightarrow> request_result list" where
  "ok_results ts = concat (map th_results (filter (\<lambda>t. th_err t = None) ts))"

lemma count_results_effect:
  "bt_result (fold count_result qs b) = (bt_result b)
     \<lparr>rs_PromptTokens := foldl (\<lambda>a x. wrap64 (a + x)) (rs_PromptTokens (bt_result b)) (map rr_promptTokens qs),
      rs_CachedPromptTokens := foldl (\<lambda>a x. wrap64 (a + x)) (rs_CachedPromptTokens (bt_result b)) (map rr_cachedPromptTokens qs),
      rs_CompletionTokens := foldl (\<lambda>a x. wrap64 (a + x)) (rs_CompletionTokens (bt_result b)) (map rr_completionTokens qs),
      rs_TotalTokens := foldl (\<lambda>a x. wrap64 (a + x)) (rs_TotalTokens (bt_result b)) (map rr_totalTokens qs)\<rparr> \<and>
   bt_totalInputMessageCount (fold count_result qs b) = bt_totalInputMessageCount b"
proof (induction qs arbitrary: b)
  case (Cons q qs)
  show ?case using Cons.IH [of "count_result q b"] count_result_effect [of q b] by simp
qed simp

abbreviation wsum :: "int \<Rightarrow> int list \<Rightarrow> int" where
  "wsum \<equiv> foldl (\<lambda>a x. wrap64 (a + x))"

lemma count_threads_effect:
  "bt_result (fold count_thread ts b) = (bt_result b)
     \<lparr>rs_RequestCount := wsum (rs_RequestCount (bt_result b)) (map th_requests ts),
      rs_FailedThreads := wsum (rs_FailedThreads (bt_result b)) (map (\<lambda>_. 1) (filter (\<lambda>t. th_err t \<noteq> None) ts)),
      rs_PromptTokens := wsum (rs_PromptTokens (bt_result b)) (map rr_promptTokens (ok_results ts)),
      rs_CachedPromptTokens := wsum (rs_CachedPromptTokens (bt_result b)) (map rr_cachedPromptTokens (ok_results ts)),
      rs_CompletionTokens := wsum (rs_CompletionTokens (bt_result b)) (map rr_completionTokens (ok_results ts)),
      rs_TotalTokens := wsum (rs_TotalTokens (bt_result b)) (map rr_totalTokens (ok_results ts))\<rparr> \<and>
   bt_totalInputMessageCount (fold count_thread ts b) =
     wsum (bt_totalInputMessageCount b) (map (\<lambda>t. int (length (th_inputMsgs t))) ts)"
proof (induction ts arbitrary: b)
  case Nil
  then show ?case by (simp add: ok_results_def)
next
  case (Cons t ts)
  have step: "bt_result (count_thread t b) = (bt_result b)
     \<lparr>rs_RequestCount := wrap64 (rs_RequestCount (bt_result b) + th_requests t),
      rs_FailedThreads := wsum (rs_FailedThreads (bt_result b)) (if th_err t = None then [] else [1]),
      rs_PromptTokens := wsum (rs_PromptTokens (bt_result b)) (map rr_promptTokens (ok_results [t])),
      rs_CachedPromptTokens := wsum (rs_CachedPromptTokens (bt_result b)) (map rr_cachedPromptTokens (ok_results [t])),
      rs_CompletionTokens := wsum (rs_CompletionTokens (bt_result b)) (map rr_completionTokens (ok_results [t])),
      rs_TotalTokens := wsum (rs_TotalTokens (bt_result b)) (map rr_totalTokens (ok_results [t]))\<rparr> \<and>
    bt_totalInputMessageCount (count_thread t b) = wrap64 (bt_totalInputMessageCount b + int (length (th_inputMsgs t)))"
    by (cases "th_err t") (simp_all add: count_thread_def Let_def count_results_effect ok_results_def)
  have "ok_results (t # ts) = ok_results [t] @ ok_results ts" by (simp add: ok_results_def)
  then show ?case using Cons.IH [of "count_thread t b"] step by simp
qed

lemma wsum_0: "wsum 0 ds = wrap64 (sum_list ds)"
  using wrap64_sum [of 0 ds] by (simp add: wrap64_id in_int64_def)

lemma sum_ones: "sum_list (map (\<lambda>_. 1 :: int) xs) = int (length xs)"
  by (induction xs) simp_all

text \<open>The summary counts every request, of failed conversations too, and the tokens of the answers
  of the conversations that did not fail.\<close>

theorem summary_counts:
  "rs_RequestCount (summarizeResults convert ts d) = wrap64 (sum_list (map th_requests ts)) \<and>
   rs_FailedThreads (summarizeResults convert ts d) = wrap64 (int (length (filter (\<lambda>t. th_err t \<noteq> None) ts))) \<and>
   rs_PromptTokens (summarizeResults convert ts d) = wrap64 (sum_list (map rr_promptTokens (ok_results ts))) \<and>
   rs_CachedPromptTokens (summarizeResults convert ts d) = wrap64 (sum_list (map rr_cachedPromptTokens (ok_results ts))) \<and>
   rs_CompletionTokens (summarizeResults convert ts d) = wrap64 (sum_list (map rr_completionTokens (ok_results ts))) \<and>
   rs_TotalTokens (summarizeResults convert ts d) = wrap64 (sum_list (map rr_totalTokens (ok_results ts)))"
  using count_threads_effect [of ts "new_totals d"]
  by (simp add: summarizeResults_def Let_def new_totals_def wsum_0 sum_ones)

text \<open>The time between tokens is measured from the second chunk on. When no answer has a second chunk
  the time is divided by zero tokens, and the duration of the summary is what the conversion of a
  value that is no number gives.\<close>

lemma single_chunk_result:
  assumes "length (rr_ttChunks q) \<le> 1" "bt_totalITLCompletionTokens b = 0"
  shows "bt_totalITLCompletionTokens (count_result q b) = 0"
proof -
  obtain b' n' where c: "fold count_chunk (enumerate 0 (rr_ttChunks q)) (b, 0) = (b', n')" by force
  have "n' = 0" using assms(1) c by (cases "rr_ttChunks q") (auto simp: count_chunk_def Let_def)
  moreover have "f64_of_int 0 = 0" "f64_mul 0 x = 0" "f64_add 0 0 = 0" "f64_div 0 x = 0" for x
    by (simp_all add: f64_of_int_def f64_mul_def f64_add_def f64_div_def)
  ultimately show ?thesis using count_chunks_result [OF c] assms(2) by (simp add: count_result_def c Let_def)
qed

lemma single_chunk_threads:
  "\<forall>q \<in> set (ok_results ts). length (rr_ttChunks q) \<le> 1 \<Longrightarrow> bt_totalITLCompletionTokens b = 0 \<Longrightarrow>
    bt_totalITLCompletionTokens (fold count_thread ts b) = 0"
proof (induction ts arbitrary: b)
  case (Cons t ts)
  have results: "\<forall>q \<in> set qs. length (rr_ttChunks q) \<le> 1 \<Longrightarrow> bt_totalITLCompletionTokens b = 0 \<Longrightarrow>
    bt_totalITLCompletionTokens (fold count_result qs b) = 0" for qs and b :: bench_totals
    by (induction qs arbitrary: b) (simp_all add: single_chunk_result)
  have "bt_totalITLCompletionTokens (count_thread t b) = 0"
    using Cons.prems by (auto simp: count_thread_def Let_def ok_results_def intro!: results)
  moreover have "\<forall>q \<in> set (ok_results ts). length (rr_ttChunks q) \<le> 1" using Cons.prems(1) by (simp add: ok_results_def split: if_splits)
  ultimately show ?case using Cons.IH by simp
qed simp

theorem single_chunks_no_itl:
  assumes "\<forall>q \<in> set (ok_results ts). length (rr_ttChunks q) \<le> 1"
  shows "rs_ITL (summarizeResults convert ts d) = convert None"
  using single_chunk_threads [OF assms, of "new_totals d"]
  by (simp add: summarizeResults_def Let_def to_duration_def f64_quot_def new_totals_def)

text \<open>When no conversation has a message there is no request to divide by, and the summary has no
  JSON: \<open>encoding/json\<close> refuses a number that is not finite.\<close>

theorem no_requests_no_json:
  assumes "\<forall>t \<in> set ts. th_requests t = 0"
  shows "result_json (summarizeResults convert ts d) = None"
proof -
  have "sum_list (map th_requests ts) = 0" using assms by (induction ts) simp_all
  then have "rs_RequestCount (bt_result (fold count_thread ts (new_totals d))) = 0"
    using count_threads_effect [of ts "new_totals d"] by (simp add: new_totals_def wsum_0 wrap64_id in_int64_def)
  then have "rs_ChunksPerRequest (summarizeResults convert ts d) = None"
    by (simp add: summarizeResults_def Let_def f64_quot_def f64_of_int_def)
  then show ?thesis by (simp add: result_json_def float_json_def split: option.split)
qed

subsection \<open>Properties of the preparation\<close>

lemma swap_elems_mset: "i < length xs \<Longrightarrow> j < length xs \<Longrightarrow> mset (swap_elems i j xs) = mset xs"
  by (simp add: swap_elems_def mset_swap)

lemma swaps_mset:
  "\<forall>i \<in> set is. i < length xs \<and> intn i < length xs \<Longrightarrow> mset (fold (\<lambda>i. swap_elems i (intn i)) is xs) = mset xs"
proof (induction "is" arbitrary: xs)
  case (Cons i "is")
  have "length (swap_elems i (intn i) xs) = length xs" by (simp add: swap_elems_def)
  then show ?case using Cons by (simp add: swap_elems_mset)
qed simp

lemma shuffle_mset:
  assumes "\<And>i. intn i \<le> i"
  shows "mset (shuffle_threads intn xs) = mset xs"
  unfolding shuffle_threads_def by (rule swaps_mset) (auto intro: le_less_trans [OF assms])

text \<open>The benchmark starts only with a positive time-out, a positive number of threads, of
  concurrent threads and of tokens, and a model; then it plays as many conversations as were asked
  for, each taken from the data set as often as it is there at most, shuffled or not.\<close>

theorem prepared_benchmark:
  assumes "bench_prepare pr h threads format config cfg = Inr (cfg', its')" "\<And>seed i. bh_intn h seed i \<le> i"
  shows "0 < bf_RequestTimeout cfg' \<and> 0 < bc_MaxConcurrentThreads (bf_Config cfg') \<and>
    0 < bc_MaxCompletionTokens (bf_Config cfg') \<and> bc_RequestModel (bf_Config cfg') \<noteq> [] \<and>
    0 < bf_ThreadCount cfg' \<and> int (length its') = bf_ThreadCount cfg' \<and>
    (\<exists>its. bh_readThreads h threads = Inr its \<and> mset its' \<subseteq># mset its \<and>
      (bf_NoShuffle cfg' \<longrightarrow> its' = take (nat (bf_ThreadCount cfg')) its))"
proof -
  from assms(1) have v: "flags_Validate cfg' = None" and
    "\<exists>its. bh_readThreads h threads = Inr its \<and>
      (let its = (if bf_NoShuffle cfg' then its else shuffle_threads (bh_intn h (bf_Seed cfg')) its)
       in bf_ThreadCount cfg' \<le> int (length its) \<and> its' = take (nat (bf_ThreadCount cfg')) its)"
    by (auto simp: bench_prepare_def Let_def split: if_splits sum.splits option.splits)
  then obtain its where its: "bh_readThreads h threads = Inr its" and
    its': "\<exists>jts. mset jts = mset its \<and> (bf_NoShuffle cfg' \<longrightarrow> jts = its) \<and> bf_ThreadCount cfg' \<le> int (length jts) \<and>
      its' = take (nat (bf_ThreadCount cfg')) jts"
    using shuffle_mset [of "bh_intn h (bf_Seed cfg')", OF assms(2)] by (auto simp: Let_def split: if_splits)
  then obtain jts where j: "mset jts = mset its" "bf_NoShuffle cfg' \<longrightarrow> jts = its" "bf_ThreadCount cfg' \<le> int (length jts)"
    "its' = take (nat (bf_ThreadCount cfg')) jts" by blast
  have "mset its' \<subseteq># mset its" unfolding j(1) [symmetric] j(4)
    by (metis append_take_drop_id mset_append mset_subset_eq_add_left)
  then show ?thesis using v its j by (auto simp: flags_Validate_def bench_Validate_def split: if_splits)
qed

end
