(* ===== verification/Telemetry.thy ===== *)
theory Telemetry
  imports Manager
begin

section \<open>Telemetry and the entry point\<close>

text \<open>
  \<open>internal/manager/otel.go\<close>, which sets the telemetry up and hands out its shutdown,
  \<open>internal/metrics/metrics.go\<close>, which registers the instruments, and the start of the program in
  \<open>cmd/main.go\<close> and \<open>internal/manager/configure.go\<close>. The SDK, the file system and the YAML parser are
  third-party or the operating system's: their errors are parameters.
\<close>

subsection \<open>Instruments\<close>

datatype instrument_kind = UpDownCounter | Histogram "int list" | Counter

definition instruments :: "(string \<times> instrument_kind) list" where
  "instruments =
     [(InferenceRequestsActiveMetricName, UpDownCounter),
      (''kubeai.inference.requests.hash.lookup.iterations'', Histogram [1, 2, 4, 8, 16, 32, 64, 128, 256, 512, 1024]),
      (''kubeai.inference.requests.hash.lookup.initial'', Counter),
      (''kubeai.inference.requests.hash.lookup.final'', Counter),
      (''kubeai.inference.requests.hash.lookup.default'', Counter)]"

text \<open>\<open>Init\<close>: the instruments that were created, and the error of the first that was not.\<close>

fun register_instruments ::
  "(string \<Rightarrow> instrument_kind \<Rightarrow> string option) \<Rightarrow> (string \<times> instrument_kind) list \<Rightarrow> string list \<times> string option" where
  "register_instruments meter [] = ([], None)"
| "register_instruments meter ((name, kind) # ks) =
     (case meter name kind of
        Some e \<Rightarrow> ([], Some (name @ '': '' @ e))
      | None \<Rightarrow> (case register_instruments meter ks of (names, err) \<Rightarrow> (name # names, err)))"

definition metrics_Init :: "(string \<Rightarrow> instrument_kind \<Rightarrow> string option) \<Rightarrow> string list \<times> string option" where
  "metrics_Init meter = register_instruments meter instruments"

subsection \<open>Set-up and shutdown\<close>

text \<open>\<open>errors.Join\<close> of two errors.\<close>

definition join_errors :: "string option \<Rightarrow> string option \<Rightarrow> string option" where
  "join_errors a b =
     (case (a, b) of (None, _) \<Rightarrow> b | (_, None) \<Rightarrow> a | (Some x, Some y) \<Rightarrow> Some (x @ [CHR 0x0A] @ y))"

text \<open>The captured variable \<open>shutdownFuncs\<close>, and every cleanup that was invoked.\<close>

record otel_sdk =
  os_shutdownFuncs :: "string list"
  os_invoked :: "string list"

record otel_env =
  oe_newMeterProvider :: "string option"
  oe_meter :: "string \<Rightarrow> instrument_kind \<Rightarrow> string option"
  oe_cleanup :: "string \<Rightarrow> string option"

definition otel_shutdown :: "otel_env \<Rightarrow> otel_sdk \<Rightarrow> otel_sdk \<times> string option" where
  "otel_shutdown env s =
     (let err = fold (\<lambda>fn err. join_errors err (oe_cleanup env fn)) (os_shutdownFuncs s) None
      in (\<lparr>os_shutdownFuncs = [], os_invoked = os_invoked s @ os_shutdownFuncs s\<rparr>, err))"

definition handleErr :: "otel_env \<Rightarrow> string \<Rightarrow> otel_sdk \<Rightarrow> otel_sdk \<times> string option" where
  "handleErr env inErr s = (let (s, err) = otel_shutdown env s in (s, join_errors (Some inErr) err))"

definition setupOTelSDK :: "otel_env \<Rightarrow> otel_sdk \<times> string option" where
  "setupOTelSDK env =
     (let s = \<lparr>os_shutdownFuncs = [], os_invoked = []\<rparr>
      in case oe_newMeterProvider env of
           Some e \<Rightarrow> handleErr env e s
         | None \<Rightarrow>
             (let s = s\<lparr>os_shutdownFuncs := os_shutdownFuncs s @ [''meterProvider'']\<rparr>
              in case snd (metrics_Init (oe_meter env)) of
                   Some e \<Rightarrow> handleErr env e s
                 | None \<Rightarrow> (s, None)))"

text \<open>What \<open>Run\<close> leaves behind: its deferred function calls the shutdown unless the set-up failed.
  \<open>err\<close> is the variable of \<open>Run\<close> at its return; what is logged as an error of the shutdown is its
  join with the error of the shutdown.\<close>

definition run_telemetry :: "otel_env \<Rightarrow> string option \<Rightarrow> otel_sdk \<times> string option" where
  "run_telemetry env err =
     (case setupOTelSDK env of
        (s, Some e) \<Rightarrow> (s, None)
      | (s, None) \<Rightarrow> (let (s, e) = otel_shutdown env s in (s, join_errors err e)))"

subsection \<open>The entry point\<close>

record main_env =
  mn_CONFIG_PATH :: string
  mn_ReadFile :: "string \<Rightarrow> string + string"
  mn_Unmarshal :: "string \<Rightarrow> string + system"

definition LoadConfigFile :: "main_env \<Rightarrow> string \<Rightarrow> (string, system) outcome" where
  "LoadConfigFile env path =
     (case mn_ReadFile env path of
        Inl e \<Rightarrow> Error e
      | Inr contents \<Rightarrow> (case mn_Unmarshal env contents of Inl e \<Rightarrow> Error e | Inr cfg \<Rightarrow> Done cfg))"

text \<open>The program stops with the message it logs and exit code 1, or goes on with its components.
  Flags, the logger and \<open>GetConfigOrDie\<close> are the third-party library's.\<close>

datatype main_result = Exit1 string string | Started "run_component list" | Crashed string

definition kubeai_main :: "main_env \<Rightarrow> run_env \<Rightarrow> main_result" where
  "kubeai_main env renv =
     (let configPath = (if mn_CONFIG_PATH env = [] then ''./config.yaml'' else mn_CONFIG_PATH env)
      in case LoadConfigFile env configPath of
           Error e \<Rightarrow> Exit1 ''failed to load config file'' e
         | Panic p \<Rightarrow> Crashed p
         | Done sysCfg \<Rightarrow>
             (case Run renv sysCfg of
                Error e \<Rightarrow> Exit1 ''failed to run command'' e
              | Panic p \<Rightarrow> Crashed p
              | Done cs \<Rightarrow> Started cs))"

subsection \<open>Properties\<close>

lemma register_instruments_prefix:
  "register_instruments meter ks = (names, err) \<Longrightarrow>
    (case err of
       None \<Rightarrow> names = map fst ks
     | Some e \<Rightarrow> length names < length ks \<and> names = map fst (take (length names) ks) \<and>
         (\<exists>e'. meter (fst (ks ! length names)) (snd (ks ! length names)) = Some e' \<and> e = fst (ks ! length names) @ '': '' @ e'))"
proof (induction meter ks arbitrary: names rule: register_instruments.induct)
  case (2 meter name kind ks)
  then show ?case by (auto split: option.splits prod.splits)
qed simp

text \<open>The counter that the autoscaler reads is among the instruments, under the name that the
  Prometheus exporter derives from it.\<close>

lemma active_requests_registered:
  "snd (metrics_Init meter) = None \<Longrightarrow> InferenceRequestsActiveMetricName \<in> set (fst (metrics_Init meter))"
  using register_instruments_prefix [of meter instruments] by (cases "metrics_Init meter") (auto simp: metrics_Init_def instruments_def)

fun shutdowns :: "otel_env \<Rightarrow> nat \<Rightarrow> otel_sdk \<Rightarrow> otel_sdk" where
  "shutdowns env 0 s = s"
| "shutdowns env (Suc n) s = shutdowns env n (fst (otel_shutdown env s))"

lemma shutdowns_idle: "os_shutdownFuncs s = [] \<Longrightarrow> shutdowns env n s = s"
  by (induction n; cases s) (simp_all add: otel_shutdown_def)

text \<open>Each registered cleanup is invoked once: after a set-up that failed none is left to invoke and
  the meter provider, if there was one, has been shut down; after one that did not, it is shut down
  by the first call of the shutdown, and never again however often that is called.\<close>

theorem cleanup_invoked_once:
  assumes "setupOTelSDK env = (s, err)"
  shows "os_invoked (shutdowns env n s) =
    (if oe_newMeterProvider env \<noteq> None \<or> err = None \<and> n = 0 then [] else [''meterProvider''])"
proof (cases "oe_newMeterProvider env")
  case None
  show ?thesis
  proof (cases "snd (metrics_Init (oe_meter env))")
    case N: None
    then have s: "s = \<lparr>os_shutdownFuncs = [''meterProvider''], os_invoked = []\<rparr>" "err = None"
      using assms None by (simp_all add: setupOTelSDK_def Let_def)
    show ?thesis using None s by (cases n) (simp_all add: otel_shutdown_def shutdowns_idle)
  next
    case (Some e)
    then show ?thesis using assms None
      by (auto simp: setupOTelSDK_def handleErr_def otel_shutdown_def shutdowns_idle join_errors_def Let_def split: option.splits)
  qed
next
  case (Some e)
  then show ?thesis using assms by (auto simp: setupOTelSDK_def handleErr_def otel_shutdown_def shutdowns_idle Let_def)
qed

text \<open>So the deferred call in \<open>Run\<close> leaves no cleanup. But it joins the error that \<open>Run\<close> returns with
  that of the shutdown, and logs it as an error of the shutdown although there was none.\<close>

theorem run_error_logged_as_shutdown:
  assumes "setupOTelSDK env = (s, None)" "oe_cleanup env ''meterProvider'' = None"
  shows "run_telemetry env (Some e) = (\<lparr>os_shutdownFuncs = [], os_invoked = [''meterProvider'']\<rparr>, Some e)"
proof -
  have "s = \<lparr>os_shutdownFuncs = [''meterProvider''], os_invoked = []\<rparr>"
    using assms(1) by (auto simp: setupOTelSDK_def handleErr_def otel_shutdown_def join_errors_def Let_def split: option.splits)
  then show ?thesis using assms by (simp add: run_telemetry_def otel_shutdown_def join_errors_def)
qed

text \<open>The program runs its components exactly when the file is read and parsed and \<open>Run\<close> sets them up;
  an unset \<open>CONFIG_PATH\<close> is \<open>./config.yaml\<close>.\<close>

lemma main_started:
  "kubeai_main env renv = Started cs \<longleftrightarrow>
    (\<exists>contents cfg. mn_ReadFile env (if mn_CONFIG_PATH env = [] then ''./config.yaml'' else mn_CONFIG_PATH env) = Inr contents \<and>
      mn_Unmarshal env contents = Inr cfg \<and> Run renv cfg = Done cs)"
  by (auto simp: kubeai_main_def LoadConfigFile_def Let_def split: sum.splits outcome.splits)

end
