(* ===== verification/Run_Lifecycle.thy ===== *)
theory Run_Lifecycle
  imports Telemetry
begin

section \<open>The life of the process\<close>

text \<open>
  The second half of \<open>Run\<close> in \<open>internal/manager/run.go\<close>: the goroutines, what each does when the call it
  makes returns, the shutdown of the servers after the controllers, and \<open>wg.Wait\<close>. A goroutine is
  its position in the list of started components (\<open>Manager\<close>). The context may be cancelled at any
  time; what the third-party calls return is restricted to what they document (\<open>may_return\<close>).
\<close>

subsection \<open>Goroutines\<close>

datatype stop_error = CtxCanceled | ServerClosed | OtherError string

text \<open>What a goroutine does with the result of its call: the message it logs before \<open>os.Exit(1)\<close>,
  or \<open>None\<close>.\<close>

fun exit_message :: "run_component \<Rightarrow> stop_error option \<Rightarrow> string option" where
  "exit_message (RunAutoscaler a) err = None"
| "exit_message (RunAPIServer h) err = (if err \<in> {None, Some ServerClosed} then None else Some ''error serving api server'')"
| "exit_message (RunMetricsServer addr) err = (if err \<in> {None, Some ServerClosed} then None else Some ''error serving metrics server'')"
| "exit_message RunLeaderElection err = (if err \<in> {None, Some CtxCanceled} then None else Some ''starting leader election'')"
| "exit_message (RunMessenger s) err = (if err \<in> {None, Some CtxCanceled} then None else Some ''starting messenger'')"
| "exit_message (RunControllerManager r) err = (if err \<in> {None, Some CtxCanceled} then None else Some ''error running controller-manager'')"

text \<open>The last goroutine shuts the servers down one after the other, each call waiting for the
  requests that are being answered.\<close>

datatype manager_stage = Controllers | ShutdownAPI | ShutdownMetrics

record process =
  pr_running :: "nat list"
  pr_cancelled :: bool
  pr_stage :: manager_stage
  pr_exit :: "string option"

datatype process_event = Cancel | Return nat "stop_error option" | ShutdownDone

definition has_api :: "run_component list \<Rightarrow> bool" where
  "has_api cs \<longleftrightarrow> list_ex (\<lambda>c. case c of RunAPIServer h \<Rightarrow> True | _ \<Rightarrow> False) cs"

fun is_manager :: "run_component \<Rightarrow> bool" where
  "is_manager (RunControllerManager r) = True"
| "is_manager c = False"

definition process_init :: "run_component list \<Rightarrow> process" where
  "process_init cs = \<lparr>pr_running = [0..<length cs], pr_cancelled = False, pr_stage = Controllers, pr_exit = None\<rparr>"

text \<open>Whether \<open>Shutdown\<close> of a server has been called.\<close>

definition api_closed :: "process \<Rightarrow> bool" where
  "api_closed s \<longleftrightarrow> pr_stage s \<noteq> Controllers"

definition metrics_closed :: "process \<Rightarrow> bool" where
  "metrics_closed s \<longleftrightarrow> pr_stage s = ShutdownMetrics"

fun process_step :: "run_component list \<Rightarrow> process_event \<Rightarrow> process \<Rightarrow> process option" where
  "process_step cs Cancel s = (if pr_exit s = None then Some (s\<lparr>pr_cancelled := True\<rparr>) else None)"
| "process_step cs (Return i err) s =
     (if pr_exit s \<noteq> None \<or> i \<notin> set (pr_running s) \<or> is_manager (cs ! i) \<and> pr_stage s \<noteq> Controllers then None
      else case exit_message (cs ! i) err of
          Some msg \<Rightarrow> Some (s\<lparr>pr_exit := Some msg\<rparr>)
        | None \<Rightarrow> Some (if is_manager (cs ! i)
                        then s\<lparr>pr_stage := (if has_api cs then ShutdownAPI else ShutdownMetrics)\<rparr>
                        else s\<lparr>pr_running := remove1 i (pr_running s)\<rparr>))"
| "process_step cs ShutdownDone s =
     (if pr_exit s \<noteq> None then None
      else case pr_stage s of
          Controllers \<Rightarrow> None
        | ShutdownAPI \<Rightarrow> Some (s\<lparr>pr_stage := ShutdownMetrics\<rparr>)
        | ShutdownMetrics \<Rightarrow>
            (case filter (\<lambda>i. is_manager (cs ! i)) (pr_running s) of
               [] \<Rightarrow> None
             | i # _ \<Rightarrow> Some (s\<lparr>pr_running := remove1 i (pr_running s)\<rparr>)))"

text \<open>\<open>wg.Wait\<close> returns, and \<open>Run\<close> with it.\<close>

definition run_finished :: "process \<Rightarrow> bool" where
  "run_finished s \<longleftrightarrow> pr_exit s = None \<and> pr_running s = []"

subsection \<open>What the calls may return\<close>

text \<open>\<open>ListenAndServe\<close> always returns an error, \<open>ErrServerClosed\<close> only after a call of \<open>Shutdown\<close>. The
  autoscaler and the leader election end only with the context (\<open>autoscaler.go\<close>, \<open>election_Start\<close>), and
  so do the messengers and the controllers when they end without a failure.\<close>

fun may_return :: "process \<Rightarrow> run_component \<Rightarrow> stop_error option \<Rightarrow> bool" where
  "may_return s (RunAutoscaler a) err \<longleftrightarrow> pr_cancelled s \<and> err = None"
| "may_return s (RunAPIServer h) err \<longleftrightarrow> (if api_closed s then err = Some ServerClosed else \<exists>e. err = Some (OtherError e))"
| "may_return s (RunMetricsServer addr) err \<longleftrightarrow> (if metrics_closed s then err = Some ServerClosed else \<exists>e. err = Some (OtherError e))"
| "may_return s RunLeaderElection err \<longleftrightarrow> pr_cancelled s \<and> err = Some CtxCanceled"
| "may_return s (RunMessenger m) err \<longleftrightarrow> pr_cancelled s \<and> err \<in> {None, Some CtxCanceled} \<or> (\<exists>e. err = Some (OtherError e))"
| "may_return s (RunControllerManager r) err \<longleftrightarrow> pr_cancelled s \<and> err \<in> {None, Some CtxCanceled} \<or> (\<exists>e. err = Some (OtherError e))"

fun event_may :: "run_component list \<Rightarrow> process \<Rightarrow> process_event \<Rightarrow> bool" where
  "event_may cs s (Return i err) \<longleftrightarrow> i < length cs \<and> may_return s (cs ! i) err"
| "event_may cs s ev \<longleftrightarrow> True"

inductive process_reach :: "run_component list \<Rightarrow> process \<Rightarrow> bool" for cs where
  process_start: "process_reach cs (process_init cs)"
| process_next: "process_reach cs s \<Longrightarrow> event_may cs s ev \<Longrightarrow> process_step cs ev s = Some s' \<Longrightarrow> process_reach cs s'"

subsection \<open>Invariant\<close>

text \<open>The controllers are the last component and the only ones of their kind.\<close>

definition controllers_last :: "run_component list \<Rightarrow> bool" where
  "controllers_last cs \<longleftrightarrow> cs \<noteq> [] \<and> (\<forall>i < length cs. is_manager (cs ! i) \<longleftrightarrow> Suc i = length cs)"

lemma started_controllers_last: "Run env cfg = Done cs \<Longrightarrow> controllers_last cs"
proof (erule Run_Done)
  have last: "controllers_last (ds @ [RunControllerManager r])" if "list_all (\<lambda>c. \<not> is_manager c) ds" for ds r
    using that by (auto simp: controllers_last_def nth_append list_all_length)
  fix cfg' port a
  assume "sys_ProxyMode cfg' = ProxyModeExternal \<and> cs = [RunMetricsServer (sys_MetricsAddr cfg'), RunLeaderElection, RunControllerManager (reconciler_of cfg')]
     \<or> sys_ProxyMode cfg' \<noteq> ProxyModeExternal
       \<and> NewAutoscaler (sys_ModelAutoscaling cfg') port (sys_FixedSelfMetricAddrs cfg') (re_state env) = Done a
       \<and> cs = [RunAutoscaler a, RunAPIServer api_handler, RunMetricsServer (sys_MetricsAddr cfg'), RunLeaderElection]
              @ map RunMessenger (msg_Streams (sys_Messaging cfg')) @ [RunControllerManager (reconciler_of cfg')]"
  then show "controllers_last cs"
    using last [of "[RunMetricsServer (sys_MetricsAddr cfg'), RunLeaderElection]" "reconciler_of cfg'"]
      last [of "[RunAutoscaler a, RunAPIServer api_handler, RunMetricsServer (sys_MetricsAddr cfg'), RunLeaderElection]
              @ map RunMessenger (msg_Streams (sys_Messaging cfg'))" "reconciler_of cfg'"]
    by (auto simp: list_all_iff)
qed

text \<open>A goroutine that has ended has done so for a reason.\<close>

definition ended_well :: "process \<Rightarrow> run_component \<Rightarrow> bool" where
  "ended_well s c \<longleftrightarrow> pr_cancelled s \<and>
     (case c of RunAPIServer h \<Rightarrow> api_closed s | RunMetricsServer a \<Rightarrow> metrics_closed s
      | RunControllerManager r \<Rightarrow> metrics_closed s | _ \<Rightarrow> True)"

definition process_inv :: "run_component list \<Rightarrow> process \<Rightarrow> bool" where
  "process_inv cs s \<longleftrightarrow> distinct (pr_running s) \<and> set (pr_running s) \<subseteq> {..<length cs} \<and>
     (api_closed s \<longrightarrow> pr_cancelled s) \<and> (\<forall>i < length cs. i \<notin> set (pr_running s) \<longrightarrow> ended_well s (cs ! i))"

lemma process_inv_init: "process_inv cs (process_init cs)"
  by (auto simp: process_inv_def process_init_def api_closed_def)

lemma ended_well_mono:
  assumes "ended_well s c" "pr_cancelled s \<longrightarrow> pr_cancelled s'" "api_closed s \<longrightarrow> api_closed s'" "metrics_closed s \<longrightarrow> metrics_closed s'"
  shows "ended_well s' c"
  using assms by (auto simp: ended_well_def split: run_component.splits)

lemma returned_well:
  assumes "may_return s c err" "exit_message c err = None" "\<not> is_manager c" "api_closed s \<longrightarrow> pr_cancelled s"
  shows "ended_well s c"
  using assms by (cases c) (auto simp: ended_well_def metrics_closed_def api_closed_def split: if_splits)

lemma process_inv_return:
  assumes "process_inv cs s" "may_return s (cs ! i) err" "process_step cs (Return i err) s = Some s'"
  shows "process_inv cs s'"
proof -
  have i: "i \<in> set (pr_running s)" "is_manager (cs ! i) \<longrightarrow> pr_stage s = Controllers" and
    s': "exit_message (cs ! i) err \<noteq> None \<and> s' = s\<lparr>pr_exit := exit_message (cs ! i) err\<rparr> \<or>
      exit_message (cs ! i) err = None \<and> is_manager (cs ! i) \<and> s' = s\<lparr>pr_stage := (if has_api cs then ShutdownAPI else ShutdownMetrics)\<rparr> \<or>
      exit_message (cs ! i) err = None \<and> \<not> is_manager (cs ! i) \<and> s' = s\<lparr>pr_running := remove1 i (pr_running s)\<rparr>"
    using assms(3) by (auto split: if_splits option.splits)
  note inv = assms(1)[unfolded process_inv_def]
  from s' consider (1) "s' = s\<lparr>pr_exit := exit_message (cs ! i) err\<rparr>"
    | (2) "exit_message (cs ! i) err = None" "is_manager (cs ! i)" "s' = s\<lparr>pr_stage := (if has_api cs then ShutdownAPI else ShutdownMetrics)\<rparr>"
    | (3) "exit_message (cs ! i) err = None" "\<not> is_manager (cs ! i)" "s' = s\<lparr>pr_running := remove1 i (pr_running s)\<rparr>"
    by (elim disjE conjE)
  then show ?thesis
  proof cases
    case 1
    then show ?thesis using inv unfolding process_inv_def 1
      by (auto simp: api_closed_def intro: ended_well_mono [of s] simp: metrics_closed_def)
  next
    case 2
    obtain r where "cs ! i = RunControllerManager r" using 2(2) by (cases "cs ! i") auto
    then have "pr_cancelled s" using assms(2) 2(1) by (auto split: if_splits)
    moreover have "ended_well s' c" if "ended_well s c" for c
      using that i(2) 2 by (intro ended_well_mono [OF that]) (auto simp: api_closed_def metrics_closed_def)
    ultimately show ?thesis using inv unfolding process_inv_def by (simp add: 2(3))
  next
    case 3
    have "ended_well s (cs ! i)" using returned_well [OF assms(2) 3(1,2)] inv by blast
    moreover have "ended_well s' c = ended_well s c" for c
      by (simp add: 3(3) ended_well_def api_closed_def metrics_closed_def split: run_component.split)
    ultimately show ?thesis using inv unfolding process_inv_def 3(3)
      by (auto simp: set_remove1_eq distinct_remove1 api_closed_def)
  qed
qed

lemma process_inv_shutdown:
  assumes "controllers_last cs" "process_inv cs s" "process_step cs ShutdownDone s = Some s'"
  shows "process_inv cs s'"
proof -
  note inv = assms(2)[unfolded process_inv_def]
  have running: "set (pr_running s) \<subseteq> {..<length cs}" using inv by blast
  consider "pr_stage s = ShutdownAPI" "s' = s\<lparr>pr_stage := ShutdownMetrics\<rparr>"
    | i ks where "pr_stage s = ShutdownMetrics" "filter (\<lambda>i. is_manager (cs ! i)) (pr_running s) = i # ks" "s' = s\<lparr>pr_running := remove1 i (pr_running s)\<rparr>"
    using assms(3) by (auto split: if_splits manager_stage.splits list.splits)
  then show ?thesis
  proof cases
    case 1
    have "ended_well s' c" if "ended_well s c" for c
      using 1 by (intro ended_well_mono [OF that]) (auto simp: api_closed_def metrics_closed_def)
    then show ?thesis using inv 1 unfolding process_inv_def by (auto simp: api_closed_def)
  next
    case 2
    have "i \<in> set (filter (\<lambda>i. is_manager (cs ! i)) (pr_running s))" using 2(2) by simp
    then have "is_manager (cs ! i)" by simp
    then obtain r where "cs ! i = RunControllerManager r" by (cases "cs ! i") auto
    then have "ended_well s (cs ! i)" using inv 2(1) by (simp add: ended_well_def metrics_closed_def api_closed_def)
    moreover have "ended_well s' c = ended_well s c" for c
      by (simp add: 2(3) ended_well_def api_closed_def metrics_closed_def split: run_component.split)
    ultimately show ?thesis using inv unfolding process_inv_def 2(3)
      by (auto simp: set_remove1_eq distinct_remove1 api_closed_def)
  qed
qed

lemma process_inv_reach: "process_reach cs s \<Longrightarrow> controllers_last cs \<Longrightarrow> process_inv cs s"
proof (induction rule: process_reach.induct)
  case (process_next s ev s')
  then have inv: "process_inv cs s" by blast
  show ?case
  proof (cases ev)
    case Cancel
    then have "s' = s\<lparr>pr_cancelled := True\<rparr>" using process_next.hyps by (simp split: if_splits)
    then show ?thesis using inv unfolding process_inv_def
      by (auto simp: api_closed_def metrics_closed_def intro: ended_well_mono [of s])
  next
    case (Return i err)
    have "may_return s (cs ! i) err" using process_next.hyps(2) by (simp add: Return)
    moreover have "process_step cs (Return i err) s = Some s'" using process_next.hyps(3) by (simp only: Return)
    ultimately show ?thesis by (rule process_inv_return [OF inv])
  next
    case ShutdownDone
    have "process_step cs ShutdownDone s = Some s'" using process_next.hyps(3) by (simp only: ShutdownDone)
    then show ?thesis by (rule process_inv_shutdown [OF process_next.prems inv])
  qed
qed (rule process_inv_init)

subsection \<open>The process stops\<close>

definition stage_rank :: "manager_stage \<Rightarrow> nat" where
  "stage_rank st = (case st of Controllers \<Rightarrow> 2 | ShutdownAPI \<Rightarrow> 1 | ShutdownMetrics \<Rightarrow> 0)"

definition life :: "process \<Rightarrow> nat" where
  "life s = 2 * length (pr_running s) + stage_rank (pr_stage s) + (if pr_exit s = None then 1 else 0)"

lemma length_remove: "i \<in> set xs \<Longrightarrow> length (remove1 i xs) < length xs"
  using length_pos_if_in_set [of i xs] by (simp add: length_remove1)

lemma life_decreases:
  assumes "process_step cs ev s = Some s'" "ev \<noteq> Cancel"
  shows "life s' < life s"
proof (cases ev)
  case (Return i err)
  then show ?thesis using assms length_remove [of i "pr_running s"]
    by (auto simp: life_def stage_rank_def split: if_splits option.splits)
next
  case ShutdownDone
  then consider "pr_stage s = ShutdownAPI" "s' = s\<lparr>pr_stage := ShutdownMetrics\<rparr>"
    | i ks where "filter (\<lambda>i. is_manager (cs ! i)) (pr_running s) = i # ks" "s' = s\<lparr>pr_running := remove1 i (pr_running s)\<rparr>"
    using assms by (auto split: if_splits manager_stage.splits list.splits)
  then show ?thesis
  proof cases
    case 2
    have "i \<in> set (filter (\<lambda>i. is_manager (cs ! i)) (pr_running s))" using 2(1) by simp
    then show ?thesis using length_remove [of i "pr_running s"] 2(2) by (simp add: life_def)
  qed (simp add: life_def stage_rank_def)
qed (use assms in simp)

lemma goes_on:
  assumes "controllers_last cs" "process_inv cs s" "pr_cancelled s" "pr_exit s = None" "pr_running s \<noteq> []"
  shows "\<exists>ev s'. ev \<noteq> Cancel \<and> event_may cs s ev \<and> process_step cs ev s = Some s' \<and> pr_exit s' = None"
proof -
  let ?m = "length cs - 1"
  have m: "?m < length cs" "is_manager (cs ! ?m)" using assms(1) by (cases cs; force simp: controllers_last_def)+
  then obtain r where r: "cs ! ?m = RunControllerManager r" by (cases "cs ! ?m") auto
  consider "?m \<in> set (pr_running s)" "pr_stage s = Controllers" | "?m \<in> set (pr_running s)" "pr_stage s = ShutdownAPI"
    | "?m \<in> set (pr_running s)" "pr_stage s = ShutdownMetrics" | "?m \<notin> set (pr_running s)"
    by (cases "pr_stage s") auto
  then show ?thesis
  proof cases
    case 1
    then show ?thesis using m r assms(3,4) by (intro exI [of _ "Return ?m (Some CtxCanceled)"]) auto
  next
    case 2
    then show ?thesis using assms(4) by (intro exI [of _ ShutdownDone]) auto
  next
    case 3
    then have "filter (\<lambda>i. is_manager (cs ! i)) (pr_running s) \<noteq> []" using m(2) by (auto simp: filter_empty_conv)
    then show ?thesis using 3 assms(4) by (cases "filter (\<lambda>i. is_manager (cs ! i)) (pr_running s)") (auto intro!: exI [of _ ShutdownDone])
  next
    case 4
    then have closed: "metrics_closed s" "api_closed s"
      using assms(2) m(1) r by (auto simp: process_inv_def ended_well_def metrics_closed_def api_closed_def)
    obtain i where i: "i \<in> set (pr_running s)" using assms(5) by (cases "pr_running s") auto
    then have l: "i < length cs" using assms(2) by (auto simp: process_inv_def)
    have "i \<noteq> ?m" using i 4 by blast
    then have "Suc i \<noteq> length cs" by linarith
    then have nm: "\<not> is_manager (cs ! i)" using assms(1) l by (simp add: controllers_last_def)
    have "\<exists>err. may_return s (cs ! i) err \<and> exit_message (cs ! i) err = None"
      using nm closed assms(3) by (cases "cs ! i") auto
    then obtain err where "may_return s (cs ! i) err" "exit_message (cs ! i) err = None" by blast
    then show ?thesis using i l nm assms(4) by (intro exI [of _ "Return i err"]) auto
  qed
qed

text \<open>C24: A started process runs until its context is cancelled or one of its components fails. \<open>Run\<close>
  returns only after the cancellation, a server goes only when its shutdown was called, which
  happens after the controllers have stopped. Once the context is cancelled, as long as no
  component fails, some component can go on to its end until \<open>Run\<close> returns; and no sequence of
  events other than cancellations is longer than \<open>life\<close>.\<close>

theorem process_stops_gracefully:
  assumes "Run env cfg = Done cs" "process_reach cs s"
  shows "(run_finished s \<longrightarrow> pr_cancelled s \<and> pr_stage s = ShutdownMetrics) \<and>
    (\<forall>i < length cs. i \<notin> set (pr_running s) \<longrightarrow> ended_well s (cs ! i)) \<and>
    (pr_cancelled s \<and> pr_exit s = None \<and> \<not> run_finished s \<longrightarrow>
       (\<exists>ev s'. ev \<noteq> Cancel \<and> event_may cs s ev \<and> process_step cs ev s = Some s' \<and> pr_exit s' = None)) \<and>
    (\<forall>ev s'. process_step cs ev s = Some s' \<longrightarrow> ev \<noteq> Cancel \<longrightarrow> life s' < life s)"
proof -
  have l: "controllers_last cs" by (rule started_controllers_last [OF assms(1)])
  then have inv: "process_inv cs s" by (rule process_inv_reach [OF assms(2)])
  have "pr_cancelled s \<and> pr_stage s = ShutdownMetrics" if "run_finished s"
  proof -
    let ?m = "length cs - 1"
    have m: "?m < length cs" "is_manager (cs ! ?m)" using l by (cases cs; force simp: controllers_last_def)+
    then obtain r where "cs ! ?m = RunControllerManager r" by (cases "cs ! ?m") auto
    then show ?thesis using inv that m(1) by (auto simp: process_inv_def run_finished_def ended_well_def metrics_closed_def)
  qed
  moreover have "\<exists>ev s'. ev \<noteq> Cancel \<and> event_may cs s ev \<and> process_step cs ev s = Some s' \<and> pr_exit s' = None"
    if "pr_cancelled s" "pr_exit s = None" "\<not> run_finished s"
    using goes_on [OF l inv that(1,2)] that by (simp add: run_finished_def)
  ultimately show ?thesis using inv life_decreases by (auto simp: process_inv_def)
qed

theorem process_stops_gracefully_witness:
  "\<exists>cs ev s'. Run demo_run_env demo_system = Done cs \<and> ev \<noteq> Cancel \<and>
    process_step cs ev ((process_init cs)\<lparr>pr_cancelled := True\<rparr>) = Some s' \<and> pr_exit s' = None \<and>
    life s' < life ((process_init cs)\<lparr>pr_cancelled := True\<rparr>)"
proof -
  obtain cs where r: "Run demo_run_env demo_system = Done cs" using demo_run by blast
  let ?s = "(process_init cs)\<lparr>pr_cancelled := True\<rparr>"
  have "process_step cs Cancel (process_init cs) = Some ?s" by (simp add: process_init_def)
  then have reach: "process_reach cs ?s" using process_next [OF process_start, of cs Cancel] by simp
  have "cs \<noteq> []" using started_controllers_last [OF r] by (simp add: controllers_last_def)
  then have "pr_cancelled ?s \<and> pr_exit ?s = None \<and> \<not> run_finished ?s" by (simp add: process_init_def run_finished_def)
  then show ?thesis using process_stops_gracefully [OF r reach] r by blast
qed

text \<open>A component that fails takes the process with it, whatever else is running.\<close>

lemma failure_ends_process:
  assumes "pr_exit s = None" "i \<in> set (pr_running s)" "\<not> (\<exists>a. cs ! i = RunAutoscaler a)" "pr_stage s = Controllers"
  shows "\<exists>s' msg. process_step cs (Return i (Some (OtherError e))) s = Some s' \<and> pr_exit s' = Some msg \<and>
    (\<forall>ev. process_step cs ev s' = None)"
proof -
  obtain msg where "exit_message (cs ! i) (Some (OtherError e)) = Some msg" using assms(3) by (cases "cs ! i") auto
  then have "process_step cs (Return i (Some (OtherError e))) s = Some (s\<lparr>pr_exit := Some msg\<rparr>)" using assms by simp
  moreover have "process_step cs ev (s\<lparr>pr_exit := Some msg\<rparr>) = None" for ev by (cases ev) simp_all
  ultimately show ?thesis by auto
qed

end
