(* ===== verification/Openai_Responses.thy ===== *)
theory Openai_Responses
  imports Openai_Types
begin

section \<open>The OpenAI response types\<close>

text \<open>
  The responses of \<open>api/openai/v1\<close>. The proxy passes response bytes on, so these types are data
  only: records with the fields of the structs. \<open>None\<close> is a nil pointer or slice, floats are
  rationals and the collected unknown members are an opaque token.
\<close>

subsection \<open>Content filters\<close>

record hate =
  hat_Filtered :: bool
  hat_Severity :: string

record self_harm =
  shm_Filtered :: bool
  shm_Severity :: string

record sexual =
  sxl_Filtered :: bool
  sxl_Severity :: string

record violence =
  vio_Filtered :: bool
  vio_Severity :: string

record jail_break =
  jbr_Filtered :: bool
  jbr_Detected :: bool

record profanity =
  prf_Filtered :: bool
  prf_Detected :: bool

record content_filter_results =
  cfr_Hate :: "hate option"
  cfr_SelfHarm :: "self_harm option"
  cfr_Sexual :: "sexual option"
  cfr_Violence :: "violence option"
  cfr_JailBreak :: "jail_break option"
  cfr_Profanity :: "profanity option"

subsection \<open>Log probabilities, usage and responses\<close>

record top_log_probs =
  tlp_Token :: string
  tlp_LogProb :: rat
  tlp_Bytes :: "int list option"

record log_prob =
  lgp_Token :: string
  lgp_LogProb :: rat
  lgp_Bytes :: "int list option"
  lgp_TopLogProbs :: "top_log_probs list option"

record log_probs =
  lps_Content :: "log_prob list option"

record prompt_tokens_details =
  ptd_AudioTokens :: "int option"
  ptd_CachedTokens :: "int option"

record completion_tokens_details =
  ctd_AudioTokens :: "int option"
  ctd_ReasoningTokens :: "int option"
  ctd_AcceptedPredictionTokens :: "int option"
  ctd_RejectedPredictionTokens :: "int option"

record completion_usage =
  cus_PromptTokens :: int
  cus_CompletionTokens :: int
  cus_TotalTokens :: int
  cus_PromptTokensDetails :: "prompt_tokens_details option"
  cus_CompletionTokensDetails :: "completion_tokens_details option"

record embedding_usage =
  eus_PromptTokens :: int
  eus_TotalTokens :: int

record prompt_filter_result =
  pfr_Index :: int
  pfr_ContentFilterResults :: content_filter_results

record chat_completion_choice =
  ccc_Index :: int
  ccc_Message :: chat_message
  ccc_FinishReason :: "string option"
  ccc_LogProbs :: "log_probs option"
  ccc_ContentFilterResults :: "content_filter_results option"

record chat_completion_response =
  ccr_ID :: string
  ccr_Object :: string
  ccr_Created :: int
  ccr_Model :: string
  ccr_Choices :: "chat_completion_choice list option"
  ccr_Usage :: "completion_usage option"
  ccr_SystemFingerprint :: string
  ccr_ServiceTier :: string
  ccr_PromptFilterResults :: "prompt_filter_result list option"
  ccr_Unknown :: opaque

record logprob_result =
  lpr_Tokens :: "string list option"
  lpr_TokenLogprobs :: "rat list option"
  lpr_TopLogprobs :: "(string, rat) gomap list option"
  lpr_TextOffset :: "int list option"

record completion_choice =
  cch_Text :: string
  cch_Index :: int
  cch_FinishReason :: "string option"
  cch_LogProbs :: "logprob_result option"

record completion_response =
  cre_ID :: string
  cre_Object :: string
  cre_Created :: int
  cre_Model :: string
  cre_Choices :: "completion_choice list option"
  cre_Usage :: "completion_usage option"
  cre_SystemFingerprint :: string
  cre_Unknown :: opaque

record embedding =
  emb_Object :: string
  emb_Embedding :: "rat list option"
  emb_Index :: int

record embedding_response =
  ere_Object :: string
  ere_Data :: "embedding list option"
  ere_Model :: string
  ere_Usage :: "embedding_usage option"
  ere_Unknown :: opaque

record rerank_result =
  rrs_DocumentIndex :: int
  rrs_Document :: string
  rrs_RelevanceScore :: rat

record rerank_response =
  rrp_Object :: string
  rrp_Data :: "rerank_result list option"
  rrp_Model :: string
  rrp_Unknown :: opaque

text \<open>The reasons to stop that the API names; a response may have none.\<close>

definition finish_reasons :: "string list" where
  "finish_reasons = [''stop'', ''length'', ''function_call'', ''tool_calls'', ''content_filter'']"

end
