(* ===== verification/Spec2Isabelle.thy ===== *)
theory Spec2Isabelle
  imports Group_Liveness Rollout_Convergence Cache_Lifecycle System_Properties Private_Chat Benchmark_Runner Run_Lifecycle Openai_Responses
begin

text \<open>
  \<^bold>\<open>KubeAI\<close>, an operator that serves AI models on Kubernetes: a model of its Go code with the
  theorems that make it correct. Paths below are under \<open>src/\<close>.

  \<^bold>\<open>The program.\<close> The Model controller (\<open>internal/modelcontroller\<close>) turns each Model resource into Pods of a
  model server, fills a shared cache volume for them, and loads adapters into them. The load
  balancer (\<open>internal/loadbalancer\<close>) watches the Pods and keeps one group of endpoints for each
  Model. A request enters through the public server (\<open>internal/openaiserver\<close>), is parsed
  (\<open>internal/apiutils\<close>, \<open>api/openai/v1\<close>), looked up and scaled from zero (\<open>internal/modelclient\<close>), given an
  endpoint and forwarded with retries (\<open>internal/modelproxy\<close>); or it enters as a message of a
  stream (\<open>internal/messenger\<close>). The autoscaler (\<open>internal/modelautoscaler\<close>) reads the numbers of active
  requests from all instances, averages them (\<open>internal/movingaverage\<close>) and scales the Models. The
  manager (\<open>internal/manager\<close>, \<open>internal/leader\<close>) builds all of this from one configuration
  (\<open>internal/config\<close>). The parts share no memory but the endpoint groups, the scale-down counters of
  the client and the flag of leadership; otherwise they meet in the API server: the
  controller writes Pods with labels and annotations, the load balancer reads them.

  \<^bold>\<open>How code becomes definitions.\<close> A definition has the name of its Go function. A struct is a record, an
  enumeration its strings, a pointer an option, a map the association list \<open>gomap\<close> of
  \<open>Go_Prelude\<close> in some iteration order, \<open>int32\<close> and \<open>int64\<close> integers with \<open>wrap32\<close> and \<open>wrap64\<close> where the code
  can leave their range, \<open>uint64\<close> a \<open>64 word\<close>, a string a list of bytes, \<open>float64\<close> a rational rounded
  after each operation as IEEE 754 demands (\<open>Float64\<close>). A result is \<open>Done\<close>, \<open>Error\<close> or \<open>Panic\<close> (\<open>outcome\<close>).
  The standard library is modelled where the code uses it: \<open>encoding/json\<close> down to the bytes, \<open>%q\<close>, times
  and durations as text, FNV hashes, headers and basic authentication. Code outside the
  repository is an argument: the API server, HTTP, message streams, the JSON package of the OpenAI
  types, xxhash, the printer of deep values that a Pod is hashed with, JSON patches, the
  validator, the OpenTelemetry SDK, the clock and random numbers.

  \<^bold>\<open>Theories and code.\<close>
  \<^item> \<open>Go_Prelude\<close>, \<open>Go_Sort\<close>, \<open>Float64\<close>, \<open>Float64_Exact\<close>, \<open>Utf8\<close>: maps, strings, numbers, \<open>sort.Search\<close> and stable sorting,
    \<open>float64\<close>, runes. Rounding is monotone and exact on integers of 53 bits; a stable sort is sorted
    and keeps the order of equals; runes round-trip.
  \<^item> \<open>Json\<close>: the JSON parser and encoder of the standard library. \<open>Json_Roundtrip\<close>: every text that is
    encoded parses to the value encoded. \<open>Json_Compact\<close>: compacting raw JSON keeps its value.
    \<open>Go_Encoding\<close> and \<open>Go_Values\<close>: the shortest decimal form of a \<open>float64\<close>, and values of type \<open>interface{}\<close>,
    which come back too; \<open>%q\<close>. \<open>Json_Struct\<close>: decoding into structs. \<open>Go_Time\<close> and \<open>Go_Duration\<close>: RFC 3339 times
    and durations are read back from what is written. \<open>Go_Hash\<close>: the hashes of \<open>internal/k8sutils/pods.go\<close>.
  \<^item> \<open>K8s_Types\<close>: objects and the Model resource (\<open>api/k8s/v1\<close>, \<open>internal/k8sutils\<close>).
  \<^item> \<open>Hash_Ring\<close>, \<open>Ring_Lookup\<close>, \<open>Least_Load\<close>: the two strategies (\<open>balance_chwbl.go\<close>, \<open>balance_least_load.go\<close>).
    \<open>ring_inv\<close> ties hashes, owners and endpoints together; \<open>ring_target\<close> says, without indices, what the
    walk over the ring finds. \<open>Endpoint_Picker\<close> is the interface of a strategy, and both interpret it.
  \<^item> \<open>Endpoint_Group\<close> has the operations of \<open>group.go\<close>. \<open>Group_Machine\<close> has its goroutines: a step
    relation over the lock, the broadcast channel and the waiting requests, whose section under
    the lock is one step. \<open>Group_Invariants\<close> and \<open>Group_Reachable\<close> hold the invariants of all reachable
    states, \<open>Group_Properties\<close> and \<open>Group_Liveness\<close> what follows for requests.
  \<^item> \<open>Load_Balancer\<close>: which Pods become endpoints (\<open>load_balancer.go\<close>).
  \<^item> \<open>System_Config\<close>, \<open>Moving_Average\<close>, \<open>Model_Client\<close>, \<open>Autoscaler\<close>: configuration with the JSON of its durations,
    averages, lookups and scaling, one tick of the autoscaler. \<open>model_scaler\<close> is what the autoscaler
    needs of the client. \<open>Autoscaler_State\<close>: the averages in a ConfigMap (\<open>state.go\<close>), which a restarted
    autoscaler finds again.
  \<^item> \<open>Openai_Types\<close>, \<open>Api_Request\<close>, \<open>Model_Proxy\<close>, \<open>OpenAI_Server\<close>, \<open>Messenger\<close>: a request from its bytes to its answer.
    The proxy returns the list of its visible events; the messenger is a state machine with its
    semaphore. \<open>model_lookup\<close> is what parsing needs of the client. \<open>Messages\<close> has the JSON of messages, replies
    and errors; with it \<open>Messenger\<close> follows a message from the stream to the reply that its sender
    parses. \<open>Openai_Responses\<close>: the structs of responses, which are data only.
  \<^item> \<open>Pod_Plan\<close> and \<open>Pod_Plan_Properties\<close>: which Pods a pass deletes and creates (\<open>pod_plan.go\<close>).
    \<open>Rollout_Convergence\<close> closes the loop: passes and a cluster that makes Pods ready.
  \<^item> \<open>Model_Source\<close>, \<open>Model_Pods\<close>, \<open>Adapters\<close>, \<open>Cache\<close>, with their \<open>_Properties\<close>: URLs, the Pod of each engine, adapters
    in Pods, the cache claim and its Jobs (\<open>model_source.go\<close>, \<open>engine_*.go\<close>, \<open>adapters.go\<close>, \<open>cache.go\<close>,
    \<open>files.go\<close>, \<open>internal/vllmclient\<close>).
  \<^item> \<open>Controller_Actions\<close>: runs of the controller as writes, Model and result, with weakest preconditions
    (\<open>wp\<close>) and frames (\<open>stable\<close>). \<open>Model_Controller\<close> is one pass of \<open>Reconcile\<close> (\<open>model_controller.go\<close>); what it
    guarantees is in \<open>Model_Controller_Properties\<close>, \<open>Reconcile_Properties\<close>, \<open>Serving_Properties\<close> and
    \<open>Files_Properties\<close>. \<open>Cache_Lifecycle\<close> runs passes on a cluster that holds the claim and the Jobs they
    write: a cached Model gets loaded, a deleted one goes.
  \<^item> \<open>Manager\<close>: \<open>Run\<close>, the components it starts, ports and leadership. \<open>Telemetry\<close>: what is set up before and shut down
    after it (\<open>otel.go\<close>, \<open>internal/metrics\<close>), and \<open>cmd/main.go\<close>. \<open>Run_Lifecycle\<close>: the
    goroutines of \<open>Run\<close> as a step relation, from their start to the shutdown of the servers.
  \<^item> \<open>System_Properties\<close>: theorems that span components, from the scaling of the first request to the
    address it is sent to.
  \<^item> \<open>Private_Chat\<close>: the multi-tenant front of \<open>examples/private-deep-chat\<close> before the public server: which
    Models its users reach.
  \<^item> \<open>Benchmark_Runner\<close>: \<open>benchmarks/multi-turn-chat-go\<close>, conversations played by several goroutines, as a step
    relation, with the summary of their answers.

  \<^bold>\<open>Bounds.\<close> Only the JSON parser runs on fuel, two for each byte of its text, with which every text
  that is JSON is read (theorem \<open>parse_fuel\<close>). All other loops are structural or bounded by a measure
  (the walk over the ring visits each entry once, \<open>proxyHTTP\<close> the remaining attempts, binary search
  its interval), and the loops that run for ever (goroutines of a group, the messenger, the
  autoscaler, leader election) are step relations or one step per tick. Theorems on floating
  point ask for quantities below \<open>2^53\<close>; durations of that many nanoseconds are 104 days.

  \<^bold>\<open>Not modelled.\<close> Generated deep copies, which are the identity on the values of the model, and scheme
  registration; option structs of the third-party client; the command line and the YAML of the
  configuration; the JSON package of the OpenAI types, which is third-party; the exec stream into
  a Pod; the watches of the controllers; the sleep after a scaling; the
  text form of a benchmark result; a mock server, a wrapper that starts a Python process and the
  helpers of tests. They hold no logic of their own or only call third-party code. The concurrency
  of the API server is an arbitrary answer to each write; two passes over one Model do not
  overlap, as the work queue guarantees.
\<close>

end
